(* ===== verification/Prelude.thy ===== *)
theory Prelude
  imports Main "HOL-Library.Word"
begin

unbundle bit_operations_syntax

text \<open>
  Shared vocabulary of the development: the machine integers and byte strings of the Rust
  sources, the three ways a Rust call can end (\<open>Ok\<close>, \<open>Err\<close>, or a panic), the state monad in
  which every method taking \<open>&mut self\<close>, \<open>&mut Bytes\<close> or \<open>&mut BytesMut\<close> is written, and a
  weakest-precondition calculus for it. A Rust method that returns an error keeps the
  mutations it has made so far, so the state is returned beside every outcome, errors and
  panics included.
\<close>

section \<open>Types\<close>

type_synonym u8 = "8 word"
type_synonym u16 = "16 word"
type_synonym u32 = "32 word"
type_synonym u64 = "64 word"
type_synonym bytes = "u8 list"

datatype ('e, 'a) outcome = Ok 'a | Err 'e | Panic

type_synonym ('s, 'e, 'a) sm = "'s \<Rightarrow> ('e, 'a) outcome \<times> 's"

section \<open>Combinators\<close>

named_theorems sm_defs \<open>the combinators of the state monad, unfolded\<close>

definition ret :: "'a \<Rightarrow> ('s, 'e, 'a) sm" where
  [sm_defs]: "ret x = (\<lambda>s. (Ok x, s))"

definition fail :: "'e \<Rightarrow> ('s, 'e, 'a) sm" where
  [sm_defs]: "fail e = (\<lambda>s. (Err e, s))"

definition panic :: "('s, 'e, 'a) sm" where
  [sm_defs]: "panic = (\<lambda>s. (Panic, s))"

definition andThen :: "('s, 'e, 'a) sm \<Rightarrow> ('a \<Rightarrow> ('s, 'e, 'b) sm) \<Rightarrow> ('s, 'e, 'b) sm" where
  [sm_defs]: "andThen m f = (\<lambda>s. case m s of
      (Ok x, s') \<Rightarrow> f x s'
    | (Err e, s') \<Rightarrow> (Err e, s')
    | (Panic, s') \<Rightarrow> (Panic, s'))"

definition gets :: "('s \<Rightarrow> 'a) \<Rightarrow> ('s, 'e, 'a) sm" where
  [sm_defs]: "gets f = (\<lambda>s. (Ok (f s), s))"

definition modify :: "('s \<Rightarrow> 's) \<Rightarrow> ('s, 'e, unit) sm" where
  [sm_defs]: "modify f = (\<lambda>s. (Ok (), f s))"

definition ensure :: "bool \<Rightarrow> 'e \<Rightarrow> ('s, 'e, unit) sm" where
  [sm_defs]: "ensure c e = (if c then ret () else fail e)"

definition lift :: "('e, 'a) outcome \<Rightarrow> ('s, 'e, 'a) sm" where
  [sm_defs]: "lift r = (\<lambda>s. (r, s))"

definition ok_or :: "'a option \<Rightarrow> 'e \<Rightarrow> ('s, 'e, 'a) sm" where
  [sm_defs]: "ok_or x e = (case x of Some y \<Rightarrow> ret y | None \<Rightarrow> fail e)"

definition expect :: "'a option \<Rightarrow> ('s, 'e, 'a) sm" where
  [sm_defs]: "expect x = (case x of Some y \<Rightarrow> ret y | None \<Rightarrow> panic)"

primrec map_outcome_err :: "('e \<Rightarrow> 'f) \<Rightarrow> ('e, 'a) outcome \<Rightarrow> ('f, 'a) outcome" where
  "map_outcome_err g (Ok x) = Ok x"
| "map_outcome_err g (Err e) = Err (g e)"
| "map_outcome_err g Panic = Panic"

definition map_err :: "('e \<Rightarrow> 'f) \<Rightarrow> ('s, 'e, 'a) sm \<Rightarrow> ('s, 'f, 'a) sm" where
  [sm_defs]: "map_err g m = (\<lambda>s. case m s of (r, s') \<Rightarrow> (map_outcome_err g r, s'))"

fun for_each :: "('a \<Rightarrow> ('s, 'e, unit) sm) \<Rightarrow> 'a list \<Rightarrow> ('s, 'e, unit) sm" where
  "for_each f [] = ret ()"
| "for_each f (x # xs) = andThen (f x) (\<lambda>_. for_each f xs)"

text \<open>\<open>Vec::get\<close>: reading a vector within its bounds.\<close>

definition nth_opt :: "'a list \<Rightarrow> nat \<Rightarrow> 'a option" where
  "nth_opt xs i = (if i < length xs then Some (xs ! i) else None)"

section \<open>Running the combinators\<close>

named_theorems run_simps \<open>what a combinator returns when run on a state\<close>

declare Let_def [run_simps]

lemma run_ret [run_simps]: "ret x s = (Ok x, s)"
  by (simp add: sm_defs)

lemma run_fail [run_simps]: "fail e s = (Err e, s)"
  by (simp add: sm_defs)

lemma run_panic [run_simps]: "panic s = (Panic, s)"
  by (simp add: sm_defs)

lemma run_lift [run_simps]: "lift r s = (r, s)"
  by (simp add: sm_defs)

lemma run_gets [simp, run_simps]: "gets f s = (Ok (f s), s)"
  by (simp add: sm_defs)

lemma run_modify [simp, run_simps]: "modify f s = (Ok (), f s)"
  by (simp add: sm_defs)

lemma run_ensure [run_simps]: "ensure c e s = (if c then Ok () else Err e, s)"
  by (simp add: sm_defs)

lemma run_ok_or [run_simps]: "ok_or x e s = (case x of Some y \<Rightarrow> Ok y | None \<Rightarrow> Err e, s)"
  by (simp add: sm_defs split: option.splits)

lemma run_expect [run_simps]: "expect x s = (case x of Some y \<Rightarrow> Ok y | None \<Rightarrow> Panic, s)"
  by (simp add: sm_defs split: option.splits)

lemma run_map_err: "map_err g m s = (map_outcome_err g (fst (m s)), snd (m s))"
  by (simp add: map_err_def split: prod.splits)

lemma andThen_Ok: "m s = (Ok x, s') \<Longrightarrow> andThen m f s = f x s'"
  by (simp add: andThen_def)

lemma andThen_Err: "m s = (Err e, s') \<Longrightarrow> andThen m f s = (Err e, s')"
  by (simp add: andThen_def)

lemma andThen_Panic: "m s = (Panic, s') \<Longrightarrow> andThen m f s = (Panic, s')"
  by (simp add: andThen_def)

lemma andThen_eq_Ok:
  "andThen m f s = (Ok y, t) \<longleftrightarrow> (\<exists>x s'. m s = (Ok x, s') \<and> f x s' = (Ok y, t))"
  by (auto simp: andThen_def split: prod.splits outcome.splits)

lemma andThen_eq_Err:
  "andThen m f s = (Err e, t) \<longleftrightarrow>
     m s = (Err e, t) \<or> (\<exists>x s'. m s = (Ok x, s') \<and> f x s' = (Err e, t))"
  by (auto simp: andThen_def split: prod.splits outcome.splits)

lemma andThen_eq_Panic:
  "andThen m f s = (Panic, t) \<longleftrightarrow>
     m s = (Panic, t) \<or> (\<exists>x s'. m s = (Ok x, s') \<and> f x s' = (Panic, t))"
  by (auto simp: andThen_def split: prod.splits outcome.splits)

lemma map_err_eq_Ok: "map_err g m s = (Ok x, t) \<longleftrightarrow> m s = (Ok x, t)"
  by (auto simp: map_err_def split: prod.splits) (metis map_outcome_err.simps outcome.exhaust outcome.distinct outcome.inject(1))+

lemma map_err_eq_Panic: "map_err g m s = (Panic, t) \<longleftrightarrow> m s = (Panic, t)"
  by (auto simp: map_err_def split: prod.splits) (metis map_outcome_err.simps outcome.exhaust outcome.distinct)+

lemma run_andThen_simps [simp]:
  "andThen (ret x) f = f x"
  "andThen (fail e) f = fail e"
  "andThen panic f = panic"
  "andThen (gets g) f s = f (g s) s"
  "andThen (modify h) k s = k () (h s)"
  "andThen (lift (Ok x)) f = f x"
  "andThen (ensure c e) k s = (if c then k () s else (Err e, s))"
  by (auto simp: sm_defs)

lemma andThen_assoc: "andThen (andThen m f) g = andThen m (\<lambda>x. andThen (f x) g)"
  by (rule ext) (simp add: andThen_def split: prod.splits outcome.splits)

section \<open>Weakest preconditions\<close>

text \<open>
  \<open>wp m Q E s\<close>: started in \<open>s\<close>, \<open>m\<close> does not panic, a normal result satisfies \<open>Q\<close> and an
  error satisfies \<open>E\<close>. The equations of \<open>wp_simps\<close> turn a method body into a condition on its
  start state; \<open>wp_mono\<close> composes the specifications of the methods it calls.
\<close>

definition wp :: "('s, 'e, 'a) sm \<Rightarrow> ('a \<Rightarrow> 's \<Rightarrow> bool) \<Rightarrow> ('e \<Rightarrow> 's \<Rightarrow> bool) \<Rightarrow> 's \<Rightarrow> bool" where
  "wp m Q E s = (case m s of
      (Ok x, s') \<Rightarrow> Q x s'
    | (Err e, s') \<Rightarrow> E e s'
    | (Panic, s') \<Rightarrow> False)"

named_theorems wp_simps \<open>weakest preconditions of the combinators\<close>

lemma wp_ret [wp_simps]: "wp (ret x) Q E s = Q x s"
  by (simp add: wp_def run_simps)

lemma wp_fail [wp_simps]: "wp (fail e) Q E s = E e s"
  by (simp add: wp_def run_simps)

lemma wp_panic [wp_simps]: "wp panic Q E s = False"
  by (simp add: wp_def run_simps)

lemma wp_andThen [wp_simps]: "wp (andThen m f) Q E s = wp m (\<lambda>x. wp (f x) Q E) E s"
  by (simp add: wp_def andThen_def split: prod.splits outcome.splits)

lemma wp_gets [wp_simps]: "wp (gets f) Q E s = Q (f s) s"
  by (simp add: wp_def)

lemma wp_modify [wp_simps]: "wp (modify f) Q E s = Q () (f s)"
  by (simp add: wp_def)

lemma wp_ensure [wp_simps]: "wp (ensure c e) Q E s = (if c then Q () s else E e s)"
  by (simp add: wp_def run_simps)

lemma wp_ok_or [wp_simps]:
  "wp (ok_or x e) Q E s = (case x of Some y \<Rightarrow> Q y s | None \<Rightarrow> E e s)"
  by (simp add: wp_def run_simps split: option.splits)

lemma wp_expect [wp_simps]:
  "wp (expect x) Q E s = (case x of Some y \<Rightarrow> Q y s | None \<Rightarrow> False)"
  by (simp add: wp_def run_simps split: option.splits)

lemma wp_if [wp_simps]: "wp (if c then m else n) Q E s = (if c then wp m Q E s else wp n Q E s)"
  by simp

lemma wp_map_err [wp_simps]: "wp (map_err g m) Q E s = wp m Q (\<lambda>e. E (g e)) s"
  by (auto simp: wp_def map_err_def split: prod.splits outcome.splits)

lemma wp_mono:
  assumes "wp m Q E s"
    and "\<And>x s'. m s = (Ok x, s') \<Longrightarrow> Q x s' \<Longrightarrow> Q' x s'"
    and "\<And>e s'. m s = (Err e, s') \<Longrightarrow> E e s' \<Longrightarrow> E' e s'"
  shows "wp m Q' E' s"
  using assms by (auto simp: wp_def split: prod.splits outcome.splits)

lemma wp_conj:
  "wp m Q E s \<Longrightarrow> wp m Q' E' s \<Longrightarrow> wp m (\<lambda>x s'. Q x s' \<and> Q' x s') (\<lambda>e s'. E e s' \<and> E' e s') s"
  by (auto simp: wp_def split: prod.splits outcome.splits)

lemma wp_Ok: "wp m Q E s \<Longrightarrow> m s = (Ok x, s') \<Longrightarrow> Q x s'"
  by (simp add: wp_def)

lemma wp_Err: "wp m Q E s \<Longrightarrow> m s = (Err e, s') \<Longrightarrow> E e s'"
  by (simp add: wp_def)

lemma wp_no_panic: "wp m Q E s \<Longrightarrow> fst (m s) \<noteq> Panic"
  by (auto simp: wp_def split: prod.splits outcome.splits)

lemma wpI:
  assumes "\<And>s'. m s = (Panic, s') \<Longrightarrow> False"
    and "\<And>x s'. m s = (Ok x, s') \<Longrightarrow> Q x s'"
    and "\<And>e s'. m s = (Err e, s') \<Longrightarrow> E e s'"
  shows "wp m Q E s"
  using assms by (auto simp: wp_def split: prod.splits outcome.splits)

lemma wp_for_each:
  assumes "\<And>x s. x \<in> set xs \<Longrightarrow> I s \<Longrightarrow> wp (f x) (\<lambda>_. I) (\<lambda>_. I) s"
    and "I s"
  shows "wp (for_each f xs) (\<lambda>_. I) (\<lambda>_. I) s"
  using assms
proof (induction xs arbitrary: s)
  case Nil
  then show ?case by (simp add: wp_simps)
next
  case (Cons x xs)
  have step: "wp (f x) (\<lambda>_. I) (\<lambda>_. I) s"
    using Cons.prems by simp
  have rest: "wp (for_each f xs) (\<lambda>_. I) (\<lambda>_. I) s'" if "I s'" for s'
    using Cons.IH Cons.prems(1) that by simp
  show ?case
    unfolding for_each.simps wp_andThen
    using step rest by (rule wp_mono)
qed

section \<open>Panic freedom\<close>

text \<open>
  \<open>safe m s\<close>: run in \<open>s\<close>, \<open>m\<close> does not panic. The introduction rules follow the shape of a
  method body, so that panic freedom is mostly proved by applying them.
\<close>

definition safe :: "('s, 'e, 'a) sm \<Rightarrow> 's \<Rightarrow> bool" where
  "safe m s \<longleftrightarrow> fst (m s) \<noteq> Panic"

named_theorems safe_intros \<open>introduction rules for panic freedom\<close>

lemma safe_simple [safe_intros]:
  "safe (ret x) s" "safe (fail e) s" "safe (gets f) s" "safe (modify g) s" "safe (ensure c e) s"
  "safe (ok_or v e) s"
  by (simp_all add: safe_def run_simps split: option.splits)

lemma safe_lift [safe_intros]: "r \<noteq> Panic \<Longrightarrow> safe (lift r) s"
  by (simp add: safe_def run_simps)

lemma safe_expect [safe_intros]: "v \<noteq> None \<Longrightarrow> safe (expect v) s"
  by (simp add: safe_def run_simps split: option.splits)

lemma safe_andThen [safe_intros]:
  "\<lbrakk>safe m s; \<And>x s'. m s = (Ok x, s') \<Longrightarrow> safe (f x) s'\<rbrakk> \<Longrightarrow> safe (andThen m f) s"
  by (auto simp: safe_def andThen_def split: prod.splits outcome.splits)

lemma safe_if [safe_intros]:
  "\<lbrakk>c \<Longrightarrow> safe m s; \<not> c \<Longrightarrow> safe n s\<rbrakk> \<Longrightarrow> safe (if c then m else n) s"
  by simp

lemma safe_map_err [safe_intros]: "safe m s \<Longrightarrow> safe (map_err g m) s"
  by (cases "fst (m s)") (auto simp: safe_def run_map_err)

lemma safe_wp: "wp m Q E s \<Longrightarrow> safe m s"
  by (simp add: safe_def wp_no_panic)

lemma safe_Panic: "safe m s \<Longrightarrow> m s \<noteq> (Panic, s')"
  by (auto simp: safe_def)

section \<open>Errors\<close>

text \<open>\<open>raises E m s\<close>: run in \<open>s\<close>, \<open>m\<close> fails only with errors that satisfy \<open>E\<close>.\<close>

definition raises :: "('e \<Rightarrow> bool) \<Rightarrow> ('s, 'e, 'a) sm \<Rightarrow> 's \<Rightarrow> bool" where
  "raises E m s \<longleftrightarrow> (\<forall>e. fst (m s) = Err e \<longrightarrow> E e)"

named_theorems raise_intros \<open>introduction rules for the errors of a method\<close>

lemma raises_simple [raise_intros]:
  "raises E (ret x) s" "raises E (gets f) s" "raises E (modify g) s" "raises E panic s"
  by (simp_all add: raises_def run_simps)

lemma raises_fail [raise_intros]: "E e \<Longrightarrow> raises E (fail e) s"
  by (simp add: raises_def run_simps)

lemma raises_ensure [raise_intros]: "E e \<Longrightarrow> raises E (ensure c e) s"
  by (simp add: raises_def run_simps)

lemma raises_lift [raise_intros]: "(\<And>e. r = Err e \<Longrightarrow> E e) \<Longrightarrow> raises E (lift r) s"
  by (simp add: raises_def run_simps)

lemma raises_andThen [raise_intros]:
  "\<lbrakk>raises E m s; \<And>x s'. m s = (Ok x, s') \<Longrightarrow> raises E (f x) s'\<rbrakk> \<Longrightarrow> raises E (andThen m f) s"
  by (auto simp: raises_def andThen_def split: prod.splits outcome.splits)

lemma raises_if [raise_intros]:
  "\<lbrakk>c \<Longrightarrow> raises E m s; \<not> c \<Longrightarrow> raises E n s\<rbrakk> \<Longrightarrow> raises E (if c then m else n) s"
  by simp

lemma raises_map_err [raise_intros]: "raises (\<lambda>e. E (g e)) m s \<Longrightarrow> raises E (map_err g m) s"
  by (cases "fst (m s)") (auto simp: raises_def run_map_err)

section \<open>Lists and words\<close>

lemma nth_opt_Some [simp]: "i < length xs \<Longrightarrow> nth_opt xs i = Some (xs ! i)"
  by (simp add: nth_opt_def)

lemma nth_opt_None [simp]: "length xs \<le> i \<Longrightarrow> nth_opt xs i = None"
  by (simp add: nth_opt_def)

lemma nth_opt_eq_Some: "nth_opt xs i = Some x \<longleftrightarrow> i < length xs \<and> xs ! i = x"
  by (auto simp: nth_opt_def)

end
