(* ===== verification/Utf8.thy ===== *)
theory Utf8
  imports Prelude
begin

text \<open>
  The part of the Rust standard library that the codecs use on text: \<open>core::str::from_utf8\<close>
  with its \<open>Utf8Error\<close>, and \<open>str::split\<close> on a one-byte separator. A Rust \<open>String\<close> is a byte
  sequence that passes this check; the model keeps the bytes and states the check as the
  predicate \<open>valid_utf8\<close>.
\<close>

record utf8_error =
  valid_up_to :: nat
  error_len :: "nat option"

type_synonym rstring = bytes

definition is_cont :: "u8 \<Rightarrow> bool" where
  "is_cont b \<longleftrightarrow> 0x80 \<le> b \<and> b \<le> 0xBF"

text \<open>The second byte that may follow a given lead byte of a three or four byte sequence.\<close>

definition second_ok3 :: "u8 \<Rightarrow> u8 \<Rightarrow> bool" where
  "second_ok3 b b1 \<longleftrightarrow>
     (if b = 0xE0 then 0xA0 \<le> b1 \<and> b1 \<le> 0xBF
      else if b = 0xED then 0x80 \<le> b1 \<and> b1 \<le> 0x9F
      else is_cont b1)"

definition second_ok4 :: "u8 \<Rightarrow> u8 \<Rightarrow> bool" where
  "second_ok4 b b1 \<longleftrightarrow>
     (if b = 0xF0 then 0x90 \<le> b1 \<and> b1 \<le> 0xBF
      else if b = 0xF4 then 0x80 \<le> b1 \<and> b1 \<le> 0x8F
      else is_cont b1)"

definition utf8_bad :: "nat \<Rightarrow> nat option \<Rightarrow> utf8_error option" where
  "utf8_bad off n = Some \<lparr>valid_up_to = off, error_len = n\<rparr>"

fun utf8_scan :: "nat \<Rightarrow> bytes \<Rightarrow> utf8_error option" where
  "utf8_scan off [] = None"
| "utf8_scan off (b # bs) =
     (if b < 0x80 then utf8_scan (off + 1) bs
      else if 0xC2 \<le> b \<and> b \<le> 0xDF then
        (case bs of
           [] \<Rightarrow> utf8_bad off None
         | b1 # bs1 \<Rightarrow>
             if is_cont b1 then utf8_scan (off + 2) bs1 else utf8_bad off (Some 1))
      else if 0xE0 \<le> b \<and> b \<le> 0xEF then
        (case bs of
           [] \<Rightarrow> utf8_bad off None
         | b1 # bs1 \<Rightarrow>
             if \<not> second_ok3 b b1 then utf8_bad off (Some 1)
             else (case bs1 of
                 [] \<Rightarrow> utf8_bad off None
               | b2 # bs2 \<Rightarrow>
                   if is_cont b2 then utf8_scan (off + 3) bs2 else utf8_bad off (Some 2)))
      else if 0xF0 \<le> b \<and> b \<le> 0xF4 then
        (case bs of
           [] \<Rightarrow> utf8_bad off None
         | b1 # bs1 \<Rightarrow>
             if \<not> second_ok4 b b1 then utf8_bad off (Some 1)
             else (case bs1 of
                 [] \<Rightarrow> utf8_bad off None
               | b2 # bs2 \<Rightarrow>
                   if \<not> is_cont b2 then utf8_bad off (Some 2)
                   else (case bs2 of
                       [] \<Rightarrow> utf8_bad off None
                     | b3 # bs3 \<Rightarrow>
                         if is_cont b3 then utf8_scan (off + 4) bs3
                         else utf8_bad off (Some 3))))
      else utf8_bad off (Some 1))"

definition from_utf8 :: "bytes \<Rightarrow> (utf8_error, rstring) outcome" where
  "from_utf8 bs = (case utf8_scan 0 bs of None \<Rightarrow> Ok bs | Some e \<Rightarrow> Err e)"

text \<open>The well-formed byte sequences of the Unicode standard, table 3-7.\<close>

fun valid_utf8 :: "bytes \<Rightarrow> bool" where
  "valid_utf8 [] = True"
| "valid_utf8 (b # bs) =
     (if b < 0x80 then valid_utf8 bs
      else if 0xC2 \<le> b \<and> b \<le> 0xDF then
        (case bs of b1 # bs1 \<Rightarrow> is_cont b1 \<and> valid_utf8 bs1 | _ \<Rightarrow> False)
      else if 0xE0 \<le> b \<and> b \<le> 0xEF then
        (case bs of b1 # b2 # bs2 \<Rightarrow> second_ok3 b b1 \<and> is_cont b2 \<and> valid_utf8 bs2 | _ \<Rightarrow> False)
      else if 0xF0 \<le> b \<and> b \<le> 0xF4 then
        (case bs of b1 # b2 # b3 # bs3 \<Rightarrow>
             second_ok4 b b1 \<and> is_cont b2 \<and> is_cont b3 \<and> valid_utf8 bs3
         | _ \<Rightarrow> False)
      else False)"

text \<open>\<open>str::split(c)\<close>: the maximal pieces between occurrences of \<open>c\<close>; never empty.\<close>

fun split_on :: "'a \<Rightarrow> 'a list \<Rightarrow> 'a list list" where
  "split_on c [] = [[]]"
| "split_on c (x # xs) =
     (if x = c then [] # split_on c xs
      else (case split_on c xs of
          [] \<Rightarrow> [[x]]
        | p # ps \<Rightarrow> (x # p) # ps))"

section \<open>Lemmas\<close>

lemma utf8_scan_valid: "utf8_scan off bs = None \<longleftrightarrow> valid_utf8 bs"
proof (induction off bs rule: utf8_scan.induct)
  case (1 off)
  then show ?case by simp
next
  case (2 off b bs)
  then show ?case
    by (auto simp: utf8_bad_def split: list.splits)
qed

lemma from_utf8_simps:
  "valid_utf8 bs \<Longrightarrow> from_utf8 bs = Ok bs"
  "from_utf8 bs = Ok t \<longleftrightarrow> valid_utf8 bs \<and> t = bs"
  "from_utf8 bs \<noteq> Panic"
  by (auto simp: from_utf8_def simp flip: utf8_scan_valid [of 0] split: option.splits)

lemma valid_utf8_ascii [simp]: "b < 0x80 \<Longrightarrow> valid_utf8 (b # bs) = valid_utf8 bs"
  by simp

declare valid_utf8.simps(2) [simp del]

lemma split_on_not_Nil [simp]: "split_on c xs \<noteq> []"
  by (induction xs) (auto split: list.splits)

lemma split_on_no_sep: "c \<notin> set xs \<Longrightarrow> split_on c xs = [xs]"
  by (induction xs) auto

lemma split_on_append_sep: "split_on c (xs @ c # ys) = split_on c xs @ split_on c ys"
  by (induction xs) (auto split: list.splits simp: Cons_eq_append_conv)

lemma split_on_set: "p \<in> set (split_on c xs) \<Longrightarrow> set p \<subseteq> set xs - {c}"
  by (induction xs arbitrary: p) (fastforce split: list.splits if_splits)+

lemma split_on_set_Union: "(\<Union>p \<in> set (split_on c xs). set p) = set xs - {c}"
proof (induction xs)
  case (Cons x xs)
  then show ?case
    by (cases "split_on c xs") (auto simp: set_eq_iff)
qed simp

text \<open>Joining the pieces with the separator gives the string back.\<close>

fun join_with :: "'a \<Rightarrow> 'a list list \<Rightarrow> 'a list" where
  "join_with c [] = []"
| "join_with c [p] = p"
| "join_with c (p # q # ps) = p @ c # join_with c (q # ps)"

lemma join_with_Cons: "ps \<noteq> [] \<Longrightarrow> join_with c (p # ps) = p @ c # join_with c ps"
  by (cases ps) auto

lemma join_split: "join_with c (split_on c xs) = xs"
proof (induction xs)
  case (Cons x xs)
  obtain p ps where "split_on c xs = p # ps"
    by (cases "split_on c xs") auto
  then show ?case
    using Cons by (cases ps) auto
qed simp

lemma split_join:
  "ps \<noteq> [] \<Longrightarrow> \<forall>p \<in> set ps. c \<notin> set p \<Longrightarrow> split_on c (join_with c ps) = ps"
  by (induction c ps rule: join_with.induct) (auto simp: split_on_no_sep split_on_append_sep)

end
