(* ===== verification/Primitives.thy ===== *)
theory Primitives
  imports Utf8
begin

text \<open>
  The wire primitives of \<open>mqttbytes-core/src/primitives.rs\<close>, \<open>qos.rs\<close> and \<open>ping.rs\<close>: framing,
  the variable byte integer, length-prefixed strings and binary data. A \<open>Bytes\<close> or \<open>BytesMut\<close>
  buffer is the sequence of the bytes it holds; its readers panic when too few bytes are left,
  as the documentation of those types says, so that the absence of panics is a theorem about
  the callers.
\<close>

section \<open>Buffers\<close>

definition u16_be :: "u16 \<Rightarrow> bytes" where
  "u16_be v = [ucast (drop_bit 8 v), ucast v]"

definition be_u16 :: "u8 \<Rightarrow> u8 \<Rightarrow> u16" where
  "be_u16 hi lo = push_bit 8 (ucast hi) OR ucast lo"

definition u32_be :: "u32 \<Rightarrow> bytes" where
  "u32_be v = [ucast (drop_bit 24 v), ucast (drop_bit 16 v), ucast (drop_bit 8 v), ucast v]"

definition be_u32 :: "u8 \<Rightarrow> u8 \<Rightarrow> u8 \<Rightarrow> u8 \<Rightarrow> u32" where
  "be_u32 a b c d =
     push_bit 24 (ucast a) OR push_bit 16 (ucast b) OR push_bit 8 (ucast c) OR ucast d"

fun get_u8 :: "(bytes, 'e, u8) sm" where
  "get_u8 (b # bs) = (Ok b, bs)"
| "get_u8 [] = (Panic, [])"

fun get_u16 :: "(bytes, 'e, u16) sm" where
  "get_u16 (a # b # bs) = (Ok (be_u16 a b), bs)"
| "get_u16 bs = (Panic, bs)"

fun get_u32 :: "(bytes, 'e, u32) sm" where
  "get_u32 (a # b # c # d # bs) = (Ok (be_u32 a b c d), bs)"
| "get_u32 bs = (Panic, bs)"

definition split_to :: "nat \<Rightarrow> (bytes, 'e, bytes) sm" where
  "split_to n bs = (if n \<le> length bs then (Ok (take n bs), drop n bs) else (Panic, bs))"

definition advance :: "nat \<Rightarrow> (bytes, 'e, unit) sm" where
  "advance n bs = (if n \<le> length bs then (Ok (), drop n bs) else (Panic, bs))"

definition put_u8 :: "u8 \<Rightarrow> (bytes, 'e, unit) sm" where
  "put_u8 b = modify (\<lambda>buf. buf @ [b])"

definition put_u16 :: "u16 \<Rightarrow> (bytes, 'e, unit) sm" where
  "put_u16 v = modify (\<lambda>buf. buf @ u16_be v)"

definition put_slice :: "bytes \<Rightarrow> (bytes, 'e, unit) sm" where
  "put_slice xs = modify (\<lambda>buf. buf @ xs)"

definition truncate :: "nat \<Rightarrow> (bytes, 'e, unit) sm" where
  "truncate n = modify (take n)"

definition put_at :: "nat \<Rightarrow> u8 \<Rightarrow> (bytes, 'e, unit) sm" where
  "put_at i b buf = (if i < length buf then (Ok (), buf[i := b]) else (Panic, buf))"

section \<open>Framing and primitive fields\<close>

datatype prim_error =
    PrimPayloadTooLong nat nat
  | PrimBoundaryCrossed nat
  | PrimMalformedPacket
  | PrimMalformedRemainingLength
  | PrimTopicNotUtf8 utf8_error
  | PrimInsufficientBytes nat

record ParsedFixedHeader =
  pfh_byte1 :: u8
  pfh_remaining_len_len :: nat
  pfh_remaining_len :: nat

definition pfh_frame_length :: "ParsedFixedHeader \<Rightarrow> nat" where
  "pfh_frame_length fh = 1 + pfh_remaining_len_len fh + pfh_remaining_len fh"

fun length_loop :: "bytes \<Rightarrow> nat \<Rightarrow> nat \<Rightarrow> nat \<Rightarrow> (prim_error, nat \<times> nat) outcome" where
  "length_loop [] len len_len shift = Err (PrimInsufficientBytes 1)"
| "length_loop (b # stream) len len_len shift =
     (let len_len = len_len + 1;
          byte = unat b;
          len = len + push_bit shift (byte AND 0x7F)
      in if byte AND 0x80 = 0 then Ok (len_len, len)
         else (let shift = shift + 7
               in if shift > 21 then Err PrimMalformedRemainingLength
                  else length_loop stream len len_len shift))"

definition mqtt_length :: "bytes \<Rightarrow> (prim_error, nat \<times> nat) outcome" where
  "mqtt_length stream = length_loop stream 0 0 0"

definition prim_parse_fixed_header :: "bytes \<Rightarrow> (prim_error, ParsedFixedHeader) outcome" where
  "prim_parse_fixed_header stream =
     (if length stream < 2 then Err (PrimInsufficientBytes (2 - length stream))
      else (case stream of
          [] \<Rightarrow> Err (PrimInsufficientBytes 1)
        | byte1 # stream \<Rightarrow>
            (case mqtt_length stream of
               Ok (remaining_len_len, remaining_len) \<Rightarrow>
                 Ok \<lparr>pfh_byte1 = byte1, pfh_remaining_len_len = remaining_len_len,
                     pfh_remaining_len = remaining_len\<rparr>
             | Err e \<Rightarrow> Err e
             | Panic \<Rightarrow> Panic)))"

definition prim_check :: "bytes \<Rightarrow> (prim_error, ParsedFixedHeader) outcome" where
  "prim_check stream =
     (case prim_parse_fixed_header stream of
        Ok fixed_header \<Rightarrow>
          if length stream < pfh_frame_length fixed_header
          then Err (PrimInsufficientBytes (pfh_frame_length fixed_header - length stream))
          else Ok fixed_header
      | Err e \<Rightarrow> Err e
      | Panic \<Rightarrow> Panic)"

definition prim_read_u16 :: "(bytes, prim_error, u16) sm" where
  "prim_read_u16 =
     andThen (gets length) (\<lambda>n.
     andThen (ensure (\<not> n < 2) PrimMalformedPacket) (\<lambda>_. get_u16))"

definition prim_read_u8 :: "(bytes, prim_error, u8) sm" where
  "prim_read_u8 =
     andThen (gets length) (\<lambda>n.
     andThen (ensure (n \<noteq> 0) PrimMalformedPacket) (\<lambda>_. get_u8))"

definition prim_read_u32 :: "(bytes, prim_error, u32) sm" where
  "prim_read_u32 =
     andThen (gets length) (\<lambda>n.
     andThen (ensure (\<not> n < 4) PrimMalformedPacket) (\<lambda>_. get_u32))"

definition prim_read_mqtt_bytes :: "(bytes, prim_error, bytes) sm" where
  "prim_read_mqtt_bytes =
     andThen prim_read_u16 (\<lambda>n.
     let len = unat n in
     andThen (gets length) (\<lambda>left.
     andThen (ensure (\<not> len > left) (PrimBoundaryCrossed len)) (\<lambda>_.
     split_to len)))"

definition validate_mqtt_string :: "bytes \<Rightarrow> (prim_error, rstring) outcome" where
  "validate_mqtt_string bs =
     (case from_utf8 bs of
        Ok string \<Rightarrow> if 0 \<in> set bs then Err PrimMalformedPacket else Ok string
      | Err source \<Rightarrow> Err (PrimTopicNotUtf8 source)
      | Panic \<Rightarrow> Panic)"

definition prim_read_mqtt_string :: "(bytes, prim_error, rstring) sm" where
  "prim_read_mqtt_string =
     andThen prim_read_mqtt_bytes (\<lambda>s. lift (validate_mqtt_string s))"

definition prim_write_mqtt_bytes :: "bytes \<Rightarrow> (bytes, prim_error, unit) sm" where
  "prim_write_mqtt_bytes bs =
     andThen (ensure (length bs \<le> 65535) (PrimPayloadTooLong (length bs) 65535)) (\<lambda>_.
     andThen (put_u16 (of_nat (length bs))) (\<lambda>_.
     put_slice bs))"

definition prim_write_mqtt_string :: "rstring \<Rightarrow> (bytes, prim_error, unit) sm" where
  "prim_write_mqtt_string s = prim_write_mqtt_bytes s"

fun remaining_length_loop :: "nat \<Rightarrow> nat \<Rightarrow> (bytes, prim_error, nat) sm" where
  "remaining_length_loop x count =
     (let byte = (of_nat (x mod 128) :: u8);
          x' = x div 128;
          byte = (if x' > 0 then byte OR 128 else byte)
      in andThen (put_u8 byte) (\<lambda>_.
         if x' = 0 then ret (count + 1) else remaining_length_loop x' (count + 1)))"

definition prim_write_remaining_length :: "nat \<Rightarrow> (bytes, prim_error, nat) sm" where
  "prim_write_remaining_length len =
     (if len > 268435455 then fail (PrimPayloadTooLong len 268435455)
      else remaining_length_loop len 0)"

definition prim_len_len :: "nat \<Rightarrow> nat" where
  "prim_len_len len =
     (if len \<ge> 2097152 then 4 else if len \<ge> 16384 then 3 else if len \<ge> 128 then 2 else 1)"

section \<open>Quality of service and pings\<close>

datatype QoS = AtMostOnce | AtLeastOnce | ExactlyOnce

fun qos_u8 :: "QoS \<Rightarrow> u8" where
  "qos_u8 AtMostOnce = 0"
| "qos_u8 AtLeastOnce = 1"
| "qos_u8 ExactlyOnce = 2"

definition prim_qos :: "u8 \<Rightarrow> QoS option" where
  "prim_qos num =
     (if num = 0 then Some AtMostOnce
      else if num = 1 then Some AtLeastOnce
      else if num = 2 then Some ExactlyOnce
      else None)"

definition write_pingreq :: "(bytes, 'e, nat) sm" where
  "write_pingreq = andThen (put_slice [0xC0, 0x00]) (\<lambda>_. ret 2)"

definition write_pingresp :: "(bytes, 'e, nat) sm" where
  "write_pingresp = andThen (put_slice [0xD0, 0x00]) (\<lambda>_. ret 2)"

declare remaining_length_loop.simps [simp del]

section \<open>Big-endian integers\<close>

lemma be_u16_inverse [simp]: "be_u16 (ucast (drop_bit 8 v)) (ucast v) = v"
  unfolding be_u16_def by (rule bit_word_eqI) (auto simp: bit_simps)

lemma be_u32_inverse [simp]:
  "be_u32 (ucast (drop_bit 24 v)) (ucast (drop_bit 16 v)) (ucast (drop_bit 8 v)) (ucast v) = (v::u32)"
  unfolding be_u32_def
proof (rule bit_word_eqI)
  fix n assume "n < LENGTH(32)"
  then have "n < 8 \<or> (8 \<le> n \<and> n < 16) \<or> (16 \<le> n \<and> n < 24) \<or> (24 \<le> n \<and> n < 32)"
    by auto
  then show "bit (push_bit 24 (ucast (ucast (drop_bit 24 v) :: u8)) OR
      push_bit 16 (ucast (ucast (drop_bit 16 v) :: u8)) OR
      push_bit 8 (ucast (ucast (drop_bit 8 v) :: u8)) OR ucast (ucast v :: u8) :: u32) n = bit v n"
    by (elim disjE) (auto simp: bit_simps)
qed

lemma length_u16_be [simp]: "length (u16_be v) = 2"
  by (simp add: u16_be_def)

lemma length_u32_be [simp]: "length (u32_be v) = 4"
  by (simp add: u32_be_def)

lemma get_u16_be [simp]: "get_u16 (u16_be v @ bs) = (Ok v, bs)"
  by (simp add: u16_be_def)

lemma get_u32_be [simp]: "get_u32 (u32_be v @ bs) = (Ok v, bs)"
  by (simp add: u32_be_def)

section \<open>The variable byte integer\<close>

text \<open>The encoding as a list of bytes: seven bits per byte, least significant first.\<close>

fun vbi :: "nat \<Rightarrow> bytes" where
  "vbi x = (if x div 128 = 0 then [of_nat (x mod 128)]
            else (of_nat (x mod 128) OR 128) # vbi (x div 128))"

declare vbi.simps [simp del]

lemma remaining_length_loop_vbi:
  "remaining_length_loop x count buf = (Ok (count + length (vbi x)), buf @ vbi x)"
proof (induction x arbitrary: count buf rule: vbi.induct)
  case (1 x)
  show ?case
  proof (cases "x div 128 = 0")
    case True
    then show ?thesis
      unfolding remaining_length_loop.simps [of x] vbi.simps [of x]
      by (simp add: Let_def put_u8_def run_simps)
  next
    case False
    then show ?thesis
      unfolding remaining_length_loop.simps [of x] vbi.simps [of x] Let_def
      using "1.IH" [OF False] by (simp add: put_u8_def)
  qed
qed

lemma length_vbi_step:
  "x < 128 \<Longrightarrow> length (vbi x) = 1"
  "128 \<le> x \<Longrightarrow> length (vbi x) = Suc (length (vbi (x div 128)))"
  by (subst vbi.simps, simp)+

lemma length_vbi: "x \<le> 268435455 \<Longrightarrow> length (vbi x) = prim_len_len x"
proof -
  assume x: "x \<le> 268435455"
  consider "x < 128" | "128 \<le> x" "x < 16384" | "16384 \<le> x" "x < 2097152" | "2097152 \<le> x"
    by linarith
  then show ?thesis
  proof cases
    case 1
    then show ?thesis by (simp add: length_vbi_step prim_len_len_def)
  next
    case 2
    then have "x div 128 < 128" by linarith
    with 2 show ?thesis by (simp add: length_vbi_step prim_len_len_def)
  next
    case 3
    then have "128 \<le> x div 128" "x div 128 div 128 < 128" by linarith+
    with 3 show ?thesis by (simp add: length_vbi_step prim_len_len_def)
  next
    case 4
    with x have "128 \<le> x div 128" "128 \<le> x div 128 div 128" "x div 128 div 128 div 128 < 128"
      by linarith+
    with 4 show ?thesis by (simp add: length_vbi_step prim_len_len_def)
  qed
qed

lemma nat_and_127: "(n::nat) AND 127 = n mod 128"
  using take_bit_eq_mask [of 7 n] by (simp add: take_bit_eq_mod mask_eq_exp_minus_1)

lemma nat_and_128: "(n::nat) < 256 \<Longrightarrow> n AND 128 = 0 \<longleftrightarrow> n < 128"
proof -
  assume "n < 256"
  have "n AND 2 ^ 7 = 0 \<longleftrightarrow> \<not> bit n 7"
    by (rule and_exp_eq_0_iff_not_bit)
  also have "\<dots> \<longleftrightarrow> even (n div 128)"
    by (simp add: bit_iff_odd)
  also have "\<dots> \<longleftrightarrow> n < 128"
  proof (cases "n < 128")
    case False
    with \<open>n < 256\<close> have "n div 128 = 1" by linarith
    with False show ?thesis by simp
  qed simp
  finally show ?thesis by simp
qed

lemma unat_u8_less [simp]: "unat (b::u8) < 256"
  using unsigned_less [of b] by simp

lemma unat_or_128: "x < 128 \<Longrightarrow> unat ((of_nat x :: u8) OR 128) = x + 128"
proof -
  assume "x < 128"
  have disj: "take_bit 8 x AND (128::nat) = 0"
    using \<open>x < 128\<close> by (simp add: nat_and_128 take_bit_eq_mod)
  have "unat ((of_nat x :: u8) OR 128) = take_bit 8 x OR 128"
    by (simp add: unsigned_or_eq unat_of_nat take_bit_eq_mod)
  also have "\<dots> = take_bit 8 x + 128"
    using disj by (simp add: disjunctive_add_eq_or)
  finally show ?thesis
    using \<open>x < 128\<close> by (simp add: take_bit_eq_mod)
qed

lemma digit_split: "x mod 128 * p + x div 128 * (128 * p) = x * (p::nat)"
proof -
  have "d * 128 * p + m * p = m * p + d * (128 * p)" for d m :: nat
    by simp
  from this [of "x div 128" "x mod 128"] show ?thesis
    by (metis distrib_right div_mult_mod_eq)
qed

lemma length_loop_vbi:
  assumes "shift + 7 * length (vbi x) \<le> 28"
  shows "length_loop (vbi x @ rest) len n shift = Ok (n + length (vbi x), len + x * 2 ^ shift)"
  using assms
proof (induction x arbitrary: len n shift rule: vbi.induct)
  case (1 x)
  show ?case
  proof (cases "x div 128 = 0")
    case True
    then have "x < 128" by simp
    then show ?thesis
      by (simp add: vbi.simps [of x] nat_and_127 nat_and_128 unat_of_nat push_bit_eq_mult Let_def)
  next
    case False
    let ?b = "(of_nat (x mod 128) :: u8) OR 128"
    have eq: "vbi x = ?b # vbi (x div 128)"
      using False by (subst vbi.simps) simp
    have b: "unat ?b = x mod 128 + 128"
      by (rule unat_or_128) simp
    have len: "1 \<le> length (vbi (x div 128))"
      by (subst vbi.simps) simp
    have "length (vbi x) = Suc (length (vbi (x div 128)))"
      using eq by simp
    then have shift: "\<not> 21 < shift + 7"
      using "1.prems" len by linarith
    have val: "len + (x mod 128) * 2 ^ shift + x div 128 * 2 ^ (shift + 7) = len + x * 2 ^ shift"
      using digit_split [of x "2 ^ shift"] by (simp add: power_add)
    have "length_loop (vbi x @ rest) len n shift
        = length_loop (vbi (x div 128) @ rest) (len + (x mod 128) * 2 ^ shift) (n + 1) (shift + 7)"
      unfolding eq using shift
      by (simp add: b Let_def nat_and_127 nat_and_128 push_bit_eq_mult del: push_bit_and)
    also have "\<dots> = Ok (n + 1 + length (vbi (x div 128)),
        len + (x mod 128) * 2 ^ shift + x div 128 * 2 ^ (shift + 7))"
      using "1.prems" unfolding eq by (intro "1.IH" [OF False]) simp
    finally show ?thesis
      unfolding val eq by simp
  qed
qed

lemma mqtt_length_vbi:
  "x \<le> 268435455 \<Longrightarrow> mqtt_length (vbi x @ rest) = Ok (prim_len_len x, x)"
  unfolding mqtt_length_def
  by (subst length_loop_vbi) (simp_all add: length_vbi prim_len_len_def)

lemma write_remaining_length_vbi:
  "prim_write_remaining_length len buf =
     (if len > 268435455 then (Err (PrimPayloadTooLong len 268435455), buf)
      else (Ok (prim_len_len len), buf @ vbi len))"
  by (simp add: prim_write_remaining_length_def remaining_length_loop_vbi length_vbi run_simps)

lemma digit_bound:
  fixes d l p :: nat
  assumes "d < 128" and "l < p"
  shows "l + d * p < 128 * p"
proof -
  have "d * p \<le> 127 * p"
    using assms(1) by (intro mult_right_mono) simp_all
  with assms(2) show ?thesis by linarith
qed

text \<open>The first number that needs more than \<open>n\<close> bytes.\<close>

definition vbi_limit :: "nat \<Rightarrow> nat" where
  "vbi_limit n = 128 ^ n"

lemma vbi_limit_Suc: "vbi_limit (Suc n) = 128 * vbi_limit n"
  by (simp add: vbi_limit_def)

lemma vbi_limit_shift: "2 ^ (7 * n) = vbi_limit n"
  by (simp add: vbi_limit_def power_mult)

lemma length_loop_bounds:
  assumes "length_loop bs len n shift = Ok (n', len')" and "shift = 7 * n" and "n \<le> 3"
    and "len < vbi_limit n"
  shows "n < n' \<and> n' \<le> 4 \<and> len' < vbi_limit n' \<and> n' - n \<le> length bs"
  using assms
proof (induction bs len n shift rule: length_loop.induct)
  case (1 len n shift)
  then show ?case by simp
next
  case (2 b stream len n shift)
  let ?len = "len + push_bit shift (unat b AND 127)"
  have "?len = len + (unat b mod 128) * vbi_limit n"
    unfolding \<open>shift = 7 * n\<close> by (simp add: push_bit_eq_mult nat_and_127 vbi_limit_shift)
  then have lt: "?len < vbi_limit (n + 1)"
    using digit_bound [OF _ "2.prems"(4), of "unat b mod 128"] vbi_limit_Suc [of n] by simp
  show ?case
  proof (cases "unat b AND 128 = 0")
    case True
    with "2.prems"(1) have "n' = n + 1" and "len' = ?len"
      by (simp_all add: Let_def)
    then show ?thesis
      using lt "2.prems"(3) by simp
  next
    case False
    with "2.prems"(1) have rec: "length_loop stream ?len (n + 1) (shift + 7) = Ok (n', len')"
      and s: "\<not> 21 < shift + 7"
      by (simp_all add: Let_def split: if_splits)
    have "n + 1 < n' \<and> n' \<le> 4 \<and> len' < vbi_limit n' \<and> n' - (n + 1) \<le> length stream"
    proof (rule "2.IH" [OF refl refl refl False refl s rec])
      show "shift + 7 = 7 * (n + 1)" "n + 1 \<le> 3"
        using s \<open>shift = 7 * n\<close> by simp_all
    qed (rule lt)
    then show ?thesis by auto
  qed
qed

lemma mqtt_length_bounds:
  assumes "mqtt_length bs = Ok (n, len)"
  shows "1 \<le> n" and "n \<le> 4" and "len < vbi_limit n" and "n \<le> length bs" and "len \<le> 268435455"
proof -
  have *: "0 < n \<and> n \<le> 4 \<and> len < vbi_limit n \<and> n - 0 \<le> length bs"
    using assms unfolding mqtt_length_def
    by (rule length_loop_bounds) (auto simp: vbi_limit_def)
  moreover have "vbi_limit n \<le> vbi_limit 4"
    unfolding vbi_limit_def using * by (intro power_increasing) simp_all
  moreover have "vbi_limit 4 = 268435456"
    by (simp add: vbi_limit_def)
  ultimately show "1 \<le> n" "n \<le> 4" "len < vbi_limit n" "n \<le> length bs" "len \<le> 268435455"
    by auto
qed

lemma mqtt_length_no_panic: "mqtt_length bs \<noteq> Panic"
proof -
  have "length_loop bs len n shift \<noteq> Panic" for len n shift
    by (induction bs len n shift rule: length_loop.induct) (auto simp: Let_def)
  then show ?thesis by (simp add: mqtt_length_def)
qed

text \<open>Decoding looks at the bytes it consumes only.\<close>

lemma length_loop_append:
  "length_loop bs len n shift \<noteq> Err (PrimInsufficientBytes 1) \<Longrightarrow>
     length_loop (bs @ ext) len n shift = length_loop bs len n shift"
  by (induction bs len n shift rule: length_loop.induct) (auto simp: Let_def split: if_splits)

lemma length_loop_take:
  "\<lbrakk>length_loop bs len n shift = Ok (n', len'); k < n' - n\<rbrakk>
    \<Longrightarrow> length_loop (take k bs) len n shift = Err (PrimInsufficientBytes 1)"
proof (induction bs len n shift arbitrary: k rule: length_loop.induct)
  case (2 b stream len n shift)
  show ?case
  proof (cases k)
    case (Suc j)
    then show ?thesis
      using 2 by (auto simp: Let_def split: if_splits)
  qed simp
qed simp

lemma mqtt_length_append:
  "mqtt_length bs \<noteq> Err (PrimInsufficientBytes 1) \<Longrightarrow> mqtt_length (bs @ ext) = mqtt_length bs"
  by (simp add: mqtt_length_def length_loop_append)

lemma mqtt_length_take:
  "\<lbrakk>mqtt_length bs = Ok (n, len); k < n\<rbrakk>
    \<Longrightarrow> mqtt_length (take k bs) = Err (PrimInsufficientBytes 1)"
  unfolding mqtt_length_def by (rule length_loop_take) simp_all

lemma length_loop_split:
  "\<lbrakk>length_loop bs len n shift = Ok (n', len'); n' - n \<le> k\<rbrakk>
    \<Longrightarrow> length_loop (take k bs) len n shift = Ok (n', len')"
proof (induction bs len n shift arbitrary: k rule: length_loop.induct)
  case (2 b stream len n shift)
  show ?case
  proof (cases k)
    case 0
    then have "n' \<le> n" using 2(3) by simp
    moreover have "n < n'" if "length_loop xs l m sh = Ok (n', len')" "n \<le> m" for xs l m sh
      using that by (induction xs l m sh rule: length_loop.induct) (auto simp: Let_def split: if_splits)
    ultimately show ?thesis using 2(2) by (meson leD le_refl)
  next
    case (Suc j)
    then show ?thesis
      using 2 by (auto simp: Let_def split: if_splits)
  qed
qed simp

lemma mqtt_length_split:
  "\<lbrakk>mqtt_length bs = Ok (n, len); n \<le> k\<rbrakk> \<Longrightarrow> mqtt_length (take k bs) = Ok (n, len)"
  unfolding mqtt_length_def by (rule length_loop_split) simp_all

section \<open>Reading and writing fields\<close>

named_theorems read_eqs \<open>exactly which input a field reader accepts\<close>
named_theorems no_panic \<open>readers and writers that never panic\<close>

lemma u16_be_inverse: "u16_be (be_u16 a b) = [a, b]"
proof -
  have "ucast (drop_bit 8 (be_u16 a b)) = a"
    unfolding be_u16_def by (rule bit_word_eqI) (auto simp: bit_simps dest: bit_imp_le_length)
  moreover have "ucast (be_u16 a b) = b"
    unfolding be_u16_def by (rule bit_word_eqI) (auto simp: bit_simps)
  ultimately show ?thesis by (simp add: u16_be_def)
qed

lemma u16_be_inject [simp]: "u16_be v = u16_be w \<longleftrightarrow> v = w"
  by (metis be_u16_inverse list.inject u16_be_def)

lemma get_u16_eq: "get_u16 s = (Ok v, s') \<longleftrightarrow> s = u16_be v @ s'"
  by (cases s rule: get_u16.cases) (auto simp: u16_be_inverse, auto simp: u16_be_def)

lemma prim_read_u8_eq [read_eqs]: "prim_read_u8 s = (Ok v, s') \<longleftrightarrow> s = v # s'"
  by (cases s) (auto simp: prim_read_u8_def run_simps)

lemma prim_read_u16_eq [read_eqs]: "prim_read_u16 s = (Ok v, s') \<longleftrightarrow> s = u16_be v @ s'"
  by (auto simp: prim_read_u16_def run_simps get_u16_eq)

text \<open>A length-prefixed field, and the strings that MQTT allows in one.\<close>

definition lp :: "bytes \<Rightarrow> bytes" where
  "lp xs = u16_be (of_nat (length xs)) @ xs"

definition mqtt_string :: "bytes \<Rightarrow> bool" where
  "mqtt_string xs \<longleftrightarrow> valid_utf8 xs \<and> 0 \<notin> set xs"

lemma length_lp [simp]: "length (lp xs) = 2 + length xs"
  by (simp add: lp_def)

lemma unat_u16_less [simp]: "unat (v::u16) \<le> 65535"
  using unsigned_less [of v, where ?'a = nat] by simp

lemma prim_read_mqtt_bytes_eq [read_eqs]:
  "prim_read_mqtt_bytes s = (Ok xs, s') \<longleftrightarrow> s = lp xs @ s' \<and> length xs \<le> 65535"
proof
  assume "prim_read_mqtt_bytes s = (Ok xs, s')"
  then obtain v t where s: "s = u16_be v @ t" and "unat v \<le> length t"
    and "xs = take (unat v) t" "s' = drop (unat v) t"
    by (auto simp: prim_read_mqtt_bytes_def andThen_eq_Ok read_eqs Let_def run_simps split_to_def
        split: if_splits)
  then have "length xs = unat v" and "t = xs @ s'"
    by auto
  then show "s = lp xs @ s' \<and> length xs \<le> 65535"
    using s by (simp add: lp_def)
next
  assume *: "s = lp xs @ s' \<and> length xs \<le> 65535"
  then have len: "length xs mod 65536 = length xs"
    by simp
  have "prim_read_u16 s = (Ok (of_nat (length xs)), xs @ s')"
    using * by (simp add: prim_read_u16_eq lp_def)
  then show "prim_read_mqtt_bytes s = (Ok xs, s')"
    unfolding prim_read_mqtt_bytes_def
    by (simp add: andThen_Ok Let_def unat_of_nat split_to_def len)
qed

lemma validate_mqtt_string_eq [read_eqs]:
  "validate_mqtt_string xs = Ok t \<longleftrightarrow> t = xs \<and> mqtt_string xs"
  by (auto simp: validate_mqtt_string_def mqtt_string_def from_utf8_simps split: outcome.splits)

lemma prim_read_mqtt_string_eq [read_eqs]:
  "prim_read_mqtt_string s = (Ok xs, s') \<longleftrightarrow>
     s = lp xs @ s' \<and> length xs \<le> 65535 \<and> mqtt_string xs"
  by (auto simp: prim_read_mqtt_string_def andThen_eq_Ok read_eqs run_simps)

lemma prim_write_mqtt_bytes_run:
  "prim_write_mqtt_bytes xs buf =
     (if length xs \<le> 65535 then (Ok (), buf @ lp xs)
      else (Err (PrimPayloadTooLong (length xs) 65535), buf))"
  by (simp add: prim_write_mqtt_bytes_def put_u16_def put_slice_def lp_def)

lemma prim_write_mqtt_string_run:
  "prim_write_mqtt_string xs buf =
     (if length xs \<le> 65535 then (Ok (), buf @ lp xs)
      else (Err (PrimPayloadTooLong (length xs) 65535), buf))"
  by (simp add: prim_write_mqtt_string_def prim_write_mqtt_bytes_run)

section \<open>No reader panics\<close>

lemma wp_split_to [wp_simps]:
  "wp (split_to n) Q E s = (n \<le> length s \<and> Q (take n s) (drop n s))"
  by (simp add: wp_def split_to_def)

lemma wp_advance [wp_simps]: "wp (advance n) Q E s = (n \<le> length s \<and> Q () (drop n s))"
  by (simp add: wp_def advance_def)

lemma wp_get_u8 [wp_simps]: "wp get_u8 Q E s = (s \<noteq> [] \<and> Q (hd s) (tl s))"
  by (cases s) (simp_all add: wp_def)

lemma wp_get_u16 [wp_simps]:
  "wp get_u16 Q E s = (2 \<le> length s \<and> Q (be_u16 (s ! 0) (s ! 1)) (drop 2 s))"
  by (cases s rule: get_u16.cases) (simp_all add: wp_def)

lemma wp_get_u32 [wp_simps]:
  "wp get_u32 Q E s =
     (4 \<le> length s \<and> Q (be_u32 (s ! 0) (s ! 1) (s ! 2) (s ! 3)) (drop 4 s))"
  by (cases s rule: get_u32.cases) (simp_all add: wp_def numeral_nat)

lemma wp_lift [wp_simps]:
  "wp (lift r) Q E s = (case r of Ok x \<Rightarrow> Q x s | Err e \<Rightarrow> E e s | Panic \<Rightarrow> False)"
  by (simp add: wp_def run_simps split: outcome.splits)

lemma validate_mqtt_string_no_panic [no_panic]: "validate_mqtt_string xs \<noteq> Panic"
  using from_utf8_simps(3) [of xs] by (auto simp: validate_mqtt_string_def split: outcome.splits)

text \<open>Every reader leaves a suffix of what it was given, strictly shorter when it succeeds.\<close>

lemma wp_prim_read_u8:
  "wp prim_read_u8 (\<lambda>_ s'. length s = length s' + 1) (\<lambda>_ s'. length s' \<le> length s) s"
  by (cases s) (auto simp: prim_read_u8_def wp_simps)

lemma wp_prim_read_u16:
  "wp prim_read_u16 (\<lambda>_ s'. length s = length s' + 2) (\<lambda>_ s'. length s' \<le> length s) s"
  by (auto simp: prim_read_u16_def wp_simps)

lemma wp_prim_read_u32:
  "wp prim_read_u32 (\<lambda>_ s'. length s = length s' + 4) (\<lambda>_ s'. length s' \<le> length s) s"
  by (auto simp: prim_read_u32_def wp_simps)

lemma wp_prim_read_mqtt_bytes:
  "wp prim_read_mqtt_bytes (\<lambda>xs s'. length s = length s' + 2 + length xs)
     (\<lambda>_ s'. length s' \<le> length s) s"
  unfolding prim_read_mqtt_bytes_def wp_andThen
  by (rule wp_mono [OF wp_prim_read_u16]) (auto simp: Let_def wp_simps)

lemma wp_prim_read_mqtt_string:
  "wp prim_read_mqtt_string (\<lambda>xs s'. length s = length s' + 2 + length xs)
     (\<lambda>_ s'. length s' \<le> length s) s"
  unfolding prim_read_mqtt_string_def wp_andThen
  by (rule wp_mono [OF wp_prim_read_mqtt_bytes])
     (auto simp: wp_simps no_panic read_eqs split: outcome.splits)

section \<open>Properties\<close>

text \<open>
  C30: the remaining-length field round-trips. Every length up to 268435455 is written as its
  1 to 4 byte encoding, as many bytes as \<open>len_len\<close> announces, and decoding these bytes, whatever
  follows them, gives the length back; a longer one is refused and nothing is written.
\<close>

theorem remaining_length_roundtrip:
  "if n \<le> 268435455
   then \<exists>enc. prim_write_remaining_length n buf = (Ok (prim_len_len n), buf @ enc)
        \<and> length enc = prim_len_len n \<and> 1 \<le> prim_len_len n \<and> prim_len_len n \<le> 4
        \<and> (\<forall>rest. mqtt_length (enc @ rest) = Ok (prim_len_len n, n))
   else \<exists>e. prim_write_remaining_length n buf = (Err e, buf)"
proof (cases "n \<le> 268435455")
  case True
  then show ?thesis
    using write_remaining_length_vbi [of n buf] length_vbi [OF True] mqtt_length_vbi [OF True]
      mqtt_length_bounds(1,2) [OF mqtt_length_vbi [OF True]]
    by (auto intro!: exI [of _ "vbi n"])
next
  case False
  then show ?thesis
    using write_remaining_length_vbi [of n buf] by simp
qed

text \<open>
  C31: decoding a remaining length is total and bounded. It never panics, and a decoded value used
  between one and four of the given bytes and is at most 268435455.
\<close>

theorem remaining_length_bounds:
  "mqtt_length bs \<noteq> Panic
   \<and> (\<forall>n len. mqtt_length bs = Ok (n, len) \<longrightarrow>
        1 \<le> n \<and> n \<le> 4 \<and> n \<le> length bs \<and> len \<le> 268435455)"
  using mqtt_length_no_panic mqtt_length_bounds by blast

theorem remaining_length_bounds_witness:
  "1 \<le> (2::nat) \<and> 2 \<le> (4::nat) \<and> 2 \<le> length [0x80::u8, 1, 7] \<and> (128::nat) \<le> 268435455"
proof -
  have "mqtt_length [0x80, 1, 7] = Ok (2, 128)" by code_simp
  then show ?thesis using remaining_length_bounds [of "[0x80, 1, 7]"] by blast
qed

end
