(* ===== verification/Topic.thy ===== *)
theory Topic
  imports Primitives
begin

text \<open>
  Topic names and topic filters, \<open>mqttbytes-core/src/topic.rs\<close>. A string is its UTF-8 bytes:
  the characters the code looks for are one byte each and never part of a longer sequence, so
  \<open>contains\<close>, \<open>split\<close> and \<open>starts_with\<close> on characters are the same operations on bytes. The
  declarative reading of filters by levels is at the end of the file, with the proofs that the
  two loops compute it.
\<close>

section \<open>Definitions\<close>

abbreviation plus_ch :: u8 where "plus_ch \<equiv> 0x2B"
abbreviation hash_ch :: u8 where "hash_ch \<equiv> 0x23"
abbreviation slash_ch :: u8 where "slash_ch \<equiv> 0x2F"
abbreviation dollar_ch :: u8 where "dollar_ch \<equiv> 0x24"

definition has_wildcards :: "rstring \<Rightarrow> bool" where
  "has_wildcards s \<longleftrightarrow> plus_ch \<in> set s \<or> hash_ch \<in> set s"

definition valid_topic :: "rstring \<Rightarrow> bool" where
  "valid_topic topic \<longleftrightarrow>
     (if plus_ch \<in> set topic \<or> hash_ch \<in> set topic then False else True)"

fun valid_filter_rest :: "rstring list \<Rightarrow> bool" where
  "valid_filter_rest [] = True"
| "valid_filter_rest (entry # entries) =
     (if hash_ch \<in> set entry then False
      else if length entry > 1 \<and> plus_ch \<in> set entry then False
      else valid_filter_rest entries)"

definition valid_filter :: "rstring \<Rightarrow> bool" where
  "valid_filter flt =
     (if flt = [] then False
      else (case rev (split_on slash_ch flt) of
          [] \<Rightarrow> False
        | lst # hierarchy \<Rightarrow>
            if length lst \<noteq> 1 \<and> (hash_ch \<in> set lst \<or> plus_ch \<in> set lst) then False
            else valid_filter_rest hierarchy))"

fun matches_loop :: "rstring list \<Rightarrow> rstring list \<Rightarrow> bool" where
  "matches_loop topics [] = (if topics \<noteq> [] then False else True)"
| "matches_loop topics (f # fs) =
     (if f = [hash_ch] then True
      else (case topics of
          [] \<Rightarrow> False
        | tp # topics' \<Rightarrow>
            if tp = [hash_ch] then False
            else if f \<noteq> [plus_ch] \<and> f \<noteq> tp then False
            else matches_loop topics' fs))"

definition matches :: "rstring \<Rightarrow> rstring \<Rightarrow> bool" where
  "matches topic flt =
     (if (case topic of [] \<Rightarrow> False | c # _ \<Rightarrow> c = dollar_ch) then False
      else matches_loop (split_on slash_ch topic) (split_on slash_ch flt))"

section \<open>Filters and matching by levels\<close>

text \<open>
  The MQTT rules, level by level: a level of a filter is a name, a single \<open>+\<close> or, at the end
  only, a single \<open>#\<close>; a filter covers a topic when each of its levels covers the topic's level
  in the same place, and a final \<open>#\<close> covers whatever is left, the parent level included.
\<close>

definition plain_level :: "rstring \<Rightarrow> bool" where
  "plain_level l \<longleftrightarrow> plus_ch \<notin> set l \<and> hash_ch \<notin> set l"

definition level_covers :: "rstring \<Rightarrow> rstring \<Rightarrow> bool" where
  "level_covers f t \<longleftrightarrow> f = [plus_ch] \<or> f = t"

definition levels_cover :: "rstring list \<Rightarrow> rstring list \<Rightarrow> bool" where
  "levels_cover fs ts \<longleftrightarrow>
     (if fs \<noteq> [] \<and> last fs = [hash_ch]
      then length fs \<le> length ts + 1 \<and> list_all2 level_covers (butlast fs) (take (length fs - 1) ts)
      else list_all2 level_covers fs ts)"

lemma singleton_or_plain: "length l = 1 \<Longrightarrow> c \<in> set l \<Longrightarrow> l = [c]"
  by (cases l) auto

lemma valid_filter_rest_iff:
  "valid_filter_rest es \<longleftrightarrow> (\<forall>e \<in> set es. plain_level e \<or> e = [plus_ch])"
proof (induction es)
  case (Cons e es)
  have "(\<not> hash_ch \<in> set e \<and> \<not> (length e > 1 \<and> plus_ch \<in> set e)) \<longleftrightarrow> plain_level e \<or> e = [plus_ch]"
    by (cases e) (auto simp: plain_level_def)
  then show ?case using Cons by auto
qed simp

lemma valid_filter_levels:
  "valid_filter f \<longleftrightarrow> f \<noteq> [] \<and>
     (\<forall>l \<in> set (butlast (split_on slash_ch f)). plain_level l \<or> l = [plus_ch]) \<and>
     (let l = last (split_on slash_ch f) in plain_level l \<or> l = [plus_ch] \<or> l = [hash_ch])"
proof -
  obtain l hs where r: "rev (split_on slash_ch f) = l # hs"
    by (cases "rev (split_on slash_ch f)") auto
  then have ends: "last (split_on slash_ch f) = l" "set (butlast (split_on slash_ch f)) = set hs"
    by (metis last_rev list.sel(1) rev_rev_ident, metis butlast_rev list.sel(3) rev_rev_ident set_rev)
  have l: "\<not> (length l \<noteq> 1 \<and> (hash_ch \<in> set l \<or> plus_ch \<in> set l)) \<longleftrightarrow>
      plain_level l \<or> l = [plus_ch] \<or> l = [hash_ch]"
    using singleton_or_plain [of l] by (auto simp: plain_level_def)
  show ?thesis
    unfolding valid_filter_def r ends Let_def
    using l by (auto simp: valid_filter_rest_iff)
qed

text \<open>C34: \<open>valid_filter\<close> accepts exactly the MQTT topic filters: a non-empty string whose
  levels before the last are wildcard-free names or a lone \<open>+\<close>, and whose last level may also
  be a lone \<open>#\<close>.\<close>

theorem valid_filter_iff:
  "valid_filter f \<longleftrightarrow> f \<noteq> [] \<and>
     list_all (\<lambda>l. plain_level l \<or> l = [plus_ch]) (butlast (split_on slash_ch f)) \<and>
     (let l = last (split_on slash_ch f) in plain_level l \<or> l = [plus_ch] \<or> l = [hash_ch])"
  unfolding valid_filter_levels list_all_iff by (rule refl)

lemma matches_loop_plain:
  assumes "\<forall>t \<in> set ts. plain_level t" and "\<forall>f \<in> set (butlast fs). f \<noteq> [hash_ch]"
  shows "matches_loop ts fs \<longleftrightarrow> levels_cover fs ts"
  using assms
proof (induction ts fs rule: matches_loop.induct)
  case (1 ts)
  then show ?case by (auto simp: levels_cover_def)
next
  case (2 ts f fs)
  show ?case
  proof (cases "f = [hash_ch]")
    case True
    with "2.prems" have "fs = []" by (cases fs) auto
    with True show ?thesis by (simp add: levels_cover_def)
  next
    case False
    show ?thesis
    proof (cases ts)
      case Nil
      with False show ?thesis by (auto simp: levels_cover_def)
    next
      case (Cons t ts')
      have t: "t \<noteq> [hash_ch]" using "2.prems"(1) Cons by (auto simp: plain_level_def)
      have "matches_loop ts (f # fs) \<longleftrightarrow> level_covers f t \<and> matches_loop ts' fs"
        using False t Cons by (auto simp: level_covers_def)
      also have "\<dots> \<longleftrightarrow> level_covers f t \<and> levels_cover fs ts'"
      proof -
        have "\<forall>t \<in> set ts'. plain_level t" "\<forall>f \<in> set (butlast fs). f \<noteq> [hash_ch]"
          using "2.prems" Cons by (simp, cases fs) auto
        then show ?thesis
          using "2.IH" [OF False Cons t] by (auto simp: level_covers_def)
      qed
      also have "\<dots> \<longleftrightarrow> levels_cover (f # fs) ts"
        using False Cons by (cases fs) (auto simp: levels_cover_def)
      finally show ?thesis .
    qed
  qed
qed



lemma matches_loop_trans:
  "matches_loop ts fs \<Longrightarrow> matches_loop fs gs \<Longrightarrow> matches_loop ts gs"
proof (induction fs gs arbitrary: ts rule: matches_loop.induct)
  case (1 fs)
  then show ?case by (auto split: if_splits)
next
  case (2 fs g gs)
  then show ?case
    by (cases fs; cases ts) (auto split: if_splits)
qed

text \<open>C33: matching composes: what a filter covered by a second filter covers is covered by the
  second filter as well.\<close>

theorem matches_trans:
  assumes "matches t f" and "matches f g"
  shows "matches t g"
  using assms unfolding matches_def by (meson matches_loop_trans)

theorem matches_trans_witness: "matches [0x61, 0x2F, 0x62] [0x23]"
proof (rule matches_trans)
  show "matches [0x61, 0x2F, 0x62] [0x61, 0x2F, 0x2B]" "matches [0x61, 0x2F, 0x2B] [0x23]"
    by (simp_all add: matches_def)
qed

end
