(* ===== verification/V4_Base.thy ===== *)
theory V4_Base
  imports Topic
begin

text \<open>
  The shared layer of the MQTT 3.1.1 codec, \<open>mqttbytes-v4/src/lib.rs\<close>: its error type, the
  fixed header, the size-limited frame check, the error-converting wrappers around the wire
  primitives, and \<open>transactional_write\<close>, which undoes a failed write. The \<open>Io\<close> error of the
  \<open>std\<close> feature is produced by the transport only and carries its text.
\<close>

section \<open>Definitions\<close>

datatype PacketType =
    TyConnect | TyConnAck | TyPublish | TyPubAck | TyPubRec | TyPubRel | TyPubComp
  | TySubscribe | TySubAck | TyUnsubscribe | TyUnsubAck | TyPingReq | TyPingResp | TyDisconnect

datatype v4_error =
    NotConnect PacketType
  | UnexpectedConnect
  | InvalidConnectReturnCode u8
  | InvalidProtocol
  | InvalidProtocolLevel u8
  | IncorrectPacketFormat
  | InvalidPacketType u8
  | InvalidPropertyType u8
  | InvalidQoS u8
  | InvalidSubscribeReasonCode u8
  | PacketIdZero
  | PayloadSizeIncorrect
  | PayloadTooLong
  | PayloadSizeLimitExceeded nat
  | PayloadRequired
  | TopicNotUtf8 utf8_error
  | BoundaryCrossed nat
  | MalformedPacket
  | MalformedRemainingLength
  | EmptySubscription
  | EmptyUnsubscription
  | InsufficientBytes nat
  | Io string
  | OutgoingPacketTooLarge nat nat

fun error_from_prim :: "prim_error \<Rightarrow> v4_error" where
  "error_from_prim (PrimPayloadTooLong actual limit) = PayloadTooLong"
| "error_from_prim (PrimBoundaryCrossed len) = BoundaryCrossed len"
| "error_from_prim PrimMalformedPacket = MalformedPacket"
| "error_from_prim PrimMalformedRemainingLength = MalformedRemainingLength"
| "error_from_prim (PrimTopicNotUtf8 source) = TopicNotUtf8 source"
| "error_from_prim (PrimInsufficientBytes required) = InsufficientBytes required"

record FixedHeader =
  byte1 :: u8
  header_len :: nat
  remaining_len :: nat

definition FixedHeader_new :: "u8 \<Rightarrow> nat \<Rightarrow> nat \<Rightarrow> FixedHeader" where
  "FixedHeader_new b remaining_len_len rem =
     \<lparr>byte1 = b, header_len = remaining_len_len + 1, remaining_len = rem\<rparr>"

definition FixedHeader_packet_type :: "FixedHeader \<Rightarrow> (v4_error, PacketType) outcome" where
  "FixedHeader_packet_type fh =
     (let num = drop_bit 4 (byte1 fh) in
      if num = 1 then Ok TyConnect
      else if num = 2 then Ok TyConnAck
      else if num = 3 then Ok TyPublish
      else if num = 4 then Ok TyPubAck
      else if num = 5 then Ok TyPubRec
      else if num = 6 then Ok TyPubRel
      else if num = 7 then Ok TyPubComp
      else if num = 8 then Ok TySubscribe
      else if num = 9 then Ok TySubAck
      else if num = 10 then Ok TyUnsubscribe
      else if num = 11 then Ok TyUnsubAck
      else if num = 12 then Ok TyPingReq
      else if num = 13 then Ok TyPingResp
      else if num = 14 then Ok TyDisconnect
      else Err (InvalidPacketType num))"

definition frame_length :: "FixedHeader \<Rightarrow> nat" where
  "frame_length fh = header_len fh + remaining_len fh"

definition parse_fixed_header :: "bytes \<Rightarrow> (v4_error, FixedHeader) outcome" where
  "parse_fixed_header stream =
     (case map_outcome_err error_from_prim (prim_parse_fixed_header stream) of
        Ok fh \<Rightarrow> Ok (FixedHeader_new (pfh_byte1 fh) (pfh_remaining_len_len fh) (pfh_remaining_len fh))
      | Err e \<Rightarrow> Err e
      | Panic \<Rightarrow> Panic)"

definition check :: "bytes \<Rightarrow> nat \<Rightarrow> (v4_error, FixedHeader) outcome" where
  "check stream max_packet_size =
     (case parse_fixed_header stream of
        Ok fh \<Rightarrow>
          if remaining_len fh > max_packet_size
          then Err (PayloadSizeLimitExceeded (remaining_len fh))
          else if length stream < frame_length fh
          then Err (InsufficientBytes (frame_length fh - length stream))
          else Ok fh
      | Err e \<Rightarrow> Err e
      | Panic \<Rightarrow> Panic)"

definition read_mqtt_bytes :: "(bytes, v4_error, bytes) sm" where
  "read_mqtt_bytes = map_err error_from_prim prim_read_mqtt_bytes"

definition read_mqtt_string :: "(bytes, v4_error, rstring) sm" where
  "read_mqtt_string = map_err error_from_prim prim_read_mqtt_string"

definition write_mqtt_bytes :: "bytes \<Rightarrow> (bytes, v4_error, unit) sm" where
  "write_mqtt_bytes bs = map_err error_from_prim (prim_write_mqtt_bytes bs)"

definition write_mqtt_string :: "rstring \<Rightarrow> (bytes, v4_error, unit) sm" where
  "write_mqtt_string s =
     andThen (lift (map_outcome_err error_from_prim (validate_mqtt_string s))) (\<lambda>_.
     map_err error_from_prim (prim_write_mqtt_string s))"

definition write_remaining_length :: "nat \<Rightarrow> (bytes, v4_error, nat) sm" where
  "write_remaining_length len = map_err error_from_prim (prim_write_remaining_length len)"

definition transactional_write :: "(bytes, v4_error, 'a) sm \<Rightarrow> (bytes, v4_error, 'a) sm" where
  "transactional_write write stream =
     (let initial_len = length stream in
      case write stream of
        (Ok written, stream') \<Rightarrow> (Ok written, stream')
      | (Err error, stream') \<Rightarrow> (Err error, take initial_len stream')
      | (Panic, stream') \<Rightarrow> (Panic, stream'))"

definition qos :: "u8 \<Rightarrow> (v4_error, QoS) outcome" where
  "qos num = (case prim_qos num of Some q \<Rightarrow> Ok q | None \<Rightarrow> Err (InvalidQoS num))"

definition read_u16 :: "(bytes, v4_error, u16) sm" where
  "read_u16 = map_err error_from_prim prim_read_u16"

definition read_u8 :: "(bytes, v4_error, u8) sm" where
  "read_u8 = map_err error_from_prim prim_read_u8"

definition len_len :: "nat \<Rightarrow> nat" where
  "len_len len = prim_len_len len"

text \<open>A packet's \<open>read\<close> owns its \<open>Bytes\<close>: what is left of them is dropped with the call.\<close>

definition eval_read :: "(bytes, 'e, 'a) sm \<Rightarrow> bytes \<Rightarrow> ('e, 'a) outcome" where
  "eval_read m bs = fst (m bs)"

section \<open>Wrapped readers and writers\<close>

lemma read_u8_eq [read_eqs]: "read_u8 s = (Ok v, s') \<longleftrightarrow> s = v # s'"
  by (simp add: read_u8_def map_err_eq_Ok read_eqs)

lemma read_u16_eq [read_eqs]: "read_u16 s = (Ok v, s') \<longleftrightarrow> s = u16_be v @ s'"
  by (simp add: read_u16_def map_err_eq_Ok read_eqs)

lemma read_mqtt_bytes_eq [read_eqs]:
  "read_mqtt_bytes s = (Ok xs, s') \<longleftrightarrow> s = lp xs @ s' \<and> length xs \<le> 65535"
  by (simp add: read_mqtt_bytes_def map_err_eq_Ok read_eqs)

lemma read_mqtt_string_eq [read_eqs]:
  "read_mqtt_string s = (Ok xs, s') \<longleftrightarrow> s = lp xs @ s' \<and> length xs \<le> 65535 \<and> mqtt_string xs"
  by (simp add: read_mqtt_string_def map_err_eq_Ok read_eqs)

lemma qos_eq [read_eqs]: "qos n = Ok q \<longleftrightarrow> n = qos_u8 q"
  by (cases q) (auto simp: qos_def prim_qos_def split: option.splits if_splits)

lemma qos_no_panic [no_panic]: "qos n \<noteq> Panic"
  by (simp add: qos_def split: option.splits)

text \<open>Running a reader on what the matching writer produced.\<close>

lemma run_read_u8 [run_simps]: "read_u8 (v # s) = (Ok v, s)"
  by (simp add: read_eqs)

lemma run_read_u16 [run_simps]: "read_u16 (u16_be v @ s) = (Ok v, s)"
  by (simp add: read_eqs)

lemma run_read_mqtt_bytes [run_simps]:
  "length xs \<le> 65535 \<Longrightarrow> read_mqtt_bytes (lp xs @ s) = (Ok xs, s)"
  by (simp add: read_eqs)

lemma run_read_mqtt_string [run_simps]:
  "length xs \<le> 65535 \<Longrightarrow> mqtt_string xs \<Longrightarrow> read_mqtt_string (lp xs @ s) = (Ok xs, s)"
  by (simp add: read_eqs)

lemma run_advance [run_simps]: "n = length hdr \<Longrightarrow> advance n (hdr @ s) = (Ok (), s)"
  by (simp add: advance_def)

lemma run_write_mqtt_bytes [run_simps]:
  "write_mqtt_bytes xs buf =
     (if length xs \<le> 65535 then (Ok (), buf @ lp xs) else (Err PayloadTooLong, buf))"
  by (simp add: write_mqtt_bytes_def run_map_err prim_write_mqtt_bytes_run)

lemma write_mqtt_string_Ok:
  "write_mqtt_string xs buf = (Ok x, buf') \<longleftrightarrow>
     mqtt_string xs \<and> length xs \<le> 65535 \<and> buf' = buf @ lp xs"
proof (cases "validate_mqtt_string xs")
  case (Ok t)
  then show ?thesis
    using validate_mqtt_string_eq [of xs t]
    by (auto simp: write_mqtt_string_def run_map_err prim_write_mqtt_string_run)
next
  case (Err e)
  then have "\<not> mqtt_string xs"
    using validate_mqtt_string_eq [of xs xs] by auto
  with Err show ?thesis by (simp add: write_mqtt_string_def andThen_def run_simps)
next
  case Panic
  then show ?thesis using validate_mqtt_string_no_panic by blast
qed

lemma run_write_mqtt_string [run_simps]:
  "mqtt_string xs \<Longrightarrow> length xs \<le> 65535 \<Longrightarrow> write_mqtt_string xs buf = (Ok (), buf @ lp xs)"
  by (simp add: write_mqtt_string_Ok)

lemma run_write_remaining_length [run_simps]:
  "write_remaining_length len buf =
     (if len > 268435455 then (Err PayloadTooLong, buf) else (Ok (len_len len), buf @ vbi len))"
  by (simp add: write_remaining_length_def run_map_err write_remaining_length_vbi len_len_def)

lemma length_vbi_len_len: "x \<le> 268435455 \<Longrightarrow> length (vbi x) = len_len x"
  by (simp add: length_vbi len_len_def)

lemma transactional_write_Ok:
  "transactional_write w buf = (Ok x, buf') \<longleftrightarrow> w buf = (Ok x, buf')"
  by (auto simp: transactional_write_def Let_def split: prod.splits outcome.splits)

lemma transactional_write_Panic:
  "transactional_write w buf = (Panic, buf') \<longleftrightarrow> w buf = (Panic, buf')"
  by (auto simp: transactional_write_def Let_def split: prod.splits outcome.splits)

section \<open>Panic freedom and consumption\<close>

lemma wp_read_u8:
  "wp read_u8 (\<lambda>_ s'. length s = length s' + 1) (\<lambda>_ _. True) s"
  unfolding read_u8_def wp_map_err by (rule wp_mono [OF wp_prim_read_u8]) auto

lemma wp_read_u16:
  "wp read_u16 (\<lambda>_ s'. length s = length s' + 2) (\<lambda>_ _. True) s"
  unfolding read_u16_def wp_map_err by (rule wp_mono [OF wp_prim_read_u16]) auto

lemma wp_read_mqtt_bytes:
  "wp read_mqtt_bytes (\<lambda>xs s'. length s = length s' + 2 + length xs) (\<lambda>_ _. True) s"
  unfolding read_mqtt_bytes_def wp_map_err by (rule wp_mono [OF wp_prim_read_mqtt_bytes]) auto

lemma wp_read_mqtt_string:
  "wp read_mqtt_string (\<lambda>xs s'. length s = length s' + 2 + length xs) (\<lambda>_ _. True) s"
  unfolding read_mqtt_string_def wp_map_err by (rule wp_mono [OF wp_prim_read_mqtt_string]) auto

lemmas wp_readers = wp_read_u8 wp_read_u16 wp_read_mqtt_bytes wp_read_mqtt_string

lemma eval_read_Ok: "eval_read m s = Ok x \<longleftrightarrow> (\<exists>s'. m s = (Ok x, s'))"
  by (cases "m s") (simp add: eval_read_def)

lemma eval_read_no_panic: "safe m s \<Longrightarrow> eval_read m s \<noteq> Panic"
  by (simp add: eval_read_def safe_def)

lemmas safe_readers [safe_intros] = wp_readers [THEN safe_wp]

lemma safe_qos [safe_intros]: "safe (lift (qos n)) s"
  by (rule safe_lift) (rule qos_no_panic)

lemma safe_advance [safe_intros]: "n \<le> length s \<Longrightarrow> safe (advance n) s"
  by (simp add: safe_def advance_def)

lemma guard_eq_Ok [read_eqs]:
  "(if c then fail e else m) s = (Ok x, s') \<longleftrightarrow> \<not> c \<and> m s = (Ok x, s')"
  by (simp add: run_simps)

lemma run_put [run_simps]:
  "put_u8 b buf = (Ok (), buf @ [b])"
  "put_u16 v buf = (Ok (), buf @ u16_be v)"
  "put_slice xs buf = (Ok (), buf @ xs)"
  by (simp_all add: put_u8_def put_u16_def put_slice_def)

lemma andThen_put [simp]:
  "andThen (put_u8 b) k buf = k () (buf @ [b])"
  "andThen (put_u16 v) k buf = k () (buf @ u16_be v)"
  "andThen (put_slice xs) k buf = k () (buf @ xs)"
  by (simp_all add: put_u8_def put_u16_def put_slice_def)

lemma andThen_readers [simp]:
  "andThen read_u8 k (v # s) = k v s"
  "andThen read_u16 k2 (u16_be w @ s) = k2 w s"
  "length xs \<le> 65535 \<Longrightarrow> andThen read_mqtt_bytes k3 (lp xs @ s) = k3 xs s"
  "length xs \<le> 65535 \<Longrightarrow> mqtt_string xs \<Longrightarrow> andThen read_mqtt_string k3 (lp xs @ s) = k3 xs s"
  by (simp_all add: andThen_def run_simps)

lemma andThen_advance [simp]: "n = length hdr \<Longrightarrow> andThen (advance n) k (hdr @ bs) = k () bs"
  by (simp add: andThen_def run_advance)

text \<open>
  Only the frame check asks for more bytes: no field reader reports \<open>InsufficientBytes\<close>, so that
  a packet whose frame has been taken off the stream is never mistaken for an incomplete one.
\<close>

fun asks_for_bytes :: "v4_error \<Rightarrow> bool" where
  "asks_for_bytes (InsufficientBytes _) = True"
| "asks_for_bytes _ = False"

abbreviation "framed_error \<equiv> (\<lambda>e. \<not> asks_for_bytes e)"

lemma raises_get_u8 [raise_intros]: "raises E get_u8 s"
  by (cases s rule: get_u8.cases) (simp_all add: raises_def)

lemma raises_get_u16 [raise_intros]: "raises E get_u16 s"
  by (cases s rule: get_u16.cases) (simp_all add: raises_def)

lemma raises_buffer [raise_intros]: "raises E (split_to n) s" "raises E (advance n) s"
  by (simp_all add: raises_def split_to_def advance_def)

lemma raises_prim_readers:
  "raises (\<lambda>e. framed_error (error_from_prim e)) prim_read_u8 s"
  "raises (\<lambda>e. framed_error (error_from_prim e)) prim_read_u16 s"
  "raises (\<lambda>e. framed_error (error_from_prim e)) prim_read_mqtt_bytes s"
  "raises (\<lambda>e. framed_error (error_from_prim e)) prim_read_mqtt_string s"
  unfolding prim_read_mqtt_string_def prim_read_mqtt_bytes_def prim_read_u8_def prim_read_u16_def Let_def
  by (intro raise_intros; simp)+
    (intro raise_intros; auto simp: validate_mqtt_string_def split: outcome.splits if_splits)

lemma raises_readers [raise_intros]:
  "raises framed_error read_u8 s" "raises framed_error read_u16 s"
  "raises framed_error read_mqtt_bytes s" "raises framed_error read_mqtt_string s"
  unfolding read_u8_def read_u16_def read_mqtt_bytes_def read_mqtt_string_def
  by (rule raises_map_err, rule raises_prim_readers)+

lemma raises_qos [raise_intros]: "raises framed_error (lift (qos n)) s"
  by (rule raises_lift) (auto simp: qos_def split: option.splits)

lemma eval_read_raises: "\<lbrakk>raises E m s; eval_read m s = Err e\<rbrakk> \<Longrightarrow> E e"
  by (simp add: eval_read_def raises_def)

section \<open>Writers\<close>

text \<open>
  \<open>keeps n m buf\<close>: whatever its outcome, \<open>m\<close> leaves the first \<open>n\<close> bytes of the buffer in place. A
  writer that keeps the bytes it was given and does not panic is atomic under
  \<open>transactional_write\<close>.
\<close>

definition keeps :: "nat \<Rightarrow> (bytes, 'e, 'a) sm \<Rightarrow> bytes \<Rightarrow> bool" where
  "keeps n m buf \<longleftrightarrow>
     (n \<le> length buf \<longrightarrow> n \<le> length (snd (m buf)) \<and> take n (snd (m buf)) = take n buf)"

named_theorems keep_intros \<open>introduction rules for writers that keep a prefix\<close>

lemma keeps_simple [keep_intros]:
  "keeps n (ret x) buf" "keeps n (fail e) buf" "keeps n (gets f) buf" "keeps n (lift r) buf"
  "keeps n (put_u8 b) buf" "keeps n (put_u16 v) buf" "keeps n (put_slice xs) buf"
  "keeps n (write_remaining_length k) buf" "keeps n (write_mqtt_bytes xs) buf"
  by (simp_all add: keeps_def run_simps)

lemma keeps_andThen [keep_intros]:
  "\<lbrakk>keeps n m buf; \<And>x buf'. \<lbrakk>m buf = (Ok x, buf'); n \<le> length buf'\<rbrakk> \<Longrightarrow> keeps n (f x) buf'\<rbrakk>
    \<Longrightarrow> keeps n (andThen m f) buf"
  by (auto simp: keeps_def andThen_def split: prod.splits outcome.splits)

lemma keeps_if [keep_intros]:
  "\<lbrakk>c \<Longrightarrow> keeps n m buf; \<not> c \<Longrightarrow> keeps n m' buf\<rbrakk> \<Longrightarrow> keeps n (if c then m else m') buf"
  by simp

lemma keeps_map_err: "keeps n m buf \<Longrightarrow> keeps n (map_err g m) buf"
  by (simp add: keeps_def run_map_err)

lemma keeps_put_at [keep_intros]: "n \<le> i \<Longrightarrow> keeps n (put_at i b) buf"
  by (simp add: keeps_def put_at_def)

lemma keeps_write_mqtt_string [keep_intros]: "keeps n (write_mqtt_string xs) buf"
  unfolding write_mqtt_string_def
  by (intro keep_intros keeps_map_err) (auto simp: keeps_def prim_write_mqtt_string_run)

lemma keeps_transactional [keep_intros]:
  "keeps n m buf \<Longrightarrow> keeps n (transactional_write m) buf"
  by (auto simp: keeps_def transactional_write_def Let_def min_def split: prod.splits outcome.splits)

lemma keeps_for_each [keep_intros]:
  "(\<And>x buf. keeps n (f x) buf) \<Longrightarrow> keeps n (for_each f xs) buf"
  by (induction xs arbitrary: buf) (auto intro!: keep_intros)

lemma safe_writers [safe_intros]:
  "safe (put_u8 b) buf" "safe (put_u16 v) buf" "safe (put_slice xs) buf"
  "safe (write_remaining_length n) buf" "safe (write_mqtt_bytes xs) buf"
  by (simp_all add: safe_def run_simps)

lemma safe_write_mqtt_string [safe_intros]: "safe (write_mqtt_string xs) buf"
proof -
  have "map_outcome_err error_from_prim (validate_mqtt_string xs) \<noteq> Panic"
    using validate_mqtt_string_no_panic [of xs] by (cases "validate_mqtt_string xs") auto
  then show ?thesis
    unfolding write_mqtt_string_def
    by (intro safe_intros) (auto simp: safe_def prim_write_mqtt_string_run)
qed

lemma safe_transactional [safe_intros]: "safe m buf \<Longrightarrow> safe (transactional_write m) buf"
  by (auto simp: safe_def transactional_write_def Let_def split: prod.splits outcome.splits)

lemma safe_for_each [safe_intros]:
  "(\<And>x buf. safe (f x) buf) \<Longrightarrow> safe (for_each f xs) buf"
  by (induction xs arbitrary: buf) (auto intro!: safe_intros)

lemma transactional_atomic:
  assumes "safe w buf" and "keeps (length buf) w buf" and "\<And>n buf'. w buf \<noteq> (Ok n, buf')"
  shows "\<exists>e. transactional_write w buf = (Err e, buf)"
  using assms by (cases "w buf"; cases "fst (w buf)")
    (auto simp: safe_def keeps_def transactional_write_def)

section \<open>The interface of a packet type\<close>

text \<open>
  What \<open>Packet\<close> relies on for each of its payload-carrying variants. A packet's wire image is its
  first byte, the encoded length of its body, and the body. \<open>wr\<close> produces exactly this image
  for the packets it accepts and leaves the buffer alone otherwise; \<open>rd\<close> accepts exactly the
  bodies of the packets it can return. \<open>norm\<close> is what a reader can recover of a written packet.
\<close>

definition wire :: "u8 \<Rightarrow> bytes \<Rightarrow> bytes" where
  "wire b bs = b # vbi (length bs) @ bs"

definition max_remaining_len :: nat where
  "max_remaining_len = 268435455"

locale packet_codec =
  fixes wr :: "'p \<Rightarrow> (bytes, v4_error, nat) sm"
    and rd :: "FixedHeader \<Rightarrow> bytes \<Rightarrow> (v4_error, 'p) outcome"
    and sz :: "'p \<Rightarrow> nat"
    and first_byte :: "'p \<Rightarrow> u8"
    and body :: "'p \<Rightarrow> bytes"
    and writable :: "'p \<Rightarrow> bool"
    and readable :: "'p \<Rightarrow> bool"
    and norm :: "'p \<Rightarrow> 'p"
    and header_ok :: "u8 \<Rightarrow> bool"
  assumes write_ok: "\<lbrakk>writable p; length (body p) \<le> max_remaining_len\<rbrakk>
      \<Longrightarrow> wr p buf = (Ok (sz p), buf @ wire (first_byte p) (body p))"
    and write_err: "\<not> (writable p \<and> length (body p) \<le> max_remaining_len)
      \<Longrightarrow> \<exists>e. wr p buf = (Err e, buf)"
    and size_body: "writable p \<Longrightarrow> sz p = 1 + len_len (length (body p)) + length (body p)"
    and body_not_Nil: "body p \<noteq> []"
    and first_byte_ok: "header_ok (first_byte p)"
    and read_iff: "\<lbrakk>header_ok (byte1 fh); header_len fh = length hdr; remaining_len fh = length bs\<rbrakk>
      \<Longrightarrow> rd fh (hdr @ bs) = Ok p \<longleftrightarrow> byte1 fh = first_byte p \<and> readable p \<and> bs = body p"
    and read_no_panic: "\<lbrakk>header_len fh = length hdr; remaining_len fh = length bs\<rbrakk>
      \<Longrightarrow> rd fh (hdr @ bs) \<noteq> Panic"
    and read_framed: "\<lbrakk>header_len fh = length hdr; rd fh (hdr @ bs) = Err e\<rbrakk> \<Longrightarrow> framed_error e"
    and norm_readable: "writable p \<Longrightarrow> readable (norm p)"
    and norm_body: "writable p \<Longrightarrow> body (norm p) = body p"
    and norm_first_byte: "writable p \<Longrightarrow> first_byte (norm p) = first_byte p"
begin

lemma write_Ok_iff:
  "wr p buf = (Ok n, buf') \<longleftrightarrow>
     writable p \<and> length (body p) \<le> max_remaining_len \<and> n = sz p
     \<and> buf' = buf @ wire (first_byte p) (body p)"
  using write_ok [of p buf] write_err [of p buf]
  by (cases "writable p \<and> length (body p) \<le> max_remaining_len") auto

lemma write_not_panic: "fst (wr p buf) \<noteq> Panic"
  using write_ok [of p buf] write_err [of p buf]
  by (cases "writable p \<and> length (body p) \<le> max_remaining_len") auto

lemma write_Err_buf: "wr p buf = (Err e, buf') \<Longrightarrow> buf' = buf"
  using write_ok [of p buf] write_err [of p buf]
  by (cases "writable p \<and> length (body p) \<le> max_remaining_len") auto

lemma length_wire_size:
  "\<lbrakk>writable p; length (body p) \<le> max_remaining_len\<rbrakk>
    \<Longrightarrow> length (wire (first_byte p) (body p)) = sz p"
  by (simp add: wire_def size_body length_vbi_len_len max_remaining_len_def)

lemma read_written:
  "\<lbrakk>writable p; byte1 fh = first_byte p; header_len fh = length hdr; remaining_len fh = length (body p)\<rbrakk>
    \<Longrightarrow> rd fh (hdr @ body p) = Ok (norm p)"
  using read_iff [of fh hdr "body p" "norm p"]
  by (simp add: first_byte_ok norm_readable norm_body norm_first_byte)

end

end
