(* ===== verification/V4_Acks.thy ===== *)
theory V4_Acks
  imports V4_Base
begin

text \<open>
  The acknowledgement packets of MQTT 3.1.1 (\<open>mqttbytes-v4/src/v4/\<close>): PUBACK, PUBREC, PUBREL,
  PUBCOMP, UNSUBACK, CONNACK and SUBACK, and the packets without a body. Each interprets
  \<open>packet_codec\<close>.
\<close>

section \<open>Definitions\<close>

text \<open>\<open>PubAck\<close> (\<open>puback.rs\<close>).\<close>

record PubAck = puback_pkid :: u16

definition PubAck_new :: "u16 \<Rightarrow> PubAck" where
  "PubAck_new pkid = \<lparr>puback_pkid = pkid\<rparr>"

definition PubAck_len :: nat where
  "PubAck_len = 2"

definition PubAck_size :: "PubAck \<Rightarrow> nat" where
  "PubAck_size self = (let len = PubAck_len; remaining_len_size = len_len len in 1 + remaining_len_size + len)"

definition PubAck_read :: "FixedHeader \<Rightarrow> bytes \<Rightarrow> (v4_error, PubAck) outcome" where
  "PubAck_read fixed_header = eval_read
     (if remaining_len fixed_header \<noteq> PubAck_len then fail PayloadSizeIncorrect
      else andThen (advance (header_len fixed_header)) (\<lambda>_.
           andThen read_u16 (\<lambda>pkid.
           if pkid = 0 then fail PacketIdZero
           else ret \<lparr>puback_pkid = pkid\<rparr>)))"

definition PubAck_write :: "PubAck \<Rightarrow> (bytes, v4_error, nat) sm" where
  "PubAck_write self =
     (if puback_pkid self = 0 then fail PacketIdZero
      else let len = PubAck_len in
           andThen (put_u8 0x40) (\<lambda>_.
           andThen (write_remaining_length len) (\<lambda>count.
           andThen (put_u16 (puback_pkid self)) (\<lambda>_.
           ret (1 + count + len)))))"

text \<open>\<open>PubRec\<close> (\<open>pubrec.rs\<close>).\<close>

record PubRec = pubrec_pkid :: u16

definition PubRec_new :: "u16 \<Rightarrow> PubRec" where
  "PubRec_new pkid = \<lparr>pubrec_pkid = pkid\<rparr>"

definition PubRec_len :: nat where
  "PubRec_len = 2"

definition PubRec_size :: "PubRec \<Rightarrow> nat" where
  "PubRec_size self = (let len = PubRec_len; remaining_len_size = len_len len in 1 + remaining_len_size + len)"

definition PubRec_read :: "FixedHeader \<Rightarrow> bytes \<Rightarrow> (v4_error, PubRec) outcome" where
  "PubRec_read fixed_header = eval_read
     (if remaining_len fixed_header \<noteq> PubRec_len then fail PayloadSizeIncorrect
      else andThen (advance (header_len fixed_header)) (\<lambda>_.
           andThen read_u16 (\<lambda>pkid.
           if pkid = 0 then fail PacketIdZero
           else ret \<lparr>pubrec_pkid = pkid\<rparr>)))"

definition PubRec_write :: "PubRec \<Rightarrow> (bytes, v4_error, nat) sm" where
  "PubRec_write self =
     (if pubrec_pkid self = 0 then fail PacketIdZero
      else let len = PubRec_len in
           andThen (put_u8 0x50) (\<lambda>_.
           andThen (write_remaining_length len) (\<lambda>count.
           andThen (put_u16 (pubrec_pkid self)) (\<lambda>_.
           ret (1 + count + len)))))"

text \<open>\<open>PubRel\<close> (\<open>pubrel.rs\<close>).\<close>

record PubRel = pubrel_pkid :: u16

definition PubRel_new :: "u16 \<Rightarrow> PubRel" where
  "PubRel_new pkid = \<lparr>pubrel_pkid = pkid\<rparr>"

definition PubRel_len :: nat where
  "PubRel_len = 2"

definition PubRel_size :: "PubRel \<Rightarrow> nat" where
  "PubRel_size self = (let len = PubRel_len; remaining_len_size = len_len len in 1 + remaining_len_size + len)"

definition PubRel_read :: "FixedHeader \<Rightarrow> bytes \<Rightarrow> (v4_error, PubRel) outcome" where
  "PubRel_read fixed_header = eval_read
     (if remaining_len fixed_header \<noteq> PubRel_len then fail PayloadSizeIncorrect
      else andThen (advance (header_len fixed_header)) (\<lambda>_.
           andThen read_u16 (\<lambda>pkid.
           if pkid = 0 then fail PacketIdZero
           else ret \<lparr>pubrel_pkid = pkid\<rparr>)))"

definition PubRel_write :: "PubRel \<Rightarrow> (bytes, v4_error, nat) sm" where
  "PubRel_write self =
     (if pubrel_pkid self = 0 then fail PacketIdZero
      else let len = PubRel_len in
           andThen (put_u8 0x62) (\<lambda>_.
           andThen (write_remaining_length len) (\<lambda>count.
           andThen (put_u16 (pubrel_pkid self)) (\<lambda>_.
           ret (1 + count + len)))))"

text \<open>\<open>PubComp\<close> (\<open>pubcomp.rs\<close>).\<close>

record PubComp = pubcomp_pkid :: u16

definition PubComp_new :: "u16 \<Rightarrow> PubComp" where
  "PubComp_new pkid = \<lparr>pubcomp_pkid = pkid\<rparr>"

definition PubComp_len :: nat where
  "PubComp_len = 2"

definition PubComp_size :: "PubComp \<Rightarrow> nat" where
  "PubComp_size self = (let len = PubComp_len; remaining_len_size = len_len len in 1 + remaining_len_size + len)"

definition PubComp_read :: "FixedHeader \<Rightarrow> bytes \<Rightarrow> (v4_error, PubComp) outcome" where
  "PubComp_read fixed_header = eval_read
     (if remaining_len fixed_header \<noteq> PubComp_len then fail PayloadSizeIncorrect
      else andThen (advance (header_len fixed_header)) (\<lambda>_.
           andThen read_u16 (\<lambda>pkid.
           if pkid = 0 then fail PacketIdZero
           else ret \<lparr>pubcomp_pkid = pkid\<rparr>)))"

definition PubComp_write :: "PubComp \<Rightarrow> (bytes, v4_error, nat) sm" where
  "PubComp_write self =
     (if pubcomp_pkid self = 0 then fail PacketIdZero
      else let len = PubComp_len in
           andThen (put_u8 0x70) (\<lambda>_.
           andThen (write_remaining_length len) (\<lambda>count.
           andThen (put_u16 (pubcomp_pkid self)) (\<lambda>_.
           ret (1 + count + len)))))"

text \<open>\<open>UnsubAck\<close> (\<open>unsuback.rs\<close>).\<close>

record UnsubAck = unsuback_pkid :: u16

definition UnsubAck_new :: "u16 \<Rightarrow> UnsubAck" where
  "UnsubAck_new pkid = \<lparr>unsuback_pkid = pkid\<rparr>"

definition UnsubAck_size :: "UnsubAck \<Rightarrow> nat" where
  "UnsubAck_size self = 4"

definition UnsubAck_read :: "FixedHeader \<Rightarrow> bytes \<Rightarrow> (v4_error, UnsubAck) outcome" where
  "UnsubAck_read fixed_header = eval_read
     (if remaining_len fixed_header \<noteq> 2 then fail PayloadSizeIncorrect
      else andThen (advance (header_len fixed_header)) (\<lambda>_.
           andThen read_u16 (\<lambda>pkid.
           if pkid = 0 then fail PacketIdZero
           else ret \<lparr>unsuback_pkid = pkid\<rparr>)))"

definition UnsubAck_write :: "UnsubAck \<Rightarrow> (bytes, v4_error, nat) sm" where
  "UnsubAck_write self =
     (if unsuback_pkid self = 0 then fail PacketIdZero
      else andThen (put_slice [0xB0, 0x02]) (\<lambda>_.
           andThen (put_u16 (unsuback_pkid self)) (\<lambda>_.
           ret 4)))"

text \<open>\<open>ConnAck\<close> (\<open>connack.rs\<close>).\<close>

datatype ConnectReturnCode =
    ConnSuccess | RefusedProtocolVersion | BadClientId | ServiceUnavailable
  | BadUserNamePassword | NotAuthorized

fun ConnectReturnCode_u8 :: "ConnectReturnCode \<Rightarrow> u8" where
  "ConnectReturnCode_u8 ConnSuccess = 0"
| "ConnectReturnCode_u8 RefusedProtocolVersion = 1"
| "ConnectReturnCode_u8 BadClientId = 2"
| "ConnectReturnCode_u8 ServiceUnavailable = 3"
| "ConnectReturnCode_u8 BadUserNamePassword = 4"
| "ConnectReturnCode_u8 NotAuthorized = 5"

record ConnAck =
  session_present :: bool
  connack_code :: ConnectReturnCode

definition ConnAck_new :: "ConnectReturnCode \<Rightarrow> bool \<Rightarrow> ConnAck" where
  "ConnAck_new code present = \<lparr>session_present = present, connack_code = code\<rparr>"

definition ConnAck_len :: nat where
  "ConnAck_len = 1 + 1"

definition connect_return :: "u8 \<Rightarrow> (v4_error, ConnectReturnCode) outcome" where
  "connect_return num =
     (if num = 0 then Ok ConnSuccess
      else if num = 1 then Ok RefusedProtocolVersion
      else if num = 2 then Ok BadClientId
      else if num = 3 then Ok ServiceUnavailable
      else if num = 4 then Ok BadUserNamePassword
      else if num = 5 then Ok NotAuthorized
      else Err (InvalidConnectReturnCode num))"

definition ConnAck_read :: "FixedHeader \<Rightarrow> bytes \<Rightarrow> (v4_error, ConnAck) outcome" where
  "ConnAck_read fixed_header = eval_read
     (if remaining_len fixed_header \<noteq> ConnAck_len then fail PayloadSizeIncorrect
      else andThen (advance (header_len fixed_header)) (\<lambda>_.
           andThen read_u8 (\<lambda>flags.
           andThen read_u8 (\<lambda>return_code.
           if flags AND 0xFE \<noteq> 0 then fail IncorrectPacketFormat
           else let present = (flags AND 0x01 = 1) in
                andThen (lift (connect_return return_code)) (\<lambda>code.
                if code \<noteq> ConnSuccess \<and> present then fail IncorrectPacketFormat
                else ret \<lparr>session_present = present, connack_code = code\<rparr>)))))"

definition ConnAck_write :: "ConnAck \<Rightarrow> (bytes, v4_error, nat) sm" where
  "ConnAck_write self =
     (if connack_code self \<noteq> ConnSuccess \<and> session_present self then fail IncorrectPacketFormat
      else let len = ConnAck_len in
           andThen (put_u8 0x20) (\<lambda>_.
           andThen (write_remaining_length len) (\<lambda>count.
           andThen (put_u8 (of_bool (session_present self))) (\<lambda>_.
           andThen (put_u8 (ConnectReturnCode_u8 (connack_code self))) (\<lambda>_.
           ret (1 + count + len))))))"

definition ConnAck_size :: "ConnAck \<Rightarrow> nat" where
  "ConnAck_size self = (let len = ConnAck_len; remaining_len_size = len_len len in 1 + remaining_len_size + len)"

text \<open>\<open>SubAck\<close> (\<open>suback.rs\<close>).\<close>

datatype SubscribeReasonCode = SubSuccess QoS | SubFailure

record SubAck =
  suback_pkid :: u16
  return_codes :: "SubscribeReasonCode list"

definition SubAck_new :: "u16 \<Rightarrow> SubscribeReasonCode list \<Rightarrow> SubAck" where
  "SubAck_new pkid codes = \<lparr>suback_pkid = pkid, return_codes = codes\<rparr>"

definition SubAck_len :: "SubAck \<Rightarrow> nat" where
  "SubAck_len self = 2 + length (return_codes self)"

definition SubAck_size :: "SubAck \<Rightarrow> nat" where
  "SubAck_size self = (let len = SubAck_len self; remaining_len_size = len_len len in 1 + remaining_len_size + len)"

definition SubscribeReasonCode_try_from :: "u8 \<Rightarrow> (v4_error, SubscribeReasonCode) outcome" where
  "SubscribeReasonCode_try_from v =
     (if v = 0 then Ok (SubSuccess AtMostOnce)
      else if v = 1 then Ok (SubSuccess AtLeastOnce)
      else if v = 2 then Ok (SubSuccess ExactlyOnce)
      else if v = 128 then Ok SubFailure
      else Err (InvalidSubscribeReasonCode v))"

fun SubAck_read_codes :: "SubscribeReasonCode list \<Rightarrow> (bytes, v4_error, SubscribeReasonCode list) sm" where
  "SubAck_read_codes codes [] = (Ok codes, [])"
| "SubAck_read_codes codes (return_code # bs) =
     (case SubscribeReasonCode_try_from return_code of
        Ok code \<Rightarrow> SubAck_read_codes (codes @ [code]) bs
      | Err e \<Rightarrow> (Err e, bs)
      | Panic \<Rightarrow> (Panic, bs))"

definition SubAck_read :: "FixedHeader \<Rightarrow> bytes \<Rightarrow> (v4_error, SubAck) outcome" where
  "SubAck_read fixed_header = eval_read
     (andThen (advance (header_len fixed_header)) (\<lambda>_.
      andThen read_u16 (\<lambda>pkid.
      if pkid = 0 then fail PacketIdZero
      else andThen (gets (\<lambda>bs. bs \<noteq> [])) (\<lambda>has_remaining.
           if \<not> has_remaining then fail MalformedPacket
           else andThen (SubAck_read_codes []) (\<lambda>codes.
                ret \<lparr>suback_pkid = pkid, return_codes = codes\<rparr>)))))"

fun SubscribeReasonCode_u8 :: "SubscribeReasonCode \<Rightarrow> u8" where
  "SubscribeReasonCode_u8 (SubSuccess q) = qos_u8 q"
| "SubscribeReasonCode_u8 SubFailure = 0x80"

definition SubAck_write_inner :: "SubAck \<Rightarrow> (bytes, v4_error, nat) sm" where
  "SubAck_write_inner self =
     (if suback_pkid self = 0 then fail PacketIdZero
      else if return_codes self = [] then fail PayloadRequired
      else andThen (put_u8 0x90) (\<lambda>_.
           let remaining_len = SubAck_len self in
           andThen (write_remaining_length remaining_len) (\<lambda>remaining_len_bytes.
           andThen (put_u16 (suback_pkid self)) (\<lambda>_.
           let p = map SubscribeReasonCode_u8 (return_codes self) in
           andThen (put_slice p) (\<lambda>_.
           ret (1 + remaining_len_bytes + remaining_len))))))"

definition SubAck_write :: "SubAck \<Rightarrow> (bytes, v4_error, nat) sm" where
  "SubAck_write self = transactional_write (SubAck_write_inner self)"

text \<open>Packets without a body (\<open>ping.rs\<close>, \<open>disconnect.rs\<close>).\<close>

definition PingReq_size :: nat where
  "PingReq_size = 2"

definition PingReq_write :: "(bytes, v4_error, nat) sm" where
  "PingReq_write = write_pingreq"

definition PingResp_size :: nat where
  "PingResp_size = 2"

definition PingResp_write :: "(bytes, v4_error, nat) sm" where
  "PingResp_write = write_pingresp"

definition Disconnect_size :: nat where
  "Disconnect_size = 2"

definition Disconnect_write :: "(bytes, v4_error, nat) sm" where
  "Disconnect_write = andThen (put_slice [0xE0, 0x00]) (\<lambda>_. ret 2)"

section \<open>The packet interface\<close>

lemma short_body [simp]:
  "len_len 2 = 1" "vbi 2 = [2]" "(2::nat) \<le> max_remaining_len"
  "len_len (Suc (Suc 0)) = 1" "vbi (Suc (Suc 0)) = [2]" "Suc (Suc 0) \<le> max_remaining_len"
  by (simp_all add: len_len_def prim_len_len_def vbi.simps max_remaining_len_def)

lemma u16_be_not_Nil [simp]: "u16_be v \<noteq> []"
  by (simp add: u16_be_def)

text \<open>The five acknowledgements that carry a packet identifier only share their shape.\<close>

lemma pkid_read_iff:
  assumes "header_len fh = length hdr" and "remaining_len fh = length bs"
  shows "eval_read (if remaining_len fh \<noteq> 2 then fail PayloadSizeIncorrect
      else andThen (advance (header_len fh)) (\<lambda>_. andThen read_u16 (\<lambda>pkid.
           if pkid = 0 then fail PacketIdZero else ret (mk pkid)))) (hdr @ bs) = Ok p
    \<longleftrightarrow> (\<exists>v. v \<noteq> 0 \<and> mk v = p \<and> bs = u16_be v)"
  using assms by (auto simp: eval_read_Ok andThen_eq_Ok read_eqs run_simps split: if_splits)

lemma pkid_read_no_panic:
  assumes "header_len fh = length hdr"
  shows "eval_read (if remaining_len fh \<noteq> 2 then fail PayloadSizeIncorrect
      else andThen (advance (header_len fh)) (\<lambda>_. andThen read_u16 (\<lambda>pkid.
           if pkid = 0 then fail PacketIdZero else ret (mk pkid)))) (hdr @ bs) \<noteq> Panic"
  using assms by (intro eval_read_no_panic safe_intros) simp_all

lemma pkid_read_framed:
  assumes "header_len fh = length hdr"
    and "eval_read (if remaining_len fh \<noteq> 2 then fail PayloadSizeIncorrect
      else andThen (advance (header_len fh)) (\<lambda>_. andThen read_u16 (\<lambda>pkid.
           if pkid = 0 then fail PacketIdZero else ret (mk pkid)))) (hdr @ bs) = Err e"
  shows "framed_error e"
  using assms(2) by (rule eval_read_raises [rotated]) (intro raise_intros; simp)

lemma pkid_write:
  "(if pkid = 0 then fail PacketIdZero
    else andThen (put_u8 b) (\<lambda>_. andThen (write_remaining_length 2) (\<lambda>count.
         andThen (put_u16 pkid) (\<lambda>_. ret (1 + count + 2))))) buf
   = (if pkid = 0 then (Err PacketIdZero, buf) else (Ok 4, buf @ wire b (u16_be pkid)))"
  by (simp add: andThen_def run_simps wire_def)

lemma PubAck_write_run:
  "PubAck_write p buf =
     (if puback_pkid p = 0 then (Err PacketIdZero, buf) else (Ok 4, buf @ wire 0x40 (u16_be (puback_pkid p))))"
  unfolding PubAck_write_def PubAck_len_def Let_def by (rule pkid_write)

lemma PubAck_read_iff:
  assumes "header_len fh = length hdr" and "remaining_len fh = length bs"
  shows "PubAck_read fh (hdr @ bs) = Ok p \<longleftrightarrow> puback_pkid p \<noteq> 0 \<and> bs = u16_be (puback_pkid p)"
  unfolding PubAck_read_def PubAck_len_def pkid_read_iff [OF assms] by (cases p) auto

lemma PubAck_read_no_panic: "header_len fh = length hdr \<Longrightarrow> PubAck_read fh (hdr @ bs) \<noteq> Panic"
  unfolding PubAck_read_def PubAck_len_def by (rule pkid_read_no_panic)

lemma PubAck_read_framed: "\<lbrakk>header_len fh = length hdr; PubAck_read fh (hdr @ bs) = Err e\<rbrakk> \<Longrightarrow> framed_error e"
  unfolding PubAck_read_def PubAck_len_def by (rule pkid_read_framed)

interpretation puback: packet_codec PubAck_write PubAck_read PubAck_size "\<lambda>_. 0x40"
  "\<lambda>p. u16_be (puback_pkid p)" "\<lambda>p. puback_pkid p \<noteq> 0" "\<lambda>p. puback_pkid p \<noteq> 0" id "\<lambda>b. b = 0x40"
  by unfold_locales
    (auto simp: PubAck_write_run PubAck_size_def PubAck_len_def PubAck_read_iff PubAck_read_no_panic
      dest: PubAck_read_framed)

lemma PubRec_write_run:
  "PubRec_write p buf =
     (if pubrec_pkid p = 0 then (Err PacketIdZero, buf) else (Ok 4, buf @ wire 0x50 (u16_be (pubrec_pkid p))))"
  unfolding PubRec_write_def PubRec_len_def Let_def by (rule pkid_write)

lemma PubRec_read_iff:
  assumes "header_len fh = length hdr" and "remaining_len fh = length bs"
  shows "PubRec_read fh (hdr @ bs) = Ok p \<longleftrightarrow> pubrec_pkid p \<noteq> 0 \<and> bs = u16_be (pubrec_pkid p)"
  unfolding PubRec_read_def PubRec_len_def pkid_read_iff [OF assms] by (cases p) auto

lemma PubRec_read_no_panic: "header_len fh = length hdr \<Longrightarrow> PubRec_read fh (hdr @ bs) \<noteq> Panic"
  unfolding PubRec_read_def PubRec_len_def by (rule pkid_read_no_panic)

lemma PubRec_read_framed: "\<lbrakk>header_len fh = length hdr; PubRec_read fh (hdr @ bs) = Err e\<rbrakk> \<Longrightarrow> framed_error e"
  unfolding PubRec_read_def PubRec_len_def by (rule pkid_read_framed)

interpretation pubrec: packet_codec PubRec_write PubRec_read PubRec_size "\<lambda>_. 0x50"
  "\<lambda>p. u16_be (pubrec_pkid p)" "\<lambda>p. pubrec_pkid p \<noteq> 0" "\<lambda>p. pubrec_pkid p \<noteq> 0" id "\<lambda>b. b = 0x50"
  by unfold_locales
    (auto simp: PubRec_write_run PubRec_size_def PubRec_len_def PubRec_read_iff PubRec_read_no_panic
      dest: PubRec_read_framed)

lemma PubRel_write_run:
  "PubRel_write p buf =
     (if pubrel_pkid p = 0 then (Err PacketIdZero, buf) else (Ok 4, buf @ wire 0x62 (u16_be (pubrel_pkid p))))"
  unfolding PubRel_write_def PubRel_len_def Let_def by (rule pkid_write)

lemma PubRel_read_iff:
  assumes "header_len fh = length hdr" and "remaining_len fh = length bs"
  shows "PubRel_read fh (hdr @ bs) = Ok p \<longleftrightarrow> pubrel_pkid p \<noteq> 0 \<and> bs = u16_be (pubrel_pkid p)"
  unfolding PubRel_read_def PubRel_len_def pkid_read_iff [OF assms] by (cases p) auto

lemma PubRel_read_no_panic: "header_len fh = length hdr \<Longrightarrow> PubRel_read fh (hdr @ bs) \<noteq> Panic"
  unfolding PubRel_read_def PubRel_len_def by (rule pkid_read_no_panic)

lemma PubRel_read_framed: "\<lbrakk>header_len fh = length hdr; PubRel_read fh (hdr @ bs) = Err e\<rbrakk> \<Longrightarrow> framed_error e"
  unfolding PubRel_read_def PubRel_len_def by (rule pkid_read_framed)

interpretation pubrel: packet_codec PubRel_write PubRel_read PubRel_size "\<lambda>_. 0x62"
  "\<lambda>p. u16_be (pubrel_pkid p)" "\<lambda>p. pubrel_pkid p \<noteq> 0" "\<lambda>p. pubrel_pkid p \<noteq> 0" id "\<lambda>b. b = 0x62"
  by unfold_locales
    (auto simp: PubRel_write_run PubRel_size_def PubRel_len_def PubRel_read_iff PubRel_read_no_panic
      dest: PubRel_read_framed)

lemma PubComp_write_run:
  "PubComp_write p buf =
     (if pubcomp_pkid p = 0 then (Err PacketIdZero, buf) else (Ok 4, buf @ wire 0x70 (u16_be (pubcomp_pkid p))))"
  unfolding PubComp_write_def PubComp_len_def Let_def by (rule pkid_write)

lemma PubComp_read_iff:
  assumes "header_len fh = length hdr" and "remaining_len fh = length bs"
  shows "PubComp_read fh (hdr @ bs) = Ok p \<longleftrightarrow> pubcomp_pkid p \<noteq> 0 \<and> bs = u16_be (pubcomp_pkid p)"
  unfolding PubComp_read_def PubComp_len_def pkid_read_iff [OF assms] by (cases p) auto

lemma PubComp_read_no_panic: "header_len fh = length hdr \<Longrightarrow> PubComp_read fh (hdr @ bs) \<noteq> Panic"
  unfolding PubComp_read_def PubComp_len_def by (rule pkid_read_no_panic)

lemma PubComp_read_framed: "\<lbrakk>header_len fh = length hdr; PubComp_read fh (hdr @ bs) = Err e\<rbrakk> \<Longrightarrow> framed_error e"
  unfolding PubComp_read_def PubComp_len_def by (rule pkid_read_framed)

interpretation pubcomp: packet_codec PubComp_write PubComp_read PubComp_size "\<lambda>_. 0x70"
  "\<lambda>p. u16_be (pubcomp_pkid p)" "\<lambda>p. pubcomp_pkid p \<noteq> 0" "\<lambda>p. pubcomp_pkid p \<noteq> 0" id "\<lambda>b. b = 0x70"
  by unfold_locales
    (auto simp: PubComp_write_run PubComp_size_def PubComp_len_def PubComp_read_iff PubComp_read_no_panic
      dest: PubComp_read_framed)

lemma UnsubAck_write_run:
  "UnsubAck_write p buf =
     (if unsuback_pkid p = 0 then (Err PacketIdZero, buf) else (Ok 4, buf @ wire 0xB0 (u16_be (unsuback_pkid p))))"
  by (simp add: UnsubAck_write_def run_simps wire_def)

lemma UnsubAck_read_iff:
  assumes "header_len fh = length hdr" and "remaining_len fh = length bs"
  shows "UnsubAck_read fh (hdr @ bs) = Ok p \<longleftrightarrow> unsuback_pkid p \<noteq> 0 \<and> bs = u16_be (unsuback_pkid p)"
  unfolding UnsubAck_read_def pkid_read_iff [OF assms] by (cases p) auto

lemma UnsubAck_read_no_panic: "header_len fh = length hdr \<Longrightarrow> UnsubAck_read fh (hdr @ bs) \<noteq> Panic"
  unfolding UnsubAck_read_def by (rule pkid_read_no_panic)

lemma UnsubAck_read_framed: "\<lbrakk>header_len fh = length hdr; UnsubAck_read fh (hdr @ bs) = Err e\<rbrakk> \<Longrightarrow> framed_error e"
  unfolding UnsubAck_read_def by (rule pkid_read_framed)

interpretation unsuback: packet_codec UnsubAck_write UnsubAck_read UnsubAck_size "\<lambda>_. 0xB0"
  "\<lambda>p. u16_be (unsuback_pkid p)" "\<lambda>p. unsuback_pkid p \<noteq> 0" "\<lambda>p. unsuback_pkid p \<noteq> 0" id "\<lambda>b. b = 0xB0"
  by unfold_locales
    (auto simp: UnsubAck_write_run UnsubAck_size_def UnsubAck_read_iff UnsubAck_read_no_panic
      dest: UnsubAck_read_framed)

text \<open>CONNACK.\<close>

lemma u8_and_255 [simp]: "(b::u8) AND 255 = b"
proof -
  have "(255::u8) = - 1" by simp
  then show ?thesis by (metis and.right_neutral)
qed

lemma u8_single_bit: "(b::u8) AND 2 ^ n = 0 \<or> b AND 2 ^ n = 2 ^ n"
  by (cases "bit b n") (auto intro!: bit_eqI simp: bit_and_iff bit_exp_iff)

lemma u8_split_bits: "((b::u8) AND m) OR (b AND n) = b AND (m OR n)"
  by (simp add: bit.conj_disj_distrib)

lemma connack_flags: "(b::u8) AND 0xFE = 0 \<longleftrightarrow> b = of_bool (b AND 1 = 1)"
proof
  assume "b AND 0xFE = 0"
  then have "b AND 1 = b"
    using u8_split_bits [of b "0xFE" 1] by simp
  then show "b = of_bool (b AND 1 = 1)"
    using u8_single_bit [of b 0] by auto
next
  assume "b = of_bool (b AND 1 = 1)"
  then show "b AND 0xFE = 0"
    by (cases "b AND 1 = 1") auto
qed

lemma of_bool_and_1 [simp]: "((of_bool c :: u8) AND 1 = 1) = c"
  by (cases c) simp_all

lemma connect_return_eq: "connect_return n = Ok c \<longleftrightarrow> n = ConnectReturnCode_u8 c"
  by (cases c) (auto simp: connect_return_def)

lemma connect_return_no_panic: "connect_return n \<noteq> Panic"
  by (simp add: connect_return_def)

definition ConnAck_ok :: "ConnAck \<Rightarrow> bool" where
  "ConnAck_ok p \<longleftrightarrow> connack_code p = ConnSuccess \<or> \<not> session_present p"

definition ConnAck_body :: "ConnAck \<Rightarrow> bytes" where
  "ConnAck_body p = [of_bool (session_present p), ConnectReturnCode_u8 (connack_code p)]"

lemma ConnAck_write_run:
  "ConnAck_write p buf =
     (if ConnAck_ok p then (Ok 4, buf @ wire 0x20 (ConnAck_body p)) else (Err IncorrectPacketFormat, buf))"
  by (simp add: ConnAck_write_def ConnAck_len_def ConnAck_ok_def ConnAck_body_def andThen_def
      run_simps wire_def)

lemma ConnAck_read_iff:
  assumes "header_len fh = length hdr" and "remaining_len fh = length bs"
  shows "ConnAck_read fh (hdr @ bs) = Ok p \<longleftrightarrow> ConnAck_ok p \<and> bs = ConnAck_body p"
proof
  assume "ConnAck_read fh (hdr @ bs) = Ok p"
  then show "ConnAck_ok p \<and> bs = ConnAck_body p"
    using assms
    by (auto simp: ConnAck_read_def ConnAck_len_def eval_read_Ok andThen_eq_Ok read_eqs run_simps
        ConnAck_ok_def ConnAck_body_def connack_flags connect_return_eq)
next
  assume "ConnAck_ok p \<and> bs = ConnAck_body p"
  then show "ConnAck_read fh (hdr @ bs) = Ok p"
    using assms connect_return_eq [of "ConnectReturnCode_u8 (connack_code p)" "connack_code p"]
    by (cases "session_present p")
      (auto simp: ConnAck_read_def ConnAck_len_def eval_read_def
        run_simps ConnAck_ok_def ConnAck_body_def)
qed

lemma ConnAck_read_no_panic:
  assumes "header_len fh = length hdr"
  shows "ConnAck_read fh (hdr @ bs) \<noteq> Panic"
  using assms unfolding ConnAck_read_def Let_def
  by (intro eval_read_no_panic safe_intros) (simp_all add: connect_return_no_panic)

lemma ConnAck_read_framed:
  assumes "ConnAck_read fh bs = Err e"
  shows "framed_error e"
  using assms unfolding ConnAck_read_def Let_def
  by (rule eval_read_raises [rotated])
    (intro raise_intros; auto simp: connect_return_def split: if_splits)

interpretation connack: packet_codec ConnAck_write ConnAck_read ConnAck_size "\<lambda>_. 0x20"
  ConnAck_body ConnAck_ok ConnAck_ok id "\<lambda>b. b = 0x20"
  by unfold_locales
    (auto simp: ConnAck_write_run ConnAck_size_def ConnAck_len_def ConnAck_body_def
      ConnAck_read_iff ConnAck_read_no_panic dest: ConnAck_read_framed)

text \<open>SUBACK.\<close>

lemma SubscribeReasonCode_eq:
  "SubscribeReasonCode_try_from v = Ok c \<longleftrightarrow> v = SubscribeReasonCode_u8 c"
proof (cases c)
  case (SubSuccess q)
  then show ?thesis by (cases q) (auto simp: SubscribeReasonCode_try_from_def)
next
  case SubFailure
  then show ?thesis by (auto simp: SubscribeReasonCode_try_from_def)
qed

lemma SubAck_read_codes_eq:
  "SubAck_read_codes acc bs = (Ok codes, bs') \<longleftrightarrow>
     (\<exists>cs. codes = acc @ cs \<and> bs = map SubscribeReasonCode_u8 cs \<and> bs' = [])"
proof (induction acc bs rule: SubAck_read_codes.induct)
  case (2 acc b bs)
  show ?case
  proof (cases "SubscribeReasonCode_try_from b")
    case (Ok c)
    then have b: "b = SubscribeReasonCode_u8 c" by (simp add: SubscribeReasonCode_eq)
    have inj: "SubscribeReasonCode_u8 c = SubscribeReasonCode_u8 d \<Longrightarrow> c = d" for d
      using SubscribeReasonCode_eq [of "SubscribeReasonCode_u8 d"] Ok b by (metis outcome.inject(1))
    show ?thesis
      using 2 [OF Ok] Ok b by (auto simp: Cons_eq_map_conv dest: inj)
  next
    case (Err e)
    then show ?thesis
      using SubscribeReasonCode_eq [of b] by (auto simp: Cons_eq_map_conv)
  next
    case Panic
    then show ?thesis by (simp add: SubscribeReasonCode_try_from_def split: if_splits)
  qed
qed auto

lemma wp_SubAck_read_codes: "wp (SubAck_read_codes acc) (\<lambda>_ _. True) (\<lambda>_ _. True) bs"
  by (induction acc bs rule: SubAck_read_codes.induct)
    (auto simp: wp_def SubscribeReasonCode_try_from_def split: if_splits)

definition SubAck_ok :: "SubAck \<Rightarrow> bool" where
  "SubAck_ok p \<longleftrightarrow> suback_pkid p \<noteq> 0 \<and> return_codes p \<noteq> []"

definition SubAck_body :: "SubAck \<Rightarrow> bytes" where
  "SubAck_body p = u16_be (suback_pkid p) @ map SubscribeReasonCode_u8 (return_codes p)"

lemma length_SubAck_body [simp]: "length (SubAck_body p) = SubAck_len p"
  by (simp add: SubAck_body_def SubAck_len_def)

lemma SubAck_write_ok:
  "\<lbrakk>SubAck_ok p; length (SubAck_body p) \<le> max_remaining_len\<rbrakk>
    \<Longrightarrow> SubAck_write p buf = (Ok (SubAck_size p), buf @ wire 0x90 (SubAck_body p))"
  by (simp add: SubAck_write_def transactional_write_Ok SubAck_write_inner_def SubAck_ok_def
      max_remaining_len_def andThen_def run_simps wire_def SubAck_size_def Let_def)
    (simp add: SubAck_body_def)

lemma SubAck_write_err:
  "\<not> (SubAck_ok p \<and> length (SubAck_body p) \<le> max_remaining_len)
    \<Longrightarrow> \<exists>e. SubAck_write p buf = (Err e, buf)"
  by (auto simp: SubAck_write_def transactional_write_def SubAck_write_inner_def SubAck_ok_def
      max_remaining_len_def andThen_def run_simps Let_def)

lemma SubAck_read_iff:
  assumes "header_len fh = length hdr"
  shows "SubAck_read fh (hdr @ bs) = Ok p \<longleftrightarrow> SubAck_ok p \<and> bs = SubAck_body p"
  using assms
  by (cases p)
    (auto simp: SubAck_read_def eval_read_Ok andThen_eq_Ok read_eqs run_simps SubAck_read_codes_eq
      SubAck_ok_def SubAck_body_def)

lemma SubAck_read_no_panic:
  assumes "header_len fh = length hdr"
  shows "SubAck_read fh (hdr @ bs) \<noteq> Panic"
  using assms unfolding SubAck_read_def
  by (intro eval_read_no_panic safe_intros safe_wp [OF wp_SubAck_read_codes]) simp_all

lemma SubAck_read_codes_raises: "raises framed_error (SubAck_read_codes acc) bs"
  by (induction acc bs rule: SubAck_read_codes.induct)
    (auto simp: raises_def SubscribeReasonCode_try_from_def split: if_splits)

lemma SubAck_read_framed:
  assumes "SubAck_read fh bs = Err e"
  shows "framed_error e"
  using assms unfolding SubAck_read_def
  by (rule eval_read_raises [rotated]) (intro raise_intros SubAck_read_codes_raises; simp)

interpretation suback: packet_codec SubAck_write SubAck_read SubAck_size "\<lambda>_. 0x90"
  SubAck_body SubAck_ok SubAck_ok id "\<lambda>b. b = 0x90"
proof unfold_locales
  show "SubAck_body p \<noteq> []" for p by (simp add: SubAck_body_def)
qed (auto simp: SubAck_write_ok SubAck_write_err SubAck_size_def Let_def SubAck_read_iff SubAck_read_no_panic
    dest: SubAck_read_framed)

end
