(* ===== verification/V4_Publish.thy ===== *)
theory V4_Publish
  imports V4_Acks
begin

text \<open>
  The PUBLISH packet (\<open>mqttbytes-v4/src/v4/publish.rs\<close>). Its flags travel in the fixed header and
  its packet identifier is on the wire only above QoS 0, so a QoS 0 publish loses its
  identifier when it is written: \<open>Publish_norm\<close> is what a reader recovers.
\<close>

section \<open>Definitions\<close>

record Publish =
  publish_dup :: bool
  publish_qos :: QoS
  publish_retain :: bool
  publish_topic :: bytes
  publish_pkid :: u16
  publish_payload :: bytes

definition Publish_new :: "rstring \<Rightarrow> QoS \<Rightarrow> bytes \<Rightarrow> Publish" where
  "Publish_new tp q pl = \<lparr>publish_dup = False, publish_qos = q, publish_retain = False,
     publish_topic = tp, publish_pkid = 0, publish_payload = pl\<rparr>"

definition Publish_from_bytes :: "rstring \<Rightarrow> QoS \<Rightarrow> bytes \<Rightarrow> Publish" where
  "Publish_from_bytes tp q pl = \<lparr>publish_dup = False, publish_qos = q, publish_retain = False,
     publish_topic = tp, publish_pkid = 0, publish_payload = pl\<rparr>"

definition Publish_len :: "Publish \<Rightarrow> nat" where
  "Publish_len self =
     (let len = 2 + length (publish_topic self) + length (publish_payload self) in
      if publish_qos self \<noteq> AtMostOnce \<and> publish_pkid self \<noteq> 0 then len + 2 else len)"

definition Publish_size :: "Publish \<Rightarrow> nat" where
  "Publish_size self =
     (let len = Publish_len self; remaining_len_size = len_len len in 1 + remaining_len_size + len)"

definition validate_publish_topic_name :: "bytes \<Rightarrow> (v4_error, unit) outcome" where
  "validate_publish_topic_name tp =
     (if tp = [] then Err IncorrectPacketFormat
      else if list_ex (\<lambda>b. b = 0x2B \<or> b = 0x23) tp then Err IncorrectPacketFormat
      else (case from_utf8 tp of
              Err source \<Rightarrow> Err (TopicNotUtf8 source)
            | Panic \<Rightarrow> Panic
            | Ok tp \<Rightarrow> if 0 \<in> set tp then Err MalformedPacket else Ok ()))"

definition Publish_read :: "FixedHeader \<Rightarrow> bytes \<Rightarrow> (v4_error, Publish) outcome" where
  "Publish_read fixed_header = eval_read
     (andThen (lift (qos (drop_bit 1 (byte1 fixed_header AND 0b0110)))) (\<lambda>q.
      let dup = (byte1 fixed_header AND 0b1000 \<noteq> 0);
          retain = (byte1 fixed_header AND 0b0001 \<noteq> 0) in
      if q = AtMostOnce \<and> dup then fail IncorrectPacketFormat
      else andThen (advance (header_len fixed_header)) (\<lambda>_.
           andThen read_mqtt_bytes (\<lambda>tp.
           andThen (lift (validate_publish_topic_name tp)) (\<lambda>_.
           andThen (case q of AtMostOnce \<Rightarrow> ret 0 | AtLeastOnce \<Rightarrow> read_u16 | ExactlyOnce \<Rightarrow> read_u16)
             (\<lambda>pkid.
           if q \<noteq> AtMostOnce \<and> pkid = 0 then fail PacketIdZero
           else andThen (gets id) (\<lambda>payload.
                ret \<lparr>publish_dup = dup, publish_qos = q, publish_retain = retain,
                     publish_topic = tp, publish_pkid = pkid, publish_payload = payload\<rparr>)))))))"

definition Publish_write_inner :: "bool \<Rightarrow> Publish \<Rightarrow> (bytes, v4_error, nat) sm" where
  "Publish_write_inner VALIDATE_TOPIC self =
     (if publish_qos self = AtMostOnce \<and> publish_dup self then fail IncorrectPacketFormat
      else let len = Publish_len self;
               dup = of_bool (publish_dup self);
               q = qos_u8 (publish_qos self);
               retain = of_bool (publish_retain self) in
           andThen (put_u8 (0b00110000 OR retain OR push_bit 1 q OR push_bit 3 dup)) (\<lambda>_.
           andThen (if VALIDATE_TOPIC then lift (validate_publish_topic_name (publish_topic self))
                    else ret ()) (\<lambda>_.
           andThen (write_remaining_length len) (\<lambda>count.
           andThen (write_mqtt_bytes (publish_topic self)) (\<lambda>_.
           andThen (if publish_qos self \<noteq> AtMostOnce
                    then if publish_pkid self = 0 then fail PacketIdZero
                         else put_u16 (publish_pkid self)
                    else ret ()) (\<lambda>_.
           andThen (put_slice (publish_payload self)) (\<lambda>_.
           ret (1 + count + len))))))))"

definition Publish_write :: "Publish \<Rightarrow> (bytes, v4_error, nat) sm" where
  "Publish_write self = transactional_write (Publish_write_inner True self)"

definition Publish_write_prevalidated :: "Publish \<Rightarrow> (bytes, v4_error, nat) sm" where
  "Publish_write_prevalidated self = transactional_write (Publish_write_inner False self)"

section \<open>The packet interface\<close>

definition publish_topic_ok :: "bytes \<Rightarrow> bool" where
  "publish_topic_ok tp \<longleftrightarrow> tp \<noteq> [] \<and> 0x2B \<notin> set tp \<and> 0x23 \<notin> set tp \<and> mqtt_string tp"

definition Publish_writable :: "Publish \<Rightarrow> bool" where
  "Publish_writable p \<longleftrightarrow>
     (publish_qos p = AtMostOnce \<longrightarrow> \<not> publish_dup p) \<and>
     (publish_qos p \<noteq> AtMostOnce \<longrightarrow> publish_pkid p \<noteq> 0) \<and>
     publish_topic_ok (publish_topic p) \<and> length (publish_topic p) \<le> 65535"

definition Publish_readable :: "Publish \<Rightarrow> bool" where
  "Publish_readable p \<longleftrightarrow> Publish_writable p \<and> (publish_qos p = AtMostOnce \<longrightarrow> publish_pkid p = 0)"

definition Publish_norm :: "Publish \<Rightarrow> Publish" where
  "Publish_norm p = (if publish_qos p = AtMostOnce then p\<lparr>publish_pkid := 0\<rparr> else p)"

definition publish_byte :: "bool \<Rightarrow> QoS \<Rightarrow> bool \<Rightarrow> u8" where
  "publish_byte r q d = 0x30 OR of_bool r OR push_bit 1 (qos_u8 q) OR push_bit 3 (of_bool d)"

definition Publish_first_byte :: "Publish \<Rightarrow> u8" where
  "Publish_first_byte p = publish_byte (publish_retain p) (publish_qos p) (publish_dup p)"

definition Publish_body :: "Publish \<Rightarrow> bytes" where
  "Publish_body p = lp (publish_topic p)
     @ (if publish_qos p = AtMostOnce then [] else u16_be (publish_pkid p)) @ publish_payload p"

lemma validate_publish_topic_name_eq:
  "validate_publish_topic_name tp = Ok u \<longleftrightarrow> publish_topic_ok tp"
  by (auto simp: validate_publish_topic_name_def publish_topic_ok_def mqtt_string_def from_utf8_simps
      list_ex_iff split: outcome.splits)

lemma validate_publish_topic_name_no_panic: "validate_publish_topic_name tp \<noteq> Panic"
  by (auto simp: validate_publish_topic_name_def from_utf8_simps split: outcome.splits)

lemma publish_type_bytes:
  assumes "drop_bit 4 b = (3::u8)"
  shows "b \<in> set (map (\<lambda>k. 0x30 + word_of_nat k) [0..<16])"
proof -
  have "unat (drop_bit 4 b) = unat (3::u8)"
    using assms by simp
  then have "unat b div 16 = 3"
    unfolding unsigned_drop_bit_eq using unat_u8_less [of b]
    by (simp add: drop_bit_eq_div take_bit_nat_eq_self)
  then have k: "unat b = 48 + (unat b - 48)" "unat b - 48 < 16"
    by arith+
  have "b = word_of_nat (48 + (unat b - 48))"
    unfolding k(1) [symmetric] by simp
  then have "b = 0x30 + word_of_nat (unat b - 48)"
    by (simp only: of_nat_add of_nat_numeral)
  with k(2) show ?thesis by auto
qed

lemma publish_flags_table:
  "\<forall>b\<in>set (map (\<lambda>k. 0x30 + word_of_nat k) [0..<16]).
     b = publish_byte r q d \<longleftrightarrow>
     drop_bit 1 (b AND 6) = qos_u8 q \<and> (b AND (8::u8) \<noteq> 0) = d \<and> (b AND 1 \<noteq> 0) = r"
  by (cases r; cases q; cases d; simp only:; code_simp)

lemma publish_flags:
  "drop_bit 4 b = (3::u8) \<Longrightarrow> b = publish_byte r q d \<longleftrightarrow>
     drop_bit 1 (b AND 6) = qos_u8 q \<and> (b AND 8 \<noteq> 0) = d \<and> (b AND 1 \<noteq> 0) = r"
  using publish_type_bytes [of b] publish_flags_table by blast

lemma publish_first_byte_type: "drop_bit 4 (Publish_first_byte p) = 3"
  unfolding Publish_first_byte_def
  by (cases "publish_retain p"; cases "publish_qos p"; cases "publish_dup p"; simp only:; code_simp)

lemma length_Publish_body: "Publish_writable p \<Longrightarrow> length (Publish_body p) = Publish_len p"
  by (simp add: Publish_body_def Publish_len_def Publish_writable_def Let_def)

lemma Publish_write_inner_Ok:
  "Publish_write_inner True p buf = (Ok n, buf') \<longleftrightarrow>
     Publish_writable p \<and> length (Publish_body p) \<le> max_remaining_len \<and> n = Publish_size p
     \<and> buf' = buf @ wire (Publish_first_byte p) (Publish_body p)"
  by (cases "publish_qos p = AtMostOnce")
    (auto simp: Publish_write_inner_def andThen_eq_Ok read_eqs run_simps validate_publish_topic_name_eq
      Publish_writable_def max_remaining_len_def Publish_first_byte_def publish_byte_def wire_def Publish_size_def
      Publish_len_def Publish_body_def split: if_splits)

lemma Publish_write_inner_safe: "safe (Publish_write_inner v p) buf"
  unfolding Publish_write_inner_def Let_def
  by (intro safe_intros) (rule validate_publish_topic_name_no_panic)

lemma Publish_write_inner_keeps: "keeps n (Publish_write_inner v p) buf"
  unfolding Publish_write_inner_def Let_def by (intro keep_intros)

lemma Publish_read_iff:
  assumes "drop_bit 4 (byte1 fh) = 3" and "header_len fh = length hdr"
  shows "Publish_read fh (hdr @ bs) = Ok p \<longleftrightarrow>
    byte1 fh = Publish_first_byte p \<and> Publish_readable p \<and> bs = Publish_body p"
proof
  assume read: "Publish_read fh (hdr @ bs) = Ok p"
  then obtain q where q: "qos (drop_bit 1 (byte1 fh AND 6)) = Ok q"
    by (auto simp: Publish_read_def eval_read_Ok andThen_eq_Ok run_simps)
  then have "drop_bit 1 (byte1 fh AND 6) = qos_u8 q"
    by (simp only: qos_eq)
  then show "byte1 fh = Publish_first_byte p \<and> Publish_readable p \<and> bs = Publish_body p"
    using assms read unfolding Publish_first_byte_def publish_flags [OF assms(1)]
    unfolding Publish_read_def Let_def q run_andThen_simps
    by (cases q)
      (auto simp: eval_read_Ok andThen_eq_Ok read_eqs run_simps validate_publish_topic_name_eq
        Publish_readable_def Publish_writable_def Publish_body_def)
next
  assume r: "byte1 fh = Publish_first_byte p \<and> Publish_readable p \<and> bs = Publish_body p"
  then have flags: "drop_bit 1 (byte1 fh AND 6) = qos_u8 (publish_qos p)"
      "(byte1 fh AND 8 \<noteq> 0) = publish_dup p" "(byte1 fh AND 1 \<noteq> 0) = publish_retain p"
    using publish_flags [OF assms(1)] unfolding Publish_first_byte_def by blast+
  have q: "qos (drop_bit 1 (byte1 fh AND 6)) = Ok (publish_qos p)"
    unfolding flags by (simp add: qos_eq)
  have "validate_publish_topic_name (publish_topic p) = Ok ()"
    using r by (simp add: validate_publish_topic_name_eq Publish_readable_def Publish_writable_def)
  then show "Publish_read fh (hdr @ bs) = Ok p"
    using r [THEN conjunct2] assms(2)
    unfolding Publish_read_def q Let_def run_andThen_simps unfolding flags
    by (cases "publish_qos p")
      (auto simp: eval_read_def run_simps Publish_readable_def Publish_writable_def Publish_body_def)
qed

lemma Publish_read_no_panic:
  assumes "header_len fh = length hdr"
  shows "Publish_read fh (hdr @ bs) \<noteq> Panic"
proof -
  have "safe (case q of AtMostOnce \<Rightarrow> ret 0 | AtLeastOnce \<Rightarrow> read_u16 | ExactlyOnce \<Rightarrow> read_u16) s" for q s
    by (cases q) (simp_all add: safe_intros)
  then show ?thesis
    using assms unfolding Publish_read_def Let_def
    by (intro eval_read_no_panic safe_intros)
      (auto simp: run_simps qos_no_panic validate_publish_topic_name_no_panic)
qed

lemma publish_pkid_raises:
  "raises framed_error (case q of AtMostOnce \<Rightarrow> ret 0 | AtLeastOnce \<Rightarrow> read_u16 | ExactlyOnce \<Rightarrow> read_u16) s"
  by (cases q) (simp_all add: raise_intros)

lemma Publish_read_framed:
  assumes "Publish_read fh bs = Err e"
  shows "framed_error e"
  using assms unfolding Publish_read_def Let_def
  by (rule eval_read_raises [rotated])
    (intro raise_intros publish_pkid_raises;
      auto simp: qos_def validate_publish_topic_name_def split: option.splits if_splits outcome.splits)

lemma Publish_first_byte_pkid [simp]: "Publish_first_byte (p\<lparr>publish_pkid := v\<rparr>) = Publish_first_byte p"
  by (simp add: Publish_first_byte_def)

interpretation publish: packet_codec Publish_write Publish_read Publish_size Publish_first_byte
  Publish_body Publish_writable Publish_readable Publish_norm "\<lambda>b. drop_bit 4 b = 3"
proof unfold_locales
  show "Publish_body p \<noteq> []" for p by (simp add: Publish_body_def lp_def u16_be_def)
  show "Publish_writable p \<Longrightarrow> Publish_size p = 1 + len_len (length (Publish_body p)) + length (Publish_body p)" for p
    by (simp add: length_Publish_body Publish_size_def Let_def)
  show "\<exists>e. Publish_write p buf = (Err e, buf)"
    if "\<not> (Publish_writable p \<and> length (Publish_body p) \<le> max_remaining_len)" for p buf
    unfolding Publish_write_def using that
    by (intro transactional_atomic Publish_write_inner_safe Publish_write_inner_keeps)
      (auto simp: Publish_write_inner_Ok)
qed (auto simp: Publish_write_def transactional_write_Ok Publish_write_inner_Ok publish_first_byte_type
    Publish_read_iff Publish_read_no_panic Publish_norm_def Publish_readable_def Publish_writable_def
    Publish_body_def dest: Publish_read_framed)

end
