(* ===== verification/V4_Subscribe.thy ===== *)
theory V4_Subscribe
  imports V4_Acks
begin

text \<open>
  SUBSCRIBE and UNSUBSCRIBE (\<open>mqttbytes-v4/src/v4/subscribe.rs\<close>, \<open>unsubscribe.rs\<close>). The filter
  loop of SUBSCRIBE runs until the buffer is empty; the topic loop of UNSUBSCRIBE counts down a
  \<open>usize\<close>, whose subtractions are checked here, so that their safety is part of the interface.
\<close>

section \<open>Definitions\<close>

record SubscribeFilter =
  filter_path :: rstring
  filter_qos :: QoS

record Subscribe =
  subscribe_pkid :: u16
  subscribe_filters :: "SubscribeFilter list"

definition SubscribeFilter_new :: "rstring \<Rightarrow> QoS \<Rightarrow> SubscribeFilter" where
  "SubscribeFilter_new path q = \<lparr>filter_path = path, filter_qos = q\<rparr>"

definition SubscribeFilter_len :: "SubscribeFilter \<Rightarrow> nat" where
  "SubscribeFilter_len self = 2 + length (filter_path self) + 1"

definition SubscribeFilter_write :: "SubscribeFilter \<Rightarrow> (bytes, v4_error, unit) sm" where
  "SubscribeFilter_write self =
     (let options = 0 OR qos_u8 (filter_qos self) in
      andThen (write_mqtt_string (filter_path self)) (\<lambda>_.
      andThen (put_u8 options) (\<lambda>_.
      ret ())))"

definition Subscribe_new :: "rstring \<Rightarrow> QoS \<Rightarrow> Subscribe" where
  "Subscribe_new path q =
     \<lparr>subscribe_pkid = 0, subscribe_filters = [\<lparr>filter_path = path, filter_qos = q\<rparr>]\<rparr>"

definition Subscribe_new_many :: "SubscribeFilter list \<Rightarrow> Subscribe" where
  "Subscribe_new_many topics = \<lparr>subscribe_pkid = 0, subscribe_filters = topics\<rparr>"

definition Subscribe_add :: "rstring \<Rightarrow> QoS \<Rightarrow> Subscribe \<Rightarrow> Subscribe" where
  "Subscribe_add path q self =
     self\<lparr>subscribe_filters := subscribe_filters self @ [\<lparr>filter_path = path, filter_qos = q\<rparr>]\<rparr>"

definition Subscribe_len :: "Subscribe \<Rightarrow> nat" where
  "Subscribe_len self = 2 + foldl (\<lambda>s t. s + SubscribeFilter_len t) 0 (subscribe_filters self)"

definition Subscribe_size :: "Subscribe \<Rightarrow> nat" where
  "Subscribe_size self =
     (let len = Subscribe_len self; remaining_len_size = len_len len in 1 + remaining_len_size + len)"

definition Subscribe_read_filter :: "(bytes, v4_error, SubscribeFilter) sm" where
  "Subscribe_read_filter =
     andThen read_mqtt_string (\<lambda>path.
     andThen read_u8 (\<lambda>options.
     if options AND 0b11111100 \<noteq> 0 then fail IncorrectPacketFormat
     else let requested_qos = options AND 0b00000011 in
          andThen (lift (qos requested_qos)) (\<lambda>q.
          ret \<lparr>filter_path = path, filter_qos = q\<rparr>)))"

lemma Subscribe_read_filter_consumes:
  "Subscribe_read_filter bs = (Ok f, bs') \<Longrightarrow> length bs' < length bs"
  by (auto simp: Subscribe_read_filter_def andThen_eq_Ok read_eqs run_simps)

function Subscribe_read_filters ::
  "SubscribeFilter list \<Rightarrow> (bytes, v4_error, SubscribeFilter list) sm" where
  "Subscribe_read_filters filters bs =
     (if bs = [] then (Ok filters, bs)
      else (case Subscribe_read_filter bs of
              (Ok f, bs') \<Rightarrow> Subscribe_read_filters (filters @ [f]) bs'
            | (Err e, bs') \<Rightarrow> (Err e, bs')
            | (Panic, bs') \<Rightarrow> (Panic, bs')))"
  by auto

termination
  by (relation "measure (\<lambda>(_, bs). length bs)") (auto dest: Subscribe_read_filter_consumes [OF sym])

definition Subscribe_read :: "FixedHeader \<Rightarrow> bytes \<Rightarrow> (v4_error, Subscribe) outcome" where
  "Subscribe_read fixed_header = eval_read
     (andThen (advance (header_len fixed_header)) (\<lambda>_.
      andThen read_u16 (\<lambda>pkid.
      if pkid = 0 then fail PacketIdZero
      else andThen (Subscribe_read_filters []) (\<lambda>filters.
           if length filters = 0 then fail EmptySubscription
           else ret \<lparr>subscribe_pkid = pkid, subscribe_filters = filters\<rparr>))))"

definition Subscribe_write_inner :: "Subscribe \<Rightarrow> (bytes, v4_error, nat) sm" where
  "Subscribe_write_inner self =
     (if subscribe_pkid self = 0 then fail PacketIdZero
      else if subscribe_filters self = [] then fail EmptySubscription
      else andThen (put_u8 0x82) (\<lambda>_.
           let remaining_len = Subscribe_len self in
           andThen (write_remaining_length remaining_len) (\<lambda>remaining_len_bytes.
           andThen (put_u16 (subscribe_pkid self)) (\<lambda>_.
           andThen (for_each SubscribeFilter_write (subscribe_filters self)) (\<lambda>_.
           ret (1 + remaining_len_bytes + remaining_len))))))"

definition Subscribe_write :: "Subscribe \<Rightarrow> (bytes, v4_error, nat) sm" where
  "Subscribe_write self = transactional_write (Subscribe_write_inner self)"

record Unsubscribe =
  unsubscribe_pkid :: u16
  unsubscribe_topics :: "rstring list"

definition Unsubscribe_new :: "rstring \<Rightarrow> Unsubscribe" where
  "Unsubscribe_new tp = \<lparr>unsubscribe_pkid = 0, unsubscribe_topics = [tp]\<rparr>"

definition Unsubscribe_len :: "Unsubscribe \<Rightarrow> nat" where
  "Unsubscribe_len self = 2 + foldl (\<lambda>s t. s + length t + 2) 0 (unsubscribe_topics self)"

definition Unsubscribe_size :: "Unsubscribe \<Rightarrow> nat" where
  "Unsubscribe_size self =
     (let len = Unsubscribe_len self; remaining_len_size = len_len len in 1 + remaining_len_size + len)"

fun Unsubscribe_read_topics :: "nat \<Rightarrow> rstring list \<Rightarrow> (bytes, v4_error, rstring list) sm" where
  "Unsubscribe_read_topics payload_bytes topics bs =
     (if payload_bytes > 0
      then (case read_mqtt_string bs of
              (Ok topic_filter, bs') \<Rightarrow>
                if payload_bytes < length topic_filter + 2 then (Panic, bs')
                else Unsubscribe_read_topics (payload_bytes - (length topic_filter + 2))
                       (topics @ [topic_filter]) bs'
            | (Err e, bs') \<Rightarrow> (Err e, bs')
            | (Panic, bs') \<Rightarrow> (Panic, bs'))
      else (Ok topics, bs))"

definition Unsubscribe_read :: "FixedHeader \<Rightarrow> bytes \<Rightarrow> (v4_error, Unsubscribe) outcome" where
  "Unsubscribe_read fixed_header = eval_read
     (andThen (advance (header_len fixed_header)) (\<lambda>_.
      andThen read_u16 (\<lambda>pkid.
      if pkid = 0 then fail PacketIdZero
      else if remaining_len fixed_header < 2 then panic
      else andThen (Unsubscribe_read_topics (remaining_len fixed_header - 2) []) (\<lambda>topics.
           if topics = [] then fail EmptyUnsubscription
           else ret \<lparr>unsubscribe_pkid = pkid, unsubscribe_topics = topics\<rparr>))))"

definition Unsubscribe_write_inner :: "Unsubscribe \<Rightarrow> (bytes, v4_error, nat) sm" where
  "Unsubscribe_write_inner self =
     (if unsubscribe_pkid self = 0 then fail PacketIdZero
      else if unsubscribe_topics self = [] then fail EmptyUnsubscription
      else let remaining_len = Unsubscribe_len self in
           andThen (put_u8 0xA2) (\<lambda>_.
           andThen (write_remaining_length remaining_len) (\<lambda>remaining_len_bytes.
           andThen (put_u16 (unsubscribe_pkid self)) (\<lambda>_.
           andThen (for_each write_mqtt_string (unsubscribe_topics self)) (\<lambda>_.
           ret (1 + remaining_len_bytes + remaining_len))))))"

definition Unsubscribe_write :: "Unsubscribe \<Rightarrow> (bytes, v4_error, nat) sm" where
  "Unsubscribe_write self = transactional_write (Unsubscribe_write_inner self)"

declare Subscribe_read_filters.simps [simp del] Unsubscribe_read_topics.simps [simp del]

section \<open>SUBSCRIBE\<close>

definition Filter_ok :: "SubscribeFilter \<Rightarrow> bool" where
  "Filter_ok f \<longleftrightarrow> length (filter_path f) \<le> 65535 \<and> mqtt_string (filter_path f)"

definition Filter_body :: "SubscribeFilter \<Rightarrow> bytes" where
  "Filter_body f = lp (filter_path f) @ [qos_u8 (filter_qos f)]"

definition Subscribe_ok :: "Subscribe \<Rightarrow> bool" where
  "Subscribe_ok p \<longleftrightarrow> subscribe_pkid p \<noteq> 0 \<and> subscribe_filters p \<noteq> [] \<and> list_all Filter_ok (subscribe_filters p)"

definition Subscribe_body :: "Subscribe \<Rightarrow> bytes" where
  "Subscribe_body p = u16_be (subscribe_pkid p) @ concat (map Filter_body (subscribe_filters p))"

lemma foldl_sum: "foldl (\<lambda>s t. s + f t) n xs = n + sum_list (map f xs)" for n :: nat
  by (induction xs arbitrary: n) simp_all

lemma for_each_Ok:
  assumes "\<And>x buf buf'. w x buf = (Ok (), buf') \<longleftrightarrow> ok x \<and> buf' = buf @ img x"
  shows "for_each w xs buf = (Ok (), buf') \<longleftrightarrow> list_all ok xs \<and> buf' = buf @ concat (map img xs)"
  by (induction xs arbitrary: buf) (auto simp: andThen_eq_Ok run_simps assms)

lemma options_qos:
  "(b::u8) AND 252 = 0 \<and> b AND 3 = qos_u8 q \<longleftrightarrow> b = qos_u8 q"
proof -
  have "(b AND 252) OR (b AND 3) = b"
    unfolding u8_split_bits by simp
  then show ?thesis by (cases q) auto
qed

lemma Subscribe_read_filter_eq:
  "Subscribe_read_filter bs = (Ok f, bs') \<longleftrightarrow> Filter_ok f \<and> bs = Filter_body f @ bs'"
proof
  assume "Subscribe_read_filter bs = (Ok f, bs')"
  then show "Filter_ok f \<and> bs = Filter_body f @ bs'"
    by (auto simp: Subscribe_read_filter_def andThen_eq_Ok read_eqs run_simps Filter_ok_def Filter_body_def
        intro: options_qos [THEN iffD1, OF conjI])
next
  assume "Filter_ok f \<and> bs = Filter_body f @ bs'"
  then show "Subscribe_read_filter bs = (Ok f, bs')"
    using options_qos [of "qos_u8 (filter_qos f)" "filter_qos f"] qos_eq [of "qos_u8 (filter_qos f)" "filter_qos f"]
    by (auto simp: Subscribe_read_filter_def run_simps Filter_ok_def Filter_body_def)
qed

lemma Filter_body_not_Nil [simp]: "Filter_body f \<noteq> []"
  by (simp add: Filter_body_def)

lemma Subscribe_read_filters_eq:
  "Subscribe_read_filters acc bs = (Ok fs, bs') \<longleftrightarrow>
     (\<exists>gs. fs = acc @ gs \<and> bs = concat (map Filter_body gs) \<and> list_all Filter_ok gs \<and> bs' = [])"
proof (induction acc bs rule: Subscribe_read_filters.induct)
  case (1 acc bs)
  show ?case
  proof (cases "bs = []")
    case True
    then show ?thesis by (auto simp: Subscribe_read_filters.simps [of acc])
  next
    case False
    show ?thesis
    proof
      assume "Subscribe_read_filters acc bs = (Ok fs, bs')"
      then obtain f bs1 where f: "Subscribe_read_filter bs = (Ok f, bs1)"
          and rest: "Subscribe_read_filters (acc @ [f]) bs1 = (Ok fs, bs')"
        using False by (auto simp: Subscribe_read_filters.simps [of acc] split: prod.splits outcome.splits)
      then obtain gs where "fs = (acc @ [f]) @ gs" "bs1 = concat (map Filter_body gs)"
          "list_all Filter_ok gs" "bs' = []"
        using 1 [OF False f [symmetric] refl] by auto
      then show "\<exists>gs. fs = acc @ gs \<and> bs = concat (map Filter_body gs) \<and> list_all Filter_ok gs \<and> bs' = []"
        using f by (intro exI [of _ "f # gs"]) (simp add: Subscribe_read_filter_eq)
    next
      assume "\<exists>gs. fs = acc @ gs \<and> bs = concat (map Filter_body gs) \<and> list_all Filter_ok gs \<and> bs' = []"
      then obtain hs where hs: "fs = acc @ hs" "bs = concat (map Filter_body hs)" "list_all Filter_ok hs" "bs' = []"
        by blast
      then obtain f gs where gs: "fs = acc @ f # gs" "bs = Filter_body f @ concat (map Filter_body gs)"
          "Filter_ok f" "list_all Filter_ok gs" "bs' = []"
        using False by (cases hs) auto
      then have f: "Subscribe_read_filter bs = (Ok f, concat (map Filter_body gs))"
        by (simp add: Subscribe_read_filter_eq)
      then have "Subscribe_read_filters (acc @ [f]) (concat (map Filter_body gs)) = (Ok fs, bs')"
        using 1 [OF False f [symmetric] refl] gs by auto
      then show "Subscribe_read_filters acc bs = (Ok fs, bs')"
        using False f by (simp add: Subscribe_read_filters.simps [of acc])
    qed
  qed
qed

lemma SubscribeFilter_write_Ok:
  "SubscribeFilter_write f buf = (Ok u, buf') \<longleftrightarrow> Filter_ok f \<and> buf' = buf @ Filter_body f"
  by (auto simp: SubscribeFilter_write_def andThen_eq_Ok run_simps write_mqtt_string_Ok Filter_ok_def Filter_body_def)

lemma SubscribeFilter_write_safe [safe_intros]: "safe (SubscribeFilter_write f) buf"
  unfolding SubscribeFilter_write_def Let_def by (intro safe_intros)

lemma SubscribeFilter_write_keeps [keep_intros]: "keeps n (SubscribeFilter_write f) buf"
  unfolding SubscribeFilter_write_def Let_def by (intro keep_intros)

lemma length_Subscribe_body: "length (Subscribe_body p) = Subscribe_len p"
  unfolding Subscribe_len_def foldl_sum
  by (simp add: Subscribe_body_def length_concat o_def Filter_body_def SubscribeFilter_len_def)

lemma Subscribe_write_inner_Ok:
  "Subscribe_write_inner p buf = (Ok n, buf') \<longleftrightarrow>
     Subscribe_ok p \<and> length (Subscribe_body p) \<le> max_remaining_len \<and> n = Subscribe_size p
     \<and> buf' = buf @ wire 0x82 (Subscribe_body p)"
  unfolding length_Subscribe_body wire_def
  by (auto simp: Subscribe_write_inner_def andThen_eq_Ok read_eqs run_simps Subscribe_ok_def
      max_remaining_len_def for_each_Ok [OF SubscribeFilter_write_Ok] Subscribe_size_def Subscribe_body_def)

lemma Subscribe_read_iff:
  assumes "header_len fh = length hdr"
  shows "Subscribe_read fh (hdr @ bs) = Ok p \<longleftrightarrow> Subscribe_ok p \<and> bs = Subscribe_body p"
  using assms
  by (cases p)
    (auto simp: Subscribe_read_def eval_read_Ok andThen_eq_Ok read_eqs run_simps Subscribe_read_filters_eq
      Subscribe_ok_def Subscribe_body_def)

lemma Subscribe_read_filters_safe: "safe (Subscribe_read_filters acc) bs"
proof (induction acc bs rule: Subscribe_read_filters.induct)
  case (1 acc bs)
  have "safe Subscribe_read_filter bs"
    unfolding Subscribe_read_filter_def Let_def by (intro safe_intros) (rule qos_no_panic)
  with 1 show ?case
    by (auto simp: safe_def Subscribe_read_filters.simps [of acc] split: prod.splits outcome.splits)
qed

lemma Subscribe_read_no_panic:
  assumes "header_len fh = length hdr"
  shows "Subscribe_read fh (hdr @ bs) \<noteq> Panic"
  using assms unfolding Subscribe_read_def
  by (intro eval_read_no_panic safe_intros Subscribe_read_filters_safe) simp_all

lemma Subscribe_read_filters_raises: "raises framed_error (Subscribe_read_filters acc) bs"
proof (induction acc bs rule: Subscribe_read_filters.induct)
  case (1 acc bs)
  have "raises framed_error Subscribe_read_filter bs"
    unfolding Subscribe_read_filter_def Let_def
    by (intro raise_intros; auto simp: qos_def split: option.splits)
  with 1 show ?case
    by (auto simp: raises_def Subscribe_read_filters.simps [of acc] split: prod.splits outcome.splits)
qed

lemma Subscribe_read_framed:
  assumes "Subscribe_read fh bs = Err e"
  shows "framed_error e"
  using assms unfolding Subscribe_read_def
  by (rule eval_read_raises [rotated]) (intro raise_intros Subscribe_read_filters_raises; simp)

interpretation subscribe: packet_codec Subscribe_write Subscribe_read Subscribe_size "\<lambda>_. 0x82"
  Subscribe_body Subscribe_ok Subscribe_ok id "\<lambda>b. b = 0x82"
proof unfold_locales
  show "\<exists>e. Subscribe_write p buf = (Err e, buf)"
    if "\<not> (Subscribe_ok p \<and> length (Subscribe_body p) \<le> max_remaining_len)" for p buf
    unfolding Subscribe_write_def
  proof (rule transactional_atomic)
    show "safe (Subscribe_write_inner p) buf"
      unfolding Subscribe_write_inner_def Let_def by (intro safe_intros)
    show "keeps (length buf) (Subscribe_write_inner p) buf"
      unfolding Subscribe_write_inner_def Let_def by (intro keep_intros)
  qed (use that in \<open>auto simp: Subscribe_write_inner_Ok\<close>)
  show "Subscribe_body p \<noteq> []" for p by (simp add: Subscribe_body_def)
qed (auto simp: Subscribe_write_def transactional_write_Ok Subscribe_write_inner_Ok Subscribe_read_iff
    Subscribe_read_no_panic length_Subscribe_body Subscribe_size_def Let_def dest: Subscribe_read_framed)

section \<open>UNSUBSCRIBE\<close>

definition String_ok :: "rstring \<Rightarrow> bool" where
  "String_ok t \<longleftrightarrow> length t \<le> 65535 \<and> mqtt_string t"

definition Unsubscribe_ok :: "Unsubscribe \<Rightarrow> bool" where
  "Unsubscribe_ok p \<longleftrightarrow>
     unsubscribe_pkid p \<noteq> 0 \<and> unsubscribe_topics p \<noteq> [] \<and> list_all String_ok (unsubscribe_topics p)"

definition Unsubscribe_body :: "Unsubscribe \<Rightarrow> bytes" where
  "Unsubscribe_body p = u16_be (unsubscribe_pkid p) @ concat (map lp (unsubscribe_topics p))"

lemma Unsubscribe_read_topics_eq:
  "n = length bs \<Longrightarrow> Unsubscribe_read_topics n acc bs = (Ok ts, bs') \<longleftrightarrow>
     (\<exists>us. ts = acc @ us \<and> bs = concat (map lp us) \<and> list_all String_ok us \<and> bs' = [])"
proof (induction n acc bs rule: Unsubscribe_read_topics.induct)
  case (1 n acc bs)
  show ?case
  proof (cases "bs = []")
    case True
    then show ?thesis using 1(2) by (auto simp: Unsubscribe_read_topics.simps [of _ acc] lp_def u16_be_def)
  next
    case False
    with 1(2) have n: "n > 0" by simp
    show ?thesis
    proof
      assume "Unsubscribe_read_topics n acc bs = (Ok ts, bs')"
      then obtain t bs1 where t: "read_mqtt_string bs = (Ok t, bs1)" "\<not> n < length t + 2"
          and rest: "Unsubscribe_read_topics (n - (length t + 2)) (acc @ [t]) bs1 = (Ok ts, bs')"
        using n by (auto simp: Unsubscribe_read_topics.simps [of _ acc] split: prod.splits outcome.splits if_splits)
      have "n - (length t + 2) = length bs1"
        using t 1(2) by (auto simp: read_eqs)
      then obtain us where "ts = (acc @ [t]) @ us" "bs1 = concat (map lp us)"
          "list_all String_ok us" "bs' = []"
        using 1(1) [OF n t(1) [symmetric] refl t(2)] rest by auto
      then show "\<exists>us. ts = acc @ us \<and> bs = concat (map lp us) \<and> list_all String_ok us \<and> bs' = []"
        using t by (intro exI [of _ "t # us"]) (simp add: read_eqs String_ok_def)
    next
      assume "\<exists>us. ts = acc @ us \<and> bs = concat (map lp us) \<and> list_all String_ok us \<and> bs' = []"
      then obtain us where us: "ts = acc @ us" "bs = concat (map lp us)" "list_all String_ok us" "bs' = []"
        by blast
      then obtain t vs where vs: "ts = acc @ t # vs" "bs = lp t @ concat (map lp vs)"
          "String_ok t" "list_all String_ok vs" "bs' = []"
        using False by (cases us) auto
      then have t: "read_mqtt_string bs = (Ok t, concat (map lp vs))" "\<not> n < length t + 2"
          "n - (length t + 2) = length (concat (map lp vs))"
        using 1(2) by (simp_all add: read_eqs String_ok_def)
      then have "Unsubscribe_read_topics (n - (length t + 2)) (acc @ [t]) (concat (map lp vs)) = (Ok ts, bs')"
        using 1(1) [OF n t(1) [symmetric] refl t(2)] vs by auto
      then show "Unsubscribe_read_topics n acc bs = (Ok ts, bs')"
        using n t by (simp add: Unsubscribe_read_topics.simps [of _ acc])
    qed
  qed
qed

lemma Unsubscribe_read_topics_safe:
  "n = length bs \<Longrightarrow> safe (Unsubscribe_read_topics n acc) bs"
proof (induction n acc bs rule: Unsubscribe_read_topics.induct)
  case (1 n acc bs)
  have "wp read_mqtt_string (\<lambda>xs s'. length bs = length s' + 2 + length xs) (\<lambda>_ _. True) bs"
    by (rule wp_read_mqtt_string)
  with 1 show ?case
    by (auto simp: safe_def wp_def Unsubscribe_read_topics.simps [of _ acc] split: prod.splits outcome.splits)
qed

lemma length_Unsubscribe_body: "length (Unsubscribe_body p) = Unsubscribe_len p"
  by (simp add: Unsubscribe_body_def Unsubscribe_len_def length_concat o_def
      foldl_sum [where f = "\<lambda>t. Suc (Suc (length t))", simplified])

lemma Unsubscribe_write_inner_Ok:
  "Unsubscribe_write_inner p buf = (Ok n, buf') \<longleftrightarrow>
     Unsubscribe_ok p \<and> length (Unsubscribe_body p) \<le> max_remaining_len \<and> n = Unsubscribe_size p
     \<and> buf' = buf @ wire 0xA2 (Unsubscribe_body p)"
proof -
  have topic: "write_mqtt_string t b = (Ok (), b') \<longleftrightarrow> String_ok t \<and> b' = b @ lp t" for t b b'
    by (auto simp: write_mqtt_string_Ok String_ok_def)
  show ?thesis
    unfolding length_Unsubscribe_body wire_def
    by (auto simp: Unsubscribe_write_inner_def andThen_eq_Ok read_eqs run_simps Unsubscribe_ok_def
        max_remaining_len_def for_each_Ok [OF topic] Unsubscribe_size_def Unsubscribe_body_def)
qed

lemma Unsubscribe_read_iff:
  assumes "header_len fh = length hdr" and "remaining_len fh = length bs"
  shows "Unsubscribe_read fh (hdr @ bs) = Ok p \<longleftrightarrow> Unsubscribe_ok p \<and> bs = Unsubscribe_body p"
  using assms
  by (cases p)
    (auto simp: Unsubscribe_read_def eval_read_Ok andThen_eq_Ok read_eqs run_simps
      Unsubscribe_read_topics_eq Unsubscribe_ok_def Unsubscribe_body_def split: if_splits)

lemma Unsubscribe_read_no_panic:
  assumes "header_len fh = length hdr" and "remaining_len fh = length bs"
  shows "Unsubscribe_read fh (hdr @ bs) \<noteq> Panic"
  using assms unfolding Unsubscribe_read_def
  by (intro eval_read_no_panic safe_intros Unsubscribe_read_topics_safe) (auto simp: run_simps read_eqs)

lemma Unsubscribe_read_topics_raises: "raises framed_error (Unsubscribe_read_topics n acc) bs"
proof (induction n acc bs rule: Unsubscribe_read_topics.induct)
  case (1 n acc bs)
  have "raises framed_error read_mqtt_string bs"
    by (rule raise_intros)
  with 1 show ?case
    by (auto simp: raises_def Unsubscribe_read_topics.simps [of _ acc] split: prod.splits outcome.splits)
qed

lemma Unsubscribe_read_framed:
  assumes "Unsubscribe_read fh bs = Err e"
  shows "framed_error e"
  using assms unfolding Unsubscribe_read_def
  by (rule eval_read_raises [rotated]) (intro raise_intros Unsubscribe_read_topics_raises; simp)

interpretation unsubscribe: packet_codec Unsubscribe_write Unsubscribe_read Unsubscribe_size "\<lambda>_. 0xA2"
  Unsubscribe_body Unsubscribe_ok Unsubscribe_ok id "\<lambda>b. b = 0xA2"
proof unfold_locales
  show "\<exists>e. Unsubscribe_write p buf = (Err e, buf)"
    if "\<not> (Unsubscribe_ok p \<and> length (Unsubscribe_body p) \<le> max_remaining_len)" for p buf
    unfolding Unsubscribe_write_def
  proof (rule transactional_atomic)
    show "safe (Unsubscribe_write_inner p) buf"
      unfolding Unsubscribe_write_inner_def Let_def by (intro safe_intros)
    show "keeps (length buf) (Unsubscribe_write_inner p) buf"
      unfolding Unsubscribe_write_inner_def Let_def by (intro keep_intros)
  qed (use that in \<open>auto simp: Unsubscribe_write_inner_Ok\<close>)
  show "Unsubscribe_body p \<noteq> []" for p by (simp add: Unsubscribe_body_def)
qed (auto simp: Unsubscribe_write_def transactional_write_Ok Unsubscribe_write_inner_Ok Unsubscribe_read_iff
    Unsubscribe_read_no_panic length_Unsubscribe_body Unsubscribe_size_def Let_def dest: Unsubscribe_read_framed)

end
