(* ===== verification/V4_Connect.thy ===== *)
theory V4_Connect
  imports V4_Acks
begin

text \<open>
  The CONNECT packet (\<open>mqttbytes-v4/src/v4/connect.rs\<close>) with its last will and credentials. The
  connect flags are written as a placeholder first and patched in place once the optional
  fields have been appended.
\<close>

section \<open>Definitions\<close>

record LastWill =
  will_topic :: rstring
  will_message :: bytes
  will_qos :: QoS
  will_retain :: bool

datatype ConnectAuth =
    AuthNone
  | AuthUsername rstring
  | AuthUsernamePassword rstring bytes

record Connect =
  keep_alive :: u16
  client_id :: rstring
  clean_session :: bool
  last_will :: "LastWill option"
  connect_auth :: ConnectAuth

definition Connect_new :: "rstring \<Rightarrow> Connect" where
  "Connect_new cid = \<lparr>keep_alive = 10, client_id = cid, clean_session = True, last_will = None,
     connect_auth = AuthNone\<rparr>"

definition set_auth :: "ConnectAuth \<Rightarrow> Connect \<Rightarrow> Connect" where
  "set_auth auth self = self\<lparr>connect_auth := auth\<rparr>"

definition clear_auth :: "Connect \<Rightarrow> Connect" where
  "clear_auth self = self\<lparr>connect_auth := AuthNone\<rparr>"

definition set_username :: "rstring \<Rightarrow> Connect \<Rightarrow> Connect" where
  "set_username username self = self\<lparr>connect_auth := AuthUsername username\<rparr>"

definition set_credentials :: "rstring \<Rightarrow> bytes \<Rightarrow> Connect \<Rightarrow> Connect" where
  "set_credentials username password self =
     self\<lparr>connect_auth := AuthUsernamePassword username password\<rparr>"

definition LastWill_new :: "rstring \<Rightarrow> bytes \<Rightarrow> QoS \<Rightarrow> bool \<Rightarrow> LastWill" where
  "LastWill_new tp pl q retain =
     \<lparr>will_topic = tp, will_message = pl, will_qos = q, will_retain = retain\<rparr>"

definition LastWill_len :: "LastWill \<Rightarrow> nat" where
  "LastWill_len self = 0 + (2 + length (will_topic self) + 2 + length (will_message self))"

definition LastWill_read :: "u8 \<Rightarrow> (bytes, v4_error, LastWill option) sm" where
  "LastWill_read connect_flags =
     (if connect_flags AND 0b100 = 0
      then if connect_flags AND 0b00111000 \<noteq> 0 then fail IncorrectPacketFormat
           else ret None
      else andThen read_mqtt_string (\<lambda>tp.
           andThen read_mqtt_bytes (\<lambda>message.
           andThen (lift (qos (drop_bit 3 (connect_flags AND 0b11000)))) (\<lambda>q.
           ret (Some \<lparr>will_topic = tp, will_message = message, will_qos = q,
                     will_retain = (connect_flags AND 0b00100000 \<noteq> 0)\<rparr>)))))"

definition LastWill_write_inner :: "LastWill \<Rightarrow> (bytes, v4_error, u8) sm" where
  "LastWill_write_inner self =
     (let connect_flags = 0;
          connect_flags = connect_flags OR (0x04 OR push_bit 3 (qos_u8 (will_qos self)));
          connect_flags = (if will_retain self then connect_flags OR 0x20 else connect_flags) in
      andThen (write_mqtt_string (will_topic self)) (\<lambda>_.
      andThen (write_mqtt_bytes (will_message self)) (\<lambda>_.
      ret connect_flags)))"

definition LastWill_write :: "LastWill \<Rightarrow> (bytes, v4_error, u8) sm" where
  "LastWill_write self = transactional_write (LastWill_write_inner self)"

definition ConnectAuth_read :: "u8 \<Rightarrow> (bytes, v4_error, ConnectAuth) sm" where
  "ConnectAuth_read connect_flags =
     (let username_flag = (connect_flags AND 0b10000000 \<noteq> 0);
          password_flag = (connect_flags AND 0b01000000 \<noteq> 0) in
      if \<not> username_flag \<and> \<not> password_flag then ret AuthNone
      else if username_flag \<and> \<not> password_flag
      then andThen read_mqtt_string (\<lambda>username. ret (AuthUsername username))
      else if username_flag \<and> password_flag
      then andThen read_mqtt_string (\<lambda>username.
           andThen read_mqtt_bytes (\<lambda>password.
           ret (AuthUsernamePassword username password)))
      else fail IncorrectPacketFormat)"

fun ConnectAuth_len :: "ConnectAuth \<Rightarrow> nat" where
  "ConnectAuth_len AuthNone = 0"
| "ConnectAuth_len (AuthUsername username) = 2 + length username"
| "ConnectAuth_len (AuthUsernamePassword username password) =
     2 + length username + 2 + length password"

fun ConnectAuth_write_inner :: "ConnectAuth \<Rightarrow> (bytes, v4_error, u8) sm" where
  "ConnectAuth_write_inner AuthNone = ret 0"
| "ConnectAuth_write_inner (AuthUsername username) =
     andThen (write_mqtt_string username) (\<lambda>_. ret 0x80)"
| "ConnectAuth_write_inner (AuthUsernamePassword username password) =
     andThen (write_mqtt_string username) (\<lambda>_.
     andThen (write_mqtt_bytes password) (\<lambda>_.
     ret 0xC0))"

definition ConnectAuth_write :: "ConnectAuth \<Rightarrow> (bytes, v4_error, u8) sm" where
  "ConnectAuth_write self = transactional_write (ConnectAuth_write_inner self)"

fun ConnectAuth_validate :: "ConnectAuth \<Rightarrow> rstring \<Rightarrow> bytes \<Rightarrow> bool" where
  "ConnectAuth_validate (AuthUsernamePassword actual_username actual_password) username password =
     (actual_username = username \<and> actual_password = password)"
| "ConnectAuth_validate _ username password = False"

definition validate_connect_flags :: "u8 \<Rightarrow> (v4_error, unit) outcome" where
  "validate_connect_flags connect_flags =
     (if connect_flags AND 0x01 \<noteq> 0 then Err IncorrectPacketFormat
      else let username_flag = (connect_flags AND 0x80 \<noteq> 0);
               password_flag = (connect_flags AND 0x40 \<noteq> 0) in
           if password_flag \<and> \<not> username_flag then Err IncorrectPacketFormat
           else Ok ())"

definition mqtt_name :: rstring where
  "mqtt_name = [0x4D, 0x51, 0x54, 0x54]"

definition Connect_len :: "Connect \<Rightarrow> nat" where
  "Connect_len self =
     (let len = 2 + length mqtt_name + 1 + 1 + 2;
          len = len + (2 + length (client_id self));
          len = (case last_will self of Some w \<Rightarrow> len + LastWill_len w | None \<Rightarrow> len);
          len = len + ConnectAuth_len (connect_auth self)
      in len)"

definition Connect_read :: "FixedHeader \<Rightarrow> bytes \<Rightarrow> (v4_error, Connect) outcome" where
  "Connect_read fixed_header = eval_read
     (andThen (advance (header_len fixed_header)) (\<lambda>_.
      andThen read_mqtt_string (\<lambda>protocol_name.
      andThen read_u8 (\<lambda>protocol_level.
      if protocol_name \<noteq> mqtt_name then fail InvalidProtocol
      else if protocol_level \<noteq> 4 then fail (InvalidProtocolLevel protocol_level)
      else andThen read_u8 (\<lambda>connect_flags.
           andThen (lift (validate_connect_flags connect_flags)) (\<lambda>_.
           let clean = (connect_flags AND 0b10 \<noteq> 0) in
           andThen read_u16 (\<lambda>ka.
           andThen read_mqtt_string (\<lambda>cid.
           andThen (LastWill_read connect_flags) (\<lambda>will.
           andThen (ConnectAuth_read connect_flags) (\<lambda>auth.
           andThen (gets (\<lambda>bs. bs \<noteq> [])) (\<lambda>has_remaining.
           if has_remaining then fail IncorrectPacketFormat
           else ret \<lparr>keep_alive = ka, client_id = cid, clean_session = clean, last_will = will,
                     connect_auth = auth\<rparr>)))))))))))"

definition Connect_write_inner :: "Connect \<Rightarrow> (bytes, v4_error, nat) sm" where
  "Connect_write_inner self =
     (if client_id self = [] \<and> \<not> clean_session self then fail IncorrectPacketFormat
      else let len = Connect_len self in
           andThen (put_u8 0b00010000) (\<lambda>_.
           andThen (write_remaining_length len) (\<lambda>count.
           andThen (write_mqtt_string mqtt_name) (\<lambda>_.
           andThen (put_u8 0x04) (\<lambda>_.
           let connect_flags = (if clean_session self then 0 OR 0x02 else 0) in
           andThen (gets length) (\<lambda>flags_index.
           andThen (put_u8 connect_flags) (\<lambda>_.
           andThen (put_u16 (keep_alive self)) (\<lambda>_.
           andThen (write_mqtt_string (client_id self)) (\<lambda>_.
           andThen (case last_will self of
                      Some w \<Rightarrow> andThen (LastWill_write w) (\<lambda>flags. ret (connect_flags OR flags))
                    | None \<Rightarrow> ret connect_flags) (\<lambda>connect_flags.
           andThen (ConnectAuth_write (connect_auth self)) (\<lambda>flags.
           let connect_flags = connect_flags OR flags in
           andThen (put_at flags_index connect_flags) (\<lambda>_.
           ret (1 + count + len)))))))))))))"

definition Connect_write :: "Connect \<Rightarrow> (bytes, v4_error, nat) sm" where
  "Connect_write self = transactional_write (Connect_write_inner self)"

definition Connect_size :: "Connect \<Rightarrow> nat" where
  "Connect_size self =
     (let len = Connect_len self; remaining_len_size = len_len len in 1 + remaining_len_size + len)"

section \<open>The connect flags\<close>

fun will_flags :: "LastWill option \<Rightarrow> u8" where
  "will_flags None = 0"
| "will_flags (Some w) = 0x04 OR push_bit 3 (qos_u8 (will_qos w)) OR (if will_retain w then 0x20 else 0)"

fun auth_flags :: "ConnectAuth \<Rightarrow> u8" where
  "auth_flags AuthNone = 0"
| "auth_flags (AuthUsername _) = 0x80"
| "auth_flags (AuthUsernamePassword _ _) = 0xC0"

definition connect_flags_byte :: "Connect \<Rightarrow> u8" where
  "connect_flags_byte p =
     (if clean_session p then 2 else 0) OR will_flags (last_will p) OR auth_flags (connect_auth p)"

lemma connect_flags_bits:
  fixes f :: u8
  assumes "f AND 1 = 0" and "f AND 0x40 \<noteq> 0 \<Longrightarrow> f AND 0x80 \<noteq> 0"
    and "f AND 4 = 0 \<Longrightarrow> f AND 0x38 = 0"
  shows "f = (f AND 2) OR (if f AND 4 = 0 then 0 else 4 OR (f AND 0x18) OR (f AND 0x20))
    OR (if f AND 0x80 = 0 then 0 else if f AND 0x40 = 0 then 0x80 else 0xC0)"
proof -
  have all: "f = ((((((f AND 1) OR (f AND 2)) OR (f AND 4)) OR (f AND 0x18)) OR (f AND 0x20)) OR (f AND 0x40)) OR (f AND 0x80)"
    unfolding u8_split_bits by simp
  have will: "f AND 0x18 = 0 \<and> f AND 0x20 = 0" if "f AND 4 = 0"
  proof -
    have "(f AND 0x38) AND 0x18 = 0" "(f AND 0x38) AND 0x20 = 0"
      using assms(3) [OF that] by simp_all
    then show ?thesis unfolding and.assoc by simp
  qed
  show ?thesis
    using all assms(1,2) will u8_single_bit [of f 2] u8_single_bit [of f 6] u8_single_bit [of f 7]
    by (cases "f AND 4 = 0"; cases "f AND 0x40 = 0"; cases "f AND 0x80 = 0") (simp_all add: or.assoc)
qed

fun will_matches :: "u8 \<Rightarrow> LastWill option \<Rightarrow> bool" where
  "will_matches f None \<longleftrightarrow> f AND 4 = 0 \<and> f AND 0x38 = 0"
| "will_matches f (Some w) \<longleftrightarrow> f AND 4 \<noteq> 0 \<and> drop_bit 3 (f AND 0x18) = qos_u8 (will_qos w)
     \<and> (f AND 0x20 \<noteq> 0) = will_retain w"

fun auth_matches :: "u8 \<Rightarrow> ConnectAuth \<Rightarrow> bool" where
  "auth_matches f AuthNone \<longleftrightarrow> f AND 0x80 = 0 \<and> f AND 0x40 = 0"
| "auth_matches f (AuthUsername _) \<longleftrightarrow> f AND 0x80 \<noteq> 0 \<and> f AND 0x40 = 0"
| "auth_matches f (AuthUsernamePassword _ _) \<longleftrightarrow> f AND 0x80 \<noteq> 0 \<and> f AND 0x40 \<noteq> 0"

lemma will_qos_bits: "drop_bit 3 ((f::u8) AND 0x18) = q \<Longrightarrow> f AND 0x18 = push_bit 3 q"
proof -
  assume "drop_bit 3 (f AND 0x18) = q"
  moreover have "take_bit 3 (f AND 0x18) = 0"
    by (simp add: take_bit_and)
  ultimately show ?thesis
    using bits_ident [of 3 "f AND 0x18"] by simp
qed

lemma will_matches_flags:
  "will_matches f w \<Longrightarrow> (if f AND 4 = 0 then 0 else 4 OR (f AND 0x18) OR (f AND 0x20)) = will_flags w"
proof (cases w)
  case (Some lw)
  assume "will_matches f w"
  with Some have m: "f AND 4 \<noteq> 0" "f AND 0x18 = push_bit 3 (qos_u8 (will_qos lw))"
      "(f AND 0x20 \<noteq> 0) = will_retain lw"
    unfolding Some will_matches.simps using will_qos_bits by blast+
  show ?thesis
    using Some m u8_single_bit [of f 5] by (cases "will_retain lw") (simp_all add: m(2))
qed simp

lemma auth_matches_flags:
  "auth_matches f a \<Longrightarrow> (if f AND 0x80 = 0 then 0 else if f AND 0x40 = 0 then 0x80 else 0xC0) = auth_flags a"
  by (cases a) simp_all

lemma connect_flags_decode:
  assumes "f AND 1 = 0" and "(f AND 2 \<noteq> 0) = clean_session p"
    and "will_matches f (last_will p)" and "auth_matches f (connect_auth p)"
  shows "f = connect_flags_byte p"
proof -
  have "f AND 0x40 \<noteq> 0 \<Longrightarrow> f AND 0x80 \<noteq> 0" "f AND 4 = 0 \<Longrightarrow> f AND 0x38 = 0"
    using assms(3,4) by (cases "connect_auth p"; cases "last_will p"; simp)+
  from connect_flags_bits [OF assms(1) this] have
    "f = (f AND 2) OR will_flags (last_will p) OR auth_flags (connect_auth p)"
    unfolding will_matches_flags [OF assms(3)] auth_matches_flags [OF assms(4)] .
  moreover have "f AND 2 = (if clean_session p then 2 else 0)"
    using assms(2) u8_single_bit [of f 1] by auto
  ultimately show ?thesis
    unfolding connect_flags_byte_def by simp
qed

lemma connect_flags_encode:
  "f = connect_flags_byte p \<Longrightarrow>
     f AND 1 = 0 \<and> (f AND 2 \<noteq> 0) = clean_session p
     \<and> will_matches f (last_will p) \<and> auth_matches f (connect_auth p)"
proof (cases "last_will p")
  case None
  assume "f = connect_flags_byte p"
  then show ?thesis
    using None by (cases "clean_session p"; cases "connect_auth p") (simp_all add: connect_flags_byte_def)
next
  case (Some w)
  assume "f = connect_flags_byte p"
  then show ?thesis
    using Some by (cases "clean_session p"; cases "connect_auth p"; cases "will_qos w"; cases "will_retain w")
      (simp_all add: connect_flags_byte_def)
qed

lemma validate_connect_flags_Ok:
  "validate_connect_flags f = Ok u \<longleftrightarrow> f AND 1 = 0 \<and> (f AND 0x40 \<noteq> 0 \<longrightarrow> f AND 0x80 \<noteq> 0)"
  by (simp add: validate_connect_flags_def Let_def)

lemma validate_connect_flags_no_panic: "validate_connect_flags f \<noteq> Panic"
  by (simp add: validate_connect_flags_def Let_def)

section \<open>The packet interface\<close>

fun will_body :: "LastWill option \<Rightarrow> bytes" where
  "will_body None = []"
| "will_body (Some w) = lp (will_topic w) @ lp (will_message w)"

fun will_ok :: "LastWill option \<Rightarrow> bool" where
  "will_ok None = True"
| "will_ok (Some w) \<longleftrightarrow>
     length (will_topic w) \<le> 65535 \<and> mqtt_string (will_topic w) \<and> length (will_message w) \<le> 65535"

fun auth_body :: "ConnectAuth \<Rightarrow> bytes" where
  "auth_body AuthNone = []"
| "auth_body (AuthUsername u) = lp u"
| "auth_body (AuthUsernamePassword u p) = lp u @ lp p"

fun auth_ok :: "ConnectAuth \<Rightarrow> bool" where
  "auth_ok AuthNone = True"
| "auth_ok (AuthUsername u) \<longleftrightarrow> length u \<le> 65535 \<and> mqtt_string u"
| "auth_ok (AuthUsernamePassword u p) \<longleftrightarrow> length u \<le> 65535 \<and> mqtt_string u \<and> length p \<le> 65535"

definition Connect_readable :: "Connect \<Rightarrow> bool" where
  "Connect_readable p \<longleftrightarrow> length (client_id p) \<le> 65535 \<and> mqtt_string (client_id p)
     \<and> will_ok (last_will p) \<and> auth_ok (connect_auth p)"

definition Connect_writable :: "Connect \<Rightarrow> bool" where
  "Connect_writable p \<longleftrightarrow> Connect_readable p \<and> (client_id p = [] \<longrightarrow> clean_session p)"

definition Connect_body :: "Connect \<Rightarrow> bytes" where
  "Connect_body p = lp mqtt_name @ 4 # connect_flags_byte p # u16_be (keep_alive p)
     @ lp (client_id p) @ will_body (last_will p) @ auth_body (connect_auth p)"

lemma mqtt_name_ok [simp]: "mqtt_string mqtt_name" "length mqtt_name = 4"
  by (simp_all add: mqtt_string_def mqtt_name_def)

lemma LastWill_read_Ok:
  "LastWill_read f s = (Ok w, s') \<longleftrightarrow> will_matches f w \<and> will_ok w \<and> s = will_body w @ s'"
proof (cases w)
  case None
  then show ?thesis
    by (auto simp: LastWill_read_def andThen_eq_Ok run_simps)
next
  case (Some lw)
  then show ?thesis
    by (cases lw) (auto simp: LastWill_read_def andThen_eq_Ok read_eqs run_simps)
qed

lemma ConnectAuth_read_Ok:
  "ConnectAuth_read f s = (Ok a, s') \<longleftrightarrow> auth_matches f a \<and> auth_ok a \<and> s = auth_body a @ s'"
  by (cases a) (auto simp: ConnectAuth_read_def andThen_eq_Ok read_eqs run_simps)

lemma Connect_read_iff:
  assumes "header_len fh = length hdr"
  shows "Connect_read fh (hdr @ bs) = Ok p \<longleftrightarrow> Connect_readable p \<and> bs = Connect_body p"
proof
  assume "Connect_read fh (hdr @ bs) = Ok p"
  then obtain f where
      bs: "bs = lp mqtt_name @ 4 # f # u16_be (keep_alive p) @ lp (client_id p)
        @ will_body (last_will p) @ auth_body (connect_auth p)"
    and f: "f AND 1 = 0" "(f AND 2 \<noteq> 0) = clean_session p"
      "will_matches f (last_will p)" "auth_matches f (connect_auth p)"
    and ok: "Connect_readable p"
    using assms
    by (auto simp: Connect_read_def eval_read_Ok andThen_eq_Ok read_eqs run_simps
        validate_connect_flags_Ok LastWill_read_Ok ConnectAuth_read_Ok Connect_readable_def)
  have "f = connect_flags_byte p"
    using f by (rule connect_flags_decode)
  with bs ok show "Connect_readable p \<and> bs = Connect_body p"
    by (simp add: Connect_body_def)
next
  assume r: "Connect_readable p \<and> bs = Connect_body p"
  define f where "f = connect_flags_byte p"
  have f: "f AND 1 = 0" "(f AND 2 \<noteq> 0) = clean_session p"
      "will_matches f (last_will p)" "auth_matches f (connect_auth p)"
    using connect_flags_encode [OF f_def] by auto
  then have "validate_connect_flags f = Ok ()"
    by (cases "connect_auth p") (auto simp: validate_connect_flags_Ok)
  moreover have "LastWill_read f (will_body (last_will p) @ auth_body (connect_auth p))
      = (Ok (last_will p), auth_body (connect_auth p))"
    "ConnectAuth_read f (auth_body (connect_auth p)) = (Ok (connect_auth p), [])"
    using f r by (simp_all add: LastWill_read_Ok ConnectAuth_read_Ok Connect_readable_def)
  ultimately show "Connect_read fh (hdr @ bs) = Ok p"
    using assms r
    by (simp add: Connect_read_def eval_read_def Connect_body_def run_simps Connect_readable_def
        f(2) [unfolded f_def] flip: f_def) (simp add: andThen_def run_simps f(2))
qed

lemma LastWill_read_safe [safe_intros]: "safe (LastWill_read f) s"
  unfolding LastWill_read_def by (intro safe_intros) (rule qos_no_panic)

lemma ConnectAuth_read_safe [safe_intros]: "safe (ConnectAuth_read f) s"
  unfolding ConnectAuth_read_def Let_def by (intro safe_intros)

lemma Connect_read_no_panic:
  assumes "header_len fh = length hdr"
  shows "Connect_read fh (hdr @ bs) \<noteq> Panic"
  using assms unfolding Connect_read_def Let_def
  by (intro eval_read_no_panic safe_intros) (simp_all add: validate_connect_flags_no_panic)

lemma length_Connect_body: "length (Connect_body p) = Connect_len p"
  by (cases "last_will p"; cases "connect_auth p")
    (simp_all add: Connect_body_def Connect_len_def LastWill_len_def)

lemma LastWill_write_Ok:
  "LastWill_write w buf = (Ok f, buf') \<longleftrightarrow>
     will_ok (Some w) \<and> f = will_flags (Some w) \<and> buf' = buf @ will_body (Some w)"
  by (auto simp: LastWill_write_def transactional_write_Ok LastWill_write_inner_def andThen_eq_Ok
      run_simps write_mqtt_string_Ok or.assoc split: if_splits)

lemma ConnectAuth_write_Ok:
  "ConnectAuth_write a buf = (Ok f, buf') \<longleftrightarrow> auth_ok a \<and> f = auth_flags a \<and> buf' = buf @ auth_body a"
  by (cases a) (auto simp: ConnectAuth_write_def transactional_write_Ok andThen_eq_Ok
      run_simps write_mqtt_string_Ok split: if_splits)

lemma Will_option_write_Ok:
  "(case w of Some v \<Rightarrow> andThen (LastWill_write v) (\<lambda>flags. ret (c OR flags)) | None \<Rightarrow> ret c) buf = (Ok f, buf')
     \<longleftrightarrow> will_ok w \<and> f = c OR will_flags w \<and> buf' = buf @ will_body w"
  by (cases w) (auto simp: andThen_eq_Ok run_simps LastWill_write_Ok)

lemma Connect_write_inner_Ok:
  "Connect_write_inner p buf = (Ok n, buf') \<longleftrightarrow>
     Connect_writable p \<and> length (Connect_body p) \<le> max_remaining_len \<and> n = Connect_size p
     \<and> buf' = buf @ wire 0x10 (Connect_body p)"
  unfolding length_Connect_body wire_def
  by (auto simp: Connect_write_inner_def andThen_eq_Ok read_eqs run_simps write_mqtt_string_Ok
      Will_option_write_Ok ConnectAuth_write_Ok Connect_writable_def Connect_readable_def
      max_remaining_len_def Connect_size_def Connect_body_def put_at_def connect_flags_byte_def
      list_update_append or.assoc split: if_splits)

lemma safe_put_at [safe_intros]: "i < length buf \<Longrightarrow> safe (put_at i b) buf"
  by (simp add: safe_def put_at_def)

lemma Will_write_safe [safe_intros]: "safe (LastWill_write w) buf"
  unfolding LastWill_write_def LastWill_write_inner_def Let_def by (intro safe_intros)

lemma Will_write_keeps [keep_intros]: "keeps n (LastWill_write w) buf"
  unfolding LastWill_write_def LastWill_write_inner_def Let_def by (intro keep_intros)

lemma Auth_write_safe [safe_intros]: "safe (ConnectAuth_write a) buf"
  unfolding ConnectAuth_write_def by (cases a) (simp_all add: safe_intros)

lemma Auth_write_keeps [keep_intros]: "keeps n (ConnectAuth_write a) buf"
  unfolding ConnectAuth_write_def by (cases a) (simp_all add: keep_intros)

lemma Will_option_safe [safe_intros]:
  "safe (case w of Some v \<Rightarrow> andThen (LastWill_write v) (\<lambda>flags. ret (c OR flags)) | None \<Rightarrow> ret c) buf"
  by (cases w) (simp_all add: safe_intros)

lemma Will_option_keeps [keep_intros]:
  "keeps n (case w of Some v \<Rightarrow> andThen (LastWill_write v) (\<lambda>flags. ret (c OR flags)) | None \<Rightarrow> ret c) buf"
  by (cases w) (simp_all add: keep_intros)

lemma Connect_write_inner_safe: "safe (Connect_write_inner p) buf"
  unfolding Connect_write_inner_def Let_def
  by (intro safe_intros)
    (auto simp: run_simps write_mqtt_string_Ok Will_option_write_Ok ConnectAuth_write_Ok)

lemma Connect_write_inner_keeps: "keeps n (Connect_write_inner p) buf"
  unfolding Connect_write_inner_def Let_def
  by (intro keep_intros) (simp add: run_simps)

lemma Connect_read_framed:
  assumes "Connect_read fh bs = Err e"
  shows "framed_error e"
  using assms
  unfolding Connect_read_def LastWill_read_def ConnectAuth_read_def Let_def
  by (rule eval_read_raises [rotated])
    (intro raise_intros; auto simp: validate_connect_flags_def qos_def split: option.splits if_splits)

interpretation connect: packet_codec Connect_write Connect_read Connect_size "\<lambda>_. 0x10"
  Connect_body Connect_writable Connect_readable id "\<lambda>b. b = 0x10"
proof unfold_locales
  show "\<exists>e. Connect_write p buf = (Err e, buf)"
    if "\<not> (Connect_writable p \<and> length (Connect_body p) \<le> max_remaining_len)" for p buf
    unfolding Connect_write_def using that
    by (intro transactional_atomic Connect_write_inner_safe Connect_write_inner_keeps)
      (auto simp: Connect_write_inner_Ok)
  show "Connect_body p \<noteq> []" for p by (simp add: Connect_body_def)
qed (auto simp: Connect_write_def transactional_write_Ok Connect_write_inner_Ok Connect_read_iff
    Connect_read_no_panic length_Connect_body Connect_size_def Let_def Connect_writable_def dest: Connect_read_framed)

end
