(* ===== verification/V4_Codec.thy ===== *)
theory V4_Codec
  imports V4_Publish V4_Subscribe V4_Connect
begin

text \<open>
  The MQTT 3.1.1 packet layer (\<open>mqttbytes-v4/src/v4/mod.rs\<close>) and the tokio codec built on it
  (\<open>codec.rs\<close>): dispatch on the packet type, the size limits in both directions, framing.
  The lemmas lift the interface \<open>packet_codec\<close> of the packet types to \<open>Packet\<close>: round trips,
  atomic writes, total reads, and stability of decoding under arrival of more bytes.
\<close>

section \<open>Definitions\<close>

datatype Packet =
    PktConnect Connect
  | PktConnAck ConnAck
  | PktPublish Publish
  | PktPubAck PubAck
  | PktPubRec PubRec
  | PktPubRel PubRel
  | PktPubComp PubComp
  | PktSubscribe Subscribe
  | PktSubAck SubAck
  | PktUnsubscribe Unsubscribe
  | PktUnsubAck UnsubAck
  | PktPingReq
  | PktPingResp
  | PktDisconnect

fun Packet_packet_type :: "Packet \<Rightarrow> PacketType" where
  "Packet_packet_type (PktConnect _) = TyConnect"
| "Packet_packet_type (PktConnAck _) = TyConnAck"
| "Packet_packet_type (PktPublish _) = TyPublish"
| "Packet_packet_type (PktPubAck _) = TyPubAck"
| "Packet_packet_type (PktPubRec _) = TyPubRec"
| "Packet_packet_type (PktPubRel _) = TyPubRel"
| "Packet_packet_type (PktPubComp _) = TyPubComp"
| "Packet_packet_type (PktSubscribe _) = TySubscribe"
| "Packet_packet_type (PktSubAck _) = TySubAck"
| "Packet_packet_type (PktUnsubscribe _) = TyUnsubscribe"
| "Packet_packet_type (PktUnsubAck _) = TyUnsubAck"
| "Packet_packet_type PktPingReq = TyPingReq"
| "Packet_packet_type PktPingResp = TyPingResp"
| "Packet_packet_type PktDisconnect = TyDisconnect"

fun Packet_size :: "Packet \<Rightarrow> nat" where
  "Packet_size (PktPublish publish) = Publish_size publish"
| "Packet_size (PktSubscribe subscription) = Subscribe_size subscription"
| "Packet_size (PktUnsubscribe unsubscribe) = Unsubscribe_size unsubscribe"
| "Packet_size (PktConnAck ack) = ConnAck_size ack"
| "Packet_size (PktPubAck ack) = PubAck_size ack"
| "Packet_size (PktSubAck ack) = SubAck_size ack"
| "Packet_size (PktUnsubAck unsuback) = UnsubAck_size unsuback"
| "Packet_size (PktPubRec pubrec) = PubRec_size pubrec"
| "Packet_size (PktPubRel pubrel) = PubRel_size pubrel"
| "Packet_size (PktPubComp pubcomp) = PubComp_size pubcomp"
| "Packet_size (PktConnect connect) = Connect_size connect"
| "Packet_size PktPingReq = PingReq_size"
| "Packet_size PktPingResp = PingResp_size"
| "Packet_size PktDisconnect = Disconnect_size"

definition validate_fixed_header_flags :: "PacketType \<Rightarrow> u8 \<Rightarrow> (v4_error, unit) outcome" where
  "validate_fixed_header_flags packet_type b =
     (let flags = b AND 0x0F;
          valid = (case packet_type of
                     TyPublish \<Rightarrow> True
                   | TyPubRel \<Rightarrow> flags = 0b0010
                   | TySubscribe \<Rightarrow> flags = 0b0010
                   | TyUnsubscribe \<Rightarrow> flags = 0b0010
                   | _ \<Rightarrow> flags = 0)
      in if valid then Ok () else Err IncorrectPacketFormat)"

definition map_outcome :: "('a \<Rightarrow> 'b) \<Rightarrow> ('e, 'a) outcome \<Rightarrow> ('e, 'b) outcome" where
  "map_outcome f r = (case r of Ok x \<Rightarrow> Ok (f x) | Err e \<Rightarrow> Err e | Panic \<Rightarrow> Panic)"

fun Packet_dispatch :: "PacketType \<Rightarrow> FixedHeader \<Rightarrow> bytes \<Rightarrow> (v4_error, Packet) outcome" where
  "Packet_dispatch TyConnect fh packet = map_outcome PktConnect (Connect_read fh packet)"
| "Packet_dispatch TyConnAck fh packet = map_outcome PktConnAck (ConnAck_read fh packet)"
| "Packet_dispatch TyPublish fh packet = map_outcome PktPublish (Publish_read fh packet)"
| "Packet_dispatch TyPubAck fh packet = map_outcome PktPubAck (PubAck_read fh packet)"
| "Packet_dispatch TyPubRec fh packet = map_outcome PktPubRec (PubRec_read fh packet)"
| "Packet_dispatch TyPubRel fh packet = map_outcome PktPubRel (PubRel_read fh packet)"
| "Packet_dispatch TyPubComp fh packet = map_outcome PktPubComp (PubComp_read fh packet)"
| "Packet_dispatch TySubscribe fh packet = map_outcome PktSubscribe (Subscribe_read fh packet)"
| "Packet_dispatch TySubAck fh packet = map_outcome PktSubAck (SubAck_read fh packet)"
| "Packet_dispatch TyUnsubscribe fh packet = map_outcome PktUnsubscribe (Unsubscribe_read fh packet)"
| "Packet_dispatch TyUnsubAck fh packet = map_outcome PktUnsubAck (UnsubAck_read fh packet)"
| "Packet_dispatch TyPingReq fh packet = Ok PktPingReq"
| "Packet_dispatch TyPingResp fh packet = Ok PktPingResp"
| "Packet_dispatch TyDisconnect fh packet = Ok PktDisconnect"

definition Packet_read :: "nat \<Rightarrow> (bytes, v4_error, Packet) sm" where
  "Packet_read max_size =
     andThen (gets (\<lambda>stream. check stream max_size)) (\<lambda>checked.
     andThen (lift checked) (\<lambda>fixed_header.
     andThen (split_to (frame_length fixed_header)) (\<lambda>packet.
     andThen (lift (FixedHeader_packet_type fixed_header)) (\<lambda>packet_type.
     andThen (lift (validate_fixed_header_flags packet_type (byte1 fixed_header))) (\<lambda>_.
     if remaining_len fixed_header = 0
     then (case packet_type of
             TyPingReq \<Rightarrow> ret PktPingReq
           | TyPingResp \<Rightarrow> ret PktPingResp
           | TyDisconnect \<Rightarrow> ret PktDisconnect
           | _ \<Rightarrow> fail PayloadRequired)
     else lift (Packet_dispatch packet_type fixed_header packet))))))"

fun Packet_write_variant :: "Packet \<Rightarrow> (bytes, v4_error, nat) sm" where
  "Packet_write_variant (PktConnect c) = Connect_write c"
| "Packet_write_variant (PktConnAck c) = ConnAck_write c"
| "Packet_write_variant (PktPublish p) = Publish_write p"
| "Packet_write_variant (PktPubAck p) = PubAck_write p"
| "Packet_write_variant (PktPubRec p) = PubRec_write p"
| "Packet_write_variant (PktPubRel p) = PubRel_write p"
| "Packet_write_variant (PktPubComp p) = PubComp_write p"
| "Packet_write_variant (PktSubscribe s) = Subscribe_write s"
| "Packet_write_variant (PktSubAck s) = SubAck_write s"
| "Packet_write_variant (PktUnsubscribe u) = Unsubscribe_write u"
| "Packet_write_variant (PktUnsubAck u) = UnsubAck_write u"
| "Packet_write_variant PktPingReq = PingReq_write"
| "Packet_write_variant PktPingResp = PingResp_write"
| "Packet_write_variant PktDisconnect = Disconnect_write"

definition Packet_write :: "Packet \<Rightarrow> nat \<Rightarrow> (bytes, v4_error, nat) sm" where
  "Packet_write self max_size = transactional_write
     (if Packet_size self > max_size
      then fail (OutgoingPacketTooLarge (Packet_size self) max_size)
      else Packet_write_variant self)"

record Codec =
  max_incoming_size :: nat
  max_outgoing_size :: nat

definition Codec_decode :: "Codec \<Rightarrow> (bytes, v4_error, Packet option) sm" where
  "Codec_decode self src =
     (case Packet_read (max_incoming_size self) src of
        (Ok packet, src') \<Rightarrow> (Ok (Some packet), src')
      | (Err (InsufficientBytes b), src') \<Rightarrow> (Ok None, src')
      | (Err e, src') \<Rightarrow> (Err e, src')
      | (Panic, src') \<Rightarrow> (Panic, src'))"

definition Codec_encode :: "Codec \<Rightarrow> Packet \<Rightarrow> (bytes, v4_error, unit) sm" where
  "Codec_encode self item =
     andThen (Packet_write item (max_outgoing_size self)) (\<lambda>_. ret ())"

section \<open>The wire image of a packet\<close>

fun Packet_first_byte :: "Packet \<Rightarrow> u8" where
  "Packet_first_byte (PktConnect _) = 0x10"
| "Packet_first_byte (PktConnAck _) = 0x20"
| "Packet_first_byte (PktPublish p) = Publish_first_byte p"
| "Packet_first_byte (PktPubAck _) = 0x40"
| "Packet_first_byte (PktPubRec _) = 0x50"
| "Packet_first_byte (PktPubRel _) = 0x62"
| "Packet_first_byte (PktPubComp _) = 0x70"
| "Packet_first_byte (PktSubscribe _) = 0x82"
| "Packet_first_byte (PktSubAck _) = 0x90"
| "Packet_first_byte (PktUnsubscribe _) = 0xA2"
| "Packet_first_byte (PktUnsubAck _) = 0xB0"
| "Packet_first_byte PktPingReq = 0xC0"
| "Packet_first_byte PktPingResp = 0xD0"
| "Packet_first_byte PktDisconnect = 0xE0"

fun Packet_body :: "Packet \<Rightarrow> bytes" where
  "Packet_body (PktConnect p) = Connect_body p"
| "Packet_body (PktConnAck p) = ConnAck_body p"
| "Packet_body (PktPublish p) = Publish_body p"
| "Packet_body (PktPubAck p) = u16_be (puback_pkid p)"
| "Packet_body (PktPubRec p) = u16_be (pubrec_pkid p)"
| "Packet_body (PktPubRel p) = u16_be (pubrel_pkid p)"
| "Packet_body (PktPubComp p) = u16_be (pubcomp_pkid p)"
| "Packet_body (PktSubscribe p) = Subscribe_body p"
| "Packet_body (PktSubAck p) = SubAck_body p"
| "Packet_body (PktUnsubscribe p) = Unsubscribe_body p"
| "Packet_body (PktUnsubAck p) = u16_be (unsuback_pkid p)"
| "Packet_body _ = []"

text \<open>Which packets can be written, and which can come out of a reader.\<close>

fun Packet_writable :: "Packet \<Rightarrow> bool" where
  "Packet_writable (PktConnect p) = Connect_writable p"
| "Packet_writable (PktConnAck p) = ConnAck_ok p"
| "Packet_writable (PktPublish p) = Publish_writable p"
| "Packet_writable (PktPubAck p) \<longleftrightarrow> puback_pkid p \<noteq> 0"
| "Packet_writable (PktPubRec p) \<longleftrightarrow> pubrec_pkid p \<noteq> 0"
| "Packet_writable (PktPubRel p) \<longleftrightarrow> pubrel_pkid p \<noteq> 0"
| "Packet_writable (PktPubComp p) \<longleftrightarrow> pubcomp_pkid p \<noteq> 0"
| "Packet_writable (PktSubscribe p) = Subscribe_ok p"
| "Packet_writable (PktSubAck p) = SubAck_ok p"
| "Packet_writable (PktUnsubscribe p) = Unsubscribe_ok p"
| "Packet_writable (PktUnsubAck p) \<longleftrightarrow> unsuback_pkid p \<noteq> 0"
| "Packet_writable _ = True"

fun Packet_readable :: "Packet \<Rightarrow> bool" where
  "Packet_readable (PktConnect p) = Connect_readable p"
| "Packet_readable (PktPublish p) = Publish_readable p"
| "Packet_readable p = Packet_writable p"

fun Packet_norm :: "Packet \<Rightarrow> Packet" where
  "Packet_norm (PktPublish p) = PktPublish (Publish_norm p)"
| "Packet_norm p = p"

definition Packet_wire :: "Packet \<Rightarrow> bytes" where
  "Packet_wire p = wire (Packet_first_byte p) (Packet_body p)"

section \<open>Writing\<close>

lemma vbi_0 [simp]: "vbi 0 = [0]"
  by (simp add: vbi.simps)

lemma short_writers:
  "PingReq_write buf = (Ok 2, buf @ Packet_wire PktPingReq)"
  "PingResp_write buf = (Ok 2, buf @ Packet_wire PktPingResp)"
  "Disconnect_write buf = (Ok 2, buf @ Packet_wire PktDisconnect)"
  by (simp_all add: PingReq_write_def PingResp_write_def Disconnect_write_def write_pingreq_def
      write_pingresp_def run_simps Packet_wire_def wire_def)

lemma Packet_write_variant_Ok:
  "Packet_write_variant p buf = (Ok n, buf') \<longleftrightarrow>
     Packet_writable p \<and> length (Packet_body p) \<le> max_remaining_len \<and> n = Packet_size p
     \<and> buf' = buf @ Packet_wire p"
  by (cases p)
    (auto simp: connect.write_Ok_iff connack.write_Ok_iff publish.write_Ok_iff puback.write_Ok_iff
      pubrec.write_Ok_iff pubrel.write_Ok_iff pubcomp.write_Ok_iff subscribe.write_Ok_iff
      suback.write_Ok_iff unsubscribe.write_Ok_iff unsuback.write_Ok_iff short_writers
      PingReq_size_def PingResp_size_def Disconnect_size_def Packet_wire_def)

lemma Packet_write_variant_safe: "safe (Packet_write_variant p) buf"
  by (cases p)
    (auto simp: safe_def connect.write_not_panic connack.write_not_panic publish.write_not_panic
      puback.write_not_panic pubrec.write_not_panic pubrel.write_not_panic pubcomp.write_not_panic
      subscribe.write_not_panic suback.write_not_panic unsubscribe.write_not_panic
      unsuback.write_not_panic short_writers)

lemma Packet_write_variant_Err: "Packet_write_variant p buf = (Err e, buf') \<Longrightarrow> buf' = buf"
  by (cases p)
    (auto simp: short_writers dest: connect.write_Err_buf connack.write_Err_buf publish.write_Err_buf
      puback.write_Err_buf pubrec.write_Err_buf pubrel.write_Err_buf pubcomp.write_Err_buf
      subscribe.write_Err_buf suback.write_Err_buf unsubscribe.write_Err_buf unsuback.write_Err_buf)

lemma Packet_write_Ok:
  "Packet_write p max_size buf = (Ok n, buf') \<longleftrightarrow>
     Packet_writable p \<and> length (Packet_body p) \<le> max_remaining_len \<and> Packet_size p \<le> max_size
     \<and> n = Packet_size p \<and> buf' = buf @ Packet_wire p"
  by (auto simp: Packet_write_def transactional_write_Ok run_simps Packet_write_variant_Ok)

lemma length_Packet_wire:
  "\<lbrakk>Packet_writable p; length (Packet_body p) \<le> max_remaining_len\<rbrakk>
    \<Longrightarrow> length (Packet_wire p) = Packet_size p"
  unfolding Packet_wire_def
  by (cases p)
    (simp_all add: connect.length_wire_size connack.length_wire_size
      publish.length_wire_size puback.length_wire_size pubrec.length_wire_size
      pubrel.length_wire_size pubcomp.length_wire_size subscribe.length_wire_size
      suback.length_wire_size unsubscribe.length_wire_size unsuback.length_wire_size
      PingReq_size_def PingResp_size_def Disconnect_size_def, simp_all add: wire_def)

lemma Packet_write_outcome:
  "(\<exists>n. Packet_write p max_size buf = (Ok n, buf @ Packet_wire p)) \<or>
   (\<exists>e. Packet_write p max_size buf = (Err e, buf))"
proof (cases "Packet_size p > max_size")
  case True
  then show ?thesis by (simp add: Packet_write_def transactional_write_def run_simps)
next
  case False
  show ?thesis
  proof (cases "fst (Packet_write_variant p buf)")
    case (Ok n)
    then have "Packet_write_variant p buf = (Ok n, snd (Packet_write_variant p buf))"
      by (metis prod.collapse)
    then have "Packet_write_variant p buf = (Ok n, buf @ Packet_wire p)"
      by (simp add: Packet_write_variant_Ok)
    then show ?thesis using False by (simp add: Packet_write_def transactional_write_def)
  next
    case (Err e)
    then have "Packet_write_variant p buf = (Err e, buf)"
      using Packet_write_variant_Err by (metis prod.collapse)
    then show ?thesis using False by (simp add: Packet_write_def transactional_write_def)
  next
    case Panic
    then show ?thesis using Packet_write_variant_safe [of p buf] by (simp add: safe_def)
  qed
qed

lemma Packet_norm_facts:
  assumes "Packet_writable p"
  shows "Packet_readable (Packet_norm p)" "Packet_body (Packet_norm p) = Packet_body p"
    "Packet_first_byte (Packet_norm p) = Packet_first_byte p"
  using assms publish.norm_readable publish.norm_body publish.norm_first_byte connect.norm_readable
  by (cases p; simp)+

section \<open>Framing\<close>

lemma parse_fixed_header_Cons:
  "parse_fixed_header (b # bs) =
     (if bs = [] then Err (InsufficientBytes 1)
      else (case mqtt_length bs of
              Ok (n, len) \<Rightarrow> Ok \<lparr>byte1 = b, header_len = n + 1, remaining_len = len\<rparr>
            | Err e \<Rightarrow> Err (error_from_prim e)
            | Panic \<Rightarrow> Panic))"
  by (cases bs)
    (auto simp: parse_fixed_header_def prim_parse_fixed_header_def FixedHeader_new_def
      split: outcome.splits prod.splits)

lemma parse_fixed_header_Nil: "parse_fixed_header [] = Err (InsufficientBytes 2)"
  by (simp add: parse_fixed_header_def prim_parse_fixed_header_def)

lemma mqtt_length_Nil: "mqtt_length [] = Err (PrimInsufficientBytes 1)"
  by (simp add: mqtt_length_def)

lemma check_Ok:
  "check s max_size = Ok fh \<longleftrightarrow>
     (\<exists>b bs n len. s = b # bs \<and> mqtt_length bs = Ok (n, len)
        \<and> fh = \<lparr>byte1 = b, header_len = n + 1, remaining_len = len\<rparr>
        \<and> len \<le> max_size \<and> n + 1 + len \<le> length s)"
proof (cases s)
  case Nil
  then show ?thesis by (simp add: check_def parse_fixed_header_Nil)
next
  case (Cons b bs)
  then show ?thesis
    by (auto simp: check_def parse_fixed_header_Cons mqtt_length_Nil frame_length_def
        split: outcome.splits prod.splits if_splits)
qed

lemma check_no_panic: "check s max_size \<noteq> Panic"
  using mqtt_length_no_panic
  by (cases s)
    (auto simp: check_def parse_fixed_header_Nil parse_fixed_header_Cons split: outcome.splits)

lemma check_frame:
  assumes "check s max_size = Ok fh"
  obtains hdr body rest where "s = hdr @ body @ rest" "header_len fh = length hdr"
    "remaining_len fh = length body" "frame_length fh = length (hdr @ body)"
    "hdr \<noteq> []" "hd hdr = byte1 fh" "length body \<le> max_size"
proof
  let ?hdr = "take (header_len fh) s"
  let ?body = "take (remaining_len fh) (drop (header_len fh) s)"
  let ?rest = "drop (remaining_len fh) (drop (header_len fh) s)"
  show "s = ?hdr @ ?body @ ?rest" by (simp only: append_take_drop_id)
qed (use assms in \<open>auto simp: check_Ok frame_length_def\<close>)

lemma check_append: "check s max_size = Ok fh \<Longrightarrow> check (s @ t) max_size = Ok fh"
  by (auto simp: check_Ok mqtt_length_append)

lemma check_append_Err:
  "\<lbrakk>check s max_size = Err e; framed_error e\<rbrakk> \<Longrightarrow> check (s @ t) max_size = Err e"
proof (cases s)
  case Nil
  then show "check s max_size = Err e \<Longrightarrow> framed_error e \<Longrightarrow> check (s @ t) max_size = Err e"
    by (auto simp: check_def parse_fixed_header_Nil)
next
  case (Cons b bs)
  assume c: "check s max_size = Err e" and e: "framed_error e"
  then have "bs \<noteq> []" "mqtt_length bs \<noteq> Err (PrimInsufficientBytes 1)"
    using Cons by (auto simp: check_def parse_fixed_header_Cons split: if_splits)
  then show ?thesis
    using c e Cons
    by (auto simp: check_def parse_fixed_header_Cons mqtt_length_append frame_length_def
        split: outcome.splits prod.splits if_splits)
qed

lemma check_prefix:
  assumes "check s max_size = Ok fh" and "k < frame_length fh"
  shows "\<exists>n. check (take k s) max_size = Err (InsufficientBytes n)"
proof -
  from assms obtain b bs n len where s: "s = b # bs" and m: "mqtt_length bs = Ok (n, len)"
    and fh: "fh = \<lparr>byte1 = b, header_len = n + 1, remaining_len = len\<rparr>"
    and len: "len \<le> max_size" "n + len \<le> length bs"
    by (auto simp: check_Ok)
  have k: "k < n + 1 + len"
    using assms(2) fh by (simp add: frame_length_def)
  show ?thesis
  proof (cases k)
    case 0
    then show ?thesis by (simp add: check_def parse_fixed_header_Nil)
  next
    case (Suc j)
    show ?thesis
    proof (cases "j < n")
      case True
      then have "mqtt_length (take j bs) = Err (PrimInsufficientBytes 1)"
        using m by (rule mqtt_length_take [rotated])
      then show ?thesis
        using Suc s by (auto simp: check_def parse_fixed_header_Cons)
    next
      case False
      then have "mqtt_length (take j bs) = Ok (n, len)"
        using m mqtt_length_split [OF m, of j] by simp
      then show ?thesis
        using Suc s k len mqtt_length_Nil
        by (auto simp: check_def parse_fixed_header_Cons frame_length_def)
    qed
  qed
qed

lemma check_wire:
  assumes "length body \<le> max_size" and "length body \<le> max_remaining_len"
  shows "check (wire b body @ rest) max_size =
    Ok \<lparr>byte1 = b, header_len = len_len (length body) + 1, remaining_len = length body\<rparr>"
  using assms mqtt_length_vbi [of "length body" "body @ rest"] length_vbi_len_len [of "length body"]
  by (auto simp: check_Ok wire_def max_remaining_len_def len_len_def)

section \<open>Reading\<close>

definition Packet_decode :: "FixedHeader \<Rightarrow> bytes \<Rightarrow> (v4_error, Packet) outcome" where
  "Packet_decode fh packet = fst
     (andThen (lift (FixedHeader_packet_type fh)) (\<lambda>packet_type.
      andThen (lift (validate_fixed_header_flags packet_type (byte1 fh))) (\<lambda>_.
      if remaining_len fh = 0
      then (case packet_type of
              TyPingReq \<Rightarrow> ret PktPingReq
            | TyPingResp \<Rightarrow> ret PktPingResp
            | TyDisconnect \<Rightarrow> ret PktDisconnect
            | _ \<Rightarrow> fail PayloadRequired)
      else lift (Packet_dispatch packet_type fh packet))) ())"

lemma Packet_read_run:
  "Packet_read max_size s = (case check s max_size of
      Ok fh \<Rightarrow> (Packet_decode fh (take (frame_length fh) s), drop (frame_length fh) s)
    | Err e \<Rightarrow> (Err e, s)
    | Panic \<Rightarrow> (Panic, s))"
proof (cases "check s max_size")
  case (Ok fh)
  then obtain hdr body rest where "s = hdr @ body @ rest" "frame_length fh = length (hdr @ body)"
    by (rule check_frame)
  then have "frame_length fh \<le> length s" by simp
  with Ok show ?thesis
    by (auto simp: Packet_read_def Packet_decode_def andThen_def split_to_def run_simps
        split: outcome.splits PacketType.splits)
qed (simp_all add: Packet_read_def andThen_def run_simps)

lemma FixedHeader_packet_type_no_panic: "FixedHeader_packet_type fh \<noteq> Panic"
  by (simp add: FixedHeader_packet_type_def Let_def)

lemma Packet_dispatch_no_panic:
  "\<lbrakk>header_len fh = length hdr; remaining_len fh = length bs\<rbrakk>
    \<Longrightarrow> Packet_dispatch t fh (hdr @ bs) \<noteq> Panic"
  by (cases t)
    (auto simp: map_outcome_def split: outcome.splits
      dest: connect.read_no_panic connack.read_no_panic publish.read_no_panic puback.read_no_panic
        pubrec.read_no_panic pubrel.read_no_panic pubcomp.read_no_panic subscribe.read_no_panic
        suback.read_no_panic unsubscribe.read_no_panic unsuback.read_no_panic)

lemma Packet_dispatch_framed:
  "\<lbrakk>header_len fh = length hdr; Packet_dispatch t fh (hdr @ bs) = Err e\<rbrakk> \<Longrightarrow> framed_error e"
  by (cases t)
    (auto simp: map_outcome_def split: outcome.splits
      dest: connect.read_framed connack.read_framed publish.read_framed puback.read_framed
        pubrec.read_framed pubrel.read_framed pubcomp.read_framed subscribe.read_framed
        suback.read_framed unsubscribe.read_framed unsuback.read_framed)

fun type_byte :: "PacketType \<Rightarrow> u8" where
  "type_byte TyConnect = 0x10"
| "type_byte TyConnAck = 0x20"
| "type_byte TyPublish = 0x30"
| "type_byte TyPubAck = 0x40"
| "type_byte TyPubRec = 0x50"
| "type_byte TyPubRel = 0x62"
| "type_byte TyPubComp = 0x70"
| "type_byte TySubscribe = 0x82"
| "type_byte TySubAck = 0x90"
| "type_byte TyUnsubscribe = 0xA2"
| "type_byte TyUnsubAck = 0xB0"
| "type_byte TyPingReq = 0xC0"
| "type_byte TyPingResp = 0xD0"
| "type_byte TyDisconnect = 0xE0"

lemma u8_nibbles: "(b::u8) = push_bit 4 (drop_bit 4 b) + (b AND 15)"
proof -
  have "take_bit 4 b = b AND 15"
    by (simp add: take_bit_eq_mask mask_eq_exp_minus_1)
  then show ?thesis
    using bits_ident [of 4 b] by simp
qed

lemma header_byte:
  assumes "FixedHeader_packet_type fh = Ok t" and "validate_fixed_header_flags t (byte1 fh) = Ok u"
    and "t \<noteq> TyPublish"
  shows "byte1 fh = type_byte t"
  using assms u8_nibbles [of "byte1 fh"]
  by (cases t) (auto simp: FixedHeader_packet_type_def validate_fixed_header_flags_def Let_def split: if_splits)

lemma header_publish:
  "FixedHeader_packet_type fh = Ok TyPublish \<longleftrightarrow> drop_bit 4 (byte1 fh) = 3"
  by (auto simp: FixedHeader_packet_type_def Let_def split: if_splits)

lemma map_outcome_Ok: "map_outcome f r = Ok y \<longleftrightarrow> (\<exists>x. r = Ok x \<and> y = f x)"
  by (cases r) (auto simp: map_outcome_def)

lemma Packet_dispatch_Ok:
  assumes "FixedHeader_packet_type fh = Ok t" and "validate_fixed_header_flags t (byte1 fh) = Ok u"
    and "header_len fh = length hdr" and "remaining_len fh = length bs"
    and "Packet_dispatch t fh (hdr @ bs) = Ok p"
  shows "Packet_first_byte p = byte1 fh \<and> Packet_readable p
    \<and> (p \<notin> {PktPingReq, PktPingResp, PktDisconnect} \<longrightarrow> bs = Packet_body p)"
  using assms(5) header_byte [OF assms(1,2)] header_publish [of fh] assms(1)
  by (cases t)
    (auto simp: map_outcome_Ok connect.read_iff [OF _ assms(3,4)] connack.read_iff [OF _ assms(3,4)]
      publish.read_iff [OF _ assms(3,4)] puback.read_iff [OF _ assms(3,4)] pubrec.read_iff [OF _ assms(3,4)]
      pubrel.read_iff [OF _ assms(3,4)] pubcomp.read_iff [OF _ assms(3,4)] subscribe.read_iff [OF _ assms(3,4)]
      suback.read_iff [OF _ assms(3,4)] unsubscribe.read_iff [OF _ assms(3,4)] unsuback.read_iff [OF _ assms(3,4)])

lemma first_byte_header:
  assumes "byte1 fh = Packet_first_byte p"
  shows "FixedHeader_packet_type fh = Ok (Packet_packet_type p)"
    and "validate_fixed_header_flags (Packet_packet_type p) (byte1 fh) = Ok ()"
  using assms header_publish [of fh] publish_first_byte_type
  by (cases p; simp add: FixedHeader_packet_type_def validate_fixed_header_flags_def)+

lemma Packet_dispatch_readable:
  assumes "byte1 fh = Packet_first_byte p" and "header_len fh = length hdr"
    and "remaining_len fh = length (Packet_body p)" and "Packet_readable p"
  shows "Packet_dispatch (Packet_packet_type p) fh (hdr @ Packet_body p) = Ok p"
  using assms publish_first_byte_type
  by (cases p)
    (auto simp: map_outcome_Ok connect.read_iff connack.read_iff publish.read_iff puback.read_iff
      pubrec.read_iff pubrel.read_iff pubcomp.read_iff subscribe.read_iff suback.read_iff
      unsubscribe.read_iff unsuback.read_iff)

lemma Packet_body_Nil: "Packet_body p = [] \<longleftrightarrow> p \<in> {PktPingReq, PktPingResp, PktDisconnect}"
  by (cases p) (simp_all add: connect.body_not_Nil connack.body_not_Nil publish.body_not_Nil
      subscribe.body_not_Nil suback.body_not_Nil unsubscribe.body_not_Nil)

lemma Packet_decode_readable:
  assumes "byte1 fh = Packet_first_byte p" and "header_len fh = length hdr"
    and "remaining_len fh = length (Packet_body p)" and "Packet_readable p"
  shows "Packet_decode fh (hdr @ Packet_body p) = Ok p"
proof (cases "Packet_body p = []")
  case True
  then show ?thesis
    using assms(3) by (auto simp: Packet_body_Nil Packet_decode_def first_byte_header [OF assms(1)] run_simps)
next
  case False
  then show ?thesis
    using assms(3) Packet_dispatch_readable [OF assms]
    by (simp add: Packet_decode_def first_byte_header [OF assms(1)] run_simps)
qed

lemma Packet_read_wire:
  assumes "Packet_readable p" and "length (Packet_body p) \<le> max_remaining_len"
    and "length (Packet_body p) \<le> max_size"
  shows "Packet_read max_size (Packet_wire p @ rest) = (Ok p, rest)"
proof -
  let ?n = "length (Packet_body p)"
  let ?fh = "\<lparr>byte1 = Packet_first_byte p, header_len = len_len ?n + 1, remaining_len = ?n\<rparr>"
  let ?hdr = "Packet_first_byte p # vbi ?n"
  have check: "check (Packet_wire p @ rest) max_size = Ok ?fh"
    unfolding Packet_wire_def using assms by (intro check_wire)
  have hdr: "length ?hdr = len_len ?n + 1"
    using assms(2) length_vbi_len_len [of ?n] by (simp add: max_remaining_len_def)
  have wire: "Packet_wire p = ?hdr @ Packet_body p"
    by (simp add: Packet_wire_def wire_def)
  have frame: "frame_length ?fh = length (Packet_wire p)"
    using hdr by (simp add: wire frame_length_def)
  have "Packet_decode ?fh (?hdr @ Packet_body p) = Ok p"
    by (rule Packet_decode_readable) (use hdr assms in simp_all)
  then have "Packet_decode ?fh (Packet_wire p) = Ok p"
    unfolding wire .
  then show ?thesis
    using check frame by (simp add: Packet_read_run)
qed

lemma Packet_read_OkD:
  assumes "Packet_read max_size s = (Ok p, s')"
  obtains fh hdr body where "check s max_size = Ok fh" "s = hdr @ body @ s'"
    "frame_length fh = length (hdr @ body)" "Packet_decode fh (hdr @ body) = Ok p"
    "Packet_readable p" "length body \<le> max_remaining_len" "hdr \<noteq> []" "hd hdr = Packet_first_byte p"
    "p \<notin> {PktPingReq, PktPingResp, PktDisconnect} \<longrightarrow> body = Packet_body p"
proof -
  from assms obtain fh where fh: "check s max_size = Ok fh"
    by (cases "check s max_size") (auto simp: Packet_read_run)
  then obtain hdr body rest where s: "s = hdr @ body @ rest" "header_len fh = length hdr"
      "remaining_len fh = length body" "frame_length fh = length (hdr @ body)"
      "hdr \<noteq> []" "hd hdr = byte1 fh"
    by (rule check_frame)
  have p: "Packet_decode fh (hdr @ body) = Ok p" "s' = rest"
    using assms fh s by (auto simp: Packet_read_run)
  have len: "length body \<le> max_remaining_len"
    using fh s(3) mqtt_length_bounds(5) by (auto simp: check_Ok max_remaining_len_def)
  obtain t where t: "FixedHeader_packet_type fh = Ok t" "validate_fixed_header_flags t (byte1 fh) = Ok ()"
    using p(1) unfolding Packet_decode_def
    by (auto simp: andThen_def run_simps split: outcome.splits)
  have "Packet_first_byte p = byte1 fh \<and> Packet_readable p
    \<and> (p \<notin> {PktPingReq, PktPingResp, PktDisconnect} \<longrightarrow> body = Packet_body p)"
  proof (cases "remaining_len fh = 0")
    case True
    then have "p \<in> {PktPingReq, PktPingResp, PktDisconnect} \<and> Packet_packet_type p = t"
      using p(1) t by (cases t) (auto simp: Packet_decode_def run_simps)
    then show ?thesis
      using header_byte [OF t] by auto
  next
    case False
    then have "Packet_dispatch t fh (hdr @ body) = Ok p"
      using p(1) t by (simp add: Packet_decode_def run_simps)
    then show ?thesis
      by (rule Packet_dispatch_Ok [OF t s(2,3)])
  qed
  then show ?thesis
    using that [OF fh _ s(4) p(1) _ len s(5)] s(1,6) p(2) by simp
qed

lemma Packet_decode_no_panic:
  assumes "header_len fh = length hdr" and "remaining_len fh = length body"
  shows "Packet_decode fh (hdr @ body) \<noteq> Panic"
  using Packet_dispatch_no_panic [OF assms]
  by (auto simp: Packet_decode_def andThen_def run_simps validate_fixed_header_flags_def
      FixedHeader_packet_type_no_panic split: outcome.splits PacketType.splits)

lemma Packet_decode_framed:
  assumes "header_len fh = length hdr" and "Packet_decode fh (hdr @ body) = Err e"
  shows "framed_error e"
proof (cases "FixedHeader_packet_type fh")
  case (Ok t)
  show ?thesis
  proof (cases "validate_fixed_header_flags t (byte1 fh)")
    case (Ok u)
    then show ?thesis
      using assms(2) \<open>FixedHeader_packet_type fh = Ok t\<close> Packet_dispatch_framed [OF assms(1), of t body e]
      by (auto simp: Packet_decode_def run_simps split: if_splits PacketType.splits)
  qed (use assms(2) Ok in \<open>auto simp: Packet_decode_def andThen_def run_simps
      validate_fixed_header_flags_def split: if_splits\<close>)
qed (use assms(2) in \<open>auto simp: Packet_decode_def andThen_def run_simps FixedHeader_packet_type_def
    split: if_splits\<close>)

lemma Packet_read_incomplete:
  assumes "Packet_read max_size s = (Err (InsufficientBytes n), s')"
  shows "s' = s \<and> check s max_size = Err (InsufficientBytes n)"
proof (cases "check s max_size")
  case (Ok fh)
  then obtain hdr body rest where s: "s = hdr @ body @ rest" "header_len fh = length hdr"
      "frame_length fh = length (hdr @ body)"
    by (rule check_frame)
  then have "Packet_decode fh (hdr @ body) = Err (InsufficientBytes n)"
    using assms Ok by (simp add: Packet_read_run)
  then show ?thesis
    using Packet_decode_framed [OF s(2)] by force
qed (use assms in \<open>simp_all add: Packet_read_run\<close>)

section \<open>Properties\<close>

text \<open>
  C24: round trip of the packet layer. A packet that is written without error appends exactly
  \<open>Packet_size\<close> bytes, within the outgoing limit, and reading them back, whatever follows on the
  stream, returns the packet and leaves what follows; only the packet identifier of a QoS 0
  publish, which has no place on the wire, is lost.
\<close>

theorem packet_roundtrip:
  assumes "Packet_write p max_out buf = (Ok n, buf')"
  shows "\<exists>enc. buf' = buf @ enc \<and> length enc = n \<and> n = Packet_size p \<and> n \<le> max_out
    \<and> (\<forall>max_in rest. n \<le> max_in \<longrightarrow> Packet_read max_in (enc @ rest) = (Ok (Packet_norm p), rest))"
proof -
  have w: "Packet_writable p" "length (Packet_body p) \<le> max_remaining_len" "Packet_size p \<le> max_out"
      "n = Packet_size p" "buf' = buf @ Packet_wire p"
    using assms by (simp_all add: Packet_write_Ok)
  have len: "length (Packet_wire p) = Packet_size p"
    using w(1,2) by (rule length_Packet_wire)
  have wire: "Packet_wire (Packet_norm p) = Packet_wire p"
    using Packet_norm_facts [OF w(1)] by (simp add: Packet_wire_def)
  have "Packet_read max_in (Packet_wire p @ rest) = (Ok (Packet_norm p), rest)" if "n \<le> max_in" for max_in rest
    using Packet_read_wire [of "Packet_norm p" max_in rest] Packet_norm_facts [OF w(1)] w(2,4) that len
    by (simp add: wire) (simp add: Packet_wire_def wire_def)
  then show ?thesis
    using w len by blast
qed

theorem packet_roundtrip_witness:
  "\<exists>enc. [7, 0x40, 2, 0, 9] = [7] @ enc \<and> length enc = 4
    \<and> Packet_read 4 (enc @ [1, 2]) = (Ok (PktPubAck (PubAck_new 9)), [1, 2])"
proof -
  have "Packet_write (PktPubAck (PubAck_new 9)) 100 [7] = (Ok 4, [7, 0x40, 2, 0, 9])"
    by (simp add: Packet_write_Ok PubAck_new_def PubAck_size_def PubAck_len_def Packet_wire_def wire_def u16_be_def)
  from packet_roundtrip [OF this] show ?thesis by (metis Packet_norm.simps(4) order_refl)
qed

text \<open>
  C25: decoding is stable. A packet read from a stream is read again, unchanged, however many
  bytes arrive after it, and before its last byte has arrived the reader asks for more bytes
  and leaves the stream alone.
\<close>

theorem packet_read_incremental:
  assumes "Packet_read max_size s = (Ok p, s')"
  shows "Packet_read max_size (s @ t) = (Ok p, s' @ t)
    \<and> (\<forall>k. k + length s' < length s \<longrightarrow>
         (\<exists>n. Packet_read max_size (take k s) = (Err (InsufficientBytes n), take k s)))"
proof -
  from assms obtain fh hdr body where c: "check s max_size = Ok fh" and s: "s = hdr @ body @ s'"
      "frame_length fh = length (hdr @ body)" "Packet_decode fh (hdr @ body) = Ok p"
    by (rule Packet_read_OkD)
  have "Packet_read max_size (s @ t) = (Ok p, s' @ t)"
    using check_append [OF c, of t] s by (simp add: Packet_read_run)
  moreover have "\<exists>n. Packet_read max_size (take k s) = (Err (InsufficientBytes n), take k s)"
    if "k + length s' < length s" for k
  proof -
    have "k < frame_length fh"
      using that s(2) arg_cong [OF s(1), of length] by simp
    then show ?thesis
      using check_prefix [OF c] by (fastforce simp: Packet_read_run)
  qed
  ultimately show ?thesis by blast
qed

theorem packet_read_incremental_witness:
  "Packet_read 100 ([0xC0, 0, 5] @ [6]) = (Ok PktPingReq, [5] @ [6])
    \<and> (\<exists>n. Packet_read 100 [0xC0] = (Err (InsufficientBytes n), [0xC0]))"
proof -
  have "Packet_read 100 (Packet_wire PktPingReq @ [5]) = (Ok PktPingReq, [5])"
    by (rule Packet_read_wire) simp_all
  then have "Packet_read 100 [0xC0, 0, 5] = (Ok PktPingReq, [5])"
    by (simp add: Packet_wire_def wire_def)
  from packet_read_incremental [OF this, of "[6]"] show ?thesis by (auto dest: spec [of _ 1])
qed

text \<open>
  C28: what can be decoded can be encoded. A packet that came off the wire is accepted by the
  writer again, with one exception: the reader lets through a CONNECT with an empty client
  identifier and a persistent session, which the writer refuses.
\<close>

theorem packet_reencode:
  assumes "Packet_read max_size s = (Ok p, s')" and "Packet_size p \<le> max_out"
  shows "Packet_write p max_out buf = (Ok (Packet_size p), buf @ Packet_wire p)
    \<or> (\<exists>c. p = PktConnect c \<and> client_id c = [] \<and> \<not> clean_session c)"
proof -
  from assms(1) obtain body where r: "Packet_readable p" "length body \<le> max_remaining_len"
      "p \<notin> {PktPingReq, PktPingResp, PktDisconnect} \<longrightarrow> body = Packet_body p"
    by (rule Packet_read_OkD)
  have "length (Packet_body p) \<le> max_remaining_len"
    using r(2,3) Packet_body_Nil [of p] by (cases "Packet_body p = []") auto
  moreover have "Packet_writable p \<or> (\<exists>c. p = PktConnect c \<and> client_id c = [] \<and> \<not> clean_session c)"
    using r(1) by (cases p) (auto simp: Connect_writable_def Publish_readable_def)
  ultimately show ?thesis
    using assms(2) by (auto simp: Packet_write_Ok)
qed

theorem packet_reencode_witness:
  "Packet_write PktPingReq 2 [] = (Ok 2, [] @ Packet_wire PktPingReq)
    \<or> (\<exists>c. PktPingReq = PktConnect c \<and> client_id c = [] \<and> \<not> clean_session c)"
proof -
  have "Packet_read 100 (Packet_wire PktPingReq @ []) = (Ok PktPingReq, [])"
    by (rule Packet_read_wire) simp_all
  from packet_reencode [OF this, of 2 "[]"] show ?thesis by (simp add: PingReq_size_def)
qed

text \<open>
  C27: writes are atomic. Writing a packet never panics; it either appends the packet's whole
  wire image or, when the packet is refused, leaves the buffer as it was.
\<close>

theorem packet_write_atomic:
  "(\<exists>n. Packet_write p max_size buf = (Ok n, buf @ Packet_wire p) \<and> n = length (Packet_wire p))
   \<or> (\<exists>e. Packet_write p max_size buf = (Err e, buf))"
  using Packet_write_outcome [of p max_size buf] length_Packet_wire [of p]
  by (auto simp: Packet_write_Ok)

text \<open>
  C26: reading is total and consumes whole frames. Whatever bytes arrive, reading a packet
  does not panic; if the stream starts with a complete frame within the size limit exactly this
  frame is removed, even when its content is refused, and otherwise nothing is.
\<close>

theorem packet_read_total:
  "fst (Packet_read max_size s) \<noteq> Panic
   \<and> snd (Packet_read max_size s) =
       (case check s max_size of Ok fh \<Rightarrow> drop (frame_length fh) s | _ \<Rightarrow> s)"
proof (cases "check s max_size")
  case (Ok fh)
  then obtain hdr body rest where s: "s = hdr @ body @ rest" "header_len fh = length hdr"
      "remaining_len fh = length body" "frame_length fh = length (hdr @ body)"
    by (rule check_frame)
  then show ?thesis
    using Ok Packet_decode_no_panic [OF s(2,3)] by (simp add: Packet_read_run)
qed (simp_all add: Packet_read_run check_no_panic)

text \<open>
  C29: the codec reports an incomplete packet only when the stream really is incomplete. It then
  leaves the stream untouched, and a stream holding a complete frame within the limit never
  yields it: a malformed packet is an error, not a wait for more bytes.
\<close>

theorem codec_decode_none:
  "Codec_decode c src = (Ok None, src') \<longleftrightarrow>
     src' = src \<and> (\<exists>n. check src (max_incoming_size c) = Err (InsufficientBytes n))"
proof
  assume "Codec_decode c src = (Ok None, src')"
  then obtain n where "Packet_read (max_incoming_size c) src = (Err (InsufficientBytes n), src')"
    by (auto simp: Codec_decode_def split: prod.splits outcome.splits v4_error.splits)
  then show "src' = src \<and> (\<exists>n. check src (max_incoming_size c) = Err (InsufficientBytes n))"
    using Packet_read_incomplete by blast
next
  assume "src' = src \<and> (\<exists>n. check src (max_incoming_size c) = Err (InsufficientBytes n))"
  then show "Codec_decode c src = (Ok None, src')"
    by (auto simp: Codec_decode_def Packet_read_run)
qed

text \<open>
  C40: a PINGREQ that carries a body is accepted. MQTT 3.1.1 gives PINGREQ no variable header and
  no payload; the reader drops whatever body the frame has.
\<close>

theorem pingreq_with_body_accepted:
  assumes "length body \<le> max_size" and "length body \<le> 268435455"
  shows "Packet_read max_size (wire 0xC0 body @ rest) = (Ok PktPingReq, rest)"
proof -
  let ?fh = "\<lparr>byte1 = 0xC0, header_len = len_len (length body) + 1, remaining_len = length body\<rparr>"
  have "check (wire 0xC0 body @ rest) max_size = Ok ?fh"
    using assms by (intro check_wire) (simp_all add: max_remaining_len_def)
  moreover have "frame_length ?fh = length (wire 0xC0 body)"
    using length_vbi_len_len [OF assms(2)] by (simp add: frame_length_def wire_def)
  moreover have "Packet_decode ?fh packet = Ok PktPingReq" for packet
    by (simp add: Packet_decode_def FixedHeader_packet_type_def validate_fixed_header_flags_def run_simps)
  ultimately show ?thesis by (simp add: Packet_read_run)
qed

theorem pingreq_with_body_accepted_witness:
  "Packet_read 10 (wire 0xC0 [1, 2] @ [9]) = (Ok PktPingReq, [9])"
  by (rule pingreq_with_body_accepted) simp_all

end
