(* ===== verification/V4_Notice.thy ===== *)
theory V4_Notice
  imports V4_Codec
begin

text \<open>
  Completion notices of the MQTT 3.1.1 client (\<open>rumqttc-v4/src/notice.rs\<close>): the sender halves
  the client state holds for tracked requests, the results and errors sent on them, and what the
  receiving half returns. A sender is the identity of its one-shot channel; what is sent is
  recorded as a \<open>NoticeSent\<close> entry of a log, in the order of sending. The names follow the
  default feature set (without \<open>ordered-shutdown\<close>).
\<close>

section \<open>Results and errors\<close>

datatype NoticeFailureReason = FailSessionReset

datatype PublishResult = Qos0Flushed | Qos1 PubAck | Qos2Completed PubComp

datatype PublishNoticeError =
    PublishRecv | PublishSessionReset | Qos0NotFlushed | PublishSessionPersistence rstring

datatype SubscribeNoticeError =
    SubscribeRecv | SubscribeSessionReset | SubscribeSessionPersistence rstring
  | V4SubAckFailure "SubscribeReasonCode list"

datatype UnsubscribeNoticeError =
    UnsubscribeRecv | UnsubscribeSessionReset | UnsubscribeSessionPersistence rstring

fun publish_error :: "NoticeFailureReason \<Rightarrow> PublishNoticeError" where
  "publish_error FailSessionReset = PublishSessionReset"

fun subscribe_error :: "NoticeFailureReason \<Rightarrow> SubscribeNoticeError" where
  "subscribe_error FailSessionReset = SubscribeSessionReset"

fun unsubscribe_error :: "NoticeFailureReason \<Rightarrow> UnsubscribeNoticeError" where
  "unsubscribe_error FailSessionReset = UnsubscribeSessionReset"

fun PublishResult_qos :: "PublishResult \<Rightarrow> QoS" where
  "PublishResult_qos Qos0Flushed = AtMostOnce"
| "PublishResult_qos (Qos1 _) = AtLeastOnce"
| "PublishResult_qos (Qos2Completed _) = ExactlyOnce"

section \<open>Senders\<close>

datatype PublishNoticeTx = PublishNoticeTx nat
datatype SubscribeNoticeTx = SubscribeNoticeTx nat
datatype UnsubscribeNoticeTx = UnsubscribeNoticeTx nat

datatype TrackedNoticeTx =
    TrackedPublish PublishNoticeTx
  | TrackedSubscribe SubscribeNoticeTx
  | TrackedUnsubscribe UnsubscribeNoticeTx

datatype NoticeSent =
    SentPublish PublishNoticeTx "PublishNoticeError + PublishResult"
  | SentSubscribe SubscribeNoticeTx "SubscribeNoticeError + SubAck"
  | SentUnsubscribe UnsubscribeNoticeTx "UnsubscribeNoticeError + UnsubAck"

definition PublishNoticeTx_success :: "PublishNoticeTx \<Rightarrow> PublishResult \<Rightarrow> NoticeSent" where
  "PublishNoticeTx_success self result = SentPublish self (Inr result)"

definition PublishNoticeTx_error :: "PublishNoticeTx \<Rightarrow> PublishNoticeError \<Rightarrow> NoticeSent" where
  "PublishNoticeTx_error self err = SentPublish self (Inl err)"

definition SubscribeNoticeTx_success :: "SubscribeNoticeTx \<Rightarrow> SubAck \<Rightarrow> NoticeSent" where
  "SubscribeNoticeTx_success self suback = SentSubscribe self (Inr suback)"

definition SubscribeNoticeTx_error :: "SubscribeNoticeTx \<Rightarrow> SubscribeNoticeError \<Rightarrow> NoticeSent" where
  "SubscribeNoticeTx_error self err = SentSubscribe self (Inl err)"

definition UnsubscribeNoticeTx_success :: "UnsubscribeNoticeTx \<Rightarrow> UnsubAck \<Rightarrow> NoticeSent" where
  "UnsubscribeNoticeTx_success self unsuback = SentUnsubscribe self (Inr unsuback)"

definition UnsubscribeNoticeTx_error :: "UnsubscribeNoticeTx \<Rightarrow> UnsubscribeNoticeError \<Rightarrow> NoticeSent" where
  "UnsubscribeNoticeTx_error self err = SentUnsubscribe self (Inl err)"

section \<open>Deferred notices\<close>

datatype DeferredNotice =
    DeferredPublish PublishNoticeTx PublishResult
  | DeferredSubscribe SubscribeNoticeTx SubAck
  | DeferredUnsubscribe UnsubscribeNoticeTx UnsubAck

fun DeferredNotice_complete :: "DeferredNotice \<Rightarrow> NoticeSent" where
  "DeferredNotice_complete (DeferredPublish notice result) = PublishNoticeTx_success notice result"
| "DeferredNotice_complete (DeferredSubscribe notice suback) = SubscribeNoticeTx_success notice suback"
| "DeferredNotice_complete (DeferredUnsubscribe notice unsuback) = UnsubscribeNoticeTx_success notice unsuback"

fun DeferredNotice_persistence_error :: "DeferredNotice \<Rightarrow> rstring \<Rightarrow> NoticeSent" where
  "DeferredNotice_persistence_error (DeferredPublish notice _) error =
     PublishNoticeTx_error notice (PublishSessionPersistence error)"
| "DeferredNotice_persistence_error (DeferredSubscribe notice _) error =
     SubscribeNoticeTx_error notice (SubscribeSessionPersistence error)"
| "DeferredNotice_persistence_error (DeferredUnsubscribe notice _) error =
     UnsubscribeNoticeTx_error notice (UnsubscribeSessionPersistence error)"

section \<open>Receivers\<close>

text \<open>
  What a receiver obtains from its channel is the value sent, or \<open>None\<close> when the sender was
  dropped without sending.
\<close>

definition NoticeRx_wait :: "'e \<Rightarrow> ('e + 'a) option \<Rightarrow> 'e + 'a" where
  "NoticeRx_wait recv_error received = (case received of None \<Rightarrow> Inl recv_error | Some r \<Rightarrow> r)"

definition result_drop :: "'e + 'a \<Rightarrow> 'e + unit" where
  "result_drop r = map_sum id (\<lambda>_. ()) r"

definition PublishNotice_wait ::
  "(PublishNoticeError + PublishResult) option \<Rightarrow> PublishNoticeError + PublishResult" where
  "PublishNotice_wait = NoticeRx_wait PublishRecv"

definition PublishNotice_wait_completion ::
  "(PublishNoticeError + PublishResult) option \<Rightarrow> PublishNoticeError + unit" where
  "PublishNotice_wait_completion received = result_drop (PublishNotice_wait received)"

definition validate_v4_suback_completion :: "SubAck \<Rightarrow> SubscribeNoticeError + unit" where
  "validate_v4_suback_completion suback =
     (let failures = filter (\<lambda>code. code = SubFailure) (return_codes suback) in
      if failures = [] then Inr () else Inl (V4SubAckFailure failures))"

definition SubscribeNotice_wait ::
  "(SubscribeNoticeError + SubAck) option \<Rightarrow> SubscribeNoticeError + SubAck" where
  "SubscribeNotice_wait = NoticeRx_wait SubscribeRecv"

definition SubscribeNotice_wait_completion ::
  "(SubscribeNoticeError + SubAck) option \<Rightarrow> SubscribeNoticeError + unit" where
  "SubscribeNotice_wait_completion received =
     (case SubscribeNotice_wait received of
        Inl e \<Rightarrow> Inl e
      | Inr suback \<Rightarrow> validate_v4_suback_completion suback)"

definition UnsubscribeNotice_wait ::
  "(UnsubscribeNoticeError + UnsubAck) option \<Rightarrow> UnsubscribeNoticeError + UnsubAck" where
  "UnsubscribeNotice_wait = NoticeRx_wait UnsubscribeRecv"

definition UnsubscribeNotice_wait_completion ::
  "(UnsubscribeNoticeError + UnsubAck) option \<Rightarrow> UnsubscribeNoticeError + unit" where
  "UnsubscribeNotice_wait_completion received = result_drop (UnsubscribeNotice_wait received)"

lemma validate_v4_suback_completion_ok:
  "validate_v4_suback_completion suback = Inr () \<longleftrightarrow> SubFailure \<notin> set (return_codes suback)"
  by (auto simp: validate_v4_suback_completion_def Let_def filter_empty_conv)

lemma SubscribeNotice_wait_completion_ok:
  "SubscribeNotice_wait_completion received = Inr () \<longleftrightarrow>
     (\<exists>suback. received = Some (Inr suback) \<and> SubFailure \<notin> set (return_codes suback))"
  by (auto simp: SubscribeNotice_wait_completion_def SubscribeNotice_wait_def NoticeRx_wait_def
      validate_v4_suback_completion_ok split: option.splits sum.splits)

end
