(* ===== verification/Collections.thy ===== *)
theory Collections
  imports Prelude
begin

text \<open>
  The containers the client state is built from: the ordered maps and deques of the standard
  library, and the interface of the \<open>fixedbitset\<close> crate, which is not part of the repository. Its
  operations are a record that every definition using bit sets takes as an argument; the locale
  \<open>fixed_bitset\<close> holds what its documentation promises, and the lemmas and properties about bit
  sets rest on these laws only. \<open>nat_bitset\<close> is a concrete instance.
\<close>

section \<open>Ordered maps\<close>

text \<open>A \<open>BTreeMap\<close> as its entries in key order, the order in which it is iterated.\<close>

type_synonym ('k, 'v) btree = "('k \<times> 'v) list"

fun btree_insert :: "'k::linorder \<Rightarrow> 'v \<Rightarrow> ('k, 'v) btree \<Rightarrow> ('k, 'v) btree" where
  "btree_insert k v [] = [(k, v)]"
| "btree_insert k v ((k', v') # m) =
     (if k < k' then (k, v) # (k', v') # m
      else if k = k' then (k, v) # m
      else (k', v') # btree_insert k v m)"

definition btree_remove :: "'k \<Rightarrow> ('k, 'v) btree \<Rightarrow> ('k, 'v) btree" where
  "btree_remove k m = filter (\<lambda>e. fst e \<noteq> k) m"

abbreviation btree_get :: "('k, 'v) btree \<Rightarrow> 'k \<Rightarrow> 'v option" where
  "btree_get \<equiv> map_of"

definition btree_contains :: "('k, 'v) btree \<Rightarrow> 'k \<Rightarrow> bool" where
  "btree_contains m k \<longleftrightarrow> map_of m k \<noteq> None"

definition btree_ordered :: "('k::linorder, 'v) btree \<Rightarrow> bool" where
  "btree_ordered m \<longleftrightarrow> sorted_wrt (<) (map fst m)"

lemma btree_get_insert [simp]: "map_of (btree_insert k v m) = (map_of m)(k \<mapsto> v)"
  by (induction k v m rule: btree_insert.induct) (auto simp: fun_eq_iff)

lemma btree_get_remove [simp]: "map_of (btree_remove k m) = (map_of m)(k := None)"
  by (induction m) (auto simp: btree_remove_def fun_eq_iff)

lemma btree_keys_insert [simp]: "fst ` set (btree_insert k v m) = insert k (fst ` set m)"
  by (induction k v m rule: btree_insert.induct) auto

lemma btree_keys_remove [simp]: "fst ` set (btree_remove k m) = fst ` set m - {k}"
  by (auto simp: btree_remove_def)

lemma btree_insert_mem: "e \<in> set (btree_insert k v m) \<Longrightarrow> e = (k, v) \<or> e \<in> set m"
  by (induction k v m rule: btree_insert.induct) (auto split: if_splits)

lemma btree_remove_mem: "e \<in> set (btree_remove k m) \<longleftrightarrow> e \<in> set m \<and> fst e \<noteq> k"
  by (auto simp: btree_remove_def)

lemma btree_contains_iff: "btree_contains m k \<longleftrightarrow> k \<in> fst ` set m"
  by (auto simp: btree_contains_def map_of_eq_None_iff)

lemma btree_ordered_Nil [simp]: "btree_ordered []"
  by (simp add: btree_ordered_def)

lemma btree_ordered_insert [simp]: "btree_ordered m \<Longrightarrow> btree_ordered (btree_insert k v m)"
proof (induction k v m rule: btree_insert.induct)
  case (2 k v k' v' m)
  have "fst ` set (btree_insert k v m) = insert k (fst ` set m)"
    by (rule btree_keys_insert)
  then have "(\<forall>x\<in>set (map fst (btree_insert k v m)). k' < x) \<longleftrightarrow> k' < k \<and> (\<forall>x\<in>set (map fst m). k' < x)"
    unfolding set_map by auto
  then show ?case
    using 2 by (auto simp: btree_ordered_def intro: less_trans)
qed (simp add: btree_ordered_def)

lemma btree_ordered_remove [simp]: "btree_ordered m \<Longrightarrow> btree_ordered (btree_remove k m)"
  unfolding btree_ordered_def btree_remove_def
  by (induction m) auto

lemma btree_ordered_distinct: "btree_ordered m \<Longrightarrow> distinct (map fst m)"
  unfolding btree_ordered_def by (induction m) auto

section \<open>Vectors and deques\<close>

text \<open>\<open>Vec::resize_with\<close> when it grows the vector.\<close>

definition resize_with_none :: "nat \<Rightarrow> 'a option list \<Rightarrow> 'a option list" where
  "resize_with_none n xs = take n xs @ replicate (n - length xs) None"

text \<open>The first occurrence of an element is removed, as by \<open>position\<close> followed by \<open>remove\<close>.\<close>

definition deque_remove_first :: "'a \<Rightarrow> 'a list \<Rightarrow> 'a list" where
  "deque_remove_first x xs = remove1 x xs"

lemma length_resize_with_none [simp]: "length (resize_with_none n xs) = n"
  by (simp add: resize_with_none_def min_def)

lemma nth_resize_with_none:
  "\<lbrakk>length xs \<le> n; i < n\<rbrakk> \<Longrightarrow> resize_with_none n xs ! i = (if i < length xs then xs ! i else None)"
  by (simp add: resize_with_none_def nth_append)

text \<open>The indices of the occupied slots of a vector of options.\<close>

definition occupied :: "'a option list \<Rightarrow> nat set" where
  "occupied xs = {i. i < length xs \<and> xs ! i \<noteq> None}"

lemma finite_occupied [simp]: "finite (occupied xs)"
  by (rule finite_subset [of _ "{..<length xs}"]) (auto simp: occupied_def)

lemma occupied_resize [simp]: "length xs \<le> n \<Longrightarrow> occupied (resize_with_none n xs) = occupied xs"
  by (auto simp: occupied_def nth_resize_with_none split: if_splits)

lemma occupied_update_Some [simp]: "i < length xs \<Longrightarrow> occupied (xs[i := Some x]) = insert i (occupied xs)"
  by (auto simp: occupied_def nth_list_update split: if_splits)

lemma occupied_update_None [simp]: "occupied (xs[i := None]) = occupied xs - {i}"
  by (cases "i < length xs") (auto simp: occupied_def nth_list_update split: if_splits)

lemma occupied_replicate [simp]: "occupied (replicate n None) = {}"
  by (auto simp: occupied_def)

lemma occupied_empty: "occupied xs = {} \<longleftrightarrow> list_all (\<lambda>x. x = None) xs"
  by (auto simp: occupied_def list_all_length)

lemma occupied_bound: "i \<in> occupied xs \<Longrightarrow> i < length xs"
  by (simp add: occupied_def)

lemma occupied_nth: "i \<in> occupied xs \<Longrightarrow> \<exists>x. xs ! i = Some x"
  by (auto simp: occupied_def)

lemma occupied_take [simp]: "occupied (take n xs) = occupied xs \<inter> {..<n}"
  by (auto simp: occupied_def)

lemma card_occupied: "card (occupied xs) = length (filter (\<lambda>x. x \<noteq> None) xs)"
  by (simp add: occupied_def length_filter_conv_card)

section \<open>Trailing zeros\<close>

fun trailing_zeros_from :: "nat \<Rightarrow> nat \<Rightarrow> u64 \<Rightarrow> nat" where
  "trailing_zeros_from 0 i w = i"
| "trailing_zeros_from (Suc n) i w = (if bit w i then i else trailing_zeros_from n (Suc i) w)"

definition trailing_zeros :: "u64 \<Rightarrow> nat" where
  "trailing_zeros w = trailing_zeros_from 64 0 w"

lemma trailing_zeros_from_least:
  "\<lbrakk>\<exists>j<n. bit w (i + j)\<rbrakk> \<Longrightarrow>
     bit w (trailing_zeros_from n i w) \<and> i \<le> trailing_zeros_from n i w \<and> trailing_zeros_from n i w < i + n
     \<and> (\<forall>j. i \<le> j \<longrightarrow> j < trailing_zeros_from n i w \<longrightarrow> \<not> bit w j)"
proof (induction n arbitrary: i)
  case (Suc n)
  show ?case
  proof (cases "bit w i")
    case False
    then have "\<exists>j<n. bit w (Suc i + j)"
      using Suc.prems by (metis add_0_right add_Suc_shift gr0_conv_Suc less_Suc_eq_0_disj)
    from Suc.IH [OF this] show ?thesis
      using False by (auto simp: Suc_le_eq) (metis le_neq_implies_less)
  qed auto
qed simp

lemma trailing_zeros_least:
  assumes "w \<noteq> 0"
  shows "bit w (trailing_zeros w)" and "trailing_zeros w < 64"
    and "j < trailing_zeros w \<Longrightarrow> \<not> bit w j"
proof -
  have "\<exists>n. bit w n"
    using assms by (auto simp: bit_eq_iff)
  then have "\<exists>n<64. bit w (0 + n)"
    using bit_imp_le_length [of w] by fastforce
  from trailing_zeros_from_least [OF this]
  show "bit w (trailing_zeros w)" "trailing_zeros w < 64" "j < trailing_zeros w \<Longrightarrow> \<not> bit w j"
    by (auto simp: trailing_zeros_def)
qed

section \<open>Fixed-size bit sets\<close>

text \<open>\<open>None\<close> stands for the panic that the crate documents for an index out of range.\<close>

record 'b bitset_ops =
  bs_with_capacity :: "nat \<Rightarrow> 'b"
  bs_len :: "'b \<Rightarrow> nat"
  bs_contains :: "'b \<Rightarrow> nat \<Rightarrow> bool"
  bs_insert :: "'b \<Rightarrow> nat \<Rightarrow> 'b option"
  bs_set :: "'b \<Rightarrow> nat \<Rightarrow> bool \<Rightarrow> 'b option"
  bs_grow :: "'b \<Rightarrow> nat \<Rightarrow> 'b"
  bs_clear :: "'b \<Rightarrow> 'b"
  bs_ones :: "'b \<Rightarrow> nat list"
  bs_as_slice :: "'b \<Rightarrow> u64 list"

locale fixed_bitset =
  fixes B :: "'b bitset_ops"
  assumes with_capacity: "bs_len B (bs_with_capacity B n) = n" "\<not> bs_contains B (bs_with_capacity B n) i"
    and contains_bound: "bs_contains B b i \<Longrightarrow> i < bs_len B b"
    and insert_in_range: "i < bs_len B b \<Longrightarrow>
      \<exists>b'. bs_insert B b i = Some b' \<and> bs_len B b' = bs_len B b
        \<and> (\<forall>j. bs_contains B b' j \<longleftrightarrow> j = i \<or> bs_contains B b j)"
    and set_in_range: "i < bs_len B b \<Longrightarrow>
      \<exists>b'. bs_set B b i v = Some b' \<and> bs_len B b' = bs_len B b
        \<and> (\<forall>j. bs_contains B b' j \<longleftrightarrow> (if j = i then v else bs_contains B b j))"
    and out_of_range: "bs_len B b \<le> i \<Longrightarrow> bs_insert B b i = None" "bs_len B b \<le> i \<Longrightarrow> bs_set B b i v = None"
    and grow: "bs_len B (bs_grow B b n) = max (bs_len B b) n"
      "bs_contains B (bs_grow B b n) i \<longleftrightarrow> bs_contains B b i"
    and clear: "bs_len B (bs_clear B b) = bs_len B b" "\<not> bs_contains B (bs_clear B b) i"
    and ones: "sorted_wrt (<) (bs_ones B b)" "set (bs_ones B b) = {i. bs_contains B b i}"
    and as_slice: "length (bs_as_slice B b) = (bs_len B b + 63) div 64"
      "\<lbrakk>k < length (bs_as_slice B b); j < 64\<rbrakk>
        \<Longrightarrow> bit (bs_as_slice B b ! k) j \<longleftrightarrow> bs_contains B b (64 * k + j)"

text \<open>The elements of a bit set.\<close>

definition bits :: "'b bitset_ops \<Rightarrow> 'b \<Rightarrow> nat set" where
  "bits B b = {i. bs_contains B b i}"

lemma bits_contains: "bs_contains B b i \<longleftrightarrow> i \<in> bits B b"
  by (simp add: bits_def)

context fixed_bitset begin

lemma bits_with_capacity: "bits B (bs_with_capacity B n) = {}"
  by (simp add: bits_def with_capacity)

lemma bits_bound: "i \<in> bits B b \<Longrightarrow> i < bs_len B b"
  by (simp add: bits_def contains_bound)

lemma finite_bits: "finite (bits B b)"
  by (rule finite_subset [of _ "{..<bs_len B b}"]) (auto dest: bits_bound)

lemma bits_insert:
  assumes "i < bs_len B b"
  obtains b' where "bs_insert B b i = Some b'" "bs_len B b' = bs_len B b" "bits B b' = insert i (bits B b)"
proof -
  from insert_in_range [OF assms] obtain b' where "bs_insert B b i = Some b'"
      "bs_len B b' = bs_len B b" "\<forall>j. bs_contains B b' j \<longleftrightarrow> j = i \<or> bs_contains B b j"
    by blast
  then show ?thesis
    by - (rule that [of b'], simp_all add: bits_def set_eq_iff)
qed

lemma bits_set_False:
  assumes "i < bs_len B b"
  obtains b' where "bs_set B b i False = Some b'" "bs_len B b' = bs_len B b" "bits B b' = bits B b - {i}"
proof -
  from set_in_range [OF assms, of False] obtain b' where "bs_set B b i False = Some b'"
      "bs_len B b' = bs_len B b" "\<forall>j. bs_contains B b' j \<longleftrightarrow> (if j = i then False else bs_contains B b j)"
    by blast
  then show ?thesis
    by - (rule that [of b'], simp_all add: bits_def set_eq_iff)
qed

lemma bits_grow: "bits B (bs_grow B b n) = bits B b"
  by (simp add: bits_def grow)

lemma bits_clear: "bits B (bs_clear B b) = {}"
  by (simp add: bits_def clear)

lemma set_ones: "set (bs_ones B b) = bits B b"
  by (simp add: bits_def ones)

lemma distinct_ones: "distinct (bs_ones B b)"
  using ones(1) [of b] unfolding strict_sorted_iff by simp

lemma length_ones: "length (bs_ones B b) = card (bits B b)"
  using distinct_card [OF distinct_ones, of b] by (simp add: set_ones)

lemma ones_Nil: "bs_ones B b = [] \<longleftrightarrow> bits B b = {}"
  using set_ones [of b] by auto

lemma bit_as_slice:
  assumes "i < bs_len B b"
  shows "i div 64 < length (bs_as_slice B b)"
    and "bit (bs_as_slice B b ! (i div 64)) (i mod 64) \<longleftrightarrow> i \<in> bits B b"
proof -
  show *: "i div 64 < length (bs_as_slice B b)"
    using assms by (simp add: as_slice)
  show "bit (bs_as_slice B b ! (i div 64)) (i mod 64) \<longleftrightarrow> i \<in> bits B b"
    using as_slice(2) [OF *, of "i mod 64"] by (simp add: bits_def)
qed

end

section \<open>A concrete bit set\<close>

text \<open>A bit set as its length and the natural number whose binary digits it holds.\<close>

definition nat_bitset :: "(nat \<times> nat) bitset_ops" where
  "nat_bitset =
     \<lparr>bs_with_capacity = (\<lambda>n. (n, 0)),
      bs_len = fst,
      bs_contains = (\<lambda>(n, w) i. i < n \<and> bit w i),
      bs_insert = (\<lambda>(n, w) i. if i < n then Some (n, set_bit i w) else None),
      bs_set = (\<lambda>(n, w) i v. if i < n then Some (n, if v then set_bit i w else unset_bit i w) else None),
      bs_grow = (\<lambda>(n, w) m. (max n m, take_bit n w)),
      bs_clear = (\<lambda>(n, w). (n, 0)),
      bs_ones = (\<lambda>(n, w). filter (bit w) [0..<n]),
      bs_as_slice = (\<lambda>(n, w). map (\<lambda>k. word_of_nat (drop_bit (64 * k) (take_bit n w))) [0..<(n + 63) div 64])\<rparr>"

lemma nat_bitset_simps [simp]:
  "bs_with_capacity nat_bitset n = (n, 0)"
  "bs_len nat_bitset (n, w) = n"
  "bs_contains nat_bitset (n, w) i \<longleftrightarrow> i < n \<and> bit w i"
  "bs_insert nat_bitset (n, w) i = (if i < n then Some (n, set_bit i w) else None)"
  "bs_set nat_bitset (n, w) i v = (if i < n then Some (n, if v then set_bit i w else unset_bit i w) else None)"
  "bs_grow nat_bitset (n, w) m = (max n m, take_bit n w)"
  "bs_clear nat_bitset (n, w) = (n, 0)"
  "bs_ones nat_bitset (n, w) = filter (bit w) [0..<n]"
  "bs_as_slice nat_bitset (n, w)
    = map (\<lambda>k. word_of_nat (drop_bit (64 * k) (take_bit n w))) [0..<(n + 63) div 64]"
  by (simp_all add: nat_bitset_def)

interpretation nat_bits: fixed_bitset nat_bitset
proof (unfold_locales, goal_cases)
  case (4 i b)
  then show ?case by (cases b) (auto simp: bit_set_bit_iff)
next
  case (5 i b v)
  then show ?case by (cases b) (auto simp: bit_set_bit_iff bit_unset_bit_iff)
next
  case (9 b n i)
  then show ?case by (cases b) (auto simp: bit_take_bit_iff)
next
  case (12 b)
  then show ?case by (cases b) (simp add: sorted_wrt_filter)
next
  case (15 k b j)
  then show ?case by (cases b) (auto simp: bit_of_nat_iff bit_drop_bit_eq bit_take_bit_iff)
qed (auto split: if_splits)

section \<open>Access to the fields of a state\<close>

text \<open>
  A field of a state record is given by its selector and its update function. An operation on a
  field that the standard library or the crate lets panic returns \<open>None\<close>.
\<close>

definition try_field ::
  "('s \<Rightarrow> 'a) \<Rightarrow> (('a \<Rightarrow> 'a) \<Rightarrow> 's \<Rightarrow> 's) \<Rightarrow> ('a \<Rightarrow> 'a option) \<Rightarrow> ('s, 'e, unit) sm" where
  "try_field get upd f = (\<lambda>s. case f (get s) of None \<Rightarrow> (Panic, s) | Some v \<Rightarrow> (Ok (), upd (\<lambda>_. v) s))"

text \<open>\<open>Option::take\<close> on a slot of a vector, and an assignment to a slot.\<close>

definition slot_take ::
  "('s \<Rightarrow> 'a option list) \<Rightarrow> (('a option list \<Rightarrow> 'a option list) \<Rightarrow> 's \<Rightarrow> 's) \<Rightarrow> nat
    \<Rightarrow> ('s, 'e, 'a option) sm" where
  "slot_take get upd i = (\<lambda>s.
     if i < length (get s) then (Ok (get s ! i), upd (\<lambda>xs. xs[i := None]) s) else (Panic, s))"

definition slot_put ::
  "('s \<Rightarrow> 'a list) \<Rightarrow> (('a list \<Rightarrow> 'a list) \<Rightarrow> 's \<Rightarrow> 's) \<Rightarrow> nat \<Rightarrow> 'a \<Rightarrow> ('s, 'e, unit) sm" where
  "slot_put get upd i v = (\<lambda>s.
     if i < length (get s) then (Ok (), upd (\<lambda>xs. xs[i := v]) s) else (Panic, s))"

text \<open>\<open>expect\<close> on a result.\<close>

definition expect_ok :: "('s, 'e, 'a) sm \<Rightarrow> ('s, 'f, 'a) sm" where
  "expect_ok m = (\<lambda>s. case m s of
      (Ok x, s') \<Rightarrow> (Ok x, s') | (Err e, s') \<Rightarrow> (Panic, s') | (Panic, s') \<Rightarrow> (Panic, s'))"

fun traverse :: "('a \<Rightarrow> ('s, 'e, 'c) sm) \<Rightarrow> 'a list \<Rightarrow> ('s, 'e, 'c list) sm" where
  "traverse f [] = ret []"
| "traverse f (x # xs) = andThen (f x) (\<lambda>y. andThen (traverse f xs) (\<lambda>ys. ret (y # ys)))"

lemma wp_try_field [wp_simps]:
  "wp (try_field get upd f) Q E s = (case f (get s) of None \<Rightarrow> False | Some v \<Rightarrow> Q () (upd (\<lambda>_. v) s))"
  by (simp add: wp_def try_field_def split: option.splits)

lemma wp_slot_take [wp_simps]:
  "wp (slot_take get upd i) Q E s
    \<longleftrightarrow> i < length (get s) \<and> Q (get s ! i) (upd (\<lambda>xs. xs[i := None]) s)"
  by (simp add: wp_def slot_take_def)

lemma wp_slot_put [wp_simps]:
  "wp (slot_put get upd i v) Q E s \<longleftrightarrow> i < length (get s) \<and> Q () (upd (\<lambda>xs. xs[i := v]) s)"
  by (simp add: wp_def slot_put_def)

lemma wp_expect_ok [wp_simps]: "wp (expect_ok m) Q E s = wp m Q (\<lambda>_ _. False) s"
  by (simp add: wp_def expect_ok_def split: prod.splits outcome.splits)

lemma wp_ret_fun [wp_simps]: "wp (ret x) Q E = Q x"
  by (simp add: fun_eq_iff wp_simps)

lemma wp_case_option [wp_simps]:
  "wp (case x of None \<Rightarrow> m | Some y \<Rightarrow> f y) Q E s
    = (case x of None \<Rightarrow> wp m Q E s | Some y \<Rightarrow> wp (f y) Q E s)"
  by (simp split: option.splits)

lemma wp_case_prod [wp_simps]: "wp (case p of (x, y) \<Rightarrow> f x y) Q E s = (case p of (x, y) \<Rightarrow> wp (f x y) Q E s)"
  by (simp split: prod.splits)

lemma wp_Let [wp_simps]: "wp (let x = v in f x) Q E s = (let x = v in wp (f x) Q E s)"
  by (simp add: Let_def)

named_theorems exec_simps \<open>symbolic execution of a sequence of field operations\<close>

lemma exec_field [exec_simps]:
  fixes get :: "'s \<Rightarrow> 'a" and get1 :: "'s \<Rightarrow> 'c option list" and get' :: "'s \<Rightarrow> 'd list"
  shows
  "andThen (try_field get upd f) k s = (case f (get s) of None \<Rightarrow> (Panic, s) | Some v \<Rightarrow> k () (upd (\<lambda>_. v) s))"
  "andThen (slot_take get1 upd1 i) c s
    = (if i < length (get1 s) then c (get1 s ! i) (upd1 (\<lambda>xs. xs[i := None]) s) else (Panic, s))"
  "andThen (slot_put get' upd' i x) k s
    = (if i < length (get' s) then k () (upd' (\<lambda>xs. xs[i := x]) s) else (Panic, s))"
  by (simp_all add: andThen_def try_field_def slot_take_def slot_put_def split: option.splits)

lemma exec_option [exec_simps]:
  "andThen (ok_or v e) c s = (case v of Some x \<Rightarrow> c x s | None \<Rightarrow> (Err e, s))"
  "andThen (expect v) c s = (case v of Some x \<Rightarrow> c x s | None \<Rightarrow> (Panic, s))"
  by (simp_all add: andThen_def run_simps split: option.splits)

lemma exec_lift [exec_simps]: "andThen (lift (Err e)) k = fail e"
  by (simp add: fun_eq_iff andThen_def run_simps)

lemma exec_if [exec_simps]: "andThen (if c then m else n) k = (if c then andThen m k else andThen n k)"
  by simp

lemma exec_case_option [exec_simps]:
  "andThen (case x of None \<Rightarrow> m | Some y \<Rightarrow> f y) k = (case x of None \<Rightarrow> andThen m k | Some y \<Rightarrow> andThen (f y) k)"
  by (simp split: option.splits)

lemma run_field [exec_simps]:
  fixes get :: "'s \<Rightarrow> 'a" and get' :: "'s \<Rightarrow> 'd list"
  shows
  "try_field get upd f s = (case f (get s) of None \<Rightarrow> (Panic, s) | Some v \<Rightarrow> (Ok (), upd (\<lambda>_. v) s))"
  "slot_put get' upd' i x s = (if i < length (get' s) then (Ok (), upd' (\<lambda>xs. xs[i := x]) s) else (Panic, s))"
  by (simp_all add: try_field_def slot_put_def)

lemmas exec_rules = exec_simps andThen_assoc run_simps

section \<open>Checked arithmetic\<close>

text \<open>\<open>u16::try_from\<close> on a \<open>usize\<close>, and the checked increment and decrement of a \<open>u16\<close>.\<close>

definition u16_try_from :: "nat \<Rightarrow> u16 option" where
  "u16_try_from n = (if n < 65536 then Some (word_of_nat n) else None)"

definition u16_checked_inc :: "u16 \<Rightarrow> u16 option" where
  "u16_checked_inc n = (if n = 65535 then None else Some (n + 1))"

definition u16_checked_dec :: "u16 \<Rightarrow> u16 option" where
  "u16_checked_dec n = (if n = 0 then None else Some (n - 1))"

lemma unat_u16_bound [simp]: "unat (k :: u16) < 65536"
  using unsigned_less [of k, where ?'a = nat] by simp

lemma unat_u16_bounds: "unat (k :: u16) < 65536" "unat k \<le> 65535"
  using unat_u16_bound [of k] by linarith+

lemma u16_try_from_unat [simp]: "u16_try_from (unat k) = Some k"
  by (simp add: u16_try_from_def)

lemma u16_try_from_eq_Some: "u16_try_from n = Some k \<longleftrightarrow> n = unat k"
  by (auto simp: u16_try_from_def unsigned_of_nat take_bit_nat_eq_self)

lemma unat_u16_of_nat: "n < 65536 \<Longrightarrow> unat (word_of_nat n :: u16) = n"
  by (simp add: unsigned_of_nat take_bit_nat_eq_self)

lemma u16_checked_inc_bounded:
  assumes "unat n < 65535"
  shows "u16_checked_inc n = Some (n + 1)" and "unat (n + 1) = unat n + 1"
proof -
  have "n \<noteq> 65535"
    using assms by auto
  then show "u16_checked_inc n = Some (n + 1)"
    by (simp add: u16_checked_inc_def)
  show "unat (n + 1) = unat n + 1"
    using assms by (simp add: unat_word_ariths)
qed

lemma u16_checked_dec_pos:
  assumes "0 < unat n"
  shows "u16_checked_dec n = Some (n - 1)" and "unat (n - 1) = unat n - 1"
proof -
  have "n \<noteq> 0"
    using assms by auto
  then show "u16_checked_dec n = Some (n - 1)"
    by (simp add: u16_checked_dec_def)
  show "unat (n - 1) = unat n - 1"
    using assms by (simp add: unat_sub word_le_nat_alt)
qed

lemma u16_inc_below:
  fixes a b :: u16
  assumes "a < b"
  shows "unat (a + 1) = unat a + 1" "a + 1 \<le> b" "u16_checked_inc a = Some (a + 1)"
proof -
  have "unat a < unat b"
    using assms by (simp add: word_less_nat_alt)
  then have a: "unat a < 65535"
    using unat_u16_bounds(2) [of b] by linarith
  show inc: "unat (a + 1) = unat a + 1" "u16_checked_inc a = Some (a + 1)"
    using u16_checked_inc_bounded [OF a] by simp_all
  show "a + 1 \<le> b"
    using \<open>unat a < unat b\<close> inc(1) by (simp add: word_le_nat_alt)
qed

section \<open>Bit set operations as total functions\<close>

definition bs_with :: "'b bitset_ops \<Rightarrow> 'b \<Rightarrow> nat \<Rightarrow> 'b" where
  "bs_with B b i = the (bs_insert B b i)"

definition bs_without :: "'b bitset_ops \<Rightarrow> 'b \<Rightarrow> nat \<Rightarrow> 'b" where
  "bs_without B b i = the (bs_set B b i False)"

context fixed_bitset begin

lemma bs_insert_eq: "bs_insert B b i = (if i < bs_len B b then Some (bs_with B b i) else None)"
  using insert_in_range [of i b] out_of_range(1) [of b i] by (auto simp: bs_with_def)

lemma bs_set_False_eq: "bs_set B b i False = (if i < bs_len B b then Some (bs_without B b i) else None)"
  using set_in_range [of i b False] out_of_range(2) [of b i False] by (auto simp: bs_without_def)

lemma bs_with_simps:
  assumes "i < bs_len B b"
  shows "bs_len B (bs_with B b i) = bs_len B b" and "bits B (bs_with B b i) = insert i (bits B b)"
  by (rule bits_insert [OF assms], simp add: bs_with_def)+

lemma bs_without_simps:
  assumes "i < bs_len B b"
  shows "bs_len B (bs_without B b i) = bs_len B b" and "bits B (bs_without B b i) = bits B b - {i}"
  by (rule bits_set_False [OF assms], simp add: bs_without_def)+

lemmas bs_simps = bits_contains bs_insert_eq bs_set_False_eq bs_with_simps bs_without_simps
  with_capacity(1) bits_with_capacity grow(1) bits_grow clear(1) bits_clear set_ones length_ones ones_Nil

end

end
