(* ===== verification/V4_State.thy ===== *)
theory V4_State
  imports V4_Notice Collections
begin

text \<open>
  The protocol state of the MQTT 3.1.1 client (\<open>rumqttc-v4/src/state.rs\<close>): packet identifiers,
  the in-flight publishes, the pending subscriptions and the handlers of outgoing requests and
  incoming packets. This theory holds the definitions; \<open>V4_State_Inv\<close> proves their invariant.

  \<^item> Methods that take \<open>&mut self\<close> are computations over the record \<open>MqttState\<close>.
  \<^item> \<open>B\<close> holds the operations of the bit sets (\<open>Collections\<close>).
  \<^item> \<open>Instant::now()\<close> is the argument \<open>now\<close>; the client only logs the difference of two instants.
  \<^item> \<open>notices_sent\<close> is the log of the completions sent so far; the channels are not part of the struct.
  \<^item> \<open>inflight += 1\<close> and \<open>inflight -= 1\<close> panic when they leave the range of \<open>u16\<close>, as they do
    with overflow checks; the invariant shows that they never do.
\<close>

section \<open>Data\<close>

datatype AckMode = Automatic | Manual

datatype Outgoing =
    OutPublish u16 | OutSubscribe u16 | OutUnsubscribe u16 | OutPubAck u16 | OutPubRec u16
  | OutPubRel u16 | OutPubComp u16 | OutPingReq | OutPingResp | OutDisconnect | OutAwaitAck u16

datatype Disconnect = Disconnect

datatype Request =
    ReqPublish Publish | ReqPubAck PubAck | ReqPubRec PubRec | ReqPubComp PubComp | ReqPubRel PubRel
  | ReqPingReq | ReqPingResp | ReqSubscribe Subscribe | ReqSubAck SubAck
  | ReqUnsubscribe Unsubscribe | ReqUnsubAck UnsubAck
  | ReqDisconnect Disconnect | ReqDisconnectNow Disconnect | ReqDisconnectWithTimeout Disconnect nat

datatype Event = EvIncoming Packet | EvOutgoing Outgoing

datatype ProtocolViolation =
    DuplicateConnAck
  | UnexpectedIncomingPacket PacketType
  | SubAckReturnCodeCountMismatch u16 nat nat

text \<open>An I/O error is its kind, as far as the client looks at it, and its message.\<close>

datatype IoErrorKind = IoTimedOut | IoOther

datatype StateError =
    StateIo IoErrorKind rstring
  | InvalidState
  | OutgoingPublishWindowFull u16
  | Unsolicited u16
  | AwaitPingResp
  | CollisionTimeout
  | EmptySubscription
  | EmptyUnsubscription
  | Deserialization v4_error
  | ProtocolViolation ProtocolViolation
  | ConnectionAborted

datatype PingState = PingIdle nat | PingAwaitingResp nat

definition PingState_new :: PingState where
  "PingState_new = PingIdle 0"

fun PingState_await_pingresp :: "PingState \<Rightarrow> bool" where
  "PingState_await_pingresp (PingAwaitingResp _) = True"
| "PingState_await_pingresp (PingIdle _) = False"

fun PingState_collision_count :: "PingState \<Rightarrow> nat" where
  "PingState_collision_count (PingIdle collision_count) = collision_count"
| "PingState_collision_count (PingAwaitingResp collision_count) = collision_count"

definition increment_collision_count :: "PingState \<Rightarrow> nat \<times> PingState" where
  "increment_collision_count self =
     (let collision_count = PingState_collision_count self + 1 in
      (collision_count,
       case self of PingIdle _ \<Rightarrow> PingIdle collision_count
                  | PingAwaitingResp _ \<Rightarrow> PingAwaitingResp collision_count))"

definition begin_waiting_for_resp :: "PingState \<Rightarrow> PingState" where
  "begin_waiting_for_resp self = PingAwaitingResp (PingState_collision_count self)"

definition finish_waiting_for_resp :: "PingState \<Rightarrow> PingState" where
  "finish_waiting_for_resp self = PingIdle (PingState_collision_count self)"

definition reset_collision_count :: "PingState \<Rightarrow> PingState" where
  "reset_collision_count self =
     (if PingState_await_pingresp self then PingAwaitingResp 0 else PingIdle 0)"

definition PingState_reset :: "PingState \<Rightarrow> PingState" where
  "PingState_reset self = PingState_new"

record PendingSubscribe =
  psub_subscribe :: Subscribe
  psub_notice :: "SubscribeNoticeTx option"

record PendingUnsubscribe =
  punsub_unsubscribe :: Unsubscribe
  punsub_notice :: "UnsubscribeNoticeTx option"

record CleanRequest =
  clean_request :: Request
  clean_notice :: "TrackedNoticeTx option"
  clean_replay :: bool

record IncomingPacketEffects =
  effect_outgoing :: "Packet option"
  effect_notices :: "DeferredNotice list"

definition effects_outgoing :: "Packet option \<Rightarrow> IncomingPacketEffects" where
  "effects_outgoing outgoing = \<lparr>effect_outgoing = outgoing, effect_notices = []\<rparr>"

definition with_notice :: "IncomingPacketEffects \<Rightarrow> DeferredNotice \<Rightarrow> IncomingPacketEffects" where
  "with_notice self notice = self\<lparr>effect_notices := effect_notices self @ [notice]\<rparr>"

record 'b MqttState =
  ping :: PingState
  last_incoming :: nat
  last_outgoing :: nat
  last_pkid :: u16
  inflight :: u16
  max_inflight :: u16
  outgoing_pub :: "Publish option list"
  outgoing_pub_order :: "u16 list"
  outgoing_pub_notice :: "PublishNoticeTx option list"
  outgoing_rel :: 'b
  outgoing_rel_order :: "u16 list"
  outgoing_rel_replay :: 'b
  outgoing_rel_replay_order :: "u16 list"
  outgoing_rel_notice :: "PublishNoticeTx option list"
  incoming_puback :: 'b
  incoming_pub :: 'b
  incoming_pubrec :: 'b
  outbound_pkid_in_use :: 'b
  outbound_pkid_count :: u16
  collision :: "Publish option"
  collision_notice :: "PublishNoticeTx option"
  pending_subscribe :: "(u16, PendingSubscribe) btree"
  pending_unsubscribe :: "(u16, PendingUnsubscribe) btree"
  events :: "Event list"
  ack_mode :: AckMode
  notices_sent :: "NoticeSent list"

type_synonym ('b, 'a) state_m = "('b MqttState, StateError, 'a) sm"

abbreviation push_event :: "Event \<Rightarrow> ('b MqttState, 'e, unit) sm" where
  "push_event event \<equiv> modify (events_update (\<lambda>es. es @ [event]))"

abbreviation send_notice :: "NoticeSent \<Rightarrow> ('b MqttState, 'e, unit) sm" where
  "send_notice sent \<equiv> modify (notices_sent_update (\<lambda>ns. ns @ [sent]))"

definition complete_notices :: "IncomingPacketEffects \<Rightarrow> ('b MqttState, 'e, Packet option) sm" where
  "complete_notices self =
     andThen (for_each (\<lambda>notice. send_notice (DeferredNotice_complete notice)) (effect_notices self)) (\<lambda>_.
     ret (effect_outgoing self))"

definition remove_ordered_pkid :: "u16 \<Rightarrow> u16 list \<Rightarrow> u16 list" where
  "remove_ordered_pkid pkid order = deque_remove_first pkid order"

section \<open>Construction and capacity\<close>

definition WARM_TRACKING_SLOTS :: nat where
  "WARM_TRACKING_SLOTS = 32"

definition full_packet_identifier_len :: nat where
  "full_packet_identifier_len = 65535 + 1"

definition outgoing_tracking_len :: "u16 \<Rightarrow> nat" where
  "outgoing_tracking_len max_in = unat max_in + 1"

definition warm_tracking_len :: "u16 \<Rightarrow> nat" where
  "warm_tracking_len max_in =
     (let full_len = outgoing_tracking_len max_in; warm_len = WARM_TRACKING_SLOTS + 1 in
      if full_len < warm_len then full_len else warm_len)"

definition new_notice_slots_with_len :: "nat \<Rightarrow> PublishNoticeTx option list" where
  "new_notice_slots_with_len len = replicate len None"

definition new_internal :: "'b bitset_ops \<Rightarrow> nat \<Rightarrow> u16 \<Rightarrow> AckMode \<Rightarrow> 'b MqttState" where
  "new_internal B now max_in mode =
     (let tracking_len = warm_tracking_len max_in in
      \<lparr>ping = PingState_new,
       last_incoming = now,
       last_outgoing = now,
       last_pkid = 0,
       inflight = 0,
       max_inflight = max_in,
       outgoing_pub = replicate tracking_len None,
       outgoing_pub_order = [],
       outgoing_pub_notice = new_notice_slots_with_len tracking_len,
       outgoing_rel = bs_with_capacity B tracking_len,
       outgoing_rel_order = [],
       outgoing_rel_replay = bs_with_capacity B tracking_len,
       outgoing_rel_replay_order = [],
       outgoing_rel_notice = new_notice_slots_with_len tracking_len,
       incoming_puback = bs_with_capacity B (65535 + 1),
       incoming_pub = bs_with_capacity B (65535 + 1),
       incoming_pubrec = bs_with_capacity B (65535 + 1),
       outbound_pkid_in_use = bs_with_capacity B full_packet_identifier_len,
       outbound_pkid_count = 0,
       collision = None,
       collision_notice = None,
       pending_subscribe = [],
       pending_unsubscribe = [],
       events = [],
       ack_mode = mode,
       notices_sent = []\<rparr>)"

record MqttStateBuilder =
  builder_max_inflight :: u16
  builder_ack_mode :: AckMode

definition MqttStateBuilder_new :: "u16 \<Rightarrow> MqttStateBuilder" where
  "MqttStateBuilder_new max_in = \<lparr>builder_max_inflight = max_in, builder_ack_mode = Automatic\<rparr>"

definition MqttStateBuilder_ack_mode :: "MqttStateBuilder \<Rightarrow> AckMode \<Rightarrow> MqttStateBuilder" where
  "MqttStateBuilder_ack_mode self mode = self\<lparr>builder_ack_mode := mode\<rparr>"

definition MqttStateBuilder_build :: "'b bitset_ops \<Rightarrow> nat \<Rightarrow> MqttStateBuilder \<Rightarrow> 'b MqttState" where
  "MqttStateBuilder_build B now self = new_internal B now (builder_max_inflight self) (builder_ack_mode self)"

definition ensure_outgoing_tracking_capacity :: "'b bitset_ops \<Rightarrow> nat \<Rightarrow> 'b MqttState \<Rightarrow> 'b MqttState" where
  "ensure_outgoing_tracking_capacity B target_len self =
     (let self = (if length (outgoing_pub self) < target_len
                  then self\<lparr>outgoing_pub := resize_with_none target_len (outgoing_pub self)\<rparr> else self);
          self = (if length (outgoing_pub_notice self) < target_len
                  then self\<lparr>outgoing_pub_notice := resize_with_none target_len (outgoing_pub_notice self)\<rparr> else self);
          self = (if length (outgoing_rel_notice self) < target_len
                  then self\<lparr>outgoing_rel_notice := resize_with_none target_len (outgoing_rel_notice self)\<rparr> else self);
          self = (if bs_len B (outgoing_rel self) < target_len
                  then self\<lparr>outgoing_rel := bs_grow B (outgoing_rel self) target_len\<rparr> else self);
          self = (if bs_len B (outgoing_rel_replay self) < target_len
                  then self\<lparr>outgoing_rel_replay := bs_grow B (outgoing_rel_replay self) target_len\<rparr> else self)
      in self)"

definition outbound_requests_drained :: "'b bitset_ops \<Rightarrow> 'b MqttState \<Rightarrow> bool" where
  "outbound_requests_drained B self \<longleftrightarrow>
     inflight self = 0
     \<and> collision self = None
     \<and> collision_notice self = None
     \<and> pending_subscribe self = []
     \<and> pending_unsubscribe self = []
     \<and> list_all (\<lambda>p. p = None) (outgoing_pub self)
     \<and> outgoing_pub_order self = []
     \<and> list_all (\<lambda>n. n = None) (outgoing_pub_notice self)
     \<and> list_all (\<lambda>n. n = None) (outgoing_rel_notice self)
     \<and> bs_ones B (outgoing_rel self) = []
     \<and> outgoing_rel_order self = []
     \<and> bs_ones B (outgoing_rel_replay self) = []
     \<and> outgoing_rel_replay_order self = []
     \<and> outbound_pkid_count self = 0"

definition maybe_shrink_outgoing_tracking_capacity :: "'b bitset_ops \<Rightarrow> 'b MqttState \<Rightarrow> 'b MqttState" where
  "maybe_shrink_outgoing_tracking_capacity B self =
     (let target_len = warm_tracking_len (max_inflight self) in
      if length (outgoing_pub self) \<le> target_len \<or> \<not> outbound_requests_drained B self then self
      else self\<lparr>outgoing_pub := take target_len (outgoing_pub self),
                outgoing_pub_notice := take target_len (outgoing_pub_notice self),
                outgoing_rel_notice := take target_len (outgoing_rel_notice self),
                outgoing_rel := bs_with_capacity B target_len,
                outgoing_rel_order := [],
                outgoing_rel_replay := bs_with_capacity B target_len,
                outgoing_rel_replay_order := [],
                last_pkid := 0\<rparr>)"

definition clean_pending_capacity :: "'b bitset_ops \<Rightarrow> 'b MqttState \<Rightarrow> nat" where
  "clean_pending_capacity B self =
     length (filter (\<lambda>publish. publish \<noteq> None) (outgoing_pub self))
     + of_bool (collision self \<noteq> None)
     + length (bs_ones B (outgoing_rel self))
     + length (pending_subscribe self)
     + length (pending_unsubscribe self)"

section \<open>Packet identifiers\<close>

definition validate_outgoing_pkid :: "u16 \<Rightarrow> (StateError, unit) outcome" where
  "validate_outgoing_pkid pkid = (if pkid = 0 then Err (Unsolicited pkid) else Ok ())"

definition packet_identifier_in_use :: "'b bitset_ops \<Rightarrow> 'b MqttState \<Rightarrow> u16 \<Rightarrow> bool" where
  "packet_identifier_in_use B self pkid = bs_contains B (outbound_pkid_in_use self) (unat pkid)"

definition control_packet_identifier_available :: "'b MqttState \<Rightarrow> bool" where
  "control_packet_identifier_available self \<longleftrightarrow> outbound_pkid_count self < 65535"

text \<open>The scan of the blocks of 64 bits in \<open>find_free_outbound_pkid_in_range\<close>.\<close>

definition block_mask :: "nat \<Rightarrow> nat \<Rightarrow> u64" where
  "block_mask from width = (if width = 64 then - 1 else push_bit from (push_bit width 1 - 1))"

function find_free_blocks :: "u64 list \<Rightarrow> nat \<Rightarrow> nat \<Rightarrow> nat \<Rightarrow> nat \<Rightarrow> u16 option" where
  "find_free_blocks blocks start en end_block block_index =
     (if block_index \<le> end_block then
        let block_start = block_index * 64;
            from = min (start - block_start) 64;
            to = min (en - block_start) 64;
            width = to - from in
        if width = 0 then find_free_blocks blocks start en end_block (block_index + 1)
        else
          let mask = block_mask from width;
              occ = (case nth_opt blocks block_index of Some block \<Rightarrow> block | None \<Rightarrow> 0);
              free = NOT occ AND mask in
          if free \<noteq> 0 then u16_try_from (block_start + trailing_zeros free)
          else find_free_blocks blocks start en end_block (block_index + 1)
      else None)"
  by pat_completeness auto
termination
  by (relation "measure (\<lambda>(blocks, start, en, end_block, block_index). Suc end_block - block_index)") auto

declare find_free_blocks.simps [simp del]

definition find_free_outbound_pkid_in_range ::
  "'b bitset_ops \<Rightarrow> 'b MqttState \<Rightarrow> nat \<Rightarrow> nat \<Rightarrow> u16 option" where
  "find_free_outbound_pkid_in_range B self start en =
     (if start \<ge> en then None
      else
        let bits_per_block = 64;
            blocks = bs_as_slice B (outbound_pkid_in_use self);
            block_index = start div bits_per_block;
            end_block = (en - 1) div bits_per_block in
        find_free_blocks blocks start en end_block block_index)"

definition next_free_outbound_pkid_after :: "'b bitset_ops \<Rightarrow> 'b MqttState \<Rightarrow> u16 \<Rightarrow> u16 option" where
  "next_free_outbound_pkid_after B self last_id =
     (if \<not> control_packet_identifier_available self then None
      else
        let start = (if last_id = 65535 then 1 else unat last_id + 1) in
        case find_free_outbound_pkid_in_range B self start full_packet_identifier_len of
          Some pkid \<Rightarrow> Some pkid
        | None \<Rightarrow> find_free_outbound_pkid_in_range B self 1 start)"

definition next_publish_pkid :: "'b bitset_ops \<Rightarrow> 'b MqttState \<Rightarrow> u16 option" where
  "next_publish_pkid B self = next_free_outbound_pkid_after B self (last_pkid self)"

definition next_pkid :: "'b bitset_ops \<Rightarrow> ('b MqttState, 'e, u16 option) sm" where
  "next_pkid B =
     andThen (gets (next_publish_pkid B)) (\<lambda>r.
     case r of
       None \<Rightarrow> ret None
     | Some pkid \<Rightarrow>
         andThen (modify (last_pkid_update (\<lambda>_. pkid))) (\<lambda>_.
         ret (Some pkid)))"

definition reserve_outbound_pkid :: "'b bitset_ops \<Rightarrow> u16 \<Rightarrow> ('b, unit) state_m" where
  "reserve_outbound_pkid B pkid =
     andThen (gets (\<lambda>self. pkid = 0 \<or> packet_identifier_in_use B self pkid)) (\<lambda>taken.
     if taken then fail InvalidState
     else
       andThen (try_field outbound_pkid_in_use outbound_pkid_in_use_update (\<lambda>b. bs_insert B b (unat pkid))) (\<lambda>_.
       andThen (gets outbound_pkid_count) (\<lambda>n.
       andThen (ok_or (u16_checked_inc n) InvalidState) (\<lambda>n'.
       modify (outbound_pkid_count_update (\<lambda>_. n'))))))"

definition accept_replayed_outbound_pkid :: "'b bitset_ops \<Rightarrow> u16 \<Rightarrow> ('b, unit) state_m" where
  "accept_replayed_outbound_pkid B pkid =
     andThen (gets (\<lambda>self. pkid = 0 \<or> \<not> packet_identifier_in_use B self pkid)) (\<lambda>bad.
     if bad then fail InvalidState else ret ())"

definition release_outbound_pkid :: "'b bitset_ops \<Rightarrow> u16 \<Rightarrow> ('b MqttState, 'e, unit) sm" where
  "release_outbound_pkid B pkid =
     andThen (gets (\<lambda>self. pkid = 0 \<or> \<not> packet_identifier_in_use B self pkid)) (\<lambda>skip.
     if skip then ret ()
     else
       andThen (try_field outbound_pkid_in_use outbound_pkid_in_use_update (\<lambda>b. bs_set B b (unat pkid) False)) (\<lambda>_.
       andThen (gets outbound_pkid_count) (\<lambda>n.
       andThen (expect (u16_checked_dec n)) (\<lambda>n'.
       modify (outbound_pkid_count_update (\<lambda>_. n'))))))"

definition next_control_pkid :: "'b bitset_ops \<Rightarrow> ('b, u16) state_m" where
  "next_control_pkid B =
     andThen (gets (\<lambda>self. next_free_outbound_pkid_after B self (last_pkid self))) (\<lambda>r.
     andThen (ok_or r InvalidState) (\<lambda>pkid.
     andThen (reserve_outbound_pkid B pkid) (\<lambda>_.
     andThen (modify (last_pkid_update (\<lambda>_. pkid))) (\<lambda>_.
     ret pkid))))"

definition reserve_control_pkid :: "'b bitset_ops \<Rightarrow> u16 \<Rightarrow> ('b, unit) state_m" where
  "reserve_control_pkid B pkid = reserve_outbound_pkid B pkid"

section \<open>Readiness\<close>

definition can_send_publish :: "'b bitset_ops \<Rightarrow> 'b MqttState \<Rightarrow> Publish \<Rightarrow> bool" where
  "can_send_publish B self publish =
     (if publish_qos publish = AtMostOnce then True
      else if inflight self \<ge> max_inflight self \<or> collision self \<noteq> None then False
      else if publish_pkid publish = 0 then next_publish_pkid B self \<noteq> None
      else validate_outgoing_pkid (publish_pkid publish) = Ok ()
           \<and> \<not> packet_identifier_in_use B self (publish_pkid publish))"

definition can_send_replayed_publish :: "'b bitset_ops \<Rightarrow> 'b MqttState \<Rightarrow> Publish \<Rightarrow> bool" where
  "can_send_replayed_publish B self publish =
     (if publish_qos publish = AtMostOnce then True
      else if inflight self \<ge> max_inflight self \<or> collision self \<noteq> None then False
      else
        let pkid = publish_pkid publish in
        validate_outgoing_pkid pkid = Ok ()
        \<and> packet_identifier_in_use B self pkid
        \<and> nth_opt (outgoing_pub self) (unat pkid) = Some None
        \<and> \<not> bs_contains B (outgoing_rel self) (unat pkid)
        \<and> \<not> bs_contains B (outgoing_rel_replay self) (unat pkid)
        \<and> \<not> btree_contains (pending_subscribe self) pkid
        \<and> \<not> btree_contains (pending_unsubscribe self) pkid)"

definition can_send_replayed_control_packet :: "'b bitset_ops \<Rightarrow> 'b MqttState \<Rightarrow> u16 \<Rightarrow> bool" where
  "can_send_replayed_control_packet B self pkid \<longleftrightarrow>
     pkid \<noteq> 0
     \<and> packet_identifier_in_use B self pkid
     \<and> \<not> bs_contains B (outgoing_rel self) (unat pkid)
     \<and> \<not> bs_contains B (outgoing_rel_replay self) (unat pkid)
     \<and> \<not> btree_contains (pending_subscribe self) pkid
     \<and> \<not> btree_contains (pending_unsubscribe self) pkid"

definition can_send_pubrel :: "'b bitset_ops \<Rightarrow> 'b MqttState \<Rightarrow> u16 \<Rightarrow> bool" where
  "can_send_pubrel B self pkid =
     (if pkid = 0 then False
      else
        let index = unat pkid in
        bs_contains B (outgoing_rel self) index
        \<or> bs_contains B (outgoing_rel_replay self) index \<and> inflight self < max_inflight self)"

section \<open>Collisions\<close>

definition clear_collision :: "'b MqttState \<Rightarrow> 'b MqttState" where
  "clear_collision self =
     self\<lparr>collision := None, collision_notice := None, ping := reset_collision_count (ping self)\<rparr>"

definition check_collision ::
  "u16 \<Rightarrow> ('b MqttState, 'e, (Publish \<times> PublishNoticeTx option) option) sm" where
  "check_collision pkid =
     andThen (gets (\<lambda>self. (collision self, collision_notice self))) (\<lambda>(coll, notice).
     case coll of
       None \<Rightarrow> ret None
     | Some publish \<Rightarrow>
         if publish_pkid publish = pkid then
           andThen (modify (\<lambda>self. self\<lparr>collision := None, collision_notice := None\<rparr>)) (\<lambda>_.
           ret (Some (publish, notice)))
         else ret None)"

definition incr_inflight :: "('b MqttState, 'e, unit) sm" where
  "incr_inflight = try_field inflight inflight_update u16_checked_inc"

definition decr_inflight :: "('b MqttState, 'e, unit) sm" where
  "decr_inflight = try_field inflight inflight_update u16_checked_dec"

definition replay_collision_publish :: "'b bitset_ops \<Rightarrow> u16 \<Rightarrow> ('b MqttState, 'e, Packet option) sm" where
  "replay_collision_publish B pkid =
     andThen (check_collision pkid) (\<lambda>r.
     case r of
       None \<Rightarrow> ret None
     | Some (publish, notice) \<Rightarrow>
         let pkid' = publish_pkid publish in
         andThen (modify (ensure_outgoing_tracking_capacity B (unat pkid' + 1))) (\<lambda>_.
         andThen (expect_ok (reserve_outbound_pkid B pkid')) (\<lambda>_.
         andThen (slot_put outgoing_pub outgoing_pub_update (unat pkid') (Some publish)) (\<lambda>_.
         andThen (modify (outgoing_pub_order_update (\<lambda>order. order @ [pkid']))) (\<lambda>_.
         andThen (slot_put outgoing_pub_notice outgoing_pub_notice_update (unat pkid') notice) (\<lambda>_.
         andThen incr_inflight (\<lambda>_.
         andThen (push_event (EvOutgoing (OutPublish pkid'))) (\<lambda>_.
         andThen (modify (ping_update reset_collision_count)) (\<lambda>_.
         ret (Some (PktPublish publish)))))))))))"

section \<open>Outgoing packets\<close>

definition outgoing_publish_with_notice_internal ::
  "'b bitset_ops \<Rightarrow> Publish \<Rightarrow> PublishNoticeTx option \<Rightarrow> bool
    \<Rightarrow> ('b, Packet option \<times> PublishNoticeTx option) state_m" where
  "outgoing_publish_with_notice_internal B publish notice replay =
     (if publish_qos publish \<noteq> AtMostOnce then
        andThen (gets (\<lambda>self. inflight self \<ge> max_inflight self)) (\<lambda>full.
        andThen (gets max_inflight) (\<lambda>max_in.
        andThen (ensure (\<not> full) (OutgoingPublishWindowFull max_in)) (\<lambda>_.
        andThen
          (if publish_pkid publish = 0 then
             andThen (ensure (\<not> replay) InvalidState) (\<lambda>_.
             andThen (next_pkid B) (\<lambda>r.
             andThen (ok_or r InvalidState) (\<lambda>pkid.
             ret (publish\<lparr>publish_pkid := pkid\<rparr>))))
           else ret publish) (\<lambda>publish.
        let pkid = publish_pkid publish in
        andThen (lift (validate_outgoing_pkid pkid)) (\<lambda>_.
        andThen (modify (ensure_outgoing_tracking_capacity B (unat pkid + 1))) (\<lambda>_.
        andThen (gets (\<lambda>self. nth_opt (outgoing_pub self) (unat pkid))) (\<lambda>slot.
        andThen (ok_or slot (Unsolicited pkid)) (\<lambda>stored.
        if stored \<noteq> None then
          andThen (modify (\<lambda>self. self\<lparr>collision := Some publish, collision_notice := notice\<rparr>)) (\<lambda>_.
          andThen (push_event (EvOutgoing (OutAwaitAck pkid))) (\<lambda>_.
          ret (None, None)))
        else
          andThen (gets (\<lambda>self.
            bs_contains B (outgoing_rel self) (unat pkid)
            \<or> bs_contains B (outgoing_rel_replay self) (unat pkid)
            \<or> btree_contains (pending_subscribe self) pkid
            \<or> btree_contains (pending_unsubscribe self) pkid)) (\<lambda>busy.
          andThen (ensure (\<not> busy) InvalidState) (\<lambda>_.
          andThen
            (if replay then accept_replayed_outbound_pkid B pkid
             else reserve_outbound_pkid B pkid) (\<lambda>_.
          andThen (slot_put outgoing_pub outgoing_pub_update (unat pkid) (Some publish)) (\<lambda>_.
          andThen (modify (outgoing_pub_order_update (\<lambda>order. order @ [pkid]))) (\<lambda>_.
          andThen (slot_put outgoing_pub_notice outgoing_pub_notice_update (unat pkid) notice) (\<lambda>_.
          andThen incr_inflight (\<lambda>_.
          andThen (push_event (EvOutgoing (OutPublish (publish_pkid publish)))) (\<lambda>_.
          ret (Some (PktPublish publish), None)))))))))))))))))
      else
        andThen (push_event (EvOutgoing (OutPublish (publish_pkid publish)))) (\<lambda>_.
        ret (Some (PktPublish publish), notice)))"

definition outgoing_publish_with_notice ::
  "'b bitset_ops \<Rightarrow> Publish \<Rightarrow> PublishNoticeTx option
    \<Rightarrow> ('b, Packet option \<times> PublishNoticeTx option) state_m" where
  "outgoing_publish_with_notice B publish notice = outgoing_publish_with_notice_internal B publish notice False"

definition replay_outgoing_publish_with_notice ::
  "'b bitset_ops \<Rightarrow> Publish \<Rightarrow> PublishNoticeTx option
    \<Rightarrow> ('b, Packet option \<times> PublishNoticeTx option) state_m" where
  "replay_outgoing_publish_with_notice B publish notice =
     outgoing_publish_with_notice_internal B publish notice True"

definition save_pubrel_with_notice ::
  "'b bitset_ops \<Rightarrow> PubRel \<Rightarrow> PublishNoticeTx option \<Rightarrow> ('b, PubRel) state_m" where
  "save_pubrel_with_notice B pubrel notice =
     (let pkid = pubrel_pkid pubrel; pkid_index = unat pkid in
      andThen (lift (validate_outgoing_pkid pkid)) (\<lambda>_.
      andThen (gets (\<lambda>self. bs_contains B (outgoing_rel_replay self) pkid_index)) (\<lambda>replaying_pubrel.
      andThen (gets (\<lambda>self. bs_contains B (outgoing_rel self) pkid_index)) (\<lambda>released.
      andThen (ensure (released \<or> replaying_pubrel) (Unsolicited pkid)) (\<lambda>_.
      andThen
        (if replaying_pubrel then
           andThen (gets (\<lambda>self. inflight self \<ge> max_inflight self)) (\<lambda>full.
           andThen (gets max_inflight) (\<lambda>max_in.
           andThen (ensure (\<not> full) (OutgoingPublishWindowFull max_in)) (\<lambda>_.
           andThen (try_field outgoing_rel_replay outgoing_rel_replay_update (\<lambda>b. bs_set B b pkid_index False)) (\<lambda>_.
           andThen (modify (outgoing_rel_replay_order_update (remove_ordered_pkid pkid))) (\<lambda>_.
           andThen (try_field outgoing_rel outgoing_rel_update (\<lambda>b. bs_insert B b pkid_index)) (\<lambda>_.
           andThen (modify (outgoing_rel_order_update (\<lambda>order. order @ [pkid]))) (\<lambda>_.
           incr_inflight)))))))
         else ret ()) (\<lambda>_.
      andThen (modify (ensure_outgoing_tracking_capacity B (unat pkid + 1))) (\<lambda>_.
      andThen (gets (\<lambda>self. nth_opt (outgoing_rel_notice self) pkid_index)) (\<lambda>slot.
      andThen (if notice \<noteq> None then ret True else andThen (expect slot) (\<lambda>old. ret (old = None))) (\<lambda>store.
      andThen (if store then slot_put outgoing_rel_notice outgoing_rel_notice_update pkid_index notice else ret ()) (\<lambda>_.
      ret pubrel))))))))))"

definition outgoing_pubrel_with_notice ::
  "'b bitset_ops \<Rightarrow> PubRel \<Rightarrow> PublishNoticeTx option
    \<Rightarrow> ('b, Packet option \<times> PublishNoticeTx option) state_m" where
  "outgoing_pubrel_with_notice B pubrel notice =
     andThen (save_pubrel_with_notice B pubrel notice) (\<lambda>pubrel.
     andThen (push_event (EvOutgoing (OutPubRel (pubrel_pkid pubrel)))) (\<lambda>_.
     ret (Some (PktPubRel pubrel), None)))"

definition outgoing_puback :: "'b bitset_ops \<Rightarrow> PubAck \<Rightarrow> ('b, Packet) state_m" where
  "outgoing_puback B puback =
     andThen (gets (\<lambda>self. bs_contains B (incoming_puback self) (unat (puback_pkid puback)))) (\<lambda>known.
     andThen (ensure known (Unsolicited (puback_pkid puback))) (\<lambda>_.
     andThen (try_field incoming_puback incoming_puback_update
        (\<lambda>b. bs_set B b (unat (puback_pkid puback)) False)) (\<lambda>_.
     andThen (push_event (EvOutgoing (OutPubAck (puback_pkid puback)))) (\<lambda>_.
     ret (PktPubAck puback)))))"

definition outgoing_pubrec_internal :: "'b bitset_ops \<Rightarrow> PubRec \<Rightarrow> bool \<Rightarrow> ('b, Packet) state_m" where
  "outgoing_pubrec_internal B pubrec allow_duplicate =
     (let pkid = pubrec_pkid pubrec in
      andThen (gets (\<lambda>self. bs_contains B (incoming_pub self) (unat pkid))) (\<lambda>known.
      andThen (ensure known (Unsolicited pkid)) (\<lambda>_.
      andThen (gets (\<lambda>self. bs_contains B (incoming_pubrec self) (unat pkid))) (\<lambda>acked.
      if acked then
        if allow_duplicate then
          andThen (push_event (EvOutgoing (OutPubRec pkid))) (\<lambda>_.
          ret (PktPubRec pubrec))
        else fail (Unsolicited pkid)
      else
        andThen (try_field incoming_pubrec incoming_pubrec_update (\<lambda>b. bs_insert B b (unat pkid))) (\<lambda>_.
        andThen (push_event (EvOutgoing (OutPubRec pkid))) (\<lambda>_.
        ret (PktPubRec pubrec)))))))"

definition outgoing_pubrec :: "'b bitset_ops \<Rightarrow> PubRec \<Rightarrow> ('b, Packet) state_m" where
  "outgoing_pubrec B pubrec = outgoing_pubrec_internal B pubrec False"

definition outgoing_pubrec_for_incoming_publish :: "'b bitset_ops \<Rightarrow> PubRec \<Rightarrow> ('b, Packet) state_m" where
  "outgoing_pubrec_for_incoming_publish B pubrec = outgoing_pubrec_internal B pubrec True"

definition outgoing_ping :: "('b, Packet option) state_m" where
  "outgoing_ping =
     andThen (gets collision) (\<lambda>coll.
     andThen
       (if coll \<noteq> None then
          andThen (gets (\<lambda>self. increment_collision_count (ping self))) (\<lambda>(n, p).
          andThen (modify (ping_update (\<lambda>_. p))) (\<lambda>_.
          ensure (\<not> n \<ge> 2) CollisionTimeout))
        else ret ()) (\<lambda>_.
     andThen (gets (\<lambda>self. PingState_await_pingresp (ping self))) (\<lambda>awaiting.
     andThen (ensure (\<not> awaiting) AwaitPingResp) (\<lambda>_.
     andThen (modify (ping_update begin_waiting_for_resp)) (\<lambda>_.
     andThen (push_event (EvOutgoing OutPingReq)) (\<lambda>_.
     ret (Some PktPingReq)))))))"

definition save_outgoing_subscribe ::
  "Subscribe \<Rightarrow> SubscribeNoticeTx option \<Rightarrow> ('b MqttState, 'e, Packet) sm" where
  "save_outgoing_subscribe subscription notice =
     andThen (push_event (EvOutgoing (OutSubscribe (subscribe_pkid subscription)))) (\<lambda>_.
     andThen (modify (pending_subscribe_update (btree_insert (subscribe_pkid subscription)
       \<lparr>psub_subscribe = subscription, psub_notice = notice\<rparr>))) (\<lambda>_.
     ret (PktSubscribe subscription)))"

definition outgoing_subscribe ::
  "'b bitset_ops \<Rightarrow> Subscribe \<Rightarrow> SubscribeNoticeTx option \<Rightarrow> ('b, Packet option) state_m" where
  "outgoing_subscribe B subscription notice =
     andThen (ensure (subscribe_filters subscription \<noteq> []) EmptySubscription) (\<lambda>_.
     andThen
       (if subscribe_pkid subscription = 0 then
          andThen (next_control_pkid B) (\<lambda>pkid.
          ret (subscription\<lparr>subscribe_pkid := pkid\<rparr>))
        else
          andThen (reserve_control_pkid B (subscribe_pkid subscription)) (\<lambda>_.
          ret subscription)) (\<lambda>subscription.
     andThen (save_outgoing_subscribe subscription notice) (\<lambda>packet.
     ret (Some packet))))"

definition replay_outgoing_subscribe ::
  "'b bitset_ops \<Rightarrow> Subscribe \<Rightarrow> SubscribeNoticeTx option \<Rightarrow> ('b, Packet option) state_m" where
  "replay_outgoing_subscribe B subscription notice =
     andThen (ensure (subscribe_filters subscription \<noteq> []) EmptySubscription) (\<lambda>_.
     andThen (accept_replayed_outbound_pkid B (subscribe_pkid subscription)) (\<lambda>_.
     andThen (save_outgoing_subscribe subscription notice) (\<lambda>packet.
     ret (Some packet))))"

definition save_outgoing_unsubscribe ::
  "Unsubscribe \<Rightarrow> UnsubscribeNoticeTx option \<Rightarrow> ('b MqttState, 'e, Packet) sm" where
  "save_outgoing_unsubscribe unsub notice =
     andThen (push_event (EvOutgoing (OutUnsubscribe (unsubscribe_pkid unsub)))) (\<lambda>_.
     andThen (modify (pending_unsubscribe_update (btree_insert (unsubscribe_pkid unsub)
       \<lparr>punsub_unsubscribe = unsub, punsub_notice = notice\<rparr>))) (\<lambda>_.
     ret (PktUnsubscribe unsub)))"

definition outgoing_unsubscribe ::
  "'b bitset_ops \<Rightarrow> Unsubscribe \<Rightarrow> UnsubscribeNoticeTx option \<Rightarrow> ('b, Packet) state_m" where
  "outgoing_unsubscribe B unsub notice =
     andThen (ensure (unsubscribe_topics unsub \<noteq> []) EmptyUnsubscription) (\<lambda>_.
     andThen
       (if unsubscribe_pkid unsub = 0 then
          andThen (next_control_pkid B) (\<lambda>pkid.
          ret (unsub\<lparr>unsubscribe_pkid := pkid\<rparr>))
        else
          andThen (reserve_control_pkid B (unsubscribe_pkid unsub)) (\<lambda>_.
          ret unsub)) (\<lambda>unsub.
     save_outgoing_unsubscribe unsub notice))"

definition replay_outgoing_unsubscribe ::
  "'b bitset_ops \<Rightarrow> Unsubscribe \<Rightarrow> UnsubscribeNoticeTx option \<Rightarrow> ('b, Packet) state_m" where
  "replay_outgoing_unsubscribe B unsub notice =
     andThen (ensure (unsubscribe_topics unsub \<noteq> []) EmptyUnsubscription) (\<lambda>_.
     andThen (accept_replayed_outbound_pkid B (unsubscribe_pkid unsub)) (\<lambda>_.
     save_outgoing_unsubscribe unsub notice))"

definition outgoing_disconnect :: "('b MqttState, 'e, Packet) sm" where
  "outgoing_disconnect =
     andThen (push_event (EvOutgoing OutDisconnect)) (\<lambda>_.
     ret PktDisconnect)"

section \<open>Outgoing requests\<close>

fun publish_notice_of :: "TrackedNoticeTx option \<Rightarrow> PublishNoticeTx option" where
  "publish_notice_of (Some (TrackedPublish notice)) = Some notice"
| "publish_notice_of _ = None"

fun subscribe_notice_of :: "TrackedNoticeTx option \<Rightarrow> SubscribeNoticeTx option" where
  "subscribe_notice_of (Some (TrackedSubscribe notice)) = Some notice"
| "subscribe_notice_of _ = None"

fun unsubscribe_notice_of :: "TrackedNoticeTx option \<Rightarrow> UnsubscribeNoticeTx option" where
  "unsubscribe_notice_of (Some (TrackedUnsubscribe notice)) = Some notice"
| "unsubscribe_notice_of _ = None"

fun outgoing_request ::
  "'b bitset_ops \<Rightarrow> Request \<Rightarrow> TrackedNoticeTx option \<Rightarrow> bool
    \<Rightarrow> ('b, Packet option \<times> PublishNoticeTx option) state_m" where
  "outgoing_request B (ReqPublish publish) notice replay =
     (if replay then replay_outgoing_publish_with_notice B publish (publish_notice_of notice)
      else outgoing_publish_with_notice B publish (publish_notice_of notice))"
| "outgoing_request B (ReqPubRel pubrel) notice replay =
     outgoing_pubrel_with_notice B pubrel (publish_notice_of notice)"
| "outgoing_request B (ReqSubscribe subscribe) notice replay =
     andThen
       (if replay then replay_outgoing_subscribe B subscribe (subscribe_notice_of notice)
        else outgoing_subscribe B subscribe (subscribe_notice_of notice)) (\<lambda>packet.
     ret (packet, None))"
| "outgoing_request B (ReqUnsubscribe unsubscribe) notice replay =
     andThen
       (if replay then replay_outgoing_unsubscribe B unsubscribe (unsubscribe_notice_of notice)
        else outgoing_unsubscribe B unsubscribe (unsubscribe_notice_of notice)) (\<lambda>packet.
     ret (Some packet, None))"
| "outgoing_request B ReqPingReq notice replay =
     andThen outgoing_ping (\<lambda>packet. ret (packet, None))"
| "outgoing_request B (ReqDisconnect _) notice replay = panic"
| "outgoing_request B (ReqDisconnectWithTimeout _ _) notice replay = panic"
| "outgoing_request B (ReqDisconnectNow _) notice replay =
     andThen outgoing_disconnect (\<lambda>packet. ret (Some packet, None))"
| "outgoing_request B (ReqPubAck puback) notice replay =
     andThen (outgoing_puback B puback) (\<lambda>packet. ret (Some packet, None))"
| "outgoing_request B (ReqPubRec pubrec) notice replay =
     andThen (outgoing_pubrec B pubrec) (\<lambda>packet. ret (Some packet, None))"
| "outgoing_request B (ReqPubComp _) notice replay = fail InvalidState"
| "outgoing_request B ReqPingResp notice replay = fail InvalidState"
| "outgoing_request B (ReqSubAck _) notice replay = fail InvalidState"
| "outgoing_request B (ReqUnsubAck _) notice replay = fail InvalidState"

definition handle_outgoing_packet_with_notice_internal ::
  "'b bitset_ops \<Rightarrow> nat \<Rightarrow> Request \<Rightarrow> TrackedNoticeTx option \<Rightarrow> bool
    \<Rightarrow> ('b, Packet option \<times> PublishNoticeTx option) state_m" where
  "handle_outgoing_packet_with_notice_internal B now request notice replay =
     andThen (outgoing_request B request notice replay) (\<lambda>result.
     andThen (modify (last_outgoing_update (\<lambda>_. now))) (\<lambda>_.
     ret result))"

definition handle_outgoing_packet_with_notice ::
  "'b bitset_ops \<Rightarrow> nat \<Rightarrow> Request \<Rightarrow> TrackedNoticeTx option
    \<Rightarrow> ('b, Packet option \<times> PublishNoticeTx option) state_m" where
  "handle_outgoing_packet_with_notice B now request notice =
     handle_outgoing_packet_with_notice_internal B now request notice False"

definition handle_replayed_outgoing_packet_with_notice ::
  "'b bitset_ops \<Rightarrow> nat \<Rightarrow> Request \<Rightarrow> TrackedNoticeTx option
    \<Rightarrow> ('b, Packet option \<times> PublishNoticeTx option) state_m" where
  "handle_replayed_outgoing_packet_with_notice B now request notice =
     handle_outgoing_packet_with_notice_internal B now request notice True"

definition handle_outgoing_packet :: "'b bitset_ops \<Rightarrow> nat \<Rightarrow> Request \<Rightarrow> ('b, Packet option) state_m" where
  "handle_outgoing_packet B now request =
     andThen (handle_outgoing_packet_with_notice B now request None) (\<lambda>(packet, flush_notice).
     andThen
       (case flush_notice of
          Some tx \<Rightarrow> send_notice (PublishNoticeTx_success tx Qos0Flushed)
        | None \<Rightarrow> ret ()) (\<lambda>_.
     andThen (modify (last_outgoing_update (\<lambda>_. now))) (\<lambda>_.
     ret packet)))"

section \<open>Incoming packets\<close>

definition is_duplicate_incoming_qos2_publish :: "'b bitset_ops \<Rightarrow> 'b MqttState \<Rightarrow> Packet \<Rightarrow> bool" where
  "is_duplicate_incoming_qos2_publish B self packet =
     (case packet of
        PktPublish publish \<Rightarrow>
          publish_qos publish = ExactlyOnce
          \<and> bs_contains B (incoming_pubrec self) (unat (publish_pkid publish))
      | _ \<Rightarrow> False)"

definition handle_incoming_suback :: "'b bitset_ops \<Rightarrow> SubAck \<Rightarrow> ('b, IncomingPacketEffects) state_m" where
  "handle_incoming_suback B suback =
     (let pkid = suback_pkid suback in
      andThen (gets (\<lambda>self. btree_get (pending_subscribe self) pkid)) (\<lambda>r.
      andThen (ok_or r (Unsolicited pkid)) (\<lambda>pending.
      let expected = length (subscribe_filters (psub_subscribe pending));
          actual = length (return_codes suback) in
      andThen (ensure (expected = actual)
        (ProtocolViolation (SubAckReturnCodeCountMismatch pkid expected actual))) (\<lambda>_.
      andThen (gets (\<lambda>self. btree_get (pending_subscribe self) pkid)) (\<lambda>removed.
      andThen (modify (pending_subscribe_update (btree_remove pkid))) (\<lambda>_.
      andThen (ok_or removed InvalidState) (\<lambda>pending.
      andThen (release_outbound_pkid B pkid) (\<lambda>_.
      let effects = effects_outgoing None in
      ret (case psub_notice pending of
             Some notice \<Rightarrow> with_notice effects (DeferredSubscribe notice suback)
           | None \<Rightarrow> effects)))))))))"

definition handle_incoming_unsuback :: "'b bitset_ops \<Rightarrow> UnsubAck \<Rightarrow> ('b, IncomingPacketEffects) state_m" where
  "handle_incoming_unsuback B unsuback =
     (let pkid = unsuback_pkid unsuback; effects = effects_outgoing None in
      andThen (gets (\<lambda>self. btree_get (pending_unsubscribe self) pkid)) (\<lambda>removed.
      andThen (modify (pending_unsubscribe_update (btree_remove pkid))) (\<lambda>_.
      case removed of
        Some pending \<Rightarrow>
          andThen (release_outbound_pkid B pkid) (\<lambda>_.
          ret (case punsub_notice pending of
                 Some notice \<Rightarrow> with_notice effects (DeferredUnsubscribe notice unsuback)
               | None \<Rightarrow> effects))
      | None \<Rightarrow> fail (Unsolicited pkid))))"

definition handle_incoming_publish :: "'b bitset_ops \<Rightarrow> Publish \<Rightarrow> ('b, IncomingPacketEffects) state_m" where
  "handle_incoming_publish B publish =
     (case publish_qos publish of
        AtMostOnce \<Rightarrow> ret (effects_outgoing None)
      | AtLeastOnce \<Rightarrow>
          let pkid = publish_pkid publish in
          andThen (try_field incoming_puback incoming_puback_update (\<lambda>b. bs_insert B b (unat pkid))) (\<lambda>_.
          andThen (gets ack_mode) (\<lambda>mode.
          if mode = Automatic then
            andThen (outgoing_puback B (PubAck_new pkid)) (\<lambda>packet.
            ret (effects_outgoing (Some packet)))
          else ret (effects_outgoing None)))
      | ExactlyOnce \<Rightarrow>
          let pkid = publish_pkid publish in
          andThen (try_field incoming_pub incoming_pub_update (\<lambda>b. bs_insert B b (unat pkid))) (\<lambda>_.
          andThen (gets (\<lambda>self. ack_mode self = Automatic
            \<or> bs_contains B (incoming_pubrec self) (unat pkid))) (\<lambda>respond.
          if respond then
            andThen (outgoing_pubrec_for_incoming_publish B (PubRec_new pkid)) (\<lambda>packet.
            ret (effects_outgoing (Some packet)))
          else ret (effects_outgoing None))))"

definition with_publish_notice ::
  "PublishNoticeTx option \<Rightarrow> PublishResult \<Rightarrow> IncomingPacketEffects \<Rightarrow> IncomingPacketEffects" where
  "with_publish_notice notice result effects =
     (case notice of Some tx \<Rightarrow> with_notice effects (DeferredPublish tx result) | None \<Rightarrow> effects)"

definition handle_incoming_puback :: "'b bitset_ops \<Rightarrow> PubAck \<Rightarrow> ('b, IncomingPacketEffects) state_m" where
  "handle_incoming_puback B puback =
     (let pkid = puback_pkid puback in
      andThen (gets (\<lambda>self. nth_opt (outgoing_pub self) (unat pkid))) (\<lambda>slot.
      andThen (ok_or slot (Unsolicited pkid)) (\<lambda>_.
      andThen (slot_take outgoing_pub outgoing_pub_update (unat pkid)) (\<lambda>publish.
      andThen (ensure (publish \<noteq> None) (Unsolicited pkid)) (\<lambda>_.
      andThen (release_outbound_pkid B pkid) (\<lambda>_.
      andThen (modify (outgoing_pub_order_update (remove_ordered_pkid pkid))) (\<lambda>_.
      andThen (slot_take outgoing_pub_notice outgoing_pub_notice_update (unat pkid)) (\<lambda>notice.
      andThen decr_inflight (\<lambda>_.
      andThen (replay_collision_publish B pkid) (\<lambda>packet.
      andThen (if packet = None then modify (maybe_shrink_outgoing_tracking_capacity B) else ret ()) (\<lambda>_.
      ret (with_publish_notice notice (Qos1 puback) (effects_outgoing packet)))))))))))))"

definition handle_incoming_pubrec :: "'b bitset_ops \<Rightarrow> PubRec \<Rightarrow> ('b, IncomingPacketEffects) state_m" where
  "handle_incoming_pubrec B pubrec =
     (let pkid = pubrec_pkid pubrec in
      andThen (gets (\<lambda>self. nth_opt (outgoing_pub self) (unat pkid))) (\<lambda>slot.
      andThen (ok_or slot (Unsolicited pkid)) (\<lambda>_.
      andThen (slot_take outgoing_pub outgoing_pub_update (unat pkid)) (\<lambda>publish.
      andThen (ensure (publish \<noteq> None) (Unsolicited pkid)) (\<lambda>_.
      andThen (slot_take outgoing_pub_notice outgoing_pub_notice_update (unat pkid)) (\<lambda>notice.
      andThen (try_field outgoing_rel outgoing_rel_update (\<lambda>b. bs_insert B b (unat pkid))) (\<lambda>_.
      andThen (modify (outgoing_pub_order_update (remove_ordered_pkid pkid))) (\<lambda>_.
      andThen (modify (outgoing_rel_order_update (\<lambda>order. order @ [pkid]))) (\<lambda>_.
      andThen (slot_put outgoing_rel_notice outgoing_rel_notice_update (unat pkid) notice) (\<lambda>_.
      let release = \<lparr>pubrel_pkid = pkid\<rparr> in
      andThen (push_event (EvOutgoing (OutPubRel pkid))) (\<lambda>_.
      ret (effects_outgoing (Some (PktPubRel release))))))))))))))"

definition handle_incoming_pubrel :: "'b bitset_ops \<Rightarrow> PubRel \<Rightarrow> ('b, Packet option) state_m" where
  "handle_incoming_pubrel B pubrel =
     (let pkid = pubrel_pkid pubrel in
      andThen (gets (\<lambda>self. bs_contains B (incoming_pub self) (unat pkid))) (\<lambda>tracked.
      if \<not> tracked then
        andThen (push_event (EvOutgoing (OutPubComp pkid))) (\<lambda>_.
        ret (Some (PktPubComp (PubComp_new pkid))))
      else
        andThen (gets (\<lambda>self. bs_contains B (incoming_pubrec self) (unat pkid))) (\<lambda>acked.
        andThen (ensure acked (Unsolicited pkid)) (\<lambda>_.
        andThen (try_field incoming_pub incoming_pub_update (\<lambda>b. bs_set B b (unat pkid) False)) (\<lambda>_.
        andThen (try_field incoming_pubrec incoming_pubrec_update (\<lambda>b. bs_set B b (unat pkid) False)) (\<lambda>_.
        andThen (push_event (EvOutgoing (OutPubComp pkid))) (\<lambda>_.
        ret (Some (PktPubComp \<lparr>pubcomp_pkid = pkid\<rparr>)))))))))"

definition handle_incoming_pubcomp :: "'b bitset_ops \<Rightarrow> PubComp \<Rightarrow> ('b, IncomingPacketEffects) state_m" where
  "handle_incoming_pubcomp B pubcomp =
     (let pkid = pubcomp_pkid pubcomp in
      andThen (gets (\<lambda>self. bs_contains B (outgoing_rel self) (unat pkid))) (\<lambda>released.
      andThen (ensure released (Unsolicited pkid)) (\<lambda>_.
      andThen (try_field outgoing_rel outgoing_rel_update (\<lambda>b. bs_set B b (unat pkid) False)) (\<lambda>_.
      andThen (modify (outgoing_rel_order_update (remove_ordered_pkid pkid))) (\<lambda>_.
      andThen (release_outbound_pkid B pkid) (\<lambda>_.
      andThen (slot_take outgoing_rel_notice outgoing_rel_notice_update (unat pkid)) (\<lambda>notice.
      andThen decr_inflight (\<lambda>_.
      andThen (replay_collision_publish B pkid) (\<lambda>packet.
      andThen (if packet = None then modify (maybe_shrink_outgoing_tracking_capacity B) else ret ()) (\<lambda>_.
      ret (with_publish_notice notice (Qos2Completed pubcomp) (effects_outgoing packet))))))))))))"

definition handle_incoming_pingresp :: "('b MqttState, 'e, Packet option) sm" where
  "handle_incoming_pingresp =
     andThen (modify (ping_update finish_waiting_for_resp)) (\<lambda>_.
     ret None)"

definition incoming_packet :: "'b bitset_ops \<Rightarrow> Packet \<Rightarrow> ('b, IncomingPacketEffects) state_m" where
  "incoming_packet B packet =
     (case packet of
        PktPingResp \<Rightarrow> andThen handle_incoming_pingresp (\<lambda>outgoing. ret (effects_outgoing outgoing))
      | PktPublish publish \<Rightarrow> handle_incoming_publish B publish
      | PktSubAck suback \<Rightarrow> handle_incoming_suback B suback
      | PktUnsubAck unsuback \<Rightarrow> handle_incoming_unsuback B unsuback
      | PktPubAck puback \<Rightarrow> handle_incoming_puback B puback
      | PktPubRec pubrec \<Rightarrow> handle_incoming_pubrec B pubrec
      | PktPubRel pubrel \<Rightarrow> andThen (handle_incoming_pubrel B pubrel) (\<lambda>outgoing. ret (effects_outgoing outgoing))
      | PktPubComp pubcomp \<Rightarrow> handle_incoming_pubcomp B pubcomp
      | PktConnAck _ \<Rightarrow> fail (ProtocolViolation DuplicateConnAck)
      | _ \<Rightarrow> fail (ProtocolViolation (UnexpectedIncomingPacket (Packet_packet_type packet))))"

definition handle_incoming_packet_with_effects ::
  "'b bitset_ops \<Rightarrow> nat \<Rightarrow> Packet \<Rightarrow> ('b, IncomingPacketEffects) state_m" where
  "handle_incoming_packet_with_effects B now packet =
     andThen (gets (\<lambda>self. length (events self))) (\<lambda>events_len_before.
     andThen (gets (\<lambda>self. \<not> is_duplicate_incoming_qos2_publish B self packet)) (\<lambda>forward_incoming.
     andThen (incoming_packet B packet) (\<lambda>effects.
     andThen
       (if forward_incoming then
          modify (events_update (\<lambda>es.
            take events_len_before es @ [EvIncoming packet] @ drop events_len_before es))
        else ret ()) (\<lambda>_.
     andThen (modify (last_incoming_update (\<lambda>_. now))) (\<lambda>_.
     ret effects)))))"

definition handle_incoming_packet :: "'b bitset_ops \<Rightarrow> nat \<Rightarrow> Packet \<Rightarrow> ('b, Packet option) state_m" where
  "handle_incoming_packet B now packet =
     andThen (handle_incoming_packet_with_effects B now packet) complete_notices"

section \<open>Disconnection and reset\<close>

definition adopt_pub_order :: "('b MqttState, 'e, unit) sm" where
  "adopt_pub_order =
     andThen (gets (\<lambda>self. length (outgoing_pub self))) (\<lambda>len.
     for_each (\<lambda>i.
       andThen (expect (u16_try_from i)) (\<lambda>pkid.
       modify (\<lambda>self.
         if outgoing_pub self ! i \<noteq> None \<and> pkid \<notin> set (outgoing_pub_order self)
         then self\<lparr>outgoing_pub_order := outgoing_pub_order self @ [pkid]\<rparr> else self))) [1..<len])"

definition adopt_rel_order :: "'b bitset_ops \<Rightarrow> ('b MqttState, 'e, unit) sm" where
  "adopt_rel_order B =
     andThen (gets (\<lambda>self. bs_ones B (outgoing_rel self))) (\<lambda>ones.
     for_each (\<lambda>i.
       andThen (expect (u16_try_from i)) (\<lambda>pkid.
       modify (\<lambda>self.
         if pkid \<notin> set (outgoing_rel_order self)
         then self\<lparr>outgoing_rel_order := outgoing_rel_order self @ [pkid]\<rparr> else self))) ones)"

text \<open>The body of the loop over the publishes: the requests it pushes and the identifiers it releases.\<close>

definition clean_publish :: "bool \<Rightarrow> u16 \<Rightarrow> ('b MqttState, 'e, CleanRequest list \<times> u16 list) sm" where
  "clean_publish keep pkid =
     (let index = unat pkid in
      andThen (slot_take outgoing_pub outgoing_pub_update index) (\<lambda>slot.
      case slot of
        None \<Rightarrow> ret ([], [])
      | Some publish \<Rightarrow>
          let publish = (if publish_qos publish \<noteq> AtMostOnce then publish\<lparr>publish_dup := True\<rparr> else publish);
              released = (if \<not> keep then [publish_pkid publish] else []) in
          andThen (slot_take outgoing_pub_notice outgoing_pub_notice_update index) (\<lambda>notice.
          ret ([\<lparr>clean_request = ReqPublish publish,
                 clean_notice = map_option TrackedPublish notice,
                 clean_replay = True\<rparr>], released))))"

definition clean_publishes :: "'b bitset_ops \<Rightarrow> bool \<Rightarrow> ('b MqttState, 'e, CleanRequest list) sm" where
  "clean_publishes B keep =
     andThen (gets outgoing_pub_order) (\<lambda>order.
     andThen (modify (outgoing_pub_order_update (\<lambda>_. []))) (\<lambda>_.
     andThen (traverse (clean_publish keep) order) (\<lambda>rs.
     andThen (for_each (release_outbound_pkid B) (concat (map snd rs))) (\<lambda>_.
     ret (concat (map fst rs))))))"

definition clean_collision :: "('b MqttState, 'e, CleanRequest list) sm" where
  "clean_collision =
     andThen (gets (\<lambda>self. (collision self, collision_notice self))) (\<lambda>(coll, notice).
     case coll of
       None \<Rightarrow> ret []
     | Some publish \<Rightarrow>
         andThen (modify (\<lambda>self. self\<lparr>collision := None, collision_notice := None\<rparr>)) (\<lambda>_.
         ret [\<lparr>clean_request = ReqPublish publish,
               clean_notice = map_option TrackedPublish notice,
               clean_replay = False\<rparr>]))"

text \<open>The bodies of the two loops over the released publishes.\<close>

definition clean_pubrel :: "u16 \<Rightarrow> ('b MqttState, 'e, CleanRequest) sm" where
  "clean_pubrel pkid =
     andThen (slot_take outgoing_rel_notice outgoing_rel_notice_update (unat pkid)) (\<lambda>notice.
     ret \<lparr>clean_request = ReqPubRel (PubRel_new pkid),
          clean_notice = map_option TrackedPublish notice,
          clean_replay = True\<rparr>)"

definition mark_pubrel_replay :: "'b bitset_ops \<Rightarrow> u16 \<Rightarrow> ('b MqttState, 'e, unit) sm" where
  "mark_pubrel_replay B pkid =
     andThen (try_field outgoing_rel_replay outgoing_rel_replay_update (\<lambda>b. bs_insert B b (unat pkid))) (\<lambda>_.
     modify (\<lambda>self.
       if pkid \<notin> set (outgoing_rel_replay_order self)
       then self\<lparr>outgoing_rel_replay_order := outgoing_rel_replay_order self @ [pkid]\<rparr> else self))"

definition clean_pubrels :: "'b bitset_ops \<Rightarrow> ('b MqttState, 'e, CleanRequest list) sm" where
  "clean_pubrels B =
     andThen (gets outgoing_rel_order) (\<lambda>order.
     andThen (modify (outgoing_rel_order_update (\<lambda>_. []))) (\<lambda>_.
     andThen (traverse clean_pubrel order) (\<lambda>requests.
     andThen (for_each (mark_pubrel_replay B) order) (\<lambda>_.
     andThen (modify (outgoing_rel_update (bs_clear B))) (\<lambda>_.
     ret requests)))))"

definition clean_subscribes :: "'b bitset_ops \<Rightarrow> bool \<Rightarrow> ('b MqttState, 'e, CleanRequest list) sm" where
  "clean_subscribes B keep =
     andThen (gets pending_subscribe) (\<lambda>entries.
     andThen (modify (pending_subscribe_update (\<lambda>_. []))) (\<lambda>_.
     traverse (\<lambda>(pkid, pending).
       andThen (if \<not> keep then release_outbound_pkid B pkid else ret ()) (\<lambda>_.
       ret \<lparr>clean_request = ReqSubscribe ((psub_subscribe pending)\<lparr>subscribe_pkid := pkid\<rparr>),
            clean_notice = map_option TrackedSubscribe (psub_notice pending),
            clean_replay = True\<rparr>)) entries))"

definition clean_unsubscribes :: "'b bitset_ops \<Rightarrow> bool \<Rightarrow> ('b MqttState, 'e, CleanRequest list) sm" where
  "clean_unsubscribes B keep =
     andThen (gets pending_unsubscribe) (\<lambda>entries.
     andThen (modify (pending_unsubscribe_update (\<lambda>_. []))) (\<lambda>_.
     traverse (\<lambda>(pkid, pending).
       andThen (if \<not> keep then release_outbound_pkid B pkid else ret ()) (\<lambda>_.
       ret \<lparr>clean_request = ReqUnsubscribe ((punsub_unsubscribe pending)\<lparr>unsubscribe_pkid := pkid\<rparr>),
            clean_notice = map_option TrackedUnsubscribe (punsub_notice pending),
            clean_replay = True\<rparr>)) entries))"

definition clean_with_notices_internal :: "'b bitset_ops \<Rightarrow> bool \<Rightarrow> ('b MqttState, 'e, CleanRequest list) sm" where
  "clean_with_notices_internal B keep =
     andThen adopt_pub_order (\<lambda>_.
     andThen (adopt_rel_order B) (\<lambda>_.
     andThen (clean_publishes B keep) (\<lambda>publishes.
     andThen clean_collision (\<lambda>coll.
     andThen (clean_pubrels B) (\<lambda>pubrels.
     andThen (clean_subscribes B keep) (\<lambda>subscribes.
     andThen (clean_unsubscribes B keep) (\<lambda>unsubscribes.
     let pending = publishes @ coll @ pubrels @ subscribes @ unsubscribes in
     andThen (modify (incoming_puback_update (bs_clear B))) (\<lambda>_.
     andThen (modify (ping_update PingState_reset)) (\<lambda>_.
     andThen (modify (inflight_update (\<lambda>_. 0))) (\<lambda>_.
     andThen (if pending = [] then modify (maybe_shrink_outgoing_tracking_capacity B) else ret ()) (\<lambda>_.
     ret pending)))))))))))"

definition clean_with_notices ::
  "'b bitset_ops \<Rightarrow> ('b MqttState, 'e, (Request \<times> TrackedNoticeTx option) list) sm" where
  "clean_with_notices B =
     andThen (clean_with_notices_internal B False) (\<lambda>requests.
     ret (map (\<lambda>c. (clean_request c, clean_notice c)) requests))"

definition clean_with_notices_for_reconnect :: "'b bitset_ops \<Rightarrow> ('b MqttState, 'e, CleanRequest list) sm" where
  "clean_with_notices_for_reconnect B = clean_with_notices_internal B True"

definition MqttState_clean :: "'b bitset_ops \<Rightarrow> ('b MqttState, 'e, Request list) sm" where
  "MqttState_clean B = andThen (clean_with_notices B) (\<lambda>requests. ret (map fst requests))"

definition drain_tracked_requests_as_failed ::
  "'b bitset_ops \<Rightarrow> NoticeFailureReason \<Rightarrow> ('b MqttState, 'e, nat) sm" where
  "drain_tracked_requests_as_failed B reason =
     andThen (gets (\<lambda>self. length (pending_subscribe self) + length (pending_unsubscribe self))) (\<lambda>drained.
     andThen (gets pending_subscribe) (\<lambda>subscribes.
     andThen (modify (pending_subscribe_update (\<lambda>_. []))) (\<lambda>_.
     andThen (for_each (\<lambda>(pkid, pending).
       andThen (release_outbound_pkid B pkid) (\<lambda>_.
       case psub_notice pending of
         Some notice \<Rightarrow> send_notice (SubscribeNoticeTx_error notice (subscribe_error reason))
       | None \<Rightarrow> ret ())) subscribes) (\<lambda>_.
     andThen (gets pending_unsubscribe) (\<lambda>unsubscribes.
     andThen (modify (pending_unsubscribe_update (\<lambda>_. []))) (\<lambda>_.
     andThen (for_each (\<lambda>(pkid, pending).
       andThen (release_outbound_pkid B pkid) (\<lambda>_.
       case punsub_notice pending of
         Some notice \<Rightarrow> send_notice (UnsubscribeNoticeTx_error notice (unsubscribe_error reason))
       | None \<Rightarrow> ret ())) unsubscribes) (\<lambda>_.
     andThen (modify (maybe_shrink_outgoing_tracking_capacity B)) (\<lambda>_.
     ret drained))))))))"

text \<open>Every notice of a vector is taken and failed, in the order of the slots.\<close>

definition fail_slots :: "PublishNoticeTx option list \<Rightarrow> NoticeSent list" where
  "fail_slots slots = map (\<lambda>tx. PublishNoticeTx_error tx PublishSessionReset) (List.map_filter id slots)"

definition fail_pending_notices :: "'b bitset_ops \<Rightarrow> ('b MqttState, 'e, unit) sm" where
  "fail_pending_notices B =
     andThen (modify (\<lambda>self. self\<lparr>
       notices_sent := notices_sent self @ fail_slots (outgoing_pub_notice self),
       outgoing_pub_notice := map (\<lambda>_. None) (outgoing_pub_notice self)\<rparr>)) (\<lambda>_.
     andThen (modify (\<lambda>self. self\<lparr>
       notices_sent := notices_sent self @ fail_slots (outgoing_rel_notice self),
       outgoing_rel_notice := map (\<lambda>_. None) (outgoing_rel_notice self)\<rparr>)) (\<lambda>_.
     andThen (modify (\<lambda>self. self\<lparr>
       notices_sent := notices_sent self @ fail_slots [collision_notice self],
       collision_notice := None\<rparr>)) (\<lambda>_.
     andThen (drain_tracked_requests_as_failed B FailSessionReset) (\<lambda>_.
     andThen (modify clear_collision) (\<lambda>_.
     modify (maybe_shrink_outgoing_tracking_capacity B))))))"

definition reset_session_state :: "'b bitset_ops \<Rightarrow> nat \<Rightarrow> ('b MqttState, 'e, unit) sm" where
  "reset_session_state B now =
     andThen (fail_pending_notices B) (\<lambda>_.
     modify (\<lambda>self. (new_internal B now (max_inflight self) (ack_mode self))\<lparr>
       notices_sent := notices_sent self\<rparr>))"

section \<open>Observation\<close>

record OutboundDiagnostics =
  diag_inflight :: u16
  diag_max_inflight :: u16
  diag_publish_window_full :: bool
  diag_packet_identifiers_in_use :: nat
  diag_collision :: bool
  diag_collision_notice :: bool
  diag_pending_subscribe :: nat
  diag_pending_unsubscribe :: nat
  diag_outgoing_publish :: nat
  diag_outgoing_publish_notices :: nat
  diag_outgoing_pubrel :: nat
  diag_outgoing_pubrel_replay :: nat
  diag_outgoing_pubrel_notices :: nat
  diag_incoming_puback :: nat
  diag_incoming_pub :: nat
  diag_incoming_pubrec :: nat
  diag_outbound_drained :: bool

definition count_some :: "'a option list \<Rightarrow> nat" where
  "count_some xs = length (filter (\<lambda>x. x \<noteq> None) xs)"

definition outbound_diagnostics :: "'b bitset_ops \<Rightarrow> 'b MqttState \<Rightarrow> OutboundDiagnostics" where
  "outbound_diagnostics B self =
     (let packet_identifiers_in_use = unat (outbound_pkid_count self);
          coll = collision self \<noteq> None;
          coll_notice = collision_notice self \<noteq> None;
          subs = length (pending_subscribe self);
          unsubs = length (pending_unsubscribe self);
          outgoing_publish = count_some (outgoing_pub self);
          outgoing_publish_notices = count_some (outgoing_pub_notice self);
          outgoing_pubrel = length (bs_ones B (outgoing_rel self));
          outgoing_pubrel_replay = length (bs_ones B (outgoing_rel_replay self));
          outgoing_pubrel_notices = count_some (outgoing_rel_notice self);
          outbound_drained =
            (inflight self = 0 \<and> \<not> coll \<and> \<not> coll_notice \<and> subs = 0 \<and> unsubs = 0
             \<and> outgoing_publish = 0 \<and> outgoing_publish_notices = 0 \<and> outgoing_pubrel = 0
             \<and> outgoing_pubrel_replay = 0 \<and> outgoing_pubrel_notices = 0
             \<and> packet_identifiers_in_use = 0) in
      \<lparr>diag_inflight = inflight self,
       diag_max_inflight = max_inflight self,
       diag_publish_window_full = (inflight self \<ge> max_inflight self),
       diag_packet_identifiers_in_use = packet_identifiers_in_use,
       diag_collision = coll,
       diag_collision_notice = coll_notice,
       diag_pending_subscribe = subs,
       diag_pending_unsubscribe = unsubs,
       diag_outgoing_publish = outgoing_publish,
       diag_outgoing_publish_notices = outgoing_publish_notices,
       diag_outgoing_pubrel = outgoing_pubrel,
       diag_outgoing_pubrel_replay = outgoing_pubrel_replay,
       diag_outgoing_pubrel_notices = outgoing_pubrel_notices,
       diag_incoming_puback = length (bs_ones B (incoming_puback self)),
       diag_incoming_pub = length (bs_ones B (incoming_pub self)),
       diag_incoming_pubrec = length (bs_ones B (incoming_pubrec self)),
       diag_outbound_drained = outbound_drained\<rparr>)"

definition pending_subscribe_len :: "'b MqttState \<Rightarrow> nat" where
  "pending_subscribe_len self = length (pending_subscribe self)"

definition pending_unsubscribe_len :: "'b MqttState \<Rightarrow> nat" where
  "pending_unsubscribe_len self = length (pending_unsubscribe self)"

definition pending_control_requests_is_empty :: "'b MqttState \<Rightarrow> bool" where
  "pending_control_requests_is_empty self \<longleftrightarrow> pending_subscribe self = [] \<and> pending_unsubscribe self = []"

definition tracked_subscribe_len :: "'b MqttState \<Rightarrow> nat" where
  "tracked_subscribe_len self = length (filter (\<lambda>(_, pending). psub_notice pending \<noteq> None) (pending_subscribe self))"

definition tracked_unsubscribe_len :: "'b MqttState \<Rightarrow> nat" where
  "tracked_unsubscribe_len self =
     length (filter (\<lambda>(_, pending). punsub_notice pending \<noteq> None) (pending_unsubscribe self))"

definition tracked_requests_is_empty :: "'b MqttState \<Rightarrow> bool" where
  "tracked_requests_is_empty self \<longleftrightarrow> tracked_subscribe_len self = 0 \<and> tracked_unsubscribe_len self = 0"

text \<open>\<open>Clone\<close>: the copy holds no notices.\<close>

definition MqttState_clone :: "'b MqttState \<Rightarrow> 'b MqttState" where
  "MqttState_clone self = self\<lparr>
     outgoing_pub_notice := new_notice_slots_with_len (length (outgoing_pub_notice self)),
     outgoing_rel_notice := new_notice_slots_with_len (length (outgoing_rel_notice self)),
     collision_notice := None,
     pending_subscribe := map (\<lambda>(pkid, pending). (pkid, pending\<lparr>psub_notice := None\<rparr>)) (pending_subscribe self),
     pending_unsubscribe := map (\<lambda>(pkid, pending). (pkid, pending\<lparr>punsub_notice := None\<rparr>)) (pending_unsubscribe self)\<rparr>"

end
