(* ===== verification/V4_State_Ids.thy ===== *)
theory V4_State_Ids
  imports V4_State
begin

text \<open>
  Allocation of packet identifiers. The scan over the 64-bit blocks of the reservation bit set
  agrees with a search over the identifiers one by one, so the identifier it returns is free and
  is the first free one in the round that starts after the last identifier handed out; an
  identifier is found whenever one is free.
\<close>

section \<open>Searching a range\<close>

lemma find_upt_Some:
  "find P [a..<b] = Some k \<longleftrightarrow> a \<le> k \<and> k < b \<and> P k \<and> (\<forall>j. a \<le> j \<longrightarrow> j < k \<longrightarrow> \<not> P j)"
proof
  assume "find P [a..<b] = Some k"
  then obtain i where i: "i < length [a..<b]" "P ([a..<b] ! i)" "k = [a..<b] ! i"
      "\<forall>j<i. \<not> P ([a..<b] ! j)"
    by (auto simp: find_Some_iff)
  have "\<not> P j" if "a \<le> j" "j < k" for j
    using i(4) [rule_format, of "j - a"] that i(1,3) by simp
  with i show "a \<le> k \<and> k < b \<and> P k \<and> (\<forall>j. a \<le> j \<longrightarrow> j < k \<longrightarrow> \<not> P j)"
    by auto
next
  assume "a \<le> k \<and> k < b \<and> P k \<and> (\<forall>j. a \<le> j \<longrightarrow> j < k \<longrightarrow> \<not> P j)"
  then show "find P [a..<b] = Some k"
    unfolding find_Some_iff by (intro exI [of _ "k - a"]) auto
qed

lemma find_upt_None: "find P [a..<b] = None \<longleftrightarrow> (\<forall>j. a \<le> j \<longrightarrow> j < b \<longrightarrow> \<not> P j)"
  by (auto simp: find_None_iff)

lemma find_append: "find P (xs @ ys) = (case find P xs of Some x \<Rightarrow> Some x | None \<Rightarrow> find P ys)"
  by (induction xs) auto

lemma find_upt_split:
  assumes "a \<le> b" "b \<le> c"
  shows "find P [a..<c] = (case find P [a..<b] of Some x \<Rightarrow> Some x | None \<Rightarrow> find P [b..<c])"
proof -
  have "[a..<c] = [a..<b] @ [b..<c]"
    using upt_add_eq_append [OF assms(1), of "c - b"] assms(2) by simp
  then show ?thesis
    by (simp only: find_append)
qed

section \<open>One block\<close>

lemma bit_block_mask:
  assumes "from + width \<le> 64"
  shows "bit (block_mask from width) j \<longleftrightarrow> from \<le> j \<and> j < from + width"
proof (cases "width = 64")
  case True
  then show ?thesis
    using assms by (auto simp: block_mask_def)
next
  case False
  have "push_bit width 1 - 1 = (mask width :: u64)"
    by (simp add: push_bit_eq_mult mask_eq_exp_minus_1)
  then show ?thesis
    using assms False by (auto simp: block_mask_def bit_push_bit_iff bit_mask_iff)
qed

lemma bit_u64_bound: "bit (w :: u64) j \<Longrightarrow> j < 64"
  using bit_imp_le_length [of w j] by simp

lemma find_block:
  fixes occ :: u64
  assumes "from + width \<le> 64"
    and free: "\<And>j. j < 64 \<Longrightarrow> P (base + j) \<longleftrightarrow> \<not> bit occ j"
  defines "free \<equiv> NOT occ AND block_mask from width"
  shows "find P [base + from..<base + from + width] = (if free = 0 then None else Some (base + trailing_zeros free))"
proof (cases "free = 0")
  case True
  have "\<not> P j" if "base + from \<le> j" "j < base + from + width" for j
  proof -
    have "\<not> bit free (j - base)"
      using True by simp
    then have "bit occ (j - base)"
      using that assms(1) by (auto simp: free_def bit_and_iff bit_not_iff bit_block_mask)
    then show ?thesis
      using free [of "j - base"] that assms(1) by simp
  qed
  with True show ?thesis
    by (simp add: find_upt_None)
next
  case False
  have iff: "bit free j \<longleftrightarrow> from \<le> j \<and> j < from + width \<and> \<not> bit occ j" for j
    using assms(1) by (auto simp: free_def bit_and_iff bit_not_iff bit_block_mask)
  define t where "t = trailing_zeros free"
  have t: "bit free t" "t < 64" "\<And>j. j < t \<Longrightarrow> \<not> bit free j"
    using trailing_zeros_least [OF False] by (auto simp: t_def)
  have "\<not> P j" if "base + from \<le> j" "j < base + t" for j
  proof -
    have "\<not> bit free (j - base)"
      using t(3) that by simp
    then show ?thesis
      using iff [of "j - base"] iff [of t] t free [of "j - base"] that by auto
  qed
  then have "find P [base + from..<base + from + width] = Some (base + t)"
    unfolding find_upt_Some using t iff [of t] free [of t] by auto
  with False show ?thesis
    by (simp add: t_def)
qed

section \<open>The scan\<close>

lemma find_free_blocks_find:
  assumes "start < en" "en \<le> 65536" "end_block = (en - 1) div 64" "end_block < length blocks"
    and P: "\<And>k j. \<lbrakk>k < length blocks; j < 64\<rbrakk> \<Longrightarrow> P (64 * k + j) \<longleftrightarrow> \<not> bit (blocks ! k) j"
  shows "find_free_blocks blocks start en end_block block_index
    = map_option word_of_nat (find P [max start (64 * block_index)..<en])"
  using assms(1-4)
proof (induction "Suc end_block - block_index" arbitrary: block_index)
  case 0
  then have "en \<le> 64 * block_index"
    by auto
  then show ?case
    using 0 by (simp add: find_free_blocks.simps)
next
  case (Suc n)
  have "n = Suc end_block - (block_index + 1)"
    using Suc.hyps(2) by arith
  from Suc.hyps(1) [OF this Suc.prems]
  have IH: "find_free_blocks blocks start en end_block (block_index + 1)
      = map_option word_of_nat (find P [max start (64 * (block_index + 1))..<en])" .
  define base lo hi where d: "base = 64 * block_index" "lo = min (start - base) 64" "hi = min (en - base) 64"
  have bi: "block_index \<le> end_block" "base < en"
    using Suc.hyps(2) Suc.prems by (auto simp: d)
  define free where "free = NOT (blocks ! block_index) AND block_mask lo (hi - lo)"
  have step: "find_free_blocks blocks start en end_block block_index
      = (if hi \<le> lo \<or> free = 0 then find_free_blocks blocks start en end_block (block_index + 1)
         else u16_try_from (base + trailing_zeros free))"
    unfolding find_free_blocks.simps [of _ _ _ _ block_index]
    using bi Suc.prems by (simp add: d free_def Let_def mult.commute)
  show ?case
  proof (cases "hi \<le> lo")
    case True
    then have "max start (64 * (block_index + 1)) = max start (64 * block_index)"
      using bi Suc.prems(1) by (auto simp: d min_def split: if_splits)
    then show ?thesis
      using step IH True by simp
  next
    case False
    then have range: "base + lo = max start base" "lo + (hi - lo) \<le> 64" "base + lo + (hi - lo) = base + hi"
      by (auto simp: d min_def split: if_splits)
    have block: "find P [base + lo..<base + hi] = (if free = 0 then None else Some (base + trailing_zeros free))"
      unfolding free_def range(3) [symmetric]
    proof (rule find_block [OF range(2)])
      show "P (base + j) \<longleftrightarrow> \<not> bit (blocks ! block_index) j" if "j < 64" for j
        using P [OF _ that, of block_index] bi(1) Suc.prems(4) by (simp add: d(1))
    qed
    have rest: "find P [base + hi..<en] = find P [max start (64 * (block_index + 1))..<en]"
    proof (cases "en \<le> base + 64")
      case True
      then have "base + hi = en"
        using bi(2) by (simp add: d)
      with True show ?thesis
        by (simp add: d)
    next
      case le: False
      then have "hi = 64"
        by (simp add: d(3))
      moreover have "start < base + 64"
        using False \<open>hi = 64\<close> by (simp add: d(2) min_def split: if_splits)
      ultimately have "max start (64 * (block_index + 1)) = base + hi"
        by (simp add: d(1))
      then show ?thesis
        by simp
    qed
    have "base + lo \<le> base + hi" "base + hi \<le> en"
      using False bi(2) by (simp, simp add: d(3))
    from find_upt_split [OF this, of P]
    have split: "find P [max start (64 * block_index)..<en]
        = (case find P [base + lo..<base + hi] of Some x \<Rightarrow> Some x | None \<Rightarrow> find P [base + hi..<en])"
      using range(1) by (simp add: d(1))
    show ?thesis
    proof (cases "free = 0")
      case True
      then show ?thesis
        using step IH split block rest by simp
    next
      case nz: False
      then have "find P [base + lo..<base + hi] = Some (base + trailing_zeros free)"
        using block by simp
      then have "base + trailing_zeros free < 65536"
        using Suc.prems(2) \<open>base + hi \<le> en\<close> by (simp add: find_upt_Some)
      then show ?thesis
        using step split block nz False by (simp add: u16_try_from_def)
    qed
  qed
qed

context fixed_bitset begin

lemma find_free_in_range:
  assumes "en \<le> bs_len B (outbound_pkid_in_use self)" "en \<le> 65536"
  shows "find_free_outbound_pkid_in_range B self start en
    = map_option word_of_nat (find (\<lambda>i. i \<notin> bits B (outbound_pkid_in_use self)) [start..<en])"
proof (cases "start < en")
  case True
  let ?b = "outbound_pkid_in_use self"
  have "max start (64 * (start div 64)) = start"
    by simp
  moreover have "(en - 1) div 64 < length (bs_as_slice B ?b)"
    using bit_as_slice(1) [of "en - 1" ?b] assms True by simp
  ultimately show ?thesis
    using find_free_blocks_find [OF True assms(2) refl, of "bs_as_slice B ?b"
        "\<lambda>i. i \<notin> bits B ?b" "start div 64"] True as_slice(2) [of _ ?b]
    by (simp add: find_free_outbound_pkid_in_range_def bits_contains)
qed (simp add: find_free_outbound_pkid_in_range_def)

text \<open>The next identifier is the first free one of the round after the last one.\<close>

lemma next_free_eq:
  assumes "bs_len B (outbound_pkid_in_use self) = 65536" and "outbound_pkid_count self < 65535"
  shows "next_free_outbound_pkid_after B self last_id
    = map_option word_of_nat (find (\<lambda>i. i \<notin> bits B (outbound_pkid_in_use self))
        ([unat last_id + 1..<65536] @ [1..<unat last_id + 1]))"
proof -
  let ?P = "\<lambda>i. i \<notin> bits B (outbound_pkid_in_use self)"
  have in_range: "find_free_outbound_pkid_in_range B self a b = map_option word_of_nat (find ?P [a..<b])"
    if "b \<le> 65536" for a b
    using find_free_in_range [of b self a] assms(1) that by simp
  show ?thesis
  proof (cases "last_id = 65535")
    case True
    then show ?thesis
      using assms(2) by (simp add: next_free_outbound_pkid_after_def control_packet_identifier_available_def
          in_range full_packet_identifier_len_def split: option.splits)
  next
    case False
    then have "unat last_id + 1 \<le> 65536"
      using unat_u16_bound [of last_id] by linarith
    then show ?thesis
      using False assms(2)
      by (simp add: next_free_outbound_pkid_after_def control_packet_identifier_available_def in_range
          full_packet_identifier_len_def find_append Let_def split: option.splits)
  qed
qed

lemma next_free_Some:
  assumes "bs_len B (outbound_pkid_in_use self) = 65536"
    and "next_free_outbound_pkid_after B self last_id = Some pkid"
  shows "pkid \<noteq> 0" and "unat pkid \<notin> bits B (outbound_pkid_in_use self)"
proof -
  have "outbound_pkid_count self < 65535"
    using assms(2) by (auto simp: next_free_outbound_pkid_after_def control_packet_identifier_available_def
        split: if_splits)
  then obtain i where "find (\<lambda>i. i \<notin> bits B (outbound_pkid_in_use self))
      ([unat last_id + 1..<65536] @ [1..<unat last_id + 1]) = Some i" and pkid: "pkid = word_of_nat i"
    using assms next_free_eq by fastforce
  then have "i \<in> set ([unat last_id + 1..<65536] @ [1..<unat last_id + 1])"
      "i \<notin> bits B (outbound_pkid_in_use self)"
    by (metis (no_types, lifting) find_Some_iff nth_mem)+
  then have "0 < i" "i < 65536 \<or> i \<le> unat last_id" and free: "i \<notin> bits B (outbound_pkid_in_use self)"
    by auto
  then have i: "0 < i" "i < 65536"
    using unat_u16_bounds(2) [of last_id] by linarith+
  then have "unat pkid = i"
    by (simp add: pkid unat_u16_of_nat)
  with i free show "pkid \<noteq> 0" "unat pkid \<notin> bits B (outbound_pkid_in_use self)"
    by auto
qed

lemma next_free_None:
  assumes "bs_len B (outbound_pkid_in_use self) = 65536" "outbound_pkid_count self < 65535"
    and "next_free_outbound_pkid_after B self last_id = None" "0 < i" "i < 65536"
  shows "i \<in> bits B (outbound_pkid_in_use self)"
proof -
  have "find (\<lambda>i. i \<notin> bits B (outbound_pkid_in_use self))
      ([unat last_id + 1..<65536] @ [1..<unat last_id + 1]) = None"
    using assms(3) by (simp add: next_free_eq [OF assms(1,2)])
  moreover have "i \<in> set ([unat last_id + 1..<65536] @ [1..<unat last_id + 1])"
    using assms(4,5) by (cases "i \<le> unat last_id") auto
  ultimately show ?thesis
    by (metis (no_types, lifting) find_None_iff)
qed

end

end
