(* ===== verification/V4_State_Inv.thy ===== *)
theory V4_State_Inv
  imports V4_State_Ids
begin

text \<open>
  The invariant of the MQTT 3.1.1 client state and its preservation by every handler.

  A packet identifier in use has exactly one owner: a stored publish, a released QoS 2 publish, a
  PUBREL waiting to be replayed, a pending SUBSCRIBE or UNSUBSCRIBE, or a request outside the
  state that is to be replayed on the next connection. The identifiers of these requests are the
  parameter \<open>Q\<close> of the invariant. From this follow the sizes of the tracking vectors, the window
  of in-flight publishes, and that no handler panics.
\<close>

section \<open>Owners of identifiers\<close>

definition exclusive ::
  "nat set \<Rightarrow> nat set \<Rightarrow> nat set \<Rightarrow> nat set \<Rightarrow> nat set \<Rightarrow> nat set \<Rightarrow> nat set \<Rightarrow> bool" where
  "exclusive P R RR S U Q I \<longleftrightarrow>
     (\<forall>i. of_bool (i \<in> P) + of_bool (i \<in> R) + of_bool (i \<in> RR) + of_bool (i \<in> S)
        + of_bool (i \<in> U) + of_bool (i \<in> Q) = (of_bool (i \<in> I) :: nat))"

lemma exclusive_owner:
  assumes "exclusive P R RR S U Q I"
  shows "i \<in> P \<Longrightarrow> i \<in> I \<and> i \<notin> R \<and> i \<notin> RR \<and> i \<notin> S \<and> i \<notin> U \<and> i \<notin> Q"
    and "i \<in> R \<Longrightarrow> i \<in> I \<and> i \<notin> P \<and> i \<notin> RR \<and> i \<notin> S \<and> i \<notin> U \<and> i \<notin> Q"
    and "i \<in> RR \<Longrightarrow> i \<in> I \<and> i \<notin> P \<and> i \<notin> R \<and> i \<notin> S \<and> i \<notin> U \<and> i \<notin> Q"
    and "i \<in> S \<Longrightarrow> i \<in> I \<and> i \<notin> P \<and> i \<notin> R \<and> i \<notin> RR \<and> i \<notin> U \<and> i \<notin> Q"
    and "i \<in> U \<Longrightarrow> i \<in> I \<and> i \<notin> P \<and> i \<notin> R \<and> i \<notin> RR \<and> i \<notin> S \<and> i \<notin> Q"
    and "i \<in> Q \<Longrightarrow> i \<in> I \<and> i \<notin> P \<and> i \<notin> R \<and> i \<notin> RR \<and> i \<notin> S \<and> i \<notin> U"
    and "i \<notin> I \<Longrightarrow> i \<notin> P \<and> i \<notin> R \<and> i \<notin> RR \<and> i \<notin> S \<and> i \<notin> U \<and> i \<notin> Q"
    and "i \<in> I \<Longrightarrow> i \<in> P \<or> i \<in> R \<or> i \<in> RR \<or> i \<in> S \<or> i \<in> U \<or> i \<in> Q"
proof -
  have "of_bool (i \<in> P) + of_bool (i \<in> R) + of_bool (i \<in> RR) + of_bool (i \<in> S)
      + of_bool (i \<in> U) + of_bool (i \<in> Q) = (of_bool (i \<in> I) :: nat)"
    using assms by (simp add: exclusive_def)
  note sum = this [unfolded of_bool_def]
  show "i \<in> P \<Longrightarrow> i \<in> I \<and> i \<notin> R \<and> i \<notin> RR \<and> i \<notin> S \<and> i \<notin> U \<and> i \<notin> Q"
    using sum by (simp split: if_splits)
  show "i \<in> R \<Longrightarrow> i \<in> I \<and> i \<notin> P \<and> i \<notin> RR \<and> i \<notin> S \<and> i \<notin> U \<and> i \<notin> Q"
    using sum by (simp split: if_splits)
  show "i \<in> RR \<Longrightarrow> i \<in> I \<and> i \<notin> P \<and> i \<notin> R \<and> i \<notin> S \<and> i \<notin> U \<and> i \<notin> Q"
    using sum by (simp split: if_splits)
  show "i \<in> S \<Longrightarrow> i \<in> I \<and> i \<notin> P \<and> i \<notin> R \<and> i \<notin> RR \<and> i \<notin> U \<and> i \<notin> Q"
    using sum by (simp split: if_splits)
  show "i \<in> U \<Longrightarrow> i \<in> I \<and> i \<notin> P \<and> i \<notin> R \<and> i \<notin> RR \<and> i \<notin> S \<and> i \<notin> Q"
    using sum by (simp split: if_splits)
  show "i \<in> Q \<Longrightarrow> i \<in> I \<and> i \<notin> P \<and> i \<notin> R \<and> i \<notin> RR \<and> i \<notin> S \<and> i \<notin> U"
    using sum by (simp split: if_splits)
  show "i \<notin> I \<Longrightarrow> i \<notin> P \<and> i \<notin> R \<and> i \<notin> RR \<and> i \<notin> S \<and> i \<notin> U \<and> i \<notin> Q"
    using sum by (simp split: if_splits)
  show "i \<in> I \<Longrightarrow> i \<in> P \<or> i \<in> R \<or> i \<in> RR \<or> i \<in> S \<or> i \<in> U \<or> i \<in> Q"
    using sum by (simp split: if_splits)
qed

text \<open>An identifier changes its owner, gets its first owner, or loses its last one.\<close>

lemma exclusive_update:
  assumes "exclusive P R RR S U Q I"
    and "\<And>i. i \<noteq> k \<Longrightarrow> (i \<in> P' \<longleftrightarrow> i \<in> P) \<and> (i \<in> R' \<longleftrightarrow> i \<in> R) \<and> (i \<in> RR' \<longleftrightarrow> i \<in> RR)
      \<and> (i \<in> S' \<longleftrightarrow> i \<in> S) \<and> (i \<in> U' \<longleftrightarrow> i \<in> U) \<and> (i \<in> Q' \<longleftrightarrow> i \<in> Q) \<and> (i \<in> I' \<longleftrightarrow> i \<in> I)"
    and "of_bool (k \<in> P') + of_bool (k \<in> R') + of_bool (k \<in> RR') + of_bool (k \<in> S')
        + of_bool (k \<in> U') + of_bool (k \<in> Q') = (of_bool (k \<in> I') :: nat)"
  shows "exclusive P' R' RR' S' U' Q' I'"
  unfolding exclusive_def
proof
  fix i
  show "of_bool (i \<in> P') + of_bool (i \<in> R') + of_bool (i \<in> RR') + of_bool (i \<in> S')
      + of_bool (i \<in> U') + of_bool (i \<in> Q') = (of_bool (i \<in> I') :: nat)"
    using assms by (cases "i = k") (simp_all add: exclusive_def)
qed

lemma exclusive_moves:
  assumes "exclusive P R RR S U Q I"
  shows "k \<notin> I \<Longrightarrow> exclusive (insert k P) R RR S U Q (insert k I)"
    and "k \<notin> I \<Longrightarrow> exclusive P R RR (insert k S) U Q (insert k I)"
    and "k \<notin> I \<Longrightarrow> exclusive P R RR S (insert k U) Q (insert k I)"
    and "k \<in> P \<Longrightarrow> exclusive (P - {k}) R RR S U Q (I - {k})"
    and "k \<in> R \<Longrightarrow> exclusive P (R - {k}) RR S U Q (I - {k})"
    and "k \<in> S \<Longrightarrow> exclusive P R RR (S - {k}) U Q (I - {k})"
    and "k \<in> U \<Longrightarrow> exclusive P R RR S (U - {k}) Q (I - {k})"
    and "k \<in> P \<Longrightarrow> exclusive (P - {k}) (insert k R) RR S U Q I"
    and "k \<in> RR \<Longrightarrow> exclusive P (insert k R) (RR - {k}) S U Q I"
    and "k \<in> Q \<Longrightarrow> exclusive (insert k P) R RR S U (Q - {k}) I"
    and "k \<in> Q \<Longrightarrow> exclusive P R RR (insert k S) U (Q - {k}) I"
    and "k \<in> Q \<Longrightarrow> exclusive P R RR S (insert k U) (Q - {k}) I"
proof -
  note owner = exclusive_owner [OF assms, of k]
  show "exclusive (insert k P) R RR S U Q (insert k I)" if "k \<notin> I"
    using owner(7) [OF that] by (intro exclusive_update [OF assms, of k]) simp_all
  show "exclusive P R RR (insert k S) U Q (insert k I)" if "k \<notin> I"
    using owner(7) [OF that] by (intro exclusive_update [OF assms, of k]) simp_all
  show "exclusive P R RR S (insert k U) Q (insert k I)" if "k \<notin> I"
    using owner(7) [OF that] by (intro exclusive_update [OF assms, of k]) simp_all
  show "exclusive (P - {k}) R RR S U Q (I - {k})" if "k \<in> P"
    using owner(1) [OF that] by (intro exclusive_update [OF assms, of k]) simp_all
  show "exclusive P (R - {k}) RR S U Q (I - {k})" if "k \<in> R"
    using owner(2) [OF that] by (intro exclusive_update [OF assms, of k]) simp_all
  show "exclusive P R RR (S - {k}) U Q (I - {k})" if "k \<in> S"
    using owner(4) [OF that] by (intro exclusive_update [OF assms, of k]) simp_all
  show "exclusive P R RR S (U - {k}) Q (I - {k})" if "k \<in> U"
    using owner(5) [OF that] by (intro exclusive_update [OF assms, of k]) simp_all
  show "exclusive (P - {k}) (insert k R) RR S U Q I" if "k \<in> P"
    using owner(1) [OF that] by (intro exclusive_update [OF assms, of k]) simp_all
  show "exclusive P (insert k R) (RR - {k}) S U Q I" if "k \<in> RR"
    using owner(3) [OF that] by (intro exclusive_update [OF assms, of k]) simp_all
  show "exclusive (insert k P) R RR S U (Q - {k}) I" if "k \<in> Q"
    using owner(6) [OF that] by (intro exclusive_update [OF assms, of k]) simp_all
  show "exclusive P R RR (insert k S) U (Q - {k}) I" if "k \<in> Q"
    using owner(6) [OF that] by (intro exclusive_update [OF assms, of k]) simp_all
  show "exclusive P R RR S (insert k U) (Q - {k}) I" if "k \<in> Q"
    using owner(6) [OF that] by (intro exclusive_update [OF assms, of k]) simp_all
qed

lemma exclusive_empty:
  assumes "exclusive P R RR S U Q {}"
  shows "P = {}" "R = {}" "RR = {}" "S = {}" "U = {}" "Q = {}"
  using exclusive_owner(7) [OF assms] by blast+

section \<open>The invariant\<close>

abbreviation subscribe_ids :: "'b MqttState \<Rightarrow> nat set" where
  "subscribe_ids s \<equiv> unat ` fst ` set (pending_subscribe s)"

abbreviation unsubscribe_ids :: "'b MqttState \<Rightarrow> nat set" where
  "unsubscribe_ids s \<equiv> unat ` fst ` set (pending_unsubscribe s)"

named_theorems inv_defs \<open>the parts of the state invariant\<close>

definition sizes_inv :: "'b bitset_ops \<Rightarrow> 'b MqttState \<Rightarrow> bool" where
  [inv_defs]: "sizes_inv B s \<longleftrightarrow>
     0 < length (outgoing_pub s) \<and> length (outgoing_pub s) \<le> 65536
     \<and> length (outgoing_pub_notice s) = length (outgoing_pub s)
     \<and> length (outgoing_rel_notice s) = length (outgoing_pub s)
     \<and> bs_len B (outgoing_rel s) = length (outgoing_pub s)
     \<and> bs_len B (outgoing_rel_replay s) = length (outgoing_pub s)
     \<and> bs_len B (incoming_puback s) = 65536
     \<and> bs_len B (incoming_pub s) = 65536
     \<and> bs_len B (incoming_pubrec s) = 65536
     \<and> bs_len B (outbound_pkid_in_use s) = 65536"

definition owners_inv :: "'b bitset_ops \<Rightarrow> nat set \<Rightarrow> 'b MqttState \<Rightarrow> bool" where
  [inv_defs]: "owners_inv B Q s \<longleftrightarrow>
     exclusive (occupied (outgoing_pub s)) (bits B (outgoing_rel s)) (bits B (outgoing_rel_replay s))
       (subscribe_ids s) (unsubscribe_ids s) Q (bits B (outbound_pkid_in_use s))
     \<and> 0 \<notin> bits B (outbound_pkid_in_use s)
     \<and> unat (outbound_pkid_count s) = card (bits B (outbound_pkid_in_use s))"

definition window_inv :: "'b bitset_ops \<Rightarrow> 'b MqttState \<Rightarrow> bool" where
  [inv_defs]: "window_inv B s \<longleftrightarrow>
     unat (inflight s) = card (occupied (outgoing_pub s)) + card (bits B (outgoing_rel s))
     \<and> inflight s \<le> max_inflight s"

definition order_inv :: "u16 list \<Rightarrow> nat set \<Rightarrow> bool" where
  "order_inv order ids \<longleftrightarrow> distinct order \<and> unat ` set order = ids"

definition orders_inv :: "'b bitset_ops \<Rightarrow> 'b MqttState \<Rightarrow> bool" where
  [inv_defs]: "orders_inv B s \<longleftrightarrow>
     order_inv (outgoing_pub_order s) (occupied (outgoing_pub s))
     \<and> order_inv (outgoing_rel_order s) (bits B (outgoing_rel s))
     \<and> order_inv (outgoing_rel_replay_order s) (bits B (outgoing_rel_replay s))"

definition stored_ok :: "Publish option list \<Rightarrow> bool" where
  "stored_ok slots \<longleftrightarrow>
     (\<forall>i<length slots. \<forall>p. slots ! i = Some p \<longrightarrow> unat (publish_pkid p) = i \<and> publish_qos p \<noteq> AtMostOnce)"

definition slots_inv :: "'b bitset_ops \<Rightarrow> 'b MqttState \<Rightarrow> bool" where
  [inv_defs]: "slots_inv B s \<longleftrightarrow>
     stored_ok (outgoing_pub s)
     \<and> occupied (outgoing_pub_notice s) \<subseteq> occupied (outgoing_pub s)
     \<and> occupied (outgoing_rel_notice s) \<subseteq> bits B (outgoing_rel s)"

definition collision_inv :: "'b bitset_ops \<Rightarrow> 'b MqttState \<Rightarrow> bool" where
  [inv_defs]: "collision_inv B s \<longleftrightarrow>
     (case collision s of
        None \<Rightarrow> collision_notice s = None
      | Some p \<Rightarrow> publish_qos p \<noteq> AtMostOnce
          \<and> unat (publish_pkid p) \<in> occupied (outgoing_pub s) \<union> bits B (outgoing_rel s))"

definition pending_inv :: "'b MqttState \<Rightarrow> bool" where
  [inv_defs]: "pending_inv s \<longleftrightarrow>
     btree_ordered (pending_subscribe s) \<and> btree_ordered (pending_unsubscribe s)
     \<and> (\<forall>(k, p) \<in> set (pending_subscribe s). subscribe_pkid (psub_subscribe p) = k)
     \<and> (\<forall>(k, p) \<in> set (pending_unsubscribe s). unsubscribe_pkid (punsub_unsubscribe p) = k)"

definition incoming_inv :: "'b bitset_ops \<Rightarrow> 'b MqttState \<Rightarrow> bool" where
  [inv_defs]: "incoming_inv B s \<longleftrightarrow> bits B (incoming_pubrec s) \<subseteq> bits B (incoming_pub s)"

definition state_inv :: "'b bitset_ops \<Rightarrow> nat set \<Rightarrow> 'b MqttState \<Rightarrow> bool" where
  "state_inv B Q s \<longleftrightarrow>
     sizes_inv B s \<and> owners_inv B Q s \<and> window_inv B s \<and> orders_inv B s \<and> slots_inv B s
     \<and> collision_inv B s \<and> pending_inv s \<and> incoming_inv B s"

lemma state_invI [intro?]:
  "\<lbrakk>sizes_inv B s; owners_inv B Q s; window_inv B s; orders_inv B s; slots_inv B s;
    collision_inv B s; pending_inv s; incoming_inv B s\<rbrakk> \<Longrightarrow> state_inv B Q s"
  by (simp add: state_inv_def)

lemma state_invD:
  assumes "state_inv B Q s"
  shows "sizes_inv B s" "owners_inv B Q s" "window_inv B s" "orders_inv B s" "slots_inv B s"
    "collision_inv B s" "pending_inv s" "incoming_inv B s"
  using assms by (simp_all add: state_inv_def)

lemma unat_image_iff [simp]: "unat k \<in> unat ` A \<longleftrightarrow> k \<in> A"
  by (auto dest: word_unat_eq_iff [THEN iffD2])

lemma unat_image_diff [simp]: "unat ` (A - {k}) = unat ` A - {unat k}"
  by (auto dest: word_unat_eq_iff [THEN iffD2])

lemma order_inv_append: "\<lbrakk>order_inv order ids; unat k \<notin> ids\<rbrakk> \<Longrightarrow> order_inv (order @ [k]) (insert (unat k) ids)"
  by (auto simp: order_inv_def)

lemma order_inv_remove: "order_inv order ids \<Longrightarrow> order_inv (remove_ordered_pkid k order) (ids - {unat k})"
  by (auto simp: order_inv_def remove_ordered_pkid_def deque_remove_first_def dest: word_unat_eq_iff [THEN iffD2])

lemma order_inv_Nil [simp]: "order_inv [] ids \<longleftrightarrow> ids = {}"
  by (auto simp: order_inv_def)

lemma order_inv_empty: "order_inv order {} \<longleftrightarrow> order = []"
  by (auto simp: order_inv_def)

lemma stored_ok_put:
  "\<lbrakk>stored_ok slots; unat (publish_pkid p) = i; publish_qos p \<noteq> AtMostOnce\<rbrakk> \<Longrightarrow> stored_ok (slots[i := Some p])"
  by (cases "i < length slots") (auto simp: stored_ok_def nth_list_update split: if_splits)

lemma stored_ok_take [simp]: "stored_ok slots \<Longrightarrow> stored_ok (slots[i := None])"
  by (cases "i < length slots") (auto simp: stored_ok_def nth_list_update split: if_splits)

lemma stored_ok_resize [simp]: "\<lbrakk>stored_ok slots; length slots \<le> n\<rbrakk> \<Longrightarrow> stored_ok (resize_with_none n slots)"
  by (auto simp: stored_ok_def nth_resize_with_none split: if_splits)

lemma stored_ok_prefix [simp]: "stored_ok slots \<Longrightarrow> stored_ok (take n slots)"
  by (auto simp: stored_ok_def)

lemma stored_ok_replicate [simp]: "stored_ok (replicate n None)"
  by (auto simp: stored_ok_def)

lemma stored_okD: "\<lbrakk>stored_ok slots; i < length slots; slots ! i = Some p\<rbrakk> 
    \<Longrightarrow> unat (publish_pkid p) = i \<and> publish_qos p \<noteq> AtMostOnce"
  by (auto simp: stored_ok_def)

section \<open>Creation and capacity\<close>

lemma warm_tracking_len_bounds: "0 < warm_tracking_len m" "warm_tracking_len m \<le> 33" "warm_tracking_len m \<le> unat m + 1"
  by (auto simp: warm_tracking_len_def outgoing_tracking_len_def WARM_TRACKING_SLOTS_def Let_def)

context fixed_bitset begin

lemma new_internal_inv: "state_inv B {} (new_internal B now m mode)"
proof
  show "sizes_inv B (new_internal B now m mode)"
    using warm_tracking_len_bounds [of m]
    by (simp add: inv_defs new_internal_def Let_def new_notice_slots_with_len_def bs_simps full_packet_identifier_len_def)
qed (simp_all add: inv_defs new_internal_def Let_def new_notice_slots_with_len_def bs_simps exclusive_def)

text \<open>A change of fields the invariant does not read.\<close>

lemma state_inv_frame:
  "state_inv B Q (events_update f s) = state_inv B Q s"
  "state_inv B Q (ping_update g s) = state_inv B Q s"
  "state_inv B Q (last_incoming_update h s) = state_inv B Q s"
  "state_inv B Q (last_outgoing_update h s) = state_inv B Q s"
  "state_inv B Q (last_pkid_update k s) = state_inv B Q s"
  "state_inv B Q (notices_sent_update l s) = state_inv B Q s"
  by (simp_all add: state_inv_def inv_defs cong: option.case_cong)

lemma ensure_capacity_fields:
  assumes "sizes_inv B s" "n \<le> 65536"
  shows "ensure_outgoing_tracking_capacity B n s =
    (if n \<le> length (outgoing_pub s) then s
     else s\<lparr>outgoing_pub := resize_with_none n (outgoing_pub s),
            outgoing_pub_notice := resize_with_none n (outgoing_pub_notice s),
            outgoing_rel_notice := resize_with_none n (outgoing_rel_notice s),
            outgoing_rel := bs_grow B (outgoing_rel s) n,
            outgoing_rel_replay := bs_grow B (outgoing_rel_replay s) n\<rparr>)"
proof -
  have len: "length (outgoing_pub_notice s) = length (outgoing_pub s)"
      "length (outgoing_rel_notice s) = length (outgoing_pub s)"
      "bs_len B (outgoing_rel s) = length (outgoing_pub s)"
      "bs_len B (outgoing_rel_replay s) = length (outgoing_pub s)"
    using assms by (simp_all add: sizes_inv_def)
  show ?thesis
    by (cases "n \<le> length (outgoing_pub s)") (simp_all add: ensure_outgoing_tracking_capacity_def Let_def len)
qed

lemma ensure_capacity_inv:
  assumes "state_inv B Q s" "n \<le> 65536"
  shows "state_inv B Q (ensure_outgoing_tracking_capacity B n s)"
proof -
  note inv = state_invD [OF assms(1)]
  have "state_inv B Q (s\<lparr>outgoing_pub := resize_with_none n (outgoing_pub s),
            outgoing_pub_notice := resize_with_none n (outgoing_pub_notice s),
            outgoing_rel_notice := resize_with_none n (outgoing_rel_notice s),
            outgoing_rel := bs_grow B (outgoing_rel s) n,
            outgoing_rel_replay := bs_grow B (outgoing_rel_replay s) n\<rparr>)"
    if "length (outgoing_pub s) < n"
    using inv assms(2) that by (intro state_invI) (simp_all add: inv_defs bs_simps max_def cong: option.case_cong)
  then show ?thesis
    using assms by (simp add: ensure_capacity_fields [OF inv(1) assms(2)])
qed

lemma drained_sets:
  assumes "state_inv B Q s" "outbound_pkid_count s = 0"
  shows "bits B (outbound_pkid_in_use s) = {}" "occupied (outgoing_pub s) = {}" "bits B (outgoing_rel s) = {}"
    "bits B (outgoing_rel_replay s) = {}" "pending_subscribe s = []" "pending_unsubscribe s = []" "Q = {}"
proof -
  note owners = state_invD(2) [OF assms(1), unfolded owners_inv_def]
  show used: "bits B (outbound_pkid_in_use s) = {}"
    using owners assms(2) finite_bits [of "outbound_pkid_in_use s"] by simp
  note empty = exclusive_empty [OF owners [THEN conjunct1, unfolded used]]
  show "occupied (outgoing_pub s) = {}" "bits B (outgoing_rel s) = {}"
      "bits B (outgoing_rel_replay s) = {}" "pending_subscribe s = []" "pending_unsubscribe s = []" "Q = {}"
    using empty by simp_all
qed

lemma drained_iff:
  assumes "state_inv B Q s"
  shows "outbound_requests_drained B s \<longleftrightarrow> outbound_pkid_count s = 0"
proof
  assume count: "outbound_pkid_count s = 0"
  note sets = drained_sets [OF assms count]
  have "collision s = None"
    using state_invD(6) [OF assms] sets by (auto simp: collision_inv_def split: option.splits)
  moreover have "occupied (outgoing_pub_notice s) = {}" "occupied (outgoing_rel_notice s) = {}"
    using state_invD(5) [OF assms] sets by (simp_all add: slots_inv_def)
  moreover have "unat (inflight s) = 0"
    using state_invD(3) [OF assms] sets by (simp add: window_inv_def)
  ultimately show "outbound_requests_drained B s"
    using state_invD(4,6) [OF assms] count sets
    by (simp add: outbound_requests_drained_def orders_inv_def collision_inv_def bs_simps
        occupied_empty [symmetric] order_inv_empty unat_eq_0)
qed (simp add: outbound_requests_drained_def)

lemma shrink_inv:
  assumes "state_inv B Q s"
  shows "state_inv B Q (maybe_shrink_outgoing_tracking_capacity B s)"
proof (cases "length (outgoing_pub s) \<le> warm_tracking_len (max_inflight s) \<or> outbound_pkid_count s \<noteq> 0")
  case True
  then show ?thesis
    using assms by (auto simp: maybe_shrink_outgoing_tracking_capacity_def drained_iff [OF assms])
next
  case False
  then have count: "outbound_pkid_count s = 0" and len: "warm_tracking_len (max_inflight s) < length (outgoing_pub s)"
    by auto
  note inv = state_invD [OF assms]
  note sets = drained_sets [OF assms count]
  have "outbound_requests_drained B s"
    using count by (simp add: drained_iff [OF assms])
  then have orders: "outgoing_pub_order s = []" and notices: "occupied (outgoing_pub_notice s) = {}"
      "occupied (outgoing_rel_notice s) = {}"
    by (simp_all add: outbound_requests_drained_def occupied_empty)
  have "state_inv B Q (s\<lparr>outgoing_pub := take n (outgoing_pub s),
      outgoing_pub_notice := take n (outgoing_pub_notice s),
      outgoing_rel_notice := take n (outgoing_rel_notice s),
      outgoing_rel := bs_with_capacity B n, outgoing_rel_order := [],
      outgoing_rel_replay := bs_with_capacity B n, outgoing_rel_replay_order := [], last_pkid := 0\<rparr>)"
    if "0 < n" "n < length (outgoing_pub s)" for n
    using inv sets orders notices that
    by (intro state_invI) (simp_all add: inv_defs bs_simps split: option.splits)
  then show ?thesis
    using False len warm_tracking_len_bounds(1) [of "max_inflight s"]
    by (simp add: maybe_shrink_outgoing_tracking_capacity_def drained_iff [OF assms] Let_def not_le)
qed

end

section \<open>Elementary changes of ownership\<close>

text \<open>
  The changes the handlers are composed of. \<open>assign_id\<close> and \<open>free_id\<close> are the effect of reserving
  and releasing an identifier.
\<close>

definition assign_id :: "'b bitset_ops \<Rightarrow> u16 \<Rightarrow> 'b MqttState \<Rightarrow> 'b MqttState" where
  "assign_id B k s = s\<lparr>outbound_pkid_in_use := bs_with B (outbound_pkid_in_use s) (unat k),
     outbound_pkid_count := outbound_pkid_count s + 1\<rparr>"

definition free_id :: "'b bitset_ops \<Rightarrow> u16 \<Rightarrow> 'b MqttState \<Rightarrow> 'b MqttState" where
  "free_id B k s = s\<lparr>outbound_pkid_in_use := bs_without B (outbound_pkid_in_use s) (unat k),
     outbound_pkid_count := outbound_pkid_count s - 1\<rparr>"

definition store_publish :: "Publish \<Rightarrow> PublishNoticeTx option \<Rightarrow> 'b MqttState \<Rightarrow> 'b MqttState" where
  "store_publish p n s =
     inflight_update (\<lambda>_. inflight s + 1)
     (outgoing_pub_notice_update (\<lambda>xs. xs[unat (publish_pkid p) := n])
     (outgoing_pub_order_update (\<lambda>order. order @ [publish_pkid p])
     (outgoing_pub_update (\<lambda>xs. xs[unat (publish_pkid p) := Some p]) s)))"

definition drop_publish :: "u16 \<Rightarrow> 'b MqttState \<Rightarrow> 'b MqttState" where
  "drop_publish k s =
     inflight_update (\<lambda>_. inflight s - 1)
     (outgoing_pub_notice_update (\<lambda>xs. xs[unat k := None])
     (outgoing_pub_order_update (remove_ordered_pkid k)
     (outgoing_pub_update (\<lambda>xs. xs[unat k := None]) s)))"

definition start_release :: "'b bitset_ops \<Rightarrow> u16 \<Rightarrow> 'b MqttState \<Rightarrow> 'b MqttState" where
  "start_release B k s =
     outgoing_rel_notice_update (\<lambda>xs. xs[unat k := outgoing_pub_notice s ! unat k])
     (outgoing_rel_order_update (\<lambda>order. order @ [k])
     (outgoing_pub_order_update (remove_ordered_pkid k)
     (outgoing_rel_update (\<lambda>_. bs_with B (outgoing_rel s) (unat k))
     (outgoing_pub_notice_update (\<lambda>xs. xs[unat k := None])
     (outgoing_pub_update (\<lambda>xs. xs[unat k := None]) s)))))"

definition drop_release :: "'b bitset_ops \<Rightarrow> u16 \<Rightarrow> 'b MqttState \<Rightarrow> 'b MqttState" where
  "drop_release B k s =
     inflight_update (\<lambda>_. inflight s - 1)
     (outgoing_rel_notice_update (\<lambda>xs. xs[unat k := None])
     (outgoing_rel_order_update (remove_ordered_pkid k)
     (outgoing_rel_update (\<lambda>_. bs_without B (outgoing_rel s) (unat k)) s)))"

definition resume_release :: "'b bitset_ops \<Rightarrow> u16 \<Rightarrow> 'b MqttState \<Rightarrow> 'b MqttState" where
  "resume_release B k s =
     inflight_update (\<lambda>_. inflight s + 1)
     (outgoing_rel_order_update (\<lambda>order. order @ [k])
     (outgoing_rel_update (\<lambda>_. bs_with B (outgoing_rel s) (unat k))
     (outgoing_rel_replay_order_update (remove_ordered_pkid k)
     (outgoing_rel_replay_update (\<lambda>_. bs_without B (outgoing_rel_replay s) (unat k)) s))))"

context fixed_bitset begin

lemma card_used_bound:
  fixes k :: u16
  assumes "state_inv B Q s" "k \<noteq> 0" "unat k \<notin> bits B (outbound_pkid_in_use s)"
  shows "unat (outbound_pkid_count s) < 65535"
proof -
  note owners = state_invD(2) [OF assms(1), unfolded owners_inv_def]
  have "bs_len B (outbound_pkid_in_use s) = 65536"
    using state_invD(1) [OF assms(1)] by (simp add: sizes_inv_def)
  then have "bits B (outbound_pkid_in_use s) \<subseteq> {1..<65536}"
    using owners bits_bound [of _ "outbound_pkid_in_use s"] by (auto simp: Suc_le_eq intro: gr0I)
  then have "bits B (outbound_pkid_in_use s) \<subseteq> {1..<65536} - {unat k}"
    using assms(3) by auto
  then have "card (bits B (outbound_pkid_in_use s)) \<le> card ({1..<65536::nat} - {unat k})"
    by (intro card_mono) auto
  moreover have "unat k \<in> {1..<65536}"
    using assms(2) unat_u16_bound [of k] by (simp add: unat_gt_0 Suc_le_eq del: unat_u16_bound)
  ultimately show ?thesis
    using owners by (simp add: card_Diff_singleton)
qed

lemma card_used_pos:
  fixes k :: u16
  assumes "state_inv B Q s" "unat k \<in> bits B (outbound_pkid_in_use s)"
  shows "0 < unat (outbound_pkid_count s)"
proof -
  have "unat (outbound_pkid_count s) = card (bits B (outbound_pkid_in_use s))"
    using state_invD(2) [OF assms(1)] by (simp add: owners_inv_def)
  also have "\<dots> > 0"
    using assms(2) finite_bits [of "outbound_pkid_in_use s"] by (auto simp: card_gt_0_iff)
  finally show ?thesis .
qed

lemma clear_collision_inv:
  "state_inv B Q s \<Longrightarrow> state_inv B Q (s\<lparr>collision := None, collision_notice := None\<rparr>)"
  by (simp add: state_inv_def inv_defs)

lemma assign_store_inv:
  assumes "state_inv B Q s" "publish_pkid p \<noteq> 0" "unat (publish_pkid p) \<notin> bits B (outbound_pkid_in_use s)"
    and "unat (publish_pkid p) < length (outgoing_pub s)" "publish_qos p \<noteq> AtMostOnce"
    and "inflight s < max_inflight s"
  shows "state_inv B Q (store_publish p n (assign_id B (publish_pkid p) s))"
proof -
  define k where "k = publish_pkid p"
  note inv = state_invD [OF assms(1)]
  note excl = inv(2) [unfolded owners_inv_def, THEN conjunct1]
  note free = exclusive_owner(7) [OF excl, OF assms(3) [folded k_def]]
  have count: "unat (outbound_pkid_count s + 1) = unat (outbound_pkid_count s) + 1"
    using u16_checked_inc_bounded(2) [OF card_used_bound [OF assms(1-3)]] .
  note inflight = u16_inc_below [OF assms(6)]
  have k: "unat k < 65536" "0 < unat k" "unat k < length (outgoing_pub_notice s)"
    using assms(2,4) inv(1) by (simp_all add: k_def sizes_inv_def unat_gt_0)
  show ?thesis
    unfolding store_publish_def assign_id_def k_def [symmetric]
  proof (rule state_invI, goal_cases)
    case 1 then show ?case using inv(1) k by (simp add: sizes_inv_def bs_simps)
  next
    case 2 then show ?case using inv(2) k assms(3,4) count exclusive_moves(1) [OF excl, of "unat k"]
      by (simp add: owners_inv_def sizes_inv_def [of B s, symmetric] inv(1) [unfolded sizes_inv_def]
          bs_simps k_def [symmetric] finite_bits)
  next
    case 3 then show ?case using inv(3) free assms(4) inflight by (simp add: window_inv_def k_def [symmetric])
  next
    case 4 then show ?case using inv(4) free assms(4) order_inv_append
      by (simp add: orders_inv_def k_def [symmetric])
  next
    case 5 then show ?case using inv(5) free k assms(4,5) stored_ok_put [of "outgoing_pub s" p "unat k"]
      by (cases n) (auto simp: slots_inv_def k_def [symmetric])
  next
    case 6 then show ?case using inv(6) assms(4) by (auto simp: collision_inv_def k_def [symmetric] split: option.splits)
  next
    case 7 then show ?case using inv(7) by (simp add: pending_inv_def)
  next
    case 8 then show ?case using inv(8) by (simp add: incoming_inv_def)
  qed
qed

lemma replay_store_inv:
  assumes "state_inv B Q s" "unat (publish_pkid p) \<in> Q"
    and "unat (publish_pkid p) < length (outgoing_pub s)" "publish_qos p \<noteq> AtMostOnce"
    and "inflight s < max_inflight s"
  shows "state_inv B (Q - {unat (publish_pkid p)}) (store_publish p n s)"
proof -
  define k where "k = publish_pkid p"
  note inv = state_invD [OF assms(1)]
  note excl = inv(2) [unfolded owners_inv_def, THEN conjunct1]
  note free = exclusive_owner(6) [OF excl, OF assms(2) [folded k_def]]
  note inflight = u16_inc_below [OF assms(5)]
  have k: "unat k < length (outgoing_pub_notice s)"
    using assms(3) inv(1) by (simp add: k_def sizes_inv_def)
  show ?thesis
    unfolding store_publish_def k_def [symmetric]
  proof (rule state_invI, goal_cases)
    case 2 then show ?case using inv(2) assms(2,3) exclusive_moves(10) [OF excl, of "unat k"]
      by (simp add: owners_inv_def k_def [symmetric])
  next
    case 3 then show ?case using inv(3) free assms(3) inflight by (simp add: window_inv_def k_def [symmetric])
  next
    case 4 then show ?case using inv(4) free assms(3) order_inv_append by (simp add: orders_inv_def k_def [symmetric])
  next
    case 5 then show ?case using inv(5) free k assms(3,4) stored_ok_put [of "outgoing_pub s" p "unat k"]
      by (cases n) (auto simp: slots_inv_def k_def [symmetric])
  next
    case 6 then show ?case using inv(6) assms(3) by (auto simp: collision_inv_def k_def [symmetric] split: option.splits)
  qed (use inv in \<open>simp_all add: inv_defs\<close>)
qed

lemma occupied_range:
  assumes "state_inv B Q s" "unat k \<in> occupied (outgoing_pub s)"
  shows "unat k < length (outgoing_pub s)" "unat k < length (outgoing_pub_notice s)"
    "unat k < length (outgoing_rel_notice s)" "unat k < bs_len B (outgoing_rel s)"
    "unat k < bs_len B (outgoing_rel_replay s)" "unat k < bs_len B (outbound_pkid_in_use s)"
  using occupied_bound [OF assms(2)] state_invD(1) [OF assms(1)] by (simp_all add: sizes_inv_def)

lemma released_range:
  assumes "state_inv B Q s" "unat k \<in> bits B (outgoing_rel s) \<union> bits B (outgoing_rel_replay s)"
  shows "unat k < length (outgoing_pub s)" "unat k < length (outgoing_pub_notice s)"
    "unat k < length (outgoing_rel_notice s)" "unat k < bs_len B (outgoing_rel s)"
    "unat k < bs_len B (outgoing_rel_replay s)" "unat k < bs_len B (outbound_pkid_in_use s)"
proof -
  note sizes = state_invD(1) [OF assms(1), unfolded sizes_inv_def]
  have "unat k < length (outgoing_pub s)"
    using assms(2) bits_bound [of "unat k" "outgoing_rel s"] bits_bound [of "unat k" "outgoing_rel_replay s"] sizes
    by auto
  then show "unat k < length (outgoing_pub s)" "unat k < length (outgoing_pub_notice s)"
      "unat k < length (outgoing_rel_notice s)" "unat k < bs_len B (outgoing_rel s)"
      "unat k < bs_len B (outgoing_rel_replay s)" "unat k < bs_len B (outbound_pkid_in_use s)"
    using sizes by simp_all
qed

text \<open>The owner of an identifier other than the one of the held publish gives it up.\<close>

lemma drop_publish_inv:
  fixes k :: u16
  assumes "state_inv B Q s" "unat k \<in> occupied (outgoing_pub s)"
    and "\<And>p. collision s = Some p \<Longrightarrow> publish_pkid p \<noteq> k"
  shows "state_inv B Q (drop_publish k (free_id B k s))"
proof -
  note inv = state_invD [OF assms(1)]
  note excl = inv(2) [unfolded owners_inv_def, THEN conjunct1]
  note own = exclusive_owner(1) [OF excl, OF assms(2)]
  note range = occupied_range [OF assms(1,2)]
  have count: "unat (outbound_pkid_count s - 1) = unat (outbound_pkid_count s) - 1"
    using u16_checked_dec_pos(2) [OF card_used_pos [OF assms(1), of k]] own by simp
  have window: "unat (inflight s) = card (occupied (outgoing_pub s)) + card (bits B (outgoing_rel s))"
    using inv(3) by (simp add: window_inv_def)
  have pos: "0 < card (occupied (outgoing_pub s))"
    using assms(2) by (auto simp: card_gt_0_iff)
  then have dec: "unat (inflight s - 1) = unat (inflight s) - 1"
    using u16_checked_dec_pos(2) [of "inflight s"] window by simp
  then have le: "inflight s - 1 \<le> max_inflight s"
    using inv(3) unfolding window_inv_def word_le_nat_alt by linarith
  show ?thesis
    unfolding drop_publish_def free_id_def
  proof (rule state_invI, goal_cases)
    case 1 then show ?case using inv(1) range by (simp add: sizes_inv_def bs_simps)
  next
    case 2 then show ?case using inv(2) range own count exclusive_moves(4) [OF excl assms(2)]
      by (simp add: owners_inv_def bs_simps finite_bits card_Diff_singleton)
  next
    case 3 then show ?case using assms(2) dec pos le window
      by (simp add: window_inv_def card_Diff_singleton)
  next
    case 4 then show ?case using inv(4) order_inv_remove by (simp add: orders_inv_def)
  next
    case 5 then show ?case using inv(5) by (auto simp: slots_inv_def)
  next
    case 6 then show ?case using inv(6) assms(3)
      by (auto simp: collision_inv_def word_unat_eq_iff split: option.splits)
  qed (use inv in \<open>simp_all add: inv_defs\<close>)
qed

lemma drop_release_inv:
  fixes k :: u16
  assumes "state_inv B Q s" "unat k \<in> bits B (outgoing_rel s)"
    and "\<And>p. collision s = Some p \<Longrightarrow> publish_pkid p \<noteq> k"
  shows "state_inv B Q (drop_release B k (free_id B k s))"
proof -
  note inv = state_invD [OF assms(1)]
  note excl = inv(2) [unfolded owners_inv_def, THEN conjunct1]
  note own = exclusive_owner(2) [OF excl, OF assms(2)]
  have range: "unat k < bs_len B (outgoing_rel s)" "unat k < bs_len B (outbound_pkid_in_use s)"
    using released_range [of Q s k] assms(1,2) by simp_all
  have count: "unat (outbound_pkid_count s - 1) = unat (outbound_pkid_count s) - 1"
    using u16_checked_dec_pos(2) [OF card_used_pos [OF assms(1), of k]] own by simp
  have window: "unat (inflight s) = card (occupied (outgoing_pub s)) + card (bits B (outgoing_rel s))"
    using inv(3) by (simp add: window_inv_def)
  have pos: "0 < card (bits B (outgoing_rel s))"
    using assms(2) finite_bits by (auto simp: card_gt_0_iff)
  then have dec: "unat (inflight s - 1) = unat (inflight s) - 1"
    using u16_checked_dec_pos(2) [of "inflight s"] window by simp
  then have le: "inflight s - 1 \<le> max_inflight s"
    using inv(3) unfolding window_inv_def word_le_nat_alt by linarith
  show ?thesis
    unfolding drop_release_def free_id_def
  proof (rule state_invI, goal_cases)
    case 1 then show ?case using inv(1) range by (simp add: sizes_inv_def bs_simps)
  next
    case 2 then show ?case using inv(2) range own count exclusive_moves(5) [OF excl assms(2)]
      by (simp add: owners_inv_def bs_simps finite_bits card_Diff_singleton)
  next
    case 3 then show ?case using assms(2) dec pos range le window
      by (simp add: window_inv_def bs_simps card_Diff_singleton)
  next
    case 4 then show ?case using inv(4) order_inv_remove range by (simp add: orders_inv_def bs_simps)
  next
    case 5 then show ?case using inv(5) range by (auto simp: slots_inv_def bs_simps)
  next
    case 6 then show ?case using inv(6) assms(3) range
      by (auto simp: collision_inv_def bs_simps word_unat_eq_iff split: option.splits)
  qed (use inv in \<open>simp_all add: inv_defs\<close>)
qed

lemma start_release_inv:
  fixes k :: u16
  assumes "state_inv B Q s" "unat k \<in> occupied (outgoing_pub s)"
  shows "state_inv B Q (start_release B k s)"
proof -
  note inv = state_invD [OF assms(1)]
  note excl = inv(2) [unfolded owners_inv_def, THEN conjunct1]
  note own = exclusive_owner(1) [OF excl, OF assms(2)]
  note range = occupied_range [OF assms(1,2)]
  have pos: "0 < card (occupied (outgoing_pub s))"
    using assms(2) by (auto simp: card_gt_0_iff)
  show ?thesis
    unfolding start_release_def
  proof (rule state_invI, goal_cases)
    case 1 then show ?case using inv(1) range by (simp add: sizes_inv_def bs_simps)
  next
    case 2 then show ?case using inv(2) range exclusive_moves(8) [OF excl assms(2)]
      by (simp add: owners_inv_def bs_simps)
  next
    case 3 then show ?case using inv(3) assms(2) own pos range
      by (simp add: window_inv_def bs_simps card_Diff_singleton finite_bits)
  next
    case 4 then show ?case using inv(4) own range order_inv_remove order_inv_append
      by (simp add: orders_inv_def bs_simps)
  next
    case 5 then show ?case using inv(5) range
      by (cases "outgoing_pub_notice s ! unat k") (auto simp: slots_inv_def bs_simps)
  next
    case 6 then show ?case using inv(6) range by (auto simp: collision_inv_def bs_simps split: option.splits)
  qed (use inv in \<open>simp_all add: inv_defs\<close>)
qed

lemma resume_release_inv:
  fixes k :: u16
  assumes "state_inv B Q s" "unat k \<in> bits B (outgoing_rel_replay s)" "inflight s < max_inflight s"
  shows "state_inv B Q (resume_release B k s)"
proof -
  note inv = state_invD [OF assms(1)]
  note excl = inv(2) [unfolded owners_inv_def, THEN conjunct1]
  note own = exclusive_owner(3) [OF excl, OF assms(2)]
  have range: "unat k < bs_len B (outgoing_rel s)" "unat k < bs_len B (outgoing_rel_replay s)"
    using released_range [of Q s k] assms(1,2) by simp_all
  note inflight = u16_inc_below [OF assms(3)]
  show ?thesis
    unfolding resume_release_def
  proof (rule state_invI, goal_cases)
    case 1 then show ?case using inv(1) range by (simp add: sizes_inv_def bs_simps)
  next
    case 2 then show ?case using inv(2) range exclusive_moves(9) [OF excl assms(2)]
      by (simp add: owners_inv_def bs_simps)
  next
    case 3 then show ?case using inv(3) own range inflight by (simp add: window_inv_def bs_simps finite_bits)
  next
    case 4 then show ?case using inv(4) own range order_inv_remove order_inv_append
      by (simp add: orders_inv_def bs_simps)
  next
    case 5 then show ?case using inv(5) range by (auto simp: slots_inv_def bs_simps)
  next
    case 6 then show ?case using inv(6) range by (auto simp: collision_inv_def bs_simps split: option.splits)
  qed (use inv in \<open>simp_all add: inv_defs\<close>)
qed

lemma assign_subscribe_inv:
  fixes k :: u16
  assumes "state_inv B Q s" "k \<noteq> 0" "unat k \<notin> bits B (outbound_pkid_in_use s)"
    and "subscribe_pkid (psub_subscribe p) = k"
  shows "state_inv B Q ((assign_id B k s)\<lparr>pending_subscribe := btree_insert k p (pending_subscribe s)\<rparr>)"
proof -
  note inv = state_invD [OF assms(1)]
  note excl = inv(2) [unfolded owners_inv_def, THEN conjunct1]
  have count: "unat (outbound_pkid_count s + 1) = unat (outbound_pkid_count s) + 1"
    using u16_checked_inc_bounded(2) [OF card_used_bound [OF assms(1-3)]] .
  have k: "unat k < bs_len B (outbound_pkid_in_use s)" "0 < unat k"
    using assms(2) inv(1) by (simp_all add: sizes_inv_def unat_gt_0)
  show ?thesis
    unfolding assign_id_def
  proof (rule state_invI, goal_cases)
    case 1 then show ?case using inv(1) k by (simp add: sizes_inv_def bs_simps)
  next
    case 2 then show ?case using inv(2) k assms(3) count exclusive_moves(2) [OF excl, of "unat k"]
      by (simp add: owners_inv_def bs_simps finite_bits)
  next
    case 7 then show ?case using inv(7) assms(4) by (auto simp: pending_inv_def dest!: btree_insert_mem)
  qed (use inv in \<open>simp_all add: inv_defs cong: option.case_cong\<close>)
qed

lemma assign_unsubscribe_inv:
  fixes k :: u16
  assumes "state_inv B Q s" "k \<noteq> 0" "unat k \<notin> bits B (outbound_pkid_in_use s)"
    and "unsubscribe_pkid (punsub_unsubscribe p) = k"
  shows "state_inv B Q ((assign_id B k s)\<lparr>pending_unsubscribe := btree_insert k p (pending_unsubscribe s)\<rparr>)"
proof -
  note inv = state_invD [OF assms(1)]
  note excl = inv(2) [unfolded owners_inv_def, THEN conjunct1]
  have count: "unat (outbound_pkid_count s + 1) = unat (outbound_pkid_count s) + 1"
    using u16_checked_inc_bounded(2) [OF card_used_bound [OF assms(1-3)]] .
  have k: "unat k < bs_len B (outbound_pkid_in_use s)" "0 < unat k"
    using assms(2) inv(1) by (simp_all add: sizes_inv_def unat_gt_0)
  show ?thesis
    unfolding assign_id_def
  proof (rule state_invI, goal_cases)
    case 1 then show ?case using inv(1) k by (simp add: sizes_inv_def bs_simps)
  next
    case 2 then show ?case using inv(2) k assms(3) count exclusive_moves(3) [OF excl, of "unat k"]
      by (simp add: owners_inv_def bs_simps finite_bits)
  next
    case 7 then show ?case using inv(7) assms(4) by (auto simp: pending_inv_def dest!: btree_insert_mem)
  qed (use inv in \<open>simp_all add: inv_defs cong: option.case_cong\<close>)
qed

lemma replay_subscribe_inv:
  fixes k :: u16
  assumes "state_inv B Q s" "unat k \<in> Q" "subscribe_pkid (psub_subscribe p) = k"
  shows "state_inv B (Q - {unat k}) (s\<lparr>pending_subscribe := btree_insert k p (pending_subscribe s)\<rparr>)"
proof -
  note inv = state_invD [OF assms(1)]
  note excl = inv(2) [unfolded owners_inv_def, THEN conjunct1]
  show ?thesis
  proof (rule state_invI, goal_cases)
    case 2 then show ?case using inv(2) exclusive_moves(11) [OF excl assms(2)] by (simp add: owners_inv_def)
  next
    case 7 then show ?case using inv(7) assms(3) by (auto simp: pending_inv_def dest!: btree_insert_mem)
  qed (use inv in \<open>simp_all add: inv_defs cong: option.case_cong\<close>)
qed

lemma replay_unsubscribe_inv:
  fixes k :: u16
  assumes "state_inv B Q s" "unat k \<in> Q" "unsubscribe_pkid (punsub_unsubscribe p) = k"
  shows "state_inv B (Q - {unat k}) (s\<lparr>pending_unsubscribe := btree_insert k p (pending_unsubscribe s)\<rparr>)"
proof -
  note inv = state_invD [OF assms(1)]
  note excl = inv(2) [unfolded owners_inv_def, THEN conjunct1]
  show ?thesis
  proof (rule state_invI, goal_cases)
    case 2 then show ?case using inv(2) exclusive_moves(12) [OF excl assms(2)] by (simp add: owners_inv_def)
  next
    case 7 then show ?case using inv(7) assms(3) by (auto simp: pending_inv_def dest!: btree_insert_mem)
  qed (use inv in \<open>simp_all add: inv_defs cong: option.case_cong\<close>)
qed

lemma drop_subscribe_inv:
  fixes k :: u16
  assumes "state_inv B Q s" "k \<in> fst ` set (pending_subscribe s)"
  shows "state_inv B Q ((free_id B k s)\<lparr>pending_subscribe := btree_remove k (pending_subscribe s)\<rparr>)"
proof -
  note inv = state_invD [OF assms(1)]
  note excl = inv(2) [unfolded owners_inv_def, THEN conjunct1]
  have own: "unat k \<in> subscribe_ids s" "unat k \<in> bits B (outbound_pkid_in_use s)"
    using exclusive_owner(4) [OF excl, of "unat k"] assms(2) by simp_all
  have count: "unat (outbound_pkid_count s - 1) = unat (outbound_pkid_count s) - 1"
    using u16_checked_dec_pos(2) [OF card_used_pos [OF assms(1) own(2)]] .
  have k: "unat k < bs_len B (outbound_pkid_in_use s)"
    using own(2) by (rule bits_bound)
  show ?thesis
    unfolding free_id_def
  proof (rule state_invI, goal_cases)
    case 1 then show ?case using inv(1) k by (simp add: sizes_inv_def bs_simps)
  next
    case 2 then show ?case using inv(2) k own count exclusive_moves(6) [OF excl own(1)]
      by (simp add: owners_inv_def bs_simps finite_bits card_Diff_singleton)
  next
    case 7 then show ?case using inv(7) by (auto simp: pending_inv_def btree_remove_mem)
  qed (use inv in \<open>simp_all add: inv_defs cong: option.case_cong\<close>)
qed

lemma drop_unsubscribe_inv:
  fixes k :: u16
  assumes "state_inv B Q s" "k \<in> fst ` set (pending_unsubscribe s)"
  shows "state_inv B Q ((free_id B k s)\<lparr>pending_unsubscribe := btree_remove k (pending_unsubscribe s)\<rparr>)"
proof -
  note inv = state_invD [OF assms(1)]
  note excl = inv(2) [unfolded owners_inv_def, THEN conjunct1]
  have own: "unat k \<in> unsubscribe_ids s" "unat k \<in> bits B (outbound_pkid_in_use s)"
    using exclusive_owner(5) [OF excl, of "unat k"] assms(2) by simp_all
  have count: "unat (outbound_pkid_count s - 1) = unat (outbound_pkid_count s) - 1"
    using u16_checked_dec_pos(2) [OF card_used_pos [OF assms(1) own(2)]] .
  have k: "unat k < bs_len B (outbound_pkid_in_use s)"
    using own(2) by (rule bits_bound)
  show ?thesis
    unfolding free_id_def
  proof (rule state_invI, goal_cases)
    case 1 then show ?case using inv(1) k by (simp add: sizes_inv_def bs_simps)
  next
    case 2 then show ?case using inv(2) k own count exclusive_moves(7) [OF excl own(1)]
      by (simp add: owners_inv_def bs_simps finite_bits card_Diff_singleton)
  next
    case 7 then show ?case using inv(7) by (auto simp: pending_inv_def btree_remove_mem)
  qed (use inv in \<open>simp_all add: inv_defs cong: option.case_cong\<close>)
qed

end

end
