(* ===== verification/V4_State_Run.thy ===== *)
theory V4_State_Run
  imports V4_State_Inv
begin

text \<open>
  What each handler of the MQTT 3.1.1 client state does in a state that satisfies the invariant:
  the outcome and the new state are given by the elementary changes of \<open>V4_State_Inv\<close>. The
  preservation of the invariant and the absence of panics follow.
\<close>

section \<open>Reserving and releasing\<close>

lemma occupied_iff: "i < length xs \<Longrightarrow> i \<in> occupied xs \<longleftrightarrow> xs ! i \<noteq> None"
  by (simp add: occupied_def)

lemma update_None_id: "xs ! i = None \<Longrightarrow> xs[i := None] = xs"
  by (metis list_update_id)

lemma outgoing_pub_update_id: "f (outgoing_pub s) = outgoing_pub s \<Longrightarrow> outgoing_pub_update f s = s"
  by (cases s) simp

lemma pending_subscribe_update_id: "f (pending_subscribe s) = pending_subscribe s \<Longrightarrow> pending_subscribe_update f s = s"
  by (cases s) simp

lemma pending_unsubscribe_update_id:
  "f (pending_unsubscribe s) = pending_unsubscribe s \<Longrightarrow> pending_unsubscribe_update f s = s"
  by (cases s) simp

lemma u16_dec_below:
  fixes a b :: u16
  assumes "0 < unat a" "a \<le> b"
  shows "a - 1 < b"
  using u16_checked_dec_pos(2) [OF assms(1)] assms unfolding word_less_nat_alt word_le_nat_alt by linarith

lemma u16_pred_bound: "0 < unat (n :: u16) \<Longrightarrow> unat (n - 1) < 65535"
  using u16_checked_dec_pos(2) [of n] unat_u16_bounds(2) [of n] by linarith

context fixed_bitset begin

lemma run_release:
  assumes "unat k < bs_len B (outbound_pkid_in_use s)"
  shows "release_outbound_pkid B k s
    = (if k = 0 \<or> unat k \<notin> bits B (outbound_pkid_in_use s) then (Ok (), s)
       else if outbound_pkid_count s = 0
       then (Panic, s\<lparr>outbound_pkid_in_use := bs_without B (outbound_pkid_in_use s) (unat k)\<rparr>)
       else (Ok (), free_id B k s))"
  using assms by (simp add: release_outbound_pkid_def packet_identifier_in_use_def exec_rules bs_simps
      u16_checked_dec_def free_id_def)

lemma run_reserve:
  assumes "unat k < bs_len B (outbound_pkid_in_use s)"
  shows "reserve_outbound_pkid B k s
    = (if k = 0 \<or> unat k \<in> bits B (outbound_pkid_in_use s) then (Err InvalidState, s)
       else if outbound_pkid_count s = 65535
       then (Err InvalidState, s\<lparr>outbound_pkid_in_use := bs_with B (outbound_pkid_in_use s) (unat k)\<rparr>)
       else (Ok (), assign_id B k s))"
  using assms by (simp add: reserve_outbound_pkid_def packet_identifier_in_use_def exec_rules bs_simps
      u16_checked_inc_def assign_id_def)

lemma exec_release:
  assumes "unat k \<in> bits B (outbound_pkid_in_use s)" "k \<noteq> 0" "0 < unat (outbound_pkid_count s)"
  shows "andThen (release_outbound_pkid B k) f s = f () (free_id B k s)"
  using assms bits_bound [OF assms(1)] by (intro andThen_Ok) (auto simp: run_release)

lemma exec_reserve:
  assumes "unat k \<notin> bits B (outbound_pkid_in_use s)" "k \<noteq> 0" "unat (outbound_pkid_count s) < 65535"
    "bs_len B (outbound_pkid_in_use s) = 65536"
  shows "andThen (reserve_outbound_pkid B k) f s = f () (assign_id B k s)"
    and "andThen (expect_ok (reserve_outbound_pkid B k)) g s = g () (assign_id B k s)"
proof -
  have "reserve_outbound_pkid B k s = (Ok (), assign_id B k s)"
    using assms by (auto simp: run_reserve)
  then show "andThen (reserve_outbound_pkid B k) f s = f () (assign_id B k s)"
      "andThen (expect_ok (reserve_outbound_pkid B k)) g s = g () (assign_id B k s)"
    by (simp_all add: andThen_def expect_ok_def)
qed

lemma exec_reserve_taken:
  "unat k \<in> bits B (outbound_pkid_in_use s) \<Longrightarrow> andThen (reserve_outbound_pkid B k) f s = (Err InvalidState, s)"
  using bits_bound by (simp add: andThen_def run_reserve)

lemma owner_facts:
  fixes k :: u16
  assumes "state_inv B Q s" "unat k \<in> bits B (outbound_pkid_in_use s)"
  shows "k \<noteq> 0" "0 < unat (outbound_pkid_count s)"
  using assms card_used_pos [OF assms] state_invD(2) [OF assms(1)] by (auto simp: owners_inv_def)

section \<open>Acknowledgements of publishes\<close>

lemma run_pubrec:
  assumes "state_inv B Q s"
  shows "handle_incoming_pubrec B pubrec s =
    (let k = pubrec_pkid pubrec in
     if unat k \<in> occupied (outgoing_pub s)
     then (Ok (effects_outgoing (Some (PktPubRel \<lparr>pubrel_pkid = k\<rparr>))),
           (start_release B k s)\<lparr>events := events s @ [EvOutgoing (OutPubRel k)]\<rparr>)
     else (Err (Unsolicited k), s))"
proof (cases "unat (pubrec_pkid pubrec) \<in> occupied (outgoing_pub s)")
  case True
  note range = occupied_range [OF assms True]
  show ?thesis
    using True range occupied_nth [OF True]
    by (simp add: handle_incoming_pubrec_def exec_rules bs_simps start_release_def)
next
  case False
  then show ?thesis
    by (cases "unat (pubrec_pkid pubrec) < length (outgoing_pub s)")
      (simp_all add: handle_incoming_pubrec_def exec_rules occupied_iff outgoing_pub_update_id update_None_id)
qed

end

text \<open>The held publish whose identifier has just become free, and the state after it is sent.\<close>

definition collision_for :: "u16 \<Rightarrow> 'b MqttState \<Rightarrow> Publish option" where
  "collision_for k s = (case collision s of Some c \<Rightarrow> if publish_pkid c = k then Some c else None | None \<Rightarrow> None)"

definition resend_collision :: "'b bitset_ops \<Rightarrow> Publish \<Rightarrow> 'b MqttState \<Rightarrow> 'b MqttState" where
  "resend_collision B c s =
     (store_publish c (collision_notice s) (assign_id B (publish_pkid c)
       (s\<lparr>collision := None, collision_notice := None\<rparr>)))
     \<lparr>events := events s @ [EvOutgoing (OutPublish (publish_pkid c))], ping := reset_collision_count (ping s)\<rparr>"

lemma collision_for_Some: "collision_for k s = Some c \<longleftrightarrow> collision s = Some c \<and> publish_pkid c = k"
  by (auto simp: collision_for_def split: option.splits if_splits)

lemma collision_for_None: "collision_for k s = None \<longleftrightarrow> (\<forall>c. collision s = Some c \<longrightarrow> publish_pkid c \<noteq> k)"
  by (auto simp: collision_for_def split: option.splits if_splits)

context fixed_bitset begin

lemma sizes_inv_changes:
  assumes "sizes_inv B s"
  shows "unat k < bs_len B (outbound_pkid_in_use s) \<Longrightarrow> sizes_inv B (free_id B k s)"
    and "unat k < bs_len B (outbound_pkid_in_use s) \<Longrightarrow> sizes_inv B (assign_id B k s)"
    and "sizes_inv B (drop_publish k s)"
    and "unat k < bs_len B (outgoing_rel s) \<Longrightarrow> sizes_inv B (drop_release B k s)"
  using assms by (simp_all add: sizes_inv_def free_id_def assign_id_def drop_publish_def drop_release_def bs_simps)

lemma run_replay_collision_None:
  "collision_for k s = None \<Longrightarrow> replay_collision_publish B k s = (Ok None, s)"
  by (simp add: replay_collision_publish_def check_collision_def exec_rules collision_for_def split: option.splits if_splits)

lemma run_replay_collision_Some:
  assumes "collision_for k s = Some c" "sizes_inv B s" "unat k \<notin> bits B (outbound_pkid_in_use s)" "k \<noteq> 0"
    "unat (outbound_pkid_count s) < 65535" "unat k < length (outgoing_pub s)" "inflight s \<noteq> 65535"
  shows "replay_collision_publish B k s = (Ok (Some (PktPublish c)), resend_collision B c s)"
proof -
  have c: "collision s = Some c" "publish_pkid c = k"
    using assms(1) by (simp_all add: collision_for_Some)
  let ?s = "s\<lparr>collision := None, collision_notice := None\<rparr>"
  have sizes: "sizes_inv B ?s"
    using assms(2) by (simp add: sizes_inv_def)
  have "unat k + 1 \<le> 65536"
    using unat_u16_bounds(2) [of k] by linarith
  then have ensure: "ensure_outgoing_tracking_capacity B (Suc (unat k)) ?s = ?s"
    using ensure_capacity_fields [OF sizes, of "unat k + 1"] assms(6) by simp
  show ?thesis
    using assms sizes_inv_def [of B s] c ensure
    by (simp add: replay_collision_publish_def check_collision_def exec_rules exec_reserve incr_inflight_def
        u16_checked_inc_def resend_collision_def store_publish_def assign_id_def)
qed

lemma resend_after:
  assumes "state_inv B Q (f (s\<lparr>collision := None, collision_notice := None\<rparr>))"
    and "f (s\<lparr>collision := None, collision_notice := None\<rparr>) = (f s)\<lparr>collision := None, collision_notice := None\<rparr>"
    and "publish_pkid c \<noteq> 0" "unat (publish_pkid c) \<notin> bits B (outbound_pkid_in_use (f s))"
    and "unat (publish_pkid c) < length (outgoing_pub (f s))" "publish_qos c \<noteq> AtMostOnce"
    and "inflight (f s) < max_inflight (f s)"
  shows "state_inv B Q (resend_collision B c (f s))"
  using assign_store_inv [OF assms(1), of c "collision_notice (f s)"] assms
  unfolding resend_collision_def by (simp add: state_inv_frame)

text \<open>The state after a publish is completed by PUBACK, and after a release is completed by PUBCOMP.\<close>

lemma freed_publish_facts:
  fixes k :: u16
  assumes "state_inv B Q s" "unat k \<in> occupied (outgoing_pub s)"
  defines "t \<equiv> drop_publish k (free_id B k s)"
  shows "k \<noteq> 0" "unat k \<notin> bits B (outbound_pkid_in_use t)" "unat (outbound_pkid_count t) < 65535"
    "inflight t < max_inflight t" "unat k < length (outgoing_pub t)" "sizes_inv B t"
proof -
  note inv = state_invD [OF assms(1)]
  note excl = inv(2) [unfolded owners_inv_def, THEN conjunct1]
  note own = exclusive_owner(1) [OF excl, OF assms(2)]
  note range = occupied_range [OF assms(1,2)]
  note pos = owner_facts [OF assms(1), of k]
  show k: "k \<noteq> 0"
    using pos own by simp
  show "unat k \<notin> bits B (outbound_pkid_in_use t)" "unat k < length (outgoing_pub t)" "sizes_inv B t"
    using range inv(1) by (simp_all add: t_def sizes_inv_changes) (simp_all add: drop_publish_def free_id_def bs_simps)
  show "unat (outbound_pkid_count t) < 65535"
    using pos own u16_pred_bound [of "outbound_pkid_count s"]
    by (simp add: t_def drop_publish_def free_id_def)
  have "0 < unat (inflight s)"
    using inv(3) assms(2) by (auto simp: window_inv_def card_gt_0_iff)
  then show "inflight t < max_inflight t"
    using inv(3) u16_dec_below [of "inflight s" "max_inflight s"]
    by (simp add: t_def drop_publish_def free_id_def window_inv_def)
qed

lemma freed_release_facts:
  fixes k :: u16
  assumes "state_inv B Q s" "unat k \<in> bits B (outgoing_rel s)"
  defines "t \<equiv> drop_release B k (free_id B k s)"
  shows "k \<noteq> 0" "unat k \<notin> bits B (outbound_pkid_in_use t)" "unat (outbound_pkid_count t) < 65535"
    "inflight t < max_inflight t" "unat k < length (outgoing_pub t)" "sizes_inv B t"
proof -
  note inv = state_invD [OF assms(1)]
  note excl = inv(2) [unfolded owners_inv_def, THEN conjunct1]
  note own = exclusive_owner(2) [OF excl, OF assms(2)]
  have range: "unat k < bs_len B (outgoing_rel s)" "unat k < bs_len B (outbound_pkid_in_use s)"
      "unat k < length (outgoing_pub s)"
    using released_range [OF assms(1), of k] assms(2) by simp_all
  note pos = owner_facts [OF assms(1), of k]
  show k: "k \<noteq> 0"
    using pos own by simp
  show "unat k \<notin> bits B (outbound_pkid_in_use t)" "unat k < length (outgoing_pub t)" "sizes_inv B t"
    using range inv(1)
    by (simp_all add: t_def sizes_inv_changes free_id_def drop_release_def bs_simps)
       (simp add: sizes_inv_def bs_simps)
  show "unat (outbound_pkid_count t) < 65535"
    using pos own u16_pred_bound [of "outbound_pkid_count s"]
    by (simp add: t_def drop_release_def free_id_def)
  have "0 < unat (inflight s)"
    using inv(3) assms(2) finite_bits by (auto simp: window_inv_def card_gt_0_iff)
  then show "inflight t < max_inflight t"
    using inv(3) u16_dec_below [of "inflight s" "max_inflight s"]
    by (simp add: t_def drop_release_def free_id_def window_inv_def)
qed

end

text \<open>What completes a publish: the held publish takes over the identifier, or the vectors may shrink.\<close>

definition after_completion :: "'b bitset_ops \<Rightarrow> u16 \<Rightarrow> 'b MqttState \<Rightarrow> Packet option \<times> 'b MqttState" where
  "after_completion B k t =
     (case collision_for k t of
        Some c \<Rightarrow> (Some (PktPublish c), resend_collision B c t)
      | None \<Rightarrow> (None, maybe_shrink_outgoing_tracking_capacity B t))"

lemma collision_for_changes [simp]:
  "collision_for k (drop_publish k' s) = collision_for k s"
  "collision_for k (drop_release B k' s) = collision_for k s"
  "collision_for k (free_id B k' s) = collision_for k s"
  by (simp_all add: collision_for_def drop_publish_def drop_release_def free_id_def)

lemma changes_clear_collision:
  "drop_publish k (free_id B k (s\<lparr>collision := None, collision_notice := None\<rparr>))
    = (drop_publish k (free_id B k s))\<lparr>collision := None, collision_notice := None\<rparr>"
  "drop_release B k (free_id B k (s\<lparr>collision := None, collision_notice := None\<rparr>))
    = (drop_release B k (free_id B k s))\<lparr>collision := None, collision_notice := None\<rparr>"
  by (simp_all add: drop_publish_def drop_release_def free_id_def)

text \<open>The same changes in the order in which the handlers make them.\<close>

lemma drop_publish_order:
  "drop_publish k (free_id B k s) =
     inflight_update (\<lambda>_. inflight s - 1)
     (outgoing_pub_notice_update (\<lambda>xs. xs[unat k := None])
     (outgoing_pub_order_update (remove_ordered_pkid k)
     (free_id B k (outgoing_pub_update (\<lambda>xs. xs[unat k := None]) s))))"
  by (simp add: drop_publish_def free_id_def)

lemma drop_release_order:
  "drop_release B k (free_id B k s) =
     inflight_update (\<lambda>_. inflight s - 1)
     (outgoing_rel_notice_update (\<lambda>xs. xs[unat k := None])
     (free_id B k
     (outgoing_rel_order_update (remove_ordered_pkid k)
     (outgoing_rel_update (\<lambda>_. bs_without B (outgoing_rel s) (unat k)) s))))"
  by (simp add: drop_release_def free_id_def)

context fixed_bitset begin

lemma run_completion:
  assumes "sizes_inv B t" "unat k \<notin> bits B (outbound_pkid_in_use t)" "k \<noteq> 0"
    "unat (outbound_pkid_count t) < 65535" "unat k < length (outgoing_pub t)" "inflight t < max_inflight t"
  shows "andThen (replay_collision_publish B k) (\<lambda>packet.
      andThen (if packet = None then modify (maybe_shrink_outgoing_tracking_capacity B) else ret ()) (\<lambda>_.
      ret (g packet))) t = (case after_completion B k t of (packet, u) \<Rightarrow> (Ok (g packet), u))"
proof -
  have "inflight t \<noteq> 65535"
    using u16_inc_below(3) [OF assms(6)] by (auto simp: u16_checked_inc_def)
  then show ?thesis
    using assms by (cases "collision_for k t")
      (simp_all add: run_replay_collision_None run_replay_collision_Some after_completion_def andThen_def run_simps)
qed

lemma run_puback:
  assumes "state_inv B Q s"
  shows "handle_incoming_puback B puback s =
    (let k = puback_pkid puback in
     if unat k \<in> occupied (outgoing_pub s)
     then case after_completion B k (drop_publish k (free_id B k s)) of (packet, u) \<Rightarrow>
       (Ok (with_publish_notice (outgoing_pub_notice s ! unat k) (Qos1 puback) (effects_outgoing packet)), u)
     else (Err (Unsolicited k), s))"
proof (cases "unat (puback_pkid puback) \<in> occupied (outgoing_pub s)")
  case True
  define k where "k = puback_pkid puback"
  note range = occupied_range [OF assms True, folded k_def]
  note excl = state_invD(2) [OF assms, unfolded owners_inv_def, THEN conjunct1]
  note own = exclusive_owner(1) [OF excl, OF True, folded k_def]
  note pos = owner_facts [OF assms, of k]
  note facts = freed_publish_facts [OF assms True, folded k_def]
  have "u16_checked_dec (inflight s) = Some (inflight s - 1)"
    using u16_checked_dec_pos(1) [of "inflight s"] state_invD(3) [OF assms] True
    by (auto simp: window_inv_def card_gt_0_iff)
  then have "handle_incoming_puback B puback s =
      andThen (replay_collision_publish B k) (\<lambda>packet.
      andThen (if packet = None then modify (maybe_shrink_outgoing_tracking_capacity B) else ret ()) (\<lambda>_.
      ret (with_publish_notice (outgoing_pub_notice s ! unat k) (Qos1 puback) (effects_outgoing packet))))
      (drop_publish k (free_id B k s))"
    using True range own pos occupied_nth [OF True]
    by (simp add: handle_incoming_puback_def exec_rules exec_release decr_inflight_def k_def [symmetric]
        drop_publish_order del: exec_if) (simp add: free_id_def)
  then show ?thesis
    using True facts by (simp add: run_completion k_def [symmetric])
next
  case False
  then show ?thesis
    by (cases "unat (puback_pkid puback) < length (outgoing_pub s)")
      (simp_all add: handle_incoming_puback_def exec_rules occupied_iff outgoing_pub_update_id update_None_id)
qed

lemma run_pubcomp:
  assumes "state_inv B Q s"
  shows "handle_incoming_pubcomp B pubcomp s =
    (let k = pubcomp_pkid pubcomp in
     if unat k \<in> bits B (outgoing_rel s)
     then case after_completion B k (drop_release B k (free_id B k s)) of (packet, u) \<Rightarrow>
       (Ok (with_publish_notice (outgoing_rel_notice s ! unat k) (Qos2Completed pubcomp) (effects_outgoing packet)), u)
     else (Err (Unsolicited k), s))"
proof (cases "unat (pubcomp_pkid pubcomp) \<in> bits B (outgoing_rel s)")
  case True
  define k where "k = pubcomp_pkid pubcomp"
  have range: "unat k < bs_len B (outgoing_rel s)" "unat k < length (outgoing_rel_notice s)"
    using released_range [OF assms, of k] True by (simp_all add: k_def)
  note excl = state_invD(2) [OF assms, unfolded owners_inv_def, THEN conjunct1]
  note own = exclusive_owner(2) [OF excl, OF True, folded k_def]
  note pos = owner_facts [OF assms, of k]
  note facts = freed_release_facts [OF assms True, folded k_def]
  have "u16_checked_dec (inflight s) = Some (inflight s - 1)"
    using u16_checked_dec_pos(1) [of "inflight s"] state_invD(3) [OF assms] True finite_bits
    by (auto simp: window_inv_def card_gt_0_iff)
  then have "handle_incoming_pubcomp B pubcomp s =
      andThen (replay_collision_publish B k) (\<lambda>packet.
      andThen (if packet = None then modify (maybe_shrink_outgoing_tracking_capacity B) else ret ()) (\<lambda>_.
      ret (with_publish_notice (outgoing_rel_notice s ! unat k) (Qos2Completed pubcomp) (effects_outgoing packet))))
      (drop_release B k (free_id B k s))"
    using True range own pos
    by (simp add: handle_incoming_pubcomp_def exec_rules exec_release bs_simps decr_inflight_def k_def [symmetric]
        drop_release_order del: exec_if) (simp add: free_id_def)
  then show ?thesis
    using True facts by (simp add: run_completion k_def [symmetric])
next
  case False
  then show ?thesis
    by (simp add: handle_incoming_pubcomp_def exec_rules bits_contains)
qed

lemma after_publish_inv:
  assumes "state_inv B Q s" "unat k \<in> occupied (outgoing_pub s)"
  shows "state_inv B Q (snd (after_completion B k (drop_publish k (free_id B k s))))"
proof (cases "collision_for k s")
  case None
  then show ?thesis
    using drop_publish_inv [OF assms] None [unfolded collision_for_None]
    by (simp add: after_completion_def shrink_inv)
next
  case (Some c)
  then have c: "collision s = Some c" "publish_pkid c = k"
    by (simp_all add: collision_for_Some)
  note facts = freed_publish_facts [OF assms]
  have "state_inv B Q (resend_collision B c (drop_publish k (free_id B k s)))"
  proof (rule resend_after [where f = "\<lambda>s. drop_publish k (free_id B k s)", OF _ changes_clear_collision(1)])
    show "state_inv B Q (drop_publish k (free_id B k (s\<lparr>collision := None, collision_notice := None\<rparr>)))"
      using drop_publish_inv [OF clear_collision_inv [OF assms(1)]] assms(2) by simp
  qed (use facts c state_invD(6) [OF assms(1)] in \<open>simp_all add: collision_inv_def\<close>)
  then show ?thesis
    using Some by (simp add: after_completion_def)
qed

lemma after_release_inv:
  assumes "state_inv B Q s" "unat k \<in> bits B (outgoing_rel s)"
  shows "state_inv B Q (snd (after_completion B k (drop_release B k (free_id B k s))))"
proof (cases "collision_for k s")
  case None
  then show ?thesis
    using drop_release_inv [OF assms] None [unfolded collision_for_None]
    by (simp add: after_completion_def shrink_inv)
next
  case (Some c)
  then have c: "collision s = Some c" "publish_pkid c = k"
    by (simp_all add: collision_for_Some)
  note facts = freed_release_facts [OF assms]
  have "state_inv B Q (resend_collision B c (drop_release B k (free_id B k s)))"
  proof (rule resend_after [where f = "\<lambda>s. drop_release B k (free_id B k s)", OF _ changes_clear_collision(2)])
    show "state_inv B Q (drop_release B k (free_id B k (s\<lparr>collision := None, collision_notice := None\<rparr>)))"
      using drop_release_inv [OF clear_collision_inv [OF assms(1)]] assms(2) by simp
  qed (use facts c state_invD(6) [OF assms(1)] in \<open>simp_all add: collision_inv_def\<close>)
  then show ?thesis
    using Some by (simp add: after_completion_def)
qed

end

section \<open>Preservation by the handlers of incoming packets\<close>

text \<open>\<open>keeps_inv B Q Q' m s\<close>: \<open>m\<close> does not panic, leaves the owners \<open>Q'\<close> outside the state when it
  succeeds and \<open>Q\<close> when it fails.\<close>

definition keeps_inv :: "'b bitset_ops \<Rightarrow> nat set \<Rightarrow> nat set \<Rightarrow> ('b MqttState, 'e, 'a) sm \<Rightarrow> 'b MqttState \<Rightarrow> bool" where
  "keeps_inv B Q Q' m s \<longleftrightarrow> wp m (\<lambda>_. state_inv B Q') (\<lambda>_. state_inv B Q) s"

lemma keeps_inv_wp:
  "\<lbrakk>keeps_inv B Q Q' m s; \<And>x s'. state_inv B Q' s' \<Longrightarrow> P x s'; \<And>e s'. state_inv B Q s' \<Longrightarrow> E e s'\<rbrakk>
    \<Longrightarrow> wp m P E s"
  unfolding keeps_inv_def by (erule wp_mono)

context fixed_bitset begin

lemma keeps_inv_pubrec: "state_inv B Q s \<Longrightarrow> keeps_inv B Q Q (handle_incoming_pubrec B pubrec) s"
  by (simp add: keeps_inv_def wp_def run_pubrec Let_def start_release_inv state_inv_frame)

lemma keeps_inv_puback: "state_inv B Q s \<Longrightarrow> keeps_inv B Q Q (handle_incoming_puback B puback) s"
  using after_publish_inv [of Q s "puback_pkid puback"]
  by (auto simp: keeps_inv_def wp_def run_puback Let_def split: prod.splits)

lemma keeps_inv_pubcomp: "state_inv B Q s \<Longrightarrow> keeps_inv B Q Q (handle_incoming_pubcomp B pubcomp) s"
  using after_release_inv [of Q s "pubcomp_pkid pubcomp"]
  by (auto simp: keeps_inv_def wp_def run_pubcomp Let_def split: prod.splits)

lemma subscribe_owner:
  assumes "state_inv B Q s" "map_of (pending_subscribe s) k = Some p"
  shows "k \<in> fst ` set (pending_subscribe s)" "unat k \<in> bits B (outbound_pkid_in_use s)"
proof -
  show k: "k \<in> fst ` set (pending_subscribe s)"
    using assms(2) by (metis map_of_eq_None_iff option.distinct(1))
  note excl = state_invD(2) [OF assms(1), unfolded owners_inv_def, THEN conjunct1]
  show "unat k \<in> bits B (outbound_pkid_in_use s)"
    using exclusive_owner(4) [OF excl, of "unat k"] k by simp
qed

lemma unsubscribe_owner:
  assumes "state_inv B Q s" "map_of (pending_unsubscribe s) k = Some p"
  shows "k \<in> fst ` set (pending_unsubscribe s)" "unat k \<in> bits B (outbound_pkid_in_use s)"
proof -
  show k: "k \<in> fst ` set (pending_unsubscribe s)"
    using assms(2) by (metis map_of_eq_None_iff option.distinct(1))
  note excl = state_invD(2) [OF assms(1), unfolded owners_inv_def, THEN conjunct1]
  show "unat k \<in> bits B (outbound_pkid_in_use s)"
    using exclusive_owner(5) [OF excl, of "unat k"] k by simp
qed

lemma run_suback:
  assumes "state_inv B Q s"
  shows "handle_incoming_suback B suback s =
    (let k = suback_pkid suback in
     case map_of (pending_subscribe s) k of
       None \<Rightarrow> (Err (Unsolicited k), s)
     | Some pending \<Rightarrow>
         let expected = length (subscribe_filters (psub_subscribe pending)); actual = length (return_codes suback) in
         if expected \<noteq> actual
         then (Err (ProtocolViolation (SubAckReturnCodeCountMismatch k expected actual)), s)
         else (Ok (case psub_notice pending of
                     Some notice \<Rightarrow> with_notice (effects_outgoing None) (DeferredSubscribe notice suback)
                   | None \<Rightarrow> effects_outgoing None),
               (free_id B k s)\<lparr>pending_subscribe := btree_remove k (pending_subscribe s)\<rparr>))"
proof (cases "map_of (pending_subscribe s) (suback_pkid suback)")
  case (Some p)
  then show ?thesis
    using subscribe_owner [OF assms Some] owner_facts [OF assms, of "suback_pkid suback"]
    by (simp add: handle_incoming_suback_def exec_rules exec_release) (simp add: free_id_def)
qed (simp add: handle_incoming_suback_def exec_rules)

lemma run_unsuback:
  assumes "state_inv B Q s"
  shows "handle_incoming_unsuback B unsuback s =
    (let k = unsuback_pkid unsuback in
     case map_of (pending_unsubscribe s) k of
       None \<Rightarrow> (Err (Unsolicited k), s)
     | Some pending \<Rightarrow>
         (Ok (case punsub_notice pending of
                Some notice \<Rightarrow> with_notice (effects_outgoing None) (DeferredUnsubscribe notice unsuback)
              | None \<Rightarrow> effects_outgoing None),
          (free_id B k s)\<lparr>pending_unsubscribe := btree_remove k (pending_unsubscribe s)\<rparr>))"
proof (cases "map_of (pending_unsubscribe s) (unsuback_pkid unsuback)")
  case None
  then have "btree_remove (unsuback_pkid unsuback) (pending_unsubscribe s) = pending_unsubscribe s"
    by (force simp: btree_remove_def map_of_eq_None_iff intro!: filter_True)
  then show ?thesis
    using None by (simp add: handle_incoming_unsuback_def exec_rules pending_unsubscribe_update_id)
next
  case (Some p)
  then show ?thesis
    using unsubscribe_owner [OF assms Some] owner_facts [OF assms, of "unsuback_pkid unsuback"]
    by (simp add: handle_incoming_unsuback_def exec_rules exec_release) (simp add: free_id_def)
qed

lemma keeps_inv_suback: "state_inv B Q s \<Longrightarrow> keeps_inv B Q Q (handle_incoming_suback B suback) s"
  using drop_subscribe_inv [of Q s "suback_pkid suback"] subscribe_owner(1) [of Q s "suback_pkid suback"]
  by (auto simp: keeps_inv_def wp_def run_suback Let_def split: option.splits)

lemma keeps_inv_unsuback: "state_inv B Q s \<Longrightarrow> keeps_inv B Q Q (handle_incoming_unsuback B unsuback) s"
  using drop_unsubscribe_inv [of Q s "unsuback_pkid unsuback"] unsubscribe_owner(1) [of Q s "unsuback_pkid unsuback"]
  by (auto simp: keeps_inv_def wp_def run_unsuback Let_def split: option.splits)

lemma incoming_changes_inv:
  assumes "state_inv B Q s"
  shows "bs_len B b = 65536 \<Longrightarrow> state_inv B Q (s\<lparr>incoming_puback := b\<rparr>)"
    and "\<lbrakk>bs_len B b = 65536; bits B (incoming_pubrec s) \<subseteq> bits B b\<rbrakk> \<Longrightarrow> state_inv B Q (s\<lparr>incoming_pub := b\<rparr>)"
    and "\<lbrakk>bs_len B b = 65536; bits B b \<subseteq> bits B (incoming_pub s)\<rbrakk> \<Longrightarrow> state_inv B Q (s\<lparr>incoming_pubrec := b\<rparr>)"
    and "\<lbrakk>bs_len B b = 65536; bs_len B b' = 65536; bits B b' \<subseteq> bits B b\<rbrakk>
      \<Longrightarrow> state_inv B Q (s\<lparr>incoming_pub := b, incoming_pubrec := b'\<rparr>)"
  using assms by (simp_all add: state_inv_def inv_defs cong: option.case_cong)

lemma incoming_lens:
  assumes "state_inv B Q s"
  shows "bs_len B (incoming_puback s) = 65536" "bs_len B (incoming_pub s) = 65536"
    "bs_len B (incoming_pubrec s) = 65536" "bs_len B (outbound_pkid_in_use s) = 65536"
    "bits B (incoming_pubrec s) \<subseteq> bits B (incoming_pub s)"
  using state_invD(1,8) [OF assms] by (simp_all add: inv_defs)

lemma run_outgoing_puback:
  assumes "state_inv B Q s"
  shows "outgoing_puback B puback s =
    (let k = puback_pkid puback in
     if unat k \<in> bits B (incoming_puback s)
     then (Ok (PktPubAck puback),
           s\<lparr>incoming_puback := bs_without B (incoming_puback s) (unat k), events := events s @ [EvOutgoing (OutPubAck k)]\<rparr>)
     else (Err (Unsolicited k), s))"
  using incoming_lens [OF assms] by (simp add: outgoing_puback_def exec_rules bs_simps)

lemma run_outgoing_pubrec:
  assumes "state_inv B Q s"
  shows "outgoing_pubrec_internal B pubrec dup s =
    (let k = pubrec_pkid pubrec in
     if unat k \<notin> bits B (incoming_pub s) \<or> unat k \<in> bits B (incoming_pubrec s) \<and> \<not> dup
     then (Err (Unsolicited k), s)
     else (Ok (PktPubRec pubrec),
           (if unat k \<in> bits B (incoming_pubrec s) then s
            else s\<lparr>incoming_pubrec := bs_with B (incoming_pubrec s) (unat k)\<rparr>)
           \<lparr>events := events s @ [EvOutgoing (OutPubRec k)]\<rparr>))"
  using incoming_lens [OF assms] by (simp add: outgoing_pubrec_internal_def exec_rules bs_simps)

lemma keeps_inv_outgoing_puback: "state_inv B Q s \<Longrightarrow> keeps_inv B Q Q (outgoing_puback B puback) s"
  using incoming_lens [of Q s]
  by (simp add: keeps_inv_def wp_def run_outgoing_puback Let_def state_inv_frame incoming_changes_inv bs_simps)

lemma keeps_inv_outgoing_pubrec: "state_inv B Q s \<Longrightarrow> keeps_inv B Q Q (outgoing_pubrec_internal B pubrec dup) s"
  using incoming_lens [of Q s]
  by (simp add: keeps_inv_def wp_def run_outgoing_pubrec Let_def state_inv_frame incoming_changes_inv bs_simps)

lemma keeps_inv_publish:
  assumes "state_inv B Q s"
  shows "keeps_inv B Q Q (handle_incoming_publish B publish) s"
proof -
  note lens = incoming_lens [OF assms]
  let ?k = "unat (publish_pkid publish)"
  have "state_inv B Q (s\<lparr>incoming_puback := bs_with B (incoming_puback s) ?k\<rparr>)"
      "state_inv B Q (s\<lparr>incoming_pub := bs_with B (incoming_pub s) ?k\<rparr>)"
    by (rule incoming_changes_inv [OF assms]; use lens in \<open>auto simp: bs_simps\<close>)+
  then show ?thesis
    using assms lens keeps_inv_outgoing_puback keeps_inv_outgoing_pubrec
    unfolding handle_incoming_publish_def outgoing_pubrec_for_incoming_publish_def
    by (cases "publish_qos publish") (simp_all add: keeps_inv_def wp_simps bs_simps Let_def)
qed

lemma keeps_inv_pubrel:
  assumes "state_inv B Q s"
  shows "keeps_inv B Q Q (handle_incoming_pubrel B pubrel) s"
proof -
  let ?k = "unat (pubrel_pkid pubrel)"
  have "state_inv B Q (s\<lparr>incoming_pub := bs_without B (incoming_pub s) ?k,
      incoming_pubrec := bs_without B (incoming_pubrec s) ?k\<rparr>)"
    using incoming_lens [OF assms] by (intro incoming_changes_inv(4) [OF assms]) (auto simp: bs_simps)
  then show ?thesis
    using assms incoming_lens [OF assms]
    by (simp add: keeps_inv_def handle_incoming_pubrel_def wp_simps bs_simps Let_def state_inv_frame)
qed

lemma keeps_inv_incoming:
  assumes "state_inv B Q s"
  shows "keeps_inv B Q Q (incoming_packet B packet) s"
proof (cases packet)
  case (PktPubRel pubrel)
  then show ?thesis
    using keeps_inv_pubrel [OF assms] by (simp add: incoming_packet_def keeps_inv_def wp_simps)
next
  case PktPingResp
  then show ?thesis
    using assms by (simp add: incoming_packet_def handle_incoming_pingresp_def keeps_inv_def wp_simps state_inv_frame)
qed (use assms in \<open>simp_all add: incoming_packet_def keeps_inv_publish keeps_inv_suback keeps_inv_unsuback
      keeps_inv_puback keeps_inv_pubrec keeps_inv_pubcomp\<close>, simp_all add: keeps_inv_def wp_simps)

lemma keeps_inv_incoming_effects:
  assumes "state_inv B Q s"
  shows "keeps_inv B Q Q (handle_incoming_packet_with_effects B now packet) s"
  unfolding keeps_inv_def handle_incoming_packet_with_effects_def wp_simps
  by (rule keeps_inv_wp [OF keeps_inv_incoming [OF assms]]) (simp_all add: wp_simps state_inv_frame)

lemma wp_complete_notices:
  assumes "state_inv B Q s"
  shows "wp (complete_notices effects) (\<lambda>_. state_inv B Q) E s"
proof -
  have "wp (for_each (\<lambda>notice. send_notice (DeferredNotice_complete notice)) notices) (\<lambda>_. state_inv B Q) E s" for notices
    using assms by (induction notices arbitrary: s) (simp_all add: wp_simps state_inv_frame)
  then show ?thesis
    by (simp add: complete_notices_def wp_simps)
qed

lemma keeps_inv_handle_incoming:
  assumes "state_inv B Q s"
  shows "keeps_inv B Q Q (handle_incoming_packet B now packet) s"
  unfolding keeps_inv_def handle_incoming_packet_def wp_simps
  by (rule keeps_inv_wp [OF keeps_inv_incoming_effects [OF assms]]) (simp_all add: wp_complete_notices)

section \<open>Preservation by the handlers of outgoing requests\<close>

lemma publish_slot_free:
  assumes "state_inv B Q s" "unat k \<notin> bits B (outbound_pkid_in_use s)"
  shows "unat k \<notin> occupied (outgoing_pub s)" "unat k \<notin> bits B (outgoing_rel s)"
    "unat k \<notin> bits B (outgoing_rel_replay s)" "k \<notin> fst ` set (pending_subscribe s)"
    "k \<notin> fst ` set (pending_unsubscribe s)" "unat k \<notin> Q"
proof -
  note excl = state_invD(2) [OF assms(1), unfolded owners_inv_def, THEN conjunct1]
  show "unat k \<notin> occupied (outgoing_pub s)" "unat k \<notin> bits B (outgoing_rel s)"
    "unat k \<notin> bits B (outgoing_rel_replay s)" "k \<notin> fst ` set (pending_subscribe s)"
    "k \<notin> fst ` set (pending_unsubscribe s)" "unat k \<notin> Q"
    using exclusive_owner(7) [OF excl assms(2)] by simp_all
qed

lemma ensure_capacity_keeps [simp]:
  assumes "sizes_inv B s" "n \<le> 65536"
  shows "occupied (outgoing_pub (ensure_outgoing_tracking_capacity B n s)) = occupied (outgoing_pub s)"
    and "bits B (outgoing_rel (ensure_outgoing_tracking_capacity B n s)) = bits B (outgoing_rel s)"
    and "bits B (outgoing_rel_replay (ensure_outgoing_tracking_capacity B n s)) = bits B (outgoing_rel_replay s)"
    and "pending_subscribe (ensure_outgoing_tracking_capacity B n s) = pending_subscribe s"
    and "pending_unsubscribe (ensure_outgoing_tracking_capacity B n s) = pending_unsubscribe s"
    and "outbound_pkid_in_use (ensure_outgoing_tracking_capacity B n s) = outbound_pkid_in_use s"
    and "outbound_pkid_count (ensure_outgoing_tracking_capacity B n s) = outbound_pkid_count s"
    and "inflight (ensure_outgoing_tracking_capacity B n s) = inflight s"
    and "max_inflight (ensure_outgoing_tracking_capacity B n s) = max_inflight s"
    and "events (ensure_outgoing_tracking_capacity B n s) = events s"
    and "n \<le> length (outgoing_pub (ensure_outgoing_tracking_capacity B n s))"
    and "collision (ensure_outgoing_tracking_capacity B n s) = collision s"
  unfolding ensure_capacity_fields [OF assms] by (auto simp: bs_simps)

text \<open>
  A publish with an identifier: it is held when the identifier belongs to a publish in flight,
  refused when it belongs to something else, and stored otherwise.
\<close>

lemma run_store_publish:
  fixes k :: u16
  assumes "state_inv B Q s" "publish_pkid p = k" "k \<noteq> 0" "publish_qos p \<noteq> AtMostOnce"
    and "inflight s < max_inflight s"
  defines "t \<equiv> ensure_outgoing_tracking_capacity B (unat k + 1) s"
  shows "outgoing_publish_with_notice_internal B p n replay s =
    (if unat k \<in> occupied (outgoing_pub s)
     then (Ok (None, None), t\<lparr>collision := Some p, collision_notice := n,
                              events := events s @ [EvOutgoing (OutAwaitAck k)]\<rparr>)
     else if unat k \<in> bits B (outgoing_rel s) \<or> unat k \<in> bits B (outgoing_rel_replay s)
        \<or> k \<in> fst ` set (pending_subscribe s) \<or> k \<in> fst ` set (pending_unsubscribe s)
        \<or> replay \<noteq> (unat k \<in> bits B (outbound_pkid_in_use s))
     then (Err InvalidState, t)
     else (Ok (Some (PktPublish p), None),
           (store_publish p n (if replay then t else assign_id B k t))
             \<lparr>events := events s @ [EvOutgoing (OutPublish k)]\<rparr>))"
proof -
  have "unat k + 1 \<le> 65536"
    using unat_u16_bounds(2) [of k] by linarith
  note keep = ensure_capacity_keeps [OF state_invD(1) [OF assms(1)] this, folded t_def]
  have inv: "state_inv B Q t"
    unfolding t_def by (rule ensure_capacity_inv [OF assms(1) \<open>unat k + 1 \<le> 65536\<close>])
  have range: "unat k < length (outgoing_pub t)" "unat k < length (outgoing_pub_notice t)"
    using keep(11) state_invD(1) [OF inv] by (simp_all add: sizes_inv_def)
  note inc = u16_inc_below(3) [OF assms(5)]
  have lens: "bs_len B (outbound_pkid_in_use t) = 65536"
    using state_invD(1) [OF inv] by (simp add: sizes_inv_def)
  have t: "ensure_outgoing_tracking_capacity B (Suc (unat k)) s = t"
    by (simp add: t_def)
  have slot: "outgoing_pub t ! unat k = None \<longleftrightarrow> unat k \<notin> occupied (outgoing_pub s)"
    using occupied_iff [OF range(1)] keep(1) by simp
  have count: "unat (outbound_pkid_count s) < 65535" if "unat k \<notin> bits B (outbound_pkid_in_use s)"
    using card_used_bound [OF assms(1,3) that] .
  show ?thesis
    using assms(2-5) keep(2-10) slot range inc lens count
    by (cases "unat k \<in> occupied (outgoing_pub s)"; cases "unat k \<in> bits B (outbound_pkid_in_use s)")
      (simp_all add: outgoing_publish_with_notice_internal_def exec_rules validate_outgoing_pkid_def not_le
        t bits_contains btree_contains_iff accept_replayed_outbound_pkid_def
        packet_identifier_in_use_def exec_reserve exec_reserve_taken incr_inflight_def store_publish_def assign_id_def)
qed

lemma hold_publish_inv:
  assumes "state_inv B Q s" "publish_qos p \<noteq> AtMostOnce" "unat (publish_pkid p) \<in> occupied (outgoing_pub s)"
  shows "state_inv B Q (s\<lparr>collision := Some p, collision_notice := n\<rparr>)"
  using state_invD [OF assms(1)] assms(2,3) by (intro state_invI) (simp_all add: inv_defs)

lemma store_publish_keeps_inv:
  fixes k :: u16
  assumes "state_inv B Q s" "publish_pkid p = k" "k \<noteq> 0" "publish_qos p \<noteq> AtMostOnce"
    and "inflight s < max_inflight s" "replay \<Longrightarrow> unat k \<in> Q"
  shows "keeps_inv B Q (if replay then Q - {unat k} else Q) (outgoing_publish_with_notice_internal B p n replay) s"
proof -
  define t where "t = ensure_outgoing_tracking_capacity B (unat k + 1) s"
  have le: "unat k + 1 \<le> 65536"
    using unat_u16_bounds(2) [of k] by linarith
  note keep = ensure_capacity_keeps [OF state_invD(1) [OF assms(1)] le, folded t_def]
  have inv: "state_inv B Q t"
    unfolding t_def by (rule ensure_capacity_inv [OF assms(1) le])
  note excl = state_invD(2) [OF assms(1), unfolded owners_inv_def, THEN conjunct1]
  have "unat k \<notin> occupied (outgoing_pub s)" if replay
    using exclusive_owner(6) [OF excl assms(6) [OF that]] by simp
  then show ?thesis
    unfolding keeps_inv_def wp_def run_store_publish [OF assms(1-5)] t_def [symmetric]
    using inv keep assms hold_publish_inv [OF inv, of p n] assign_store_inv [OF inv, of p n]
      replay_store_inv [OF inv, of p n]
    by (auto simp: state_inv_frame)
qed

lemma next_publish_pkid_fresh:
  assumes "state_inv B Q s" "next_publish_pkid B s = Some k"
  shows "k \<noteq> 0" "unat k \<notin> bits B (outbound_pkid_in_use s)"
  using next_free_Some [of s "last_pkid s" k] assms incoming_lens(4) [OF assms(1)]
  by (simp_all add: next_publish_pkid_def)

lemma run_fresh_publish:
  assumes "publish_pkid p = 0" "publish_qos p \<noteq> AtMostOnce" "inflight s < max_inflight s"
  shows "outgoing_publish_with_notice_internal B p n False s =
    (case next_publish_pkid B s of
       None \<Rightarrow> (Err InvalidState, s)
     | Some k \<Rightarrow> if k = 0 then (Err (Unsolicited 0), s\<lparr>last_pkid := 0\<rparr>) else
         outgoing_publish_with_notice_internal B (p\<lparr>publish_pkid := k\<rparr>) n False (s\<lparr>last_pkid := k\<rparr>))"
  using assms
  by (cases "next_publish_pkid B s")
    (simp_all add: outgoing_publish_with_notice_internal_def next_pkid_def exec_option exec_lift andThen_assoc not_le
      validate_outgoing_pkid_def run_fail Let_def)

lemma keeps_inv_outgoing_publish:
  assumes "state_inv B Q s" "replay \<Longrightarrow> unat (publish_pkid p) \<in> Q \<and> publish_qos p \<noteq> AtMostOnce"
  shows "keeps_inv B Q (if replay then Q - {unat (publish_pkid p)} else Q)
    (outgoing_publish_with_notice_internal B p n replay) s"
proof (cases "publish_qos p = AtMostOnce")
  case True
  then show ?thesis
    using assms by (auto simp: outgoing_publish_with_notice_internal_def keeps_inv_def wp_simps state_inv_frame)
next
  case qos: False
  show ?thesis
  proof (cases "inflight s < max_inflight s")
    case False
    then show ?thesis
      using qos assms(1) by (simp add: not_less outgoing_publish_with_notice_internal_def keeps_inv_def wp_simps)
  next
    case window: True
    have k: "publish_pkid p \<noteq> 0" if replay
      using assms(2) [OF that] state_invD(2) [OF assms(1)] exclusive_owner(6)
      by (fastforce simp: owners_inv_def)
    show ?thesis
    proof (cases "publish_pkid p = 0")
      case False
      then show ?thesis
        using store_publish_keeps_inv [OF assms(1) refl False qos window] assms(2) by simp
    next
      case True
      then have "\<not> replay"
        using k by auto
      then show ?thesis
        using run_fresh_publish [OF True qos window, of n] assms(1)
          next_publish_pkid_fresh [OF assms(1)]
          store_publish_keeps_inv [of Q "s\<lparr>last_pkid := the (next_publish_pkid B s)\<rparr>"
            "p\<lparr>publish_pkid := the (next_publish_pkid B s)\<rparr>" _ False n] qos window
        by (cases "next_publish_pkid B s") (auto simp: keeps_inv_def wp_def state_inv_frame)
    qed
  qed
qed

lemma set_rel_notice_inv:
  assumes "state_inv B Q s" "unat k \<in> bits B (outgoing_rel s)"
  shows "state_inv B Q (outgoing_rel_notice_update (\<lambda>xs. xs[unat k := n]) s)"
proof -
  have "unat k < length (outgoing_rel_notice s)"
    using released_range(3) [OF assms(1)] assms(2) by blast
  then show ?thesis
    using state_invD [OF assms(1)] assms(2)
    by (intro state_invI; cases n) (auto simp: inv_defs split: option.splits)
qed

text \<open>A PUBREL is sent for an identifier that is released, or moves a replayed one into flight.\<close>

lemma run_save_pubrel:
  assumes "state_inv B Q s"
  shows "save_pubrel_with_notice B pubrel n s =
    (let k = pubrel_pkid pubrel in
     if k = 0 \<or> unat k \<notin> bits B (outgoing_rel s) \<union> bits B (outgoing_rel_replay s) then (Err (Unsolicited k), s)
     else if unat k \<in> bits B (outgoing_rel_replay s) \<and> inflight s \<ge> max_inflight s
     then (Err (OutgoingPublishWindowFull (max_inflight s)), s)
     else let t = (if unat k \<in> bits B (outgoing_rel_replay s) then resume_release B k s else s) in
       (Ok pubrel,
        if n \<noteq> None \<or> outgoing_rel_notice s ! unat k = None
        then outgoing_rel_notice_update (\<lambda>xs. xs[unat k := n]) t else t))"
proof -
  define k where "k = pubrel_pkid pubrel"
  show ?thesis
  proof (cases "k \<noteq> 0 \<and> unat k \<in> bits B (outgoing_rel s) \<union> bits B (outgoing_rel_replay s)")
    case False
    then show ?thesis
      by (auto simp: save_pubrel_with_notice_def validate_outgoing_pkid_def exec_option exec_lift Let_def run_fail
          bits_contains k_def)
  next
    case True
    then have mem: "unat k \<in> bits B (outgoing_rel s) \<union> bits B (outgoing_rel_replay s)" "k \<noteq> 0"
      by simp_all
    note range = released_range [OF assms mem(1)]
    have le: "Suc (unat k) \<le> 65536"
      using unat_u16_bounds(2) [of k] by linarith
    have ensure: "ensure_outgoing_tracking_capacity B (Suc (unat k)) s = s"
      using ensure_capacity_fields [OF state_invD(1) [OF assms] le] range by simp
    show ?thesis
    proof (cases "unat k \<in> bits B (outgoing_rel_replay s)")
      case False
      then show ?thesis
        using mem range ensure
        by (simp add: save_pubrel_with_notice_def validate_outgoing_pkid_def exec_rules bits_contains
            k_def [symmetric])
    next
      case True
      have "state_inv B Q (resume_release B k s)" if "inflight s < max_inflight s"
        by (rule resume_release_inv [OF assms True that])
      then have "ensure_outgoing_tracking_capacity B (Suc (unat k)) (resume_release B k s) = resume_release B k s"
          if "inflight s < max_inflight s"
        using ensure_capacity_fields [OF state_invD(1) le] that range by (simp add: resume_release_def)
      then show ?thesis
        using mem range True u16_inc_below(3) [of "inflight s" "max_inflight s"]
        by (cases "inflight s < max_inflight s")
          (simp_all add: save_pubrel_with_notice_def validate_outgoing_pkid_def exec_rules bs_simps
            incr_inflight_def resume_release_def not_less not_le k_def [symmetric])
    qed
  qed
qed

lemma keeps_inv_save_pubrel:
  assumes "state_inv B Q s"
  shows "keeps_inv B Q Q (save_pubrel_with_notice B pubrel n) s"
proof -
  let ?k = "pubrel_pkid pubrel"
  have "state_inv B Q (resume_release B ?k s)" "unat ?k \<in> bits B (outgoing_rel (resume_release B ?k s))"
    if "unat ?k \<in> bits B (outgoing_rel_replay s)" "inflight s < max_inflight s"
    using resume_release_inv [OF assms that] released_range [OF assms, of ?k] that(1)
    by (simp_all add: resume_release_def bs_simps)
  then show ?thesis
    using assms set_rel_notice_inv [OF assms, of ?k n] set_rel_notice_inv [of Q "resume_release B ?k s" ?k n]
    unfolding keeps_inv_def wp_def run_save_pubrel [OF assms] Let_def by (auto simp: not_le)
qed

lemma keeps_inv_pubrel_request:
  assumes "state_inv B Q s"
  shows "keeps_inv B Q Q (outgoing_pubrel_with_notice B pubrel n) s"
  unfolding keeps_inv_def outgoing_pubrel_with_notice_def wp_andThen
  by (rule keeps_inv_wp [OF keeps_inv_save_pubrel [OF assms]]) (simp_all add: wp_simps state_inv_frame)

lemma wp_reserve:
  assumes "state_inv B Q s"
  shows "wp (reserve_outbound_pkid B k) P E s \<longleftrightarrow>
    (if k = 0 \<or> unat k \<in> bits B (outbound_pkid_in_use s) then E InvalidState s else P () (assign_id B k s))"
proof -
  have "outbound_pkid_count s \<noteq> 65535" if "k \<noteq> 0" "unat k \<notin> bits B (outbound_pkid_in_use s)"
    using card_used_bound [OF assms that] by auto
  then show ?thesis
    using incoming_lens(4) [OF assms] by (auto simp: wp_def run_reserve)
qed

lemma frame_commute:
  "pending_subscribe_update f (events_update g s) = events_update g (pending_subscribe_update f s)"
  "pending_subscribe_update f (last_pkid_update h s) = last_pkid_update h (pending_subscribe_update f s)"
  "pending_unsubscribe_update f' (events_update g s) = events_update g (pending_unsubscribe_update f' s)"
  "pending_unsubscribe_update f' (last_pkid_update h s) = last_pkid_update h (pending_unsubscribe_update f' s)"
  by (cases s; simp)+

lemma pending_update_eq:
  "pending_subscribe_update f s = s\<lparr>pending_subscribe := f (pending_subscribe s)\<rparr>"
  "pending_unsubscribe_update g s = s\<lparr>pending_unsubscribe := g (pending_unsubscribe s)\<rparr>"
  by (cases s; simp)+

lemma assign_pending_inv:
  assumes "state_inv B Q s" "k \<noteq> 0" "unat k \<notin> bits B (outbound_pkid_in_use s)"
  shows "subscribe_pkid (psub_subscribe p) = k
      \<Longrightarrow> state_inv B Q (pending_subscribe_update (btree_insert k p) (assign_id B k s))"
    and "unsubscribe_pkid (punsub_unsubscribe u) = k
      \<Longrightarrow> state_inv B Q (pending_unsubscribe_update (btree_insert k u) (assign_id B k s))"
proof -
  have sel: "pending_subscribe (assign_id B k s) = pending_subscribe s"
      "pending_unsubscribe (assign_id B k s) = pending_unsubscribe s"
    by (simp_all add: assign_id_def)
  note eq = pending_update_eq [where s = "assign_id B k s", unfolded sel]
  show "subscribe_pkid (psub_subscribe p) = k
      \<Longrightarrow> state_inv B Q (pending_subscribe_update (btree_insert k p) (assign_id B k s))"
    by (subst eq) (rule assign_subscribe_inv [OF assms])
  show "unsubscribe_pkid (punsub_unsubscribe u) = k
      \<Longrightarrow> state_inv B Q (pending_unsubscribe_update (btree_insert k u) (assign_id B k s))"
    by (subst eq) (rule assign_unsubscribe_inv [OF assms])
qed

lemma next_control_fresh:
  assumes "state_inv B Q s" "next_free_outbound_pkid_after B s (last_pkid s) = Some k"
  shows "k \<noteq> 0 \<and> unat k \<notin> bits B (outbound_pkid_in_use s)"
  using next_publish_pkid_fresh [OF assms(1), of k] assms(2) by (simp add: next_publish_pkid_def)

lemma keeps_inv_subscribe:
  assumes "state_inv B Q s"
  shows "keeps_inv B Q Q (outgoing_subscribe B sub n) s"
  unfolding keeps_inv_def outgoing_subscribe_def next_control_pkid_def reserve_control_pkid_def save_outgoing_subscribe_def
  using assms next_control_fresh [OF assms] assign_pending_inv(1) [OF assms]
  by (auto simp: wp_simps wp_reserve [OF assms] frame_commute state_inv_frame split: option.splits)

lemma keeps_inv_unsubscribe:
  assumes "state_inv B Q s"
  shows "keeps_inv B Q Q (outgoing_unsubscribe B unsub n) s"
  unfolding keeps_inv_def outgoing_unsubscribe_def next_control_pkid_def reserve_control_pkid_def
    save_outgoing_unsubscribe_def
  using assms next_control_fresh [OF assms] assign_pending_inv(2) [OF assms]
  by (auto simp: wp_simps wp_reserve [OF assms] frame_commute state_inv_frame split: option.splits)

lemma replay_pending_inv:
  assumes "state_inv B Q s" "unat k \<in> Q"
  shows "subscribe_pkid (psub_subscribe p) = k
      \<Longrightarrow> state_inv B (Q - {unat k}) (pending_subscribe_update (btree_insert k p) s)"
    and "unsubscribe_pkid (punsub_unsubscribe u) = k
      \<Longrightarrow> state_inv B (Q - {unat k}) (pending_unsubscribe_update (btree_insert k u) s)"
proof -
  note eq = pending_update_eq [where s = s]
  show "subscribe_pkid (psub_subscribe p) = k
      \<Longrightarrow> state_inv B (Q - {unat k}) (pending_subscribe_update (btree_insert k p) s)"
    by (subst eq) (rule replay_subscribe_inv [OF assms])
  show "unsubscribe_pkid (punsub_unsubscribe u) = k
      \<Longrightarrow> state_inv B (Q - {unat k}) (pending_unsubscribe_update (btree_insert k u) s)"
    by (subst eq) (rule replay_unsubscribe_inv [OF assms])
qed

lemma keeps_inv_replay_subscribe:
  assumes "state_inv B Q s" "unat (subscribe_pkid sub) \<in> Q"
  shows "keeps_inv B Q (Q - {unat (subscribe_pkid sub)}) (replay_outgoing_subscribe B sub n) s"
  unfolding keeps_inv_def replay_outgoing_subscribe_def accept_replayed_outbound_pkid_def save_outgoing_subscribe_def
  using assms replay_pending_inv(1) [OF assms]
  by (simp add: wp_simps frame_commute state_inv_frame)

lemma keeps_inv_replay_unsubscribe:
  assumes "state_inv B Q s" "unat (unsubscribe_pkid unsub) \<in> Q"
  shows "keeps_inv B Q (Q - {unat (unsubscribe_pkid unsub)}) (replay_outgoing_unsubscribe B unsub n) s"
  unfolding keeps_inv_def replay_outgoing_unsubscribe_def accept_replayed_outbound_pkid_def save_outgoing_unsubscribe_def
  using assms replay_pending_inv(2) [OF assms]
  by (simp add: wp_simps frame_commute state_inv_frame)

lemma keeps_inv_ping: "state_inv B Q s \<Longrightarrow> keeps_inv B Q Q outgoing_ping s"
  by (simp add: keeps_inv_def outgoing_ping_def wp_simps state_inv_frame split: prod.splits)

end

text \<open>The identifier a request owns while it waits to be replayed.\<close>

fun replay_ids :: "Request \<Rightarrow> nat set" where
  "replay_ids (ReqPublish p) = {unat (publish_pkid p)}"
| "replay_ids (ReqSubscribe sub) = {unat (subscribe_pkid sub)}"
| "replay_ids (ReqUnsubscribe unsub) = {unat (unsubscribe_pkid unsub)}"
| "replay_ids _ = {}"

fun replayable :: "Request \<Rightarrow> bool" where
  "replayable (ReqPublish p) \<longleftrightarrow> publish_qos p \<noteq> AtMostOnce"
| "replayable _ \<longleftrightarrow> True"

fun graceful_disconnect :: "Request \<Rightarrow> bool" where
  "graceful_disconnect (ReqDisconnect _) = True"
| "graceful_disconnect (ReqDisconnectWithTimeout _ _) = True"
| "graceful_disconnect _ = False"

context fixed_bitset begin

lemma keeps_inv_request:
  assumes "state_inv B Q s" "\<not> graceful_disconnect request"
    and "replay \<Longrightarrow> replay_ids request \<subseteq> Q \<and> replayable request"
  shows "keeps_inv B Q (if replay then Q - replay_ids request else Q) (outgoing_request B request n replay) s"
proof (cases request)
  case (ReqPublish p)
  then show ?thesis
    using keeps_inv_outgoing_publish [OF assms(1), of replay p] assms(3)
    by (cases replay) (auto simp: replay_outgoing_publish_with_notice_def outgoing_publish_with_notice_def)
next
  case (ReqSubscribe sub)
  then show ?thesis
    using keeps_inv_subscribe [OF assms(1), of sub] keeps_inv_replay_subscribe [OF assms(1), of sub] assms(3)
    by (cases replay) (auto simp: keeps_inv_def wp_simps)
next
  case (ReqUnsubscribe unsub)
  then show ?thesis
    using keeps_inv_unsubscribe [OF assms(1), of unsub] keeps_inv_replay_unsubscribe [OF assms(1), of unsub] assms(3)
    by (cases replay) (auto simp: keeps_inv_def wp_simps)
next
  case (ReqPubRel pubrel)
  then show ?thesis
    using keeps_inv_pubrel_request [OF assms(1)] by simp
next
  case ReqPingReq
  then show ?thesis
    using keeps_inv_ping [OF assms(1)] by (simp add: keeps_inv_def wp_simps)
next
  case (ReqPubAck puback)
  then show ?thesis
    using keeps_inv_outgoing_puback [OF assms(1)] by (simp add: keeps_inv_def wp_simps)
next
  case (ReqPubRec pubrec)
  then show ?thesis
    using keeps_inv_outgoing_pubrec [OF assms(1), of pubrec] by (simp add: keeps_inv_def wp_simps outgoing_pubrec_def)
qed (use assms in \<open>simp_all add: keeps_inv_def wp_simps outgoing_disconnect_def state_inv_frame\<close>)

lemma keeps_inv_handle_outgoing_internal:
  assumes "state_inv B Q s" "\<not> graceful_disconnect request"
    and "replay \<Longrightarrow> replay_ids request \<subseteq> Q \<and> replayable request"
  shows "keeps_inv B Q (if replay then Q - replay_ids request else Q)
    (handle_outgoing_packet_with_notice_internal B now request n replay) s"
  unfolding handle_outgoing_packet_with_notice_internal_def keeps_inv_def wp_andThen
  by (rule keeps_inv_wp [OF keeps_inv_request [OF assms]]) (simp_all add: wp_simps state_inv_frame)

lemma keeps_inv_handle_outgoing:
  assumes "state_inv B Q s" "\<not> graceful_disconnect request"
  shows "keeps_inv B Q Q (handle_outgoing_packet B now request) s"
proof -
  have "wp (handle_outgoing_packet_with_notice B now request None) (\<lambda>_. state_inv B Q) (\<lambda>_. state_inv B Q) s"
    using keeps_inv_handle_outgoing_internal [OF assms, of False now None]
    by (simp add: keeps_inv_def handle_outgoing_packet_with_notice_def)
  then show ?thesis
    unfolding handle_outgoing_packet_def keeps_inv_def wp_andThen
    by (rule wp_mono) (simp_all add: wp_simps state_inv_frame split: prod.splits option.splits)
qed

end

end
