(* ===== verification/V4_State_Clean.thy ===== *)
theory V4_State_Clean
  imports V4_State_Run
begin

text \<open>
  The end of a connection (\<open>clean\<close>), the draining of pending requests and the reset of the session
  in \<open>rumqttc-v4/src/state.rs\<close>. In a state that satisfies the invariant, \<open>clean\<close> returns every
  request in flight exactly once and in order, and leaves a state in which the identifiers
  of the requests to be replayed are still reserved.
\<close>

section \<open>Loops over distinct identifiers\<close>

definition clear_slots :: "u16 list \<Rightarrow> 'a option list \<Rightarrow> 'a option list" where
  "clear_slots ks xs = fold (\<lambda>k xs. xs[unat k := None]) ks xs"

definition free_ids :: "'b bitset_ops \<Rightarrow> u16 list \<Rightarrow> 'b MqttState \<Rightarrow> 'b MqttState" where
  "free_ids B ks s = fold (free_id B) ks s"

definition bs_with_all :: "'b bitset_ops \<Rightarrow> u16 list \<Rightarrow> 'b \<Rightarrow> 'b" where
  "bs_with_all B ks b = fold (\<lambda>k b. bs_with B b (unat k)) ks b"

definition bs_without_all :: "'b bitset_ops \<Rightarrow> u16 list \<Rightarrow> 'b \<Rightarrow> 'b" where
  "bs_without_all B ks b = fold (\<lambda>k b. bs_without B b (unat k)) ks b"

lemma length_clear_slots [simp]: "length (clear_slots ks xs) = length xs"
  unfolding clear_slots_def by (induction ks arbitrary: xs) simp_all

lemma occupied_clear_slots [simp]: "occupied (clear_slots ks xs) = occupied xs - unat ` set ks"
  unfolding clear_slots_def by (induction ks arbitrary: xs) auto

lemma clear_slots_simps [simp]:
  "clear_slots [] xs = xs"
  "clear_slots (k # ks) xs = clear_slots ks (xs[unat k := None])"
  by (simp_all add: clear_slots_def)

lemma stored_ok_clear_slots [simp]: "stored_ok xs \<Longrightarrow> stored_ok (clear_slots ks xs)"
  unfolding clear_slots_def by (induction ks arbitrary: xs) simp_all

lemma free_ids_fields:
  "free_ids B ks s = s\<lparr>outbound_pkid_in_use := bs_without_all B ks (outbound_pkid_in_use s),
     outbound_pkid_count := outbound_pkid_count s - word_of_nat (length ks)\<rparr>"
  unfolding free_ids_def bs_without_all_def
proof (induction ks arbitrary: s)
  case (Cons k ks)
  have "outbound_pkid_count s - 1 - word_of_nat (length ks) = outbound_pkid_count s - word_of_nat (length (k # ks))"
    by simp
  then show ?case
    using Cons by (simp add: free_id_def)
qed simp

lemma for_each_noop: "(\<And>x. x \<in> set xs \<Longrightarrow> f x s = (Ok (), s)) \<Longrightarrow> for_each f xs s = (Ok (), s)"
  by (induction xs) (simp_all add: andThen_def run_simps)

context fixed_bitset begin

lemma bs_with_all_simps:
  "unat ` set ks \<subseteq> {..<bs_len B b} \<Longrightarrow>
    bs_len B (bs_with_all B ks b) = bs_len B b \<and> bits B (bs_with_all B ks b) = unat ` set ks \<union> bits B b"
  unfolding bs_with_all_def by (induction ks arbitrary: b) (auto simp: bs_simps)

lemma bs_without_all_simps:
  "unat ` set ks \<subseteq> {..<bs_len B b} \<Longrightarrow>
    bs_len B (bs_without_all B ks b) = bs_len B b \<and> bits B (bs_without_all B ks b) = bits B b - unat ` set ks"
  unfolding bs_without_all_def by (induction ks arbitrary: b) (auto simp: bs_simps)

lemma run_release_all:
  assumes "distinct ks" "unat ` set ks \<subseteq> bits B (outbound_pkid_in_use s)" "0 \<notin> set ks"
    and "length ks \<le> unat (outbound_pkid_count s)"
  shows "for_each (release_outbound_pkid B) ks s = (Ok (), free_ids B ks s)"
  using assms
proof (induction ks arbitrary: s)
  case (Cons k ks)
  have k: "unat k \<in> bits B (outbound_pkid_in_use s)" "k \<noteq> 0" "0 < unat (outbound_pkid_count s)"
    using Cons.prems by auto
  have "unat ` set ks \<subseteq> bits B (outbound_pkid_in_use (free_id B k s))"
    using Cons.prems(1,2) bits_bound [OF k(1)]
    by (auto simp: free_id_def bs_simps dest: word_unat_eq_iff [THEN iffD2])
  moreover have "length ks \<le> unat (outbound_pkid_count (free_id B k s))"
    using Cons.prems(4) u16_checked_dec_pos(2) [OF k(3)] by (simp add: free_id_def)
  ultimately show ?case
    using Cons.prems Cons.IH [of "free_id B k s"] by (simp add: free_ids_def exec_release k)
qed (simp add: free_ids_def run_simps)

end

section \<open>Cleaning the publishes\<close>

definition cleaned_publish :: "'b MqttState \<Rightarrow> u16 \<Rightarrow> CleanRequest" where
  "cleaned_publish s k =
     \<lparr>clean_request = ReqPublish ((the (outgoing_pub s ! unat k))\<lparr>publish_dup := True\<rparr>),
      clean_notice = map_option TrackedPublish (outgoing_pub_notice s ! unat k),
      clean_replay = True\<rparr>"

definition cleaned_pubrel :: "'b MqttState \<Rightarrow> u16 \<Rightarrow> CleanRequest" where
  "cleaned_pubrel s k =
     \<lparr>clean_request = ReqPubRel (PubRel_new k),
      clean_notice = map_option TrackedPublish (outgoing_rel_notice s ! unat k),
      clean_replay = True\<rparr>"

fun cleaned_subscribe :: "u16 \<times> PendingSubscribe \<Rightarrow> CleanRequest" where
  "cleaned_subscribe (k, pending) =
     \<lparr>clean_request = ReqSubscribe ((psub_subscribe pending)\<lparr>subscribe_pkid := k\<rparr>),
      clean_notice = map_option TrackedSubscribe (psub_notice pending),
      clean_replay = True\<rparr>"

fun cleaned_unsubscribe :: "u16 \<times> PendingUnsubscribe \<Rightarrow> CleanRequest" where
  "cleaned_unsubscribe (k, pending) =
     \<lparr>clean_request = ReqUnsubscribe ((punsub_unsubscribe pending)\<lparr>unsubscribe_pkid := k\<rparr>),
      clean_notice = map_option TrackedUnsubscribe (punsub_notice pending),
      clean_replay = True\<rparr>"

definition cleaned_collision :: "'b MqttState \<Rightarrow> CleanRequest list" where
  "cleaned_collision s =
     (case collision s of
        None \<Rightarrow> []
      | Some p \<Rightarrow> [\<lparr>clean_request = ReqPublish p,
                    clean_notice = map_option TrackedPublish (collision_notice s),
                    clean_replay = False\<rparr>])"

text \<open>Everything \<open>clean\<close> hands back, in its order.\<close>

definition cleaned_requests :: "'b MqttState \<Rightarrow> CleanRequest list" where
  "cleaned_requests s =
     map (cleaned_publish s) (outgoing_pub_order s)
     @ cleaned_collision s
     @ map (cleaned_pubrel s) (outgoing_rel_order s)
     @ map cleaned_subscribe (pending_subscribe s)
     @ map cleaned_unsubscribe (pending_unsubscribe s)"

definition publish_ready :: "'b MqttState \<Rightarrow> u16 \<Rightarrow> bool" where
  "publish_ready s k \<longleftrightarrow>
     unat k < length (outgoing_pub s) \<and> unat k < length (outgoing_pub_notice s)
     \<and> (\<exists>p. outgoing_pub s ! unat k = Some p \<and> publish_pkid p = k \<and> publish_qos p \<noteq> AtMostOnce)"

definition without_publishes :: "u16 list \<Rightarrow> 'b MqttState \<Rightarrow> 'b MqttState" where
  "without_publishes ks s = s\<lparr>outgoing_pub := clear_slots ks (outgoing_pub s),
     outgoing_pub_notice := clear_slots ks (outgoing_pub_notice s)\<rparr>"

lemma run_clean_publish:
  assumes "publish_ready s k"
  shows "clean_publish keep k s
    = (Ok ([cleaned_publish s k], if keep then [] else [k]), without_publishes [k] s)"
  using assms by (auto simp: publish_ready_def clean_publish_def exec_rules cleaned_publish_def without_publishes_def)

lemma run_clean_publish_all:
  assumes "distinct ks" "\<And>k. k \<in> set ks \<Longrightarrow> publish_ready s k"
  shows "traverse (clean_publish keep) ks s
    = (Ok (map (\<lambda>k. ([cleaned_publish s k], if keep then [] else [k])) ks), without_publishes ks s)"
  using assms
proof (induction ks arbitrary: s)
  case Nil
  then show ?case by (simp add: run_simps without_publishes_def)
next
  case (Cons k ks)
  have other: "outgoing_pub (without_publishes [k] s) ! unat j = outgoing_pub s ! unat j"
      "outgoing_pub_notice (without_publishes [k] s) ! unat j = outgoing_pub_notice s ! unat j"
      if "j \<in> set ks" for j
  proof -
    have "unat k \<noteq> unat j"
      using Cons.prems(1) that by (auto dest: word_unat_eq_iff [THEN iffD2])
    then show "outgoing_pub (without_publishes [k] s) ! unat j = outgoing_pub s ! unat j"
        "outgoing_pub_notice (without_publishes [k] s) ! unat j = outgoing_pub_notice s ! unat j"
      by (simp_all add: without_publishes_def)
  qed
  have "publish_ready (without_publishes [k] s) j" if "j \<in> set ks" for j
    using other [OF that] Cons.prems(2) [of j] that by (simp add: publish_ready_def) (simp add: without_publishes_def)
  moreover have "cleaned_publish (without_publishes [k] s) j = cleaned_publish s j" if "j \<in> set ks" for j
    using other [OF that] by (simp add: cleaned_publish_def)
  moreover have "without_publishes ks (without_publishes [k] s) = without_publishes (k # ks) s"
    by (simp add: without_publishes_def)
  ultimately show ?case
    using Cons.prems Cons.IH [of "without_publishes [k] s"]
    by (simp add: run_clean_publish andThen_def run_simps)
qed

section \<open>Cleaning the releases and the pending requests\<close>

definition without_rel_notices :: "u16 list \<Rightarrow> 'b MqttState \<Rightarrow> 'b MqttState" where
  "without_rel_notices ks s = s\<lparr>outgoing_rel_notice := clear_slots ks (outgoing_rel_notice s)\<rparr>"

lemma run_clean_pubrel:
  "unat k < length (outgoing_rel_notice s)
    \<Longrightarrow> clean_pubrel k s = (Ok (cleaned_pubrel s k), without_rel_notices [k] s)"
  by (simp add: clean_pubrel_def exec_rules cleaned_pubrel_def without_rel_notices_def)

lemma run_clean_pubrel_all:
  assumes "distinct ks" "\<And>k. k \<in> set ks \<Longrightarrow> unat k < length (outgoing_rel_notice s)"
  shows "traverse clean_pubrel ks s = (Ok (map (cleaned_pubrel s) ks), without_rel_notices ks s)"
  using assms
proof (induction ks arbitrary: s)
  case Nil
  then show ?case by (simp add: run_simps without_rel_notices_def)
next
  case (Cons k ks)
  have other: "outgoing_rel_notice (without_rel_notices [k] s) ! unat j = outgoing_rel_notice s ! unat j"
      if "j \<in> set ks" for j
  proof -
    have "unat k \<noteq> unat j"
      using Cons.prems(1) that by (auto dest: word_unat_eq_iff [THEN iffD2])
    then show ?thesis
      by (simp add: without_rel_notices_def)
  qed
  then have "map (cleaned_pubrel (without_rel_notices [k] s)) ks = map (cleaned_pubrel s) ks"
    by (simp add: cleaned_pubrel_def)
  moreover have "without_rel_notices ks (without_rel_notices [k] s) = without_rel_notices (k # ks) s"
    by (simp add: without_rel_notices_def)
  moreover have "\<And>j. j \<in> set ks \<Longrightarrow> unat j < length (outgoing_rel_notice (without_rel_notices [k] s))"
    using Cons.prems(2) by (simp add: without_rel_notices_def)
  ultimately show ?case
    using Cons.prems Cons.IH [of "without_rel_notices [k] s"]
    by (simp add: run_clean_pubrel andThen_def run_simps)
qed

definition with_replays :: "'b bitset_ops \<Rightarrow> u16 list \<Rightarrow> 'b MqttState \<Rightarrow> 'b MqttState" where
  "with_replays B ks s = s\<lparr>outgoing_rel_replay := bs_with_all B ks (outgoing_rel_replay s),
     outgoing_rel_replay_order := outgoing_rel_replay_order s @ ks\<rparr>"

context fixed_bitset begin

lemma run_mark_pubrel_replay:
  assumes "k \<notin> set (outgoing_rel_replay_order s)" "unat k < bs_len B (outgoing_rel_replay s)"
  shows "mark_pubrel_replay B k s = (Ok (), with_replays B [k] s)"
  using assms by (simp add: mark_pubrel_replay_def exec_rules bs_simps with_replays_def bs_with_all_def)

lemma run_mark_pubrel_replay_all:
  assumes "distinct ks" "set ks \<inter> set (outgoing_rel_replay_order s) = {}"
    and "unat ` set ks \<subseteq> {..<bs_len B (outgoing_rel_replay s)}"
  shows "for_each (mark_pubrel_replay B) ks s = (Ok (), with_replays B ks s)"
  using assms
proof (induction ks arbitrary: s)
  case Nil
  then show ?case by (simp add: run_simps with_replays_def bs_with_all_def)
next
  case (Cons k ks)
  have "with_replays B ks (with_replays B [k] s) = with_replays B (k # ks) s"
    by (simp add: with_replays_def bs_with_all_def)
  moreover have "set ks \<inter> set (outgoing_rel_replay_order (with_replays B [k] s)) = {}"
      "unat ` set ks \<subseteq> {..<bs_len B (outgoing_rel_replay (with_replays B [k] s))}"
    using Cons.prems by (auto simp: with_replays_def bs_with_all_def bs_simps)
  ultimately show ?case
    using Cons.prems Cons.IH [of "with_replays B [k] s"] by (simp add: run_mark_pubrel_replay andThen_def)
qed

lemma run_release_pending:
  assumes "distinct (map fst entries)" "unat ` fst ` set entries \<subseteq> bits B (outbound_pkid_in_use s)"
    and "0 \<notin> fst ` set entries" "length entries \<le> unat (outbound_pkid_count s)"
  shows "traverse (\<lambda>(k, p). andThen (if \<not> keep then release_outbound_pkid B k else ret ()) (\<lambda>_. ret (g k p))) entries s
    = (Ok (map (\<lambda>(k, p). g k p) entries), if keep then s else free_ids B (map fst entries) s)"
  using assms
proof (induction entries arbitrary: s)
  case Nil
  then show ?case by (simp add: run_simps free_ids_def)
next
  case (Cons e entries)
  obtain k p where e: "e = (k, p)"
    by (cases e)
  have k: "unat k \<in> bits B (outbound_pkid_in_use s)" "k \<noteq> 0" "0 < unat (outbound_pkid_count s)"
    using Cons.prems by (auto simp: e)
  have "unat ` fst ` set entries \<subseteq> bits B (outbound_pkid_in_use (free_id B k s))"
    using Cons.prems(1,2) bits_bound [OF k(1)]
    by (auto simp: e free_id_def bs_simps dest: word_unat_eq_iff [THEN iffD2])
  moreover have "length entries \<le> unat (outbound_pkid_count (free_id B k s))"
    using Cons.prems(4) u16_checked_dec_pos(2) [OF k(3)] by (simp add: free_id_def)
  ultimately show ?case
    using Cons.prems Cons.IH [of s] Cons.IH [of "free_id B k s"]
    by (cases keep; simp add: e free_ids_def exec_release k andThen_assoc andThen_def [of "traverse _ _"];
        simp add: run_ret)
qed

end

section \<open>The whole of \<open>clean\<close>\<close>

definition released_ids :: "'b MqttState \<Rightarrow> u16 list" where
  "released_ids s = outgoing_pub_order s @ map fst (pending_subscribe s) @ map fst (pending_unsubscribe s)"

definition cleaned_state :: "'b bitset_ops \<Rightarrow> bool \<Rightarrow> 'b MqttState \<Rightarrow> 'b MqttState" where
  "cleaned_state B keep s = (if keep then s else free_ids B (released_ids s) s)
     \<lparr>outgoing_pub := clear_slots (outgoing_pub_order s) (outgoing_pub s),
      outgoing_pub_order := [],
      outgoing_pub_notice := clear_slots (outgoing_pub_order s) (outgoing_pub_notice s),
      outgoing_rel := bs_clear B (outgoing_rel s),
      outgoing_rel_order := [],
      outgoing_rel_replay := bs_with_all B (outgoing_rel_order s) (outgoing_rel_replay s),
      outgoing_rel_replay_order := outgoing_rel_replay_order s @ outgoing_rel_order s,
      outgoing_rel_notice := clear_slots (outgoing_rel_order s) (outgoing_rel_notice s),
      incoming_puback := bs_clear B (incoming_puback s),
      collision := None,
      collision_notice := None,
      pending_subscribe := [],
      pending_unsubscribe := [],
      ping := PingState_new,
      inflight := 0\<rparr>"

lemma exclusive_cards:
  assumes "exclusive P R RR S U Q I" "finite I"
  shows "card P + card S + card U \<le> card I" "P \<inter> S = {}" "P \<inter> U = {}" "S \<inter> U = {}" "P \<subseteq> I" "S \<subseteq> I" "U \<subseteq> I"
proof -
  note owner = exclusive_owner [OF assms(1)]
  show sub: "P \<subseteq> I" "S \<subseteq> I" "U \<subseteq> I"
    using owner(1,4,5) by blast+
  show dis: "P \<inter> S = {}" "P \<inter> U = {}" "S \<inter> U = {}"
    using owner(1,4) by blast+
  have fin: "finite P" "finite S" "finite U"
    using sub assms(2) finite_subset by blast+
  have "card (P \<union> S \<union> U) = card P + card S + card U"
    using fin dis by (simp add: card_Un_disjoint Int_Un_distrib2)
  moreover have "card (P \<union> S \<union> U) \<le> card I"
    using sub assms(2) by (intro card_mono) auto
  ultimately show "card P + card S + card U \<le> card I"
    by simp
qed

lemma exclusive_clean:
  assumes "exclusive P R RR S U Q I"
  shows "exclusive {} {} (R \<union> RR) {} {} (Q \<union> P \<union> S \<union> U) I"
    and "exclusive {} {} (R \<union> RR) {} {} Q (I - (P \<union> S \<union> U))"
proof -
  have "of_bool (i \<in> R \<union> RR) + of_bool (i \<in> Q \<union> P \<union> S \<union> U) = (of_bool (i \<in> I) :: nat)
      \<and> of_bool (i \<in> R \<union> RR) + of_bool (i \<in> Q) = (of_bool (i \<in> I - (P \<union> S \<union> U)) :: nat)" for i
    using assms [unfolded exclusive_def, rule_format, of i]
    by (cases "i \<in> I"; cases "i \<in> P"; cases "i \<in> R"; cases "i \<in> RR"; cases "i \<in> S"; cases "i \<in> U"; cases "i \<in> Q"; simp)
  then show "exclusive {} {} (R \<union> RR) {} {} (Q \<union> P \<union> S \<union> U) I"
    "exclusive {} {} (R \<union> RR) {} {} Q (I - (P \<union> S \<union> U))"
    by (simp_all add: exclusive_def)
qed

lemma order_length: "order_inv order ids \<Longrightarrow> length order = card ids"
  by (metis card_image distinct_card inj_on_def order_inv_def word_unat_eq_iff)

lemma pending_length: "btree_ordered (m :: (u16, 'v) btree) \<Longrightarrow> length m = card (unat ` fst ` set m)"
proof -
  assume "btree_ordered m"
  then have "card (set (map fst m)) = length (map fst m)"
    by (rule distinct_card [OF btree_ordered_distinct])
  moreover have "card (unat ` fst ` set m) = card (fst ` set m)"
    by (rule card_image) (simp add: inj_on_def word_unat_eq_iff)
  ultimately show ?thesis
    by simp
qed

context fixed_bitset begin

lemma run_adopt_orders:
  assumes "state_inv B Q s"
  shows "adopt_pub_order s = (Ok (), s)" "adopt_rel_order B s = (Ok (), s)"
proof -
  note orders = state_invD(4) [OF assms, unfolded orders_inv_def order_inv_def]
  have pub: "word_of_nat i \<in> set (outgoing_pub_order s)" if "i < length (outgoing_pub s)" "outgoing_pub s ! i \<noteq> None" for i
  proof -
    have "i \<in> unat ` set (outgoing_pub_order s)"
      using orders that by (simp add: occupied_def)
    then show ?thesis
      by auto
  qed
  have "length (outgoing_pub s) \<le> 65536"
    using state_invD(1) [OF assms] by (simp add: sizes_inv_def)
  then show "adopt_pub_order s = (Ok (), s)"
    unfolding adopt_pub_order_def run_andThen_simps using pub
    by (intro for_each_noop) (auto simp: exec_option u16_try_from_def)
  have rel: "word_of_nat i \<in> set (outgoing_rel_order s)" if "i \<in> bits B (outgoing_rel s)" for i
  proof -
    have "i \<in> unat ` set (outgoing_rel_order s)"
      using orders that by simp
    then show ?thesis
      by auto
  qed
  have "i < 65536" if "i \<in> bits B (outgoing_rel s)" for i
    using bits_bound [OF that] state_invD(1) [OF assms] by (simp add: sizes_inv_def)
  then show "adopt_rel_order B s = (Ok (), s)"
    unfolding adopt_rel_order_def run_andThen_simps using rel
    by (intro for_each_noop) (auto simp: exec_option u16_try_from_def set_ones)
qed

lemma inv_publish_ready:
  assumes "state_inv B Q s" "k \<in> set (outgoing_pub_order s)"
  shows "publish_ready s k"
proof -
  have k: "unat k \<in> occupied (outgoing_pub s)"
    using state_invD(4) [OF assms(1)] assms(2) by (auto simp: orders_inv_def order_inv_def)
  then obtain p where "outgoing_pub s ! unat k = Some p"
    using occupied_nth by blast
  then show ?thesis
    using occupied_range [OF assms(1) k] stored_okD [of "outgoing_pub s" "unat k" p] state_invD(5) [OF assms(1)]
    by (auto simp: publish_ready_def slots_inv_def dest: word_unat_eq_iff [THEN iffD2])
qed

text \<open>The identifiers that \<open>clean\<close> releases are owned by different requests.\<close>

lemma released_ids_facts:
  assumes "state_inv B Q s"
  shows "distinct (released_ids s)" "unat ` set (released_ids s) \<subseteq> bits B (outbound_pkid_in_use s)"
    "0 \<notin> set (released_ids s)" "length (released_ids s) \<le> unat (outbound_pkid_count s)"
    "unat ` set (released_ids s) = occupied (outgoing_pub s) \<union> subscribe_ids s \<union> unsubscribe_ids s"
proof -
  note inv = state_invD [OF assms]
  note excl = inv(2) [unfolded owners_inv_def, THEN conjunct1]
  note cards = exclusive_cards [OF excl finite_bits]
  have pub: "distinct (outgoing_pub_order s)" "unat ` set (outgoing_pub_order s) = occupied (outgoing_pub s)"
    using inv(4) by (simp_all add: orders_inv_def order_inv_def)
  have pending: "distinct (map fst (pending_subscribe s))" "distinct (map fst (pending_unsubscribe s))"
    using inv(7) by (simp_all add: pending_inv_def btree_ordered_distinct)
  show set: "unat ` set (released_ids s) = occupied (outgoing_pub s) \<union> subscribe_ids s \<union> unsubscribe_ids s"
    by (simp add: released_ids_def image_Un pub(2)) blast
  then show sub: "unat ` set (released_ids s) \<subseteq> bits B (outbound_pkid_in_use s)"
    using cards by simp
  show "0 \<notin> set (released_ids s)"
    using sub inv(2) by (force simp: owners_inv_def image_subset_iff)
  have dis: "set (outgoing_pub_order s) \<inter> fst ` set (pending_subscribe s) = {}"
      "set (outgoing_pub_order s) \<inter> fst ` set (pending_unsubscribe s) = {}"
      "fst ` set (pending_subscribe s) \<inter> fst ` set (pending_unsubscribe s) = {}"
    using cards(2-4) unfolding pub(2) [symmetric] by blast+
  then show "distinct (released_ids s)"
    using pub(1) pending by (simp add: released_ids_def) blast
  have "length (released_ids s) = card (occupied (outgoing_pub s)) + card (subscribe_ids s) + card (unsubscribe_ids s)"
    using order_length [of "outgoing_pub_order s"] pending_length [of "pending_subscribe s"]
      pending_length [of "pending_unsubscribe s"] inv(4,7)
    by (simp add: released_ids_def orders_inv_def pending_inv_def)
  then show "length (released_ids s) \<le> unat (outbound_pkid_count s)"
    using cards(1) inv(2) by (simp add: owners_inv_def)
qed

lemma unat_minus_nat:
  fixes c :: u16
  assumes "n \<le> unat c"
  shows "unat (c - word_of_nat n) = unat c - n"
proof -
  have "n < 65536"
    using assms unat_u16_bounds(2) [of c] by linarith
  then have "unat (word_of_nat n :: u16) = n"
    by (rule unat_u16_of_nat)
  then show ?thesis
    using assms by (simp add: unat_sub word_le_nat_alt)
qed

text \<open>What may be released, and that it still may after others have been.\<close>

definition releasable :: "u16 list \<Rightarrow> 'b MqttState \<Rightarrow> bool" where
  "releasable ks s \<longleftrightarrow> distinct ks \<and> unat ` set ks \<subseteq> bits B (outbound_pkid_in_use s) \<and> 0 \<notin> set ks
     \<and> length ks \<le> unat (outbound_pkid_count s)"

lemma releasable_append:
  assumes "releasable (ks @ js) s"
  shows "releasable ks s" "releasable js (free_ids B ks s)"
proof -
  show "releasable ks s"
    using assms by (auto simp: releasable_def)
  have sub: "unat ` set ks \<subseteq> {..<bs_len B (outbound_pkid_in_use s)}"
    using assms bits_bound by (fastforce simp: releasable_def)
  have "unat ` set js \<inter> unat ` set ks = {}"
    using assms by (auto simp: releasable_def dest: word_unat_eq_iff [THEN iffD2])
  then show "releasable js (free_ids B ks s)"
    using assms bs_without_all_simps [OF sub] unat_minus_nat [of "length ks" "outbound_pkid_count s"]
    by (auto simp: releasable_def free_ids_fields)
qed

lemma releasable_ids: "state_inv B Q s \<Longrightarrow> releasable (released_ids s) s"
  unfolding releasable_def using released_ids_facts(1-4) [of Q s] by blast

lemma run_releasable: "releasable ks s \<Longrightarrow> for_each (release_outbound_pkid B) ks s = (Ok (), free_ids B ks s)"
  by (rule run_release_all) (simp_all add: releasable_def)

lemma releasable_cong:
  "\<lbrakk>outbound_pkid_in_use t = outbound_pkid_in_use s; outbound_pkid_count t = outbound_pkid_count s\<rbrakk>
    \<Longrightarrow> releasable ks t = releasable ks s"
  by (simp add: releasable_def)

lemma run_clean_publishes:
  assumes "state_inv B Q s"
  shows "clean_publishes B keep s =
    (Ok (map (cleaned_publish s) (outgoing_pub_order s)),
     (if keep then s else free_ids B (outgoing_pub_order s) s)
       \<lparr>outgoing_pub := clear_slots (outgoing_pub_order s) (outgoing_pub s), outgoing_pub_order := [],
        outgoing_pub_notice := clear_slots (outgoing_pub_order s) (outgoing_pub_notice s)\<rparr>)"
proof -
  define ks where "ks = outgoing_pub_order s"
  define t where "t = s\<lparr>outgoing_pub_order := []\<rparr>"
  have ready: "publish_ready t k" if "k \<in> set ks" for k
    using inv_publish_ready [OF assms] that by (simp add: ks_def t_def publish_ready_def)
  have dist: "distinct ks"
    using state_invD(4) [OF assms] by (simp add: ks_def orders_inv_def order_inv_def)
  have "releasable ks s"
    using releasable_append(1) [OF releasable_ids [OF assms, unfolded released_ids_def]] by (simp add: ks_def)
  then have rel: "releasable ks (without_publishes ks t)"
    by (simp add: releasable_def without_publishes_def t_def)
  have cleaned: "cleaned_publish t = cleaned_publish s"
    by (simp add: cleaned_publish_def t_def fun_eq_iff)
  have fin: "concat (map fst (map (\<lambda>k. ([cleaned_publish s k], h k)) ks)) = map (cleaned_publish s) ks"
      "concat (map snd (map (\<lambda>k. (g k, [] :: u16 list)) ks)) = []"
      "concat (map snd (map (\<lambda>k. (g k, [k])) ks)) = ks" for h :: "u16 \<Rightarrow> u16 list" and g :: "u16 \<Rightarrow> CleanRequest list"
    by (induction ks) simp_all
  note run = run_clean_publish_all [OF dist ready]
  note freed = run_releasable [OF rel]
  show ?thesis
    unfolding clean_publishes_def run_andThen_simps ks_def [symmetric] t_def [symmetric]
    by (cases keep; simp add: andThen_def run cleaned fin freed run_simps del: map_map)
      (simp_all add: without_publishes_def t_def free_ids_fields)
qed

lemma run_clean_collision:
  assumes "collision s = None \<longrightarrow> collision_notice s = None"
  shows "clean_collision s = (Ok (cleaned_collision s), s\<lparr>collision := None, collision_notice := None\<rparr>)"
proof (cases "collision s")
  case None
  then have "s\<lparr>collision := None, collision_notice := None\<rparr> = s"
    using assms by (cases s) simp
  with None show ?thesis
    by (simp add: clean_collision_def cleaned_collision_def run_simps)
qed (simp add: clean_collision_def cleaned_collision_def run_simps)

lemma rel_orders_disjoint:
  assumes "state_inv B Q s"
  shows "set (outgoing_rel_order s) \<inter> set (outgoing_rel_replay_order s) = {}"
proof -
  have "bits B (outgoing_rel s) \<inter> bits B (outgoing_rel_replay s) = {}"
    using exclusive_owner(2) [OF state_invD(2) [OF assms, unfolded owners_inv_def, THEN conjunct1]] by blast
  moreover have "unat ` set (outgoing_rel_replay_order s) = bits B (outgoing_rel_replay s)"
      "unat ` set (outgoing_rel_order s) = bits B (outgoing_rel s)"
    using state_invD(4) [OF assms] by (simp_all add: orders_inv_def order_inv_def)
  ultimately show ?thesis
    by blast
qed

lemma run_clean_pubrels:
  assumes "distinct (outgoing_rel_order s)" "set (outgoing_rel_order s) \<inter> set (outgoing_rel_replay_order s) = {}"
    and "\<forall>k \<in> set (outgoing_rel_order s).
      unat k < length (outgoing_rel_notice s) \<and> unat k < bs_len B (outgoing_rel_replay s)"
  shows "clean_pubrels B s =
    (Ok (map (cleaned_pubrel s) (outgoing_rel_order s)),
     s\<lparr>outgoing_rel := bs_clear B (outgoing_rel s), outgoing_rel_order := [],
       outgoing_rel_replay := bs_with_all B (outgoing_rel_order s) (outgoing_rel_replay s),
       outgoing_rel_replay_order := outgoing_rel_replay_order s @ outgoing_rel_order s,
       outgoing_rel_notice := clear_slots (outgoing_rel_order s) (outgoing_rel_notice s)\<rparr>)"
proof -
  define ks where "ks = outgoing_rel_order s"
  define t where "t = s\<lparr>outgoing_rel_order := []\<rparr>"
  have dist: "distinct ks"
    using assms(1) by (simp add: ks_def)
  have range: "unat k < length (outgoing_rel_notice t)" "unat k < bs_len B (outgoing_rel_replay t)" if "k \<in> set ks" for k
    using assms(3) that by (simp_all add: ks_def t_def)
  have "set ks \<inter> set (outgoing_rel_replay_order s) = {}"
    using assms(2) by (simp add: ks_def)
  then have "set ks \<inter> set (outgoing_rel_replay_order (without_rel_notices ks t)) = {}"
      "unat ` set ks \<subseteq> {..<bs_len B (outgoing_rel_replay (without_rel_notices ks t))}"
    using range by (auto simp: without_rel_notices_def t_def)
  note mark = run_mark_pubrel_replay_all [OF dist this]
  note run = run_clean_pubrel_all [OF dist range(1)]
  have "map (cleaned_pubrel t) ks = map (cleaned_pubrel s) ks"
    by (simp add: cleaned_pubrel_def t_def)
  then show ?thesis
    unfolding clean_pubrels_def run_andThen_simps ks_def [symmetric] t_def [symmetric]
    by (simp add: andThen_def run mark run_simps) (simp add: with_replays_def without_rel_notices_def t_def)
qed

lemma run_clean_subscribes:
  assumes "releasable (map fst (pending_subscribe s)) s"
  shows "clean_subscribes B keep s =
    (Ok (map cleaned_subscribe (pending_subscribe s)),
     (if keep then s else free_ids B (map fst (pending_subscribe s)) s)\<lparr>pending_subscribe := []\<rparr>)"
proof -
  define es where "es = pending_subscribe s"
  let ?s = "s\<lparr>pending_subscribe := []\<rparr>"
  have "distinct (map fst es)" "unat ` fst ` set es \<subseteq> bits B (outbound_pkid_in_use ?s)" "0 \<notin> fst ` set es"
      "length es \<le> unat (outbound_pkid_count ?s)"
    using assms by (simp_all add: releasable_def es_def)
  note run = run_release_pending [OF this]
  have "cleaned_subscribe = (\<lambda>(k, p). \<lparr>clean_request = ReqSubscribe ((psub_subscribe p)\<lparr>subscribe_pkid := k\<rparr>),
            clean_notice = map_option TrackedSubscribe (psub_notice p), clean_replay = True\<rparr>)"
    by (auto simp: fun_eq_iff)
  then show ?thesis
    unfolding clean_subscribes_def run_andThen_simps es_def [symmetric] run by (simp add: free_ids_fields)
qed

lemma run_clean_unsubscribes:
  assumes "releasable (map fst (pending_unsubscribe s)) s"
  shows "clean_unsubscribes B keep s =
    (Ok (map cleaned_unsubscribe (pending_unsubscribe s)),
     (if keep then s else free_ids B (map fst (pending_unsubscribe s)) s)\<lparr>pending_unsubscribe := []\<rparr>)"
proof -
  define es where "es = pending_unsubscribe s"
  let ?s = "s\<lparr>pending_unsubscribe := []\<rparr>"
  have "distinct (map fst es)" "unat ` fst ` set es \<subseteq> bits B (outbound_pkid_in_use ?s)" "0 \<notin> fst ` set es"
      "length es \<le> unat (outbound_pkid_count ?s)"
    using assms by (simp_all add: releasable_def es_def)
  note run = run_release_pending [OF this]
  have "cleaned_unsubscribe = (\<lambda>(k, p). \<lparr>clean_request = ReqUnsubscribe ((punsub_unsubscribe p)\<lparr>unsubscribe_pkid := k\<rparr>),
            clean_notice = map_option TrackedUnsubscribe (punsub_notice p), clean_replay = True\<rparr>)"
    by (auto simp: fun_eq_iff)
  then show ?thesis
    unfolding clean_unsubscribes_def run_andThen_simps es_def [symmetric] run by (simp add: free_ids_fields)
qed

lemma cleaned_state_inv:
  assumes "state_inv B Q s"
  shows "state_inv B (if keep then Q \<union> occupied (outgoing_pub s) \<union> subscribe_ids s \<union> unsubscribe_ids s else Q)
    (cleaned_state B keep s)"
proof -
  note inv = state_invD [OF assms]
  note excl = inv(2) [unfolded owners_inv_def, THEN conjunct1]
  note rel = released_ids_facts [OF assms]
  note orders = inv(4) [unfolded orders_inv_def order_inv_def]
  have sub: "unat ` set (released_ids s) \<subseteq> {..<bs_len B (outbound_pkid_in_use s)}"
    using rel(2) bits_bound by fastforce
  note freed = bs_without_all_simps [OF sub]
  have "unat ` set (outgoing_rel_order s) \<subseteq> {..<bs_len B (outgoing_rel_replay s)}"
    using orders bits_bound [of _ "outgoing_rel s"] inv(1) by (auto simp: sizes_inv_def)
  note replayed = bs_with_all_simps [OF this]
  have count: "unat (outbound_pkid_count s - word_of_nat (length (released_ids s)))
      = card (bits B (outbound_pkid_in_use s) - unat ` set (released_ids s))"
  proof -
    have "card (unat ` set (released_ids s)) = length (released_ids s)"
      using rel(1) by (simp add: card_image inj_on_def word_unat_eq_iff distinct_card)
    then show ?thesis
      using unat_minus_nat [OF rel(4)] inv(2) rel(2) by (simp add: card_Diff_subset owners_inv_def)
  qed
  have replay_order: "order_inv (outgoing_rel_replay_order s @ outgoing_rel_order s)
      (unat ` set (outgoing_rel_order s) \<union> bits B (outgoing_rel_replay s))"
    using orders rel_orders_disjoint [OF assms] by (simp add: order_inv_def image_Un Un_commute Int_commute)
  show ?thesis
    unfolding cleaned_state_def
  proof (rule state_invI, goal_cases)
    case 1 then show ?case using inv(1) freed replayed by (simp add: sizes_inv_def bs_simps free_ids_fields)
  next
    case 2 then show ?case
      using inv(2) freed replayed orders count rel(5) exclusive_clean [OF excl]
      by (simp add: owners_inv_def bs_simps free_ids_fields)
  next
    case 3 then show ?case using orders by (simp add: window_inv_def bs_simps)
  next
    case 4 then show ?case using orders replayed replay_order by (simp add: orders_inv_def bs_simps)
  next
    case 5 then show ?case using inv(5) orders by (auto simp: slots_inv_def bs_simps)
  next
    case 8 then show ?case using inv(8) by (simp add: incoming_inv_def free_ids_fields)
  qed (simp_all add: inv_defs)
qed

lemma run_clean:
  assumes "state_inv B Q s"
  shows "clean_with_notices_internal B keep s =
    (Ok (cleaned_requests s),
     if cleaned_requests s = [] then maybe_shrink_outgoing_tracking_capacity B (cleaned_state B keep s)
     else cleaned_state B keep s)"
proof -
  let ?ps = "outgoing_pub_order s" and ?ss = "map fst (pending_subscribe s)" and ?us = "map fst (pending_unsubscribe s)"
  have all: "releasable (?ps @ ?ss @ ?us) s"
    using releasable_ids [OF assms] by (simp add: released_ids_def)
  note r1 = releasable_append(2) [OF all]
  note r2 = releasable_append [OF r1]
  have rs: "releasable ?ss s" "releasable ?us s"
    using all by (simp_all add: releasable_def image_Un)
  define s1 where "s1 = (if keep then s else free_ids B ?ps s)
       \<lparr>outgoing_pub := clear_slots ?ps (outgoing_pub s), outgoing_pub_order := [],
        outgoing_pub_notice := clear_slots ?ps (outgoing_pub_notice s)\<rparr>"
  define s2 where "s2 = s1\<lparr>collision := None, collision_notice := None\<rparr>"
  define s3 where "s3 = s2\<lparr>outgoing_rel := bs_clear B (outgoing_rel s), outgoing_rel_order := [],
       outgoing_rel_replay := bs_with_all B (outgoing_rel_order s) (outgoing_rel_replay s),
       outgoing_rel_replay_order := outgoing_rel_replay_order s @ outgoing_rel_order s,
       outgoing_rel_notice := clear_slots (outgoing_rel_order s) (outgoing_rel_notice s)\<rparr>"
  define s4 where "s4 = (if keep then s3 else free_ids B ?ss s3)\<lparr>pending_subscribe := []\<rparr>"
  define s5 where "s5 = (if keep then s4 else free_ids B ?us s4)\<lparr>pending_unsubscribe := []\<rparr>"
  have fields: "pending_subscribe s3 = pending_subscribe s" "pending_unsubscribe s4 = pending_unsubscribe s"
      "cleaned_collision s1 = cleaned_collision s" "cleaned_pubrel s2 = cleaned_pubrel s"
      "outgoing_rel s2 = outgoing_rel s" "outgoing_rel_order s2 = outgoing_rel_order s"
      "outgoing_rel_replay s2 = outgoing_rel_replay s" "outgoing_rel_notice s2 = outgoing_rel_notice s"
      "outgoing_rel_replay_order s2 = outgoing_rel_replay_order s"
    by (simp_all add: s4_def s3_def s2_def s1_def free_ids_fields cleaned_collision_def cleaned_pubrel_def fun_eq_iff
        split: option.split)
  have "collision s1 = None \<longrightarrow> collision_notice s1 = None"
    using state_invD(6) [OF assms] by (cases keep) (auto simp: s1_def free_ids_fields collision_inv_def)
  note run2 = run_clean_collision [OF this, folded s2_def, unfolded fields]
  note orders = state_invD(4) [OF assms, unfolded orders_inv_def order_inv_def]
  have "unat k < length (outgoing_rel_notice s) \<and> unat k < bs_len B (outgoing_rel_replay s)"
    if "k \<in> set (outgoing_rel_order s)" for k
    using released_range(3,5) [OF assms, of k] orders that by auto
  then have "distinct (outgoing_rel_order s2)" "set (outgoing_rel_order s2) \<inter> set (outgoing_rel_replay_order s2) = {}"
      "\<forall>k \<in> set (outgoing_rel_order s2).
        unat k < length (outgoing_rel_notice s2) \<and> unat k < bs_len B (outgoing_rel_replay s2)"
    using orders rel_orders_disjoint [OF assms] by (simp_all add: fields)
  note run3 = run_clean_pubrels [OF this, unfolded fields, folded s3_def]
  have "releasable (map fst (pending_subscribe s3)) s3"
    using rs r2 by (simp add: fields) (simp add: s3_def s2_def s1_def free_ids_fields releasable_def)
  note run4 = run_clean_subscribes [OF this, where keep = keep, unfolded fields, folded s4_def]
  have "releasable (map fst (pending_unsubscribe s4)) s4"
    using rs r2 by (simp add: fields) (simp add: s4_def s3_def s2_def s1_def free_ids_fields releasable_def)
  note run5 = run_clean_unsubscribes [OF this, where keep = keep, unfolded fields, folded s5_def]
  have "s5\<lparr>incoming_puback := bs_clear B (incoming_puback s5), ping := PingState_new, inflight := 0\<rparr> = cleaned_state B keep s"
    by (simp add: s5_def s4_def s3_def s2_def s1_def cleaned_state_def free_ids_fields released_ids_def
        bs_without_all_def diff_diff_eq)
  moreover have "inflight_update (\<lambda>_. 0) (ping_update PingState_reset (incoming_puback_update (bs_clear B) s5))
      = s5\<lparr>incoming_puback := bs_clear B (incoming_puback s5), ping := PingState_new, inflight := 0\<rparr>"
    by (cases s5) (simp add: PingState_reset_def)
  ultimately have fin: "inflight_update (\<lambda>_. 0) (ping_update PingState_reset (incoming_puback_update (bs_clear B) s5))
      = cleaned_state B keep s"
    by simp
  note run1 = run_clean_publishes [OF assms, where keep = keep, folded s1_def]
  show ?thesis
    unfolding clean_with_notices_internal_def andThen_def run_adopt_orders [OF assms] run1 prod.case outcome.case
      run2 run3 run4 run5 Let_def cleaned_requests_def [symmetric]
    by (simp add: fin run_ret)
qed

lemma clean_keeps_inv:
  assumes "state_inv B Q s"
  shows "keeps_inv B Q (if keep then Q \<union> occupied (outgoing_pub s) \<union> subscribe_ids s \<union> unsubscribe_ids s else Q)
    (clean_with_notices_internal B keep) s"
  using cleaned_state_inv [OF assms, of keep] shrink_inv [OF cleaned_state_inv [OF assms, of keep]]
  by (simp add: keeps_inv_def wp_def run_clean [OF assms])

end

end
