(* ===== verification/V4_State_Reset.thy ===== *)
theory V4_State_Reset
  imports V4_State_Clean
begin

text \<open>
  Draining the tracked requests, failing the pending notices and resetting the session of the
  MQTT 3.1.1 client state, and what the state reports of itself.
\<close>

section \<open>Draining and resetting\<close>

text \<open>The notices that draining and resetting fail, in their order.\<close>

definition drained_notices :: "NoticeFailureReason \<Rightarrow> 'b MqttState \<Rightarrow> NoticeSent list" where
  "drained_notices reason s =
     map (\<lambda>tx. SubscribeNoticeTx_error tx (subscribe_error reason))
       (List.map_filter (\<lambda>(k, p). psub_notice p) (pending_subscribe s))
     @ map (\<lambda>tx. UnsubscribeNoticeTx_error tx (unsubscribe_error reason))
       (List.map_filter (\<lambda>(k, p). punsub_notice p) (pending_unsubscribe s))"

definition reset_notices :: "'b MqttState \<Rightarrow> NoticeSent list" where
  "reset_notices s = fail_slots (outgoing_pub_notice s) @ fail_slots (outgoing_rel_notice s)
     @ fail_slots [collision_notice s] @ drained_notices FailSessionReset s"

definition silenced :: "'b MqttState \<Rightarrow> 'b MqttState" where
  "silenced s = s\<lparr>outgoing_pub_notice := map (\<lambda>_. None) (outgoing_pub_notice s),
      outgoing_rel_notice := map (\<lambda>_. None) (outgoing_rel_notice s),
      notices_sent := notices_sent s @ fail_slots (outgoing_pub_notice s)
        @ fail_slots (outgoing_rel_notice s) @ fail_slots [collision_notice s],
      collision_notice := None\<rparr>"

context fixed_bitset begin

lemma run_drain_loop:
  assumes "releasable (map fst entries) s"
  shows "for_each (\<lambda>(k, p). andThen (release_outbound_pkid B k) (\<lambda>_.
      case g p of Some notice \<Rightarrow> send_notice (h notice) | None \<Rightarrow> ret ())) entries s
    = (Ok (), (free_ids B (map fst entries) s)\<lparr>notices_sent := notices_sent s
        @ map h (List.map_filter (\<lambda>(k, p). g p) entries)\<rparr>)"
  using assms
proof (induction entries arbitrary: s)
  case Nil
  then show ?case by (simp add: run_simps free_ids_def map_filter_simps)
next
  case (Cons e entries)
  obtain k p where e: "e = (k, p)"
    by (cases e)
  have "releasable ([k] @ map fst entries) s"
    using Cons.prems by (simp add: e)
  note rel = releasable_append [OF this]
  have k: "unat k \<in> bits B (outbound_pkid_in_use s)" "k \<noteq> 0" "0 < unat (outbound_pkid_count s)"
    using rel(1) by (simp_all add: releasable_def)
  define t where "t = (free_id B k s)\<lparr>notices_sent := notices_sent s @ (case g p of Some n \<Rightarrow> [h n] | None \<Rightarrow> [])\<rparr>"
  have "releasable (map fst entries) t"
    using rel(2) by (simp add: releasable_def t_def free_ids_def)
  note IH = Cons.IH [OF this]
  have "free_ids B (map fst entries) t = (free_ids B (k # map fst entries) s)\<lparr>notices_sent := notices_sent t\<rparr>"
    by (simp add: t_def free_ids_fields free_id_def bs_without_all_def diff_diff_eq)
  moreover have "notices_sent t = notices_sent s @ (case g p of Some n \<Rightarrow> [h n] | None \<Rightarrow> [])"
    by (simp add: t_def)
  moreover have "g p = None \<Longrightarrow> free_id B k s = t"
      "g p = Some n \<Longrightarrow> notices_sent_update (\<lambda>ns. ns @ [h n]) (free_id B k s) = t" for n
    by (simp_all add: t_def free_id_def)
  ultimately show ?case
    using IH by (cases "g p") (simp_all add: e exec_release k andThen_assoc map_filter_simps)
qed

lemma exec_drain_loop:
  assumes "releasable (map fst entries) s"
  shows "andThen (for_each (\<lambda>(k, p). andThen (release_outbound_pkid B k) (\<lambda>_.
      case g p of Some notice \<Rightarrow> send_notice (h notice) | None \<Rightarrow> ret ())) entries) f s
    = f () ((free_ids B (map fst entries) s)\<lparr>notices_sent := notices_sent s
        @ map h (List.map_filter (\<lambda>(k, p). g p) entries)\<rparr>)"
  using run_drain_loop [OF assms] by (rule andThen_Ok)

definition drained_state :: "NoticeFailureReason \<Rightarrow> 'b MqttState \<Rightarrow> 'b MqttState" where
  "drained_state reason s =
     (free_ids B (map fst (pending_subscribe s) @ map fst (pending_unsubscribe s)) s)
       \<lparr>pending_subscribe := [], pending_unsubscribe := [],
        notices_sent := notices_sent s @ drained_notices reason s\<rparr>"

lemma releasable_pending:
  assumes "state_inv B Q s"
  shows "releasable (map fst (pending_subscribe s) @ map fst (pending_unsubscribe s)) s"
  using releasable_ids [OF assms] by (simp add: releasable_def released_ids_def image_Un)

lemma run_drain:
  assumes "state_inv B Q s"
  shows "drain_tracked_requests_as_failed B reason s =
    (Ok (length (pending_subscribe s) + length (pending_unsubscribe s)),
     maybe_shrink_outgoing_tracking_capacity B (drained_state reason s))"
proof -
  define s1 where "s1 = s\<lparr>pending_subscribe := []\<rparr>"
  define s2 where "s2 = (free_ids B (map fst (pending_subscribe s)) s1)\<lparr>notices_sent := notices_sent s1
        @ map (\<lambda>tx. SubscribeNoticeTx_error tx (subscribe_error reason))
            (List.map_filter (\<lambda>(k, p). psub_notice p) (pending_subscribe s))\<rparr>"
  define s3 where "s3 = s2\<lparr>pending_unsubscribe := []\<rparr>"
  note rel = releasable_append [OF releasable_pending [OF assms]]
  have "releasable (map fst (pending_subscribe s)) s1" "releasable (map fst (pending_unsubscribe s)) s3"
    using rel by (simp_all add: releasable_def s1_def s2_def s3_def free_ids_fields)
  note run1 = exec_drain_loop [OF this(1), where g = psub_notice and h = "\<lambda>tx. SubscribeNoticeTx_error tx (subscribe_error reason)", folded s2_def]
    and run2 = exec_drain_loop [OF this(2), where g = punsub_notice and h = "\<lambda>tx. UnsubscribeNoticeTx_error tx (unsubscribe_error reason)"]
  have fields: "pending_unsubscribe s2 = pending_unsubscribe s" "pending_subscribe_update (\<lambda>_. []) s = s1"
      "pending_unsubscribe_update (\<lambda>_. []) s2 = s3"
    by (simp_all add: s1_def s2_def s3_def free_ids_fields)
  have fin: "(free_ids B (map fst (pending_unsubscribe s)) s3)\<lparr>notices_sent := notices_sent s3
        @ map (\<lambda>tx. UnsubscribeNoticeTx_error tx (unsubscribe_error reason))
            (List.map_filter (\<lambda>(k, p). punsub_notice p) (pending_unsubscribe s))\<rparr>
      = drained_state reason s"
    by (simp add: s1_def s2_def s3_def drained_state_def drained_notices_def free_ids_fields bs_without_all_def diff_diff_eq)
  show ?thesis
    unfolding drain_tracked_requests_as_failed_def run_andThen_simps fields
    unfolding run1 run_andThen_simps fields run2 fin by (simp add: run_ret)
qed

lemma exclusive_drain:
  assumes "exclusive P R RR S U Q I"
  shows "exclusive P R RR {} {} Q (I - (S \<union> U))"
proof -
  have "of_bool (i \<in> P) + of_bool (i \<in> R) + of_bool (i \<in> RR) + of_bool (i \<in> Q) = (of_bool (i \<in> I - (S \<union> U)) :: nat)" for i
    using assms [unfolded exclusive_def, rule_format, of i]
    by (cases "i \<in> I"; cases "i \<in> P"; cases "i \<in> R"; cases "i \<in> RR"; cases "i \<in> S"; cases "i \<in> U"; cases "i \<in> Q"; simp)
  then show ?thesis
    by (simp add: exclusive_def)
qed

lemma drained_state_inv:
  assumes "state_inv B Q s"
  shows "state_inv B Q (drained_state reason s)"
proof -
  define ks where "ks = map fst (pending_subscribe s) @ map fst (pending_unsubscribe s)"
  note inv = state_invD [OF assms]
  note excl = inv(2) [unfolded owners_inv_def, THEN conjunct1]
  have rel: "distinct ks" "unat ` set ks \<subseteq> bits B (outbound_pkid_in_use s)" "length ks \<le> unat (outbound_pkid_count s)"
    using releasable_pending [OF assms] by (simp_all add: releasable_def ks_def)
  have "unat ` set ks \<subseteq> {..<bs_len B (outbound_pkid_in_use s)}"
    using rel(2) bits_bound by fastforce
  note freed = bs_without_all_simps [OF this]
  have "card (unat ` set ks) = length ks"
    using rel(1) by (simp add: card_image inj_on_def word_unat_eq_iff distinct_card)
  then have count: "unat (outbound_pkid_count s - word_of_nat (length ks)) = card (bits B (outbound_pkid_in_use s) - unat ` set ks)"
    using unat_minus_nat [OF rel(3)] inv(2) rel(2) by (simp add: card_Diff_subset owners_inv_def)
  have ids: "unat ` set ks = subscribe_ids s \<union> unsubscribe_ids s"
    by (simp add: ks_def image_Un)
  show ?thesis
    unfolding drained_state_def ks_def [symmetric]
  proof (rule state_invI, goal_cases)
    case 2 then show ?case
      using inv(2) freed count exclusive_drain [OF excl] by (simp add: owners_inv_def free_ids_fields ids)
  qed (use inv freed in \<open>simp_all add: inv_defs free_ids_fields cong: option.case_cong\<close>)
qed

lemma drain_keeps_inv:
  assumes "state_inv B Q s"
  shows "keeps_inv B Q Q (drain_tracked_requests_as_failed B reason) s"
  using shrink_inv [OF drained_state_inv [OF assms]] by (simp add: keeps_inv_def wp_def run_drain [OF assms])

section \<open>The end of a session\<close>

lemma shrink_fields [simp]:
  "max_inflight (maybe_shrink_outgoing_tracking_capacity B s) = max_inflight s"
  "ack_mode (maybe_shrink_outgoing_tracking_capacity B s) = ack_mode s"
  "notices_sent (maybe_shrink_outgoing_tracking_capacity B s) = notices_sent s"
  by (simp_all add: maybe_shrink_outgoing_tracking_capacity_def Let_def)

definition failed_state :: "'b MqttState \<Rightarrow> 'b MqttState" where
  "failed_state s = maybe_shrink_outgoing_tracking_capacity B (clear_collision
     (maybe_shrink_outgoing_tracking_capacity B (drained_state FailSessionReset (silenced s))))"

lemma occupied_map_None [simp]: "occupied (map (\<lambda>_. None) xs) = {}"
  by (auto simp: occupied_def)

lemma silenced_inv:
  assumes "state_inv B Q s"
  shows "state_inv B Q (silenced s)"
  using state_invD [OF assms]
  by (intro state_invI) (simp_all add: silenced_def inv_defs cong: option.case_cong split: option.splits)

lemma cleared_collision_inv: "state_inv B Q s \<Longrightarrow> state_inv B Q (clear_collision s)"
  using clear_collision_inv [of Q s] state_inv_frame(2) [of Q _ "s\<lparr>collision := None, collision_notice := None\<rparr>"]
  by (simp add: clear_collision_def)

lemma failed_state_inv: "state_inv B Q s \<Longrightarrow> state_inv B Q (failed_state s)"
  unfolding failed_state_def by (intro shrink_inv cleared_collision_inv drained_state_inv silenced_inv)

lemma failed_state_fields:
  "max_inflight (failed_state s) = max_inflight s" "ack_mode (failed_state s) = ack_mode s"
  "notices_sent (failed_state s) = notices_sent s @ reset_notices s"
  by (simp_all add: failed_state_def clear_collision_def drained_state_def silenced_def reset_notices_def
      drained_notices_def free_ids_fields)

lemma run_fail_pending:
  assumes "state_inv B Q s"
  shows "fail_pending_notices B s = (Ok (), failed_state s)"
proof -
  note run = run_drain [OF silenced_inv [OF assms], unfolded silenced_def]
  show ?thesis
    by (simp add: fail_pending_notices_def andThen_def run run_simps failed_state_def silenced_def)
qed

lemma run_reset:
  assumes "state_inv B Q s"
  shows "reset_session_state B now s =
    (Ok (), (new_internal B now (max_inflight s) (ack_mode s))\<lparr>notices_sent := notices_sent s @ reset_notices s\<rparr>)"
  by (simp add: reset_session_state_def andThen_def run_fail_pending [OF assms] failed_state_fields)

lemma reset_keeps_inv:
  assumes "state_inv B Q s"
  shows "keeps_inv B Q {} (reset_session_state B now) s"
  by (simp add: keeps_inv_def wp_def run_reset [OF assms] state_inv_frame new_internal_inv)

section \<open>Diagnostics\<close>

lemma count_some_zero: "count_some xs = 0 \<longleftrightarrow> occupied xs = {}"
  by (auto simp: count_some_def occupied_def filter_empty_conv in_set_conv_nth dest: nth_mem)

lemma list_all_None: "list_all (\<lambda>x. x = None) xs \<longleftrightarrow> occupied xs = {}"
  by (auto simp: list_all_length occupied_def)

lemma diagnostics_drained:
  assumes "state_inv B Q s"
  shows "diag_outbound_drained (outbound_diagnostics B s) \<longleftrightarrow> outbound_requests_drained B s"
  using state_invD(4) [OF assms]
  by (auto simp: outbound_diagnostics_def outbound_requests_drained_def Let_def count_some_zero list_all_None
      orders_inv_def ones_Nil unat_eq_0 order_inv_empty)

lemma card_occupied_count: "card (occupied xs) = count_some xs"
proof -
  have "occupied xs = {i. i < length xs \<and> (\<lambda>x. x \<noteq> None) (xs ! i)}"
    by (simp add: occupied_def)
  then show ?thesis
    by (simp only: count_some_def length_filter_conv_card)
qed

end

end
