(* ===== verification/V4_State_Props.thy ===== *)
theory V4_State_Props
  imports V4_State_Reset
begin

text \<open>
  The properties of the MQTT 3.1.1 client state as its users see it: the states that the public
  operations of \<open>MqttState\<close> can reach, and what holds in all of them.
\<close>

section \<open>Reachable states\<close>

text \<open>
  A client state used on its own, through the public operations of \<open>MqttState\<close>. An operation that
  fails leaves the state it has reached. The two graceful disconnect requests belong to the event
  loop: the state refuses them with a panic.
\<close>

inductive state_reach :: "'b bitset_ops \<Rightarrow> 'b MqttState \<Rightarrow> bool" for B :: "'b bitset_ops" where
  reach_build: "state_reach B (MqttStateBuilder_build B now builder)"
| reach_incoming: "state_reach B s \<Longrightarrow> state_reach B (snd (handle_incoming_packet B now packet s))"
| reach_outgoing: "\<lbrakk>state_reach B s; \<not> graceful_disconnect request\<rbrakk>
    \<Longrightarrow> state_reach B (snd (handle_outgoing_packet B now request s))"
| reach_clean: "\<lbrakk>state_reach B s; MqttState_clean B s = (r :: (StateError, Request list) outcome, t)\<rbrakk>
    \<Longrightarrow> state_reach B t"
| reach_drain: "\<lbrakk>state_reach B s; drain_tracked_requests_as_failed B reason s = (r :: (StateError, nat) outcome, t)\<rbrakk>
    \<Longrightarrow> state_reach B t"
| reach_clear_collision: "state_reach B s \<Longrightarrow> state_reach B (clear_collision s)"

inductive_cases state_reachE: "state_reach B s"

lemma keeps_inv_snd: "keeps_inv B Q Q m s \<Longrightarrow> state_inv B Q (snd (m s))"
  by (auto simp: keeps_inv_def wp_def split: prod.splits outcome.splits)

lemma keeps_inv_no_panic: "keeps_inv B Q Q' m s \<Longrightarrow> fst (m s) \<noteq> Panic"
  by (auto simp: keeps_inv_def wp_def split: prod.splits outcome.splits)

lemma find_upt_first: "i < j \<Longrightarrow> find (\<lambda>_. True) [i..<j] = Some i"
  by (simp add: upt_conv_Cons)

context fixed_bitset begin

lemma keeps_inv_clean:
  assumes "state_inv B Q s"
  shows "keeps_inv B Q Q (MqttState_clean B) s"
  using clean_keeps_inv [OF assms, of False]
  by (simp add: MqttState_clean_def clean_with_notices_def keeps_inv_def wp_simps)

lemma reach_inv: "state_reach B s \<Longrightarrow> state_inv B {} s"
proof (induction rule: state_reach.induct)
  case (reach_build now builder)
  then show ?case by (simp add: MqttStateBuilder_build_def new_internal_inv)
next
  case (reach_incoming s now packet)
  show ?case by (rule keeps_inv_snd [OF keeps_inv_handle_incoming [OF reach_incoming.IH]])
next
  case (reach_outgoing s request now)
  show ?case by (rule keeps_inv_snd [OF keeps_inv_handle_outgoing [OF reach_outgoing.IH reach_outgoing.hyps(2)]])
next
  case (reach_clean s r t)
  show ?case using keeps_inv_snd [OF keeps_inv_clean [OF reach_clean.IH]] reach_clean.hyps(2) by (metis snd_conv)
next
  case (reach_drain s reason r t)
  show ?case using keeps_inv_snd [OF drain_keeps_inv [OF reach_drain.IH]] reach_drain.hyps(2) by (metis snd_conv)
next
  case (reach_clear_collision s)
  then show ?case by (simp add: cleared_collision_inv)
qed

lemma next_free_find:
  assumes "state_inv B Q s"
  shows "next_free_outbound_pkid_after B s last_id =
    map_option word_of_nat (find (\<lambda>i. \<not> bs_contains B (outbound_pkid_in_use s) i)
      ([unat last_id + 1..<65536] @ [1..<unat last_id + 1]))"
proof (cases "outbound_pkid_count s < 65535")
  case True
  then show ?thesis
    using next_free_eq [OF incoming_lens(4) [OF assms]] by (simp add: bits_contains)
next
  case False
  let ?I = "bits B (outbound_pkid_in_use s)"
  have full: "outbound_pkid_count s = 65535"
    using False unat_u16_bounds(2) [of "outbound_pkid_count s"] by (simp add: word_less_nat_alt word_unat_eq_iff)
  have "?I \<subseteq> {1..<65536}"
    using bits_bound [of _ "outbound_pkid_in_use s"] incoming_lens(4) [OF assms] state_invD(2) [OF assms]
    by (auto simp: owners_inv_def Suc_le_eq intro: gr0I)
  moreover have "card ?I = card {1..<65536::nat}"
    using state_invD(2) [OF assms] full by (simp add: owners_inv_def)
  ultimately have "?I = {1..<65536}"
    by (intro card_subset_eq) simp_all
  then have "find (\<lambda>i. i \<notin> ?I) ([unat last_id + 1..<65536] @ [1..<unat last_id + 1]) = None"
    using unat_u16_bounds(1) [of last_id] by (auto simp: find_None_iff simp del: unat_u16_bound)
  then show ?thesis
    using full by (simp add: next_free_outbound_pkid_after_def control_packet_identifier_available_def bits_contains)
qed

lemma run_admitted_publish:
  assumes "state_inv B Q s" "can_send_publish B s p" "publish_pkid p = 0" "publish_qos p \<noteq> AtMostOnce"
  obtains k t where "outgoing_publish_with_notice_internal B p n False s
      = (Ok (Some (PktPublish (p\<lparr>publish_pkid := k\<rparr>)), None), t)"
    "next_publish_pkid B s = Some k" "k \<noteq> 0" "unat k \<notin> bits B (outbound_pkid_in_use s)"
    "outgoing_pub t ! unat k = Some (p\<lparr>publish_pkid := k\<rparr>)" "unat k < length (outgoing_pub t)"
    "inflight t = inflight s + 1" "unat k \<in> bits B (outbound_pkid_in_use t)"
proof -
  have window: "inflight s < max_inflight s" and "next_publish_pkid B s \<noteq> None"
    using assms(2-4) by (auto simp: can_send_publish_def not_le split: if_splits)
  then obtain k where k: "next_publish_pkid B s = Some k"
    by blast
  note fresh = next_publish_pkid_fresh [OF assms(1) k]
  let ?s = "s\<lparr>last_pkid := k\<rparr>" and ?p = "p\<lparr>publish_pkid := k\<rparr>"
  define u where "u = ensure_outgoing_tracking_capacity B (unat k + 1) ?s"
  have inv: "state_inv B Q ?s"
    using assms(1) by (simp add: state_inv_frame)
  have le: "unat k + 1 \<le> 65536"
    using unat_u16_bounds(2) [of k] by linarith
  note keep = ensure_capacity_keeps [OF state_invD(1) [OF inv] le, folded u_def]
  have lens: "bs_len B (outbound_pkid_in_use s) = 65536"
    using incoming_lens(4) [OF assms(1)] .
  note free = publish_slot_free [OF assms(1) fresh(2)]
  have run: "outgoing_publish_with_notice_internal B p n False s =
      (Ok (Some (PktPublish ?p), None),
        (store_publish ?p n (assign_id B k u))\<lparr>events := events s @ [EvOutgoing (OutPublish k)]\<rparr>)"
    using run_fresh_publish [OF assms(3,4) window] k fresh free window assms(4)
      run_store_publish [OF inv, of ?p k n False, folded u_def]
    by simp
  show ?thesis
    by (rule that [OF run k fresh])
      (use keep lens in \<open>simp_all add: store_publish_def assign_id_def bs_simps\<close>)
qed

end

section \<open>An example state\<close>

text \<open>A new state after one QoS 1 publish, with the concrete bit set.\<close>

definition example_publish :: Publish where
  "example_publish = (Publish_new [97] AtLeastOnce [])\<lparr>publish_pkid := 1\<rparr>"

definition example_state :: "(nat \<times> nat) MqttState" where
  "example_state = snd (handle_outgoing_packet nat_bitset 0 (ReqPublish example_publish)
     (MqttStateBuilder_build nat_bitset 0 (MqttStateBuilder_new 10)))"

lemma example_reach: "state_reach nat_bitset example_state"
  unfolding example_state_def by (rule reach_outgoing [OF reach_build]) simp

lemma example_publish_run:
  "outgoing_publish_with_notice nat_bitset example_publish None (new_internal nat_bitset 0 10 mode)
   = (Ok (Some (PktPublish example_publish), None),
      (store_publish example_publish None (assign_id nat_bitset 1 (new_internal nat_bitset 0 10 mode)))\<lparr>events := [EvOutgoing (OutPublish 1)]\<rparr>)"
proof -
  let ?s = "new_internal nat_bitset 0 10 mode"
  have p: "publish_pkid example_publish = 1" "publish_qos example_publish \<noteq> AtMostOnce"
    by (simp_all add: example_publish_def Publish_new_def)
  have len: "length (outgoing_pub ?s) = 11" 
    by (simp add: new_internal_def Let_def warm_tracking_len_def outgoing_tracking_len_def WARM_TRACKING_SLOTS_def)
  have s: "inflight ?s < max_inflight ?s" "occupied (outgoing_pub ?s) = {}" "bits nat_bitset (outgoing_rel ?s) = {}"
    "bits nat_bitset (outgoing_rel_replay ?s) = {}" "pending_subscribe ?s = []" "pending_unsubscribe ?s = []"
    "bits nat_bitset (outbound_pkid_in_use ?s) = {}" "events ?s = []"
    by (simp_all add: new_internal_def Let_def bits_def)
  have ens: "ensure_outgoing_tracking_capacity nat_bitset (unat (1::u16) + 1) ?s = ?s"
    using nat_bits.ensure_capacity_fields [OF state_invD(1) [OF nat_bits.new_internal_inv], of 2 0 10 mode] len by (simp add: numeral_2_eq_2)
  note run = nat_bits.run_store_publish [OF nat_bits.new_internal_inv p(1) _ p(2) s(1), of None False, unfolded ens]
  show ?thesis
    using p s by (simp add: andThen_def outgoing_publish_with_notice_def run run_simps)
qed

lemma example_state_eq:
  "example_state = (store_publish example_publish None (assign_id nat_bitset 1 (new_internal nat_bitset 0 10 Automatic)))
     \<lparr>events := [EvOutgoing (OutPublish 1)], last_outgoing := 0\<rparr>"
  unfolding example_state_def MqttStateBuilder_build_def MqttStateBuilder_new_def handle_outgoing_packet_def
      handle_outgoing_packet_with_notice_def handle_outgoing_packet_with_notice_internal_def
  by (simp add: andThen_def example_publish_run run_simps)

lemma example_inv: "state_inv nat_bitset {} example_state"
  by (rule nat_bits.reach_inv [OF example_reach])

lemmas example_simps = example_state_eq example_publish_def Publish_new_def store_publish_def assign_id_def
  new_internal_def Let_def warm_tracking_len_def outgoing_tracking_len_def WARM_TRACKING_SLOTS_def

section \<open>Properties of every reachable state\<close>

text \<open>
  C1: In every state the public operations can reach, the invariant holds with no identifier owned
  outside the state: each outbound packet identifier in use has exactly one owner (a stored
  publish, a released publish, a PUBREL to be replayed, a pending SUBSCRIBE or UNSUBSCRIBE), the
  count of identifiers in use is exact, the window of publishes in flight is respected, the order
  queues list exactly the tracked identifiers, and the tracking vectors have a common length.
\<close>

theorem reachable_state_inv:
  assumes "fixed_bitset B" "state_reach B s"
  shows "state_inv B {} s"
  using fixed_bitset.reach_inv [OF assms] .

theorem reachable_state_inv_witness:
  "state_inv nat_bitset {} (snd (handle_outgoing_packet nat_bitset 5 (ReqPublish (Publish_new [97] AtLeastOnce []))
     (MqttStateBuilder_build nat_bitset 0 (MqttStateBuilder_new 10))))"
  by (rule reachable_state_inv [OF nat_bits.fixed_bitset_axioms reach_outgoing [OF reach_build]]) simp





text \<open>
  C16: The block-wise scan for a packet identifier finds the first free identifier after the last
  one, going on from 1 after 65535, and finds none exactly when all 65535 identifiers are in use.
\<close>

theorem next_free_identifier:
  assumes "fixed_bitset B" "state_inv B Q s"
  shows "next_free_outbound_pkid_after B s last_id =
    map_option word_of_nat (find (\<lambda>i. \<not> bs_contains B (outbound_pkid_in_use s) i)
      ([unat last_id + 1..<65536] @ [1..<unat last_id + 1]))"
  using fixed_bitset.next_free_find [OF assms] .

theorem next_free_identifier_witness:
  "next_free_outbound_pkid_after nat_bitset (new_internal nat_bitset 0 10 Automatic) 65534 = Some 65535"
  using next_free_identifier [OF nat_bits.fixed_bitset_axioms nat_bits.new_internal_inv, of 0 10 Automatic 65534]
  by (simp add: new_internal_def Let_def)



text \<open>
  C13: When the connection is lost nothing is lost: cleaning the state returns every stored publish in
  the order of sending with the DUP flag set, the held publish, every unfinished release, and every
  pending SUBSCRIBE and UNSUBSCRIBE, one request for each of them with its notice; the packet
  identifiers stay in use, owned by the returned requests, and the window is empty.
\<close>

theorem clean_for_reconnect:
  assumes "fixed_bitset B" "state_inv B Q s"
  shows "\<exists>t. clean_with_notices_for_reconnect B s = (Ok (cleaned_requests s) :: (StateError, CleanRequest list) outcome, t)
    \<and> state_inv B (Q \<union> occupied (outgoing_pub s) \<union> subscribe_ids s \<union> unsubscribe_ids s) t
    \<and> outbound_pkid_in_use t = outbound_pkid_in_use s \<and> inflight t = 0
    \<and> length (cleaned_requests s) = unat (inflight s) + of_bool (collision s \<noteq> None)
        + pending_subscribe_len s + pending_unsubscribe_len s"
proof -
  note inv = state_invD [OF assms(2)]
  let ?t = "if cleaned_requests s = [] then maybe_shrink_outgoing_tracking_capacity B (cleaned_state B True s)
     else cleaned_state B True s"
  have "state_inv B (Q \<union> occupied (outgoing_pub s) \<union> subscribe_ids s \<union> unsubscribe_ids s) ?t"
    using fixed_bitset.cleaned_state_inv [OF assms, of True] fixed_bitset.shrink_inv [OF assms(1)] by simp
  moreover have "outbound_pkid_in_use ?t = outbound_pkid_in_use s" "inflight ?t = 0"
    by (simp_all add: cleaned_state_def maybe_shrink_outgoing_tracking_capacity_def Let_def)
  moreover have "length (cleaned_requests s) = unat (inflight s) + of_bool (collision s \<noteq> None)
        + pending_subscribe_len s + pending_unsubscribe_len s"
    using inv(3,4) order_length [of "outgoing_pub_order s" "occupied (outgoing_pub s)"]
      order_length [of "outgoing_rel_order s" "bits B (outgoing_rel s)"]
    by (simp add: cleaned_requests_def window_inv_def orders_inv_def cleaned_collision_def pending_subscribe_len_def
        pending_unsubscribe_len_def split: option.splits)
  ultimately show ?thesis
    using fixed_bitset.run_clean [OF assms, of True] by (auto simp: clean_with_notices_for_reconnect_def)
qed

theorem clean_for_reconnect_witness:
  "\<exists>t. clean_with_notices_for_reconnect nat_bitset example_state
    = (Ok [\<lparr>clean_request = ReqPublish (example_publish\<lparr>publish_dup := True\<rparr>), clean_notice = None, clean_replay = True\<rparr>]
        :: (StateError, CleanRequest list) outcome, t)
    \<and> inflight t = 0"
proof -
  have "cleaned_requests example_state =
      [\<lparr>clean_request = ReqPublish (example_publish\<lparr>publish_dup := True\<rparr>), clean_notice = None, clean_replay = True\<rparr>]"
    by (simp add: cleaned_requests_def cleaned_publish_def cleaned_collision_def example_simps new_notice_slots_with_len_def)
  then show ?thesis
    using clean_for_reconnect [OF nat_bits.fixed_bitset_axioms example_inv] by auto
qed

text \<open>
  C14: Resetting the session gives a new state with the same configuration, and fails every notice the
  old state held exactly once with the session-reset error: those of stored and released publishes,
  of the held publish, and of pending SUBSCRIBE and UNSUBSCRIBE requests.
\<close>

theorem reset_fails_notices:
  assumes "fixed_bitset B" "state_inv B Q s"
  shows "reset_session_state B now s =
    (Ok () :: (StateError, unit) outcome,
     (new_internal B now (max_inflight s) (ack_mode s))\<lparr>notices_sent := notices_sent s
        @ map (\<lambda>tx. PublishNoticeTx_error tx PublishSessionReset)
            (List.map_filter id (outgoing_pub_notice s @ outgoing_rel_notice s @ [collision_notice s]))
        @ map (\<lambda>tx. SubscribeNoticeTx_error tx (subscribe_error FailSessionReset))
            (List.map_filter (\<lambda>(k, p). psub_notice p) (pending_subscribe s))
        @ map (\<lambda>tx. UnsubscribeNoticeTx_error tx (unsubscribe_error FailSessionReset))
            (List.map_filter (\<lambda>(k, p). punsub_notice p) (pending_unsubscribe s))\<rparr>)"
proof -
  have app: "List.map_filter id (xs @ ys) = List.map_filter id xs @ List.map_filter id ys" for xs ys :: "PublishNoticeTx option list"
    by (simp add: List.map_filter_def)
  show ?thesis
    by (simp add: fixed_bitset.run_reset [OF assms] reset_notices_def drained_notices_def fail_slots_def app)
qed

theorem reset_fails_notices_witness:
  "max_inflight (snd (reset_session_state nat_bitset 0 example_state :: (StateError, unit) outcome \<times> _)) = 10"
  by (simp add: reset_fails_notices [OF nat_bits.fixed_bitset_axioms example_inv])
    (simp add: example_simps)

text \<open>
  C18: The three answers to whether the outbound side is drained agree: the field-wise test that guards
  the graceful disconnect, the count of packet identifiers in use, and the flag of the diagnostics.
\<close>

theorem drained_answers_agree:
  assumes "fixed_bitset B" "state_inv B Q s"
  shows "(outbound_requests_drained B s \<longleftrightarrow> outbound_pkid_count s = 0)
    \<and> (diag_outbound_drained (outbound_diagnostics B s) \<longleftrightarrow> outbound_requests_drained B s)"
  using fixed_bitset.drained_iff [OF assms] fixed_bitset.diagnostics_drained [OF assms] by simp

theorem drained_answers_agree_witness:
  "\<not> outbound_requests_drained nat_bitset example_state"
  using drained_answers_agree [OF nat_bits.fixed_bitset_axioms example_inv] by (simp add: example_simps)

end
