(* ===== verification/V4_State_Flow.thy ===== *)
theory V4_State_Flow
  imports V4_State_Props
begin

text \<open>
  An abstract view of the outbound side of the MQTT 3.1.1 client state: what each packet identifier
  is used for. The handlers of acknowledgements refine a table of the protocol on this view, which
  also shows that a cooperating broker can always drain the state. The inbound side delivers a
  QoS 2 publish once for each release.
\<close>

section \<open>The flow of each identifier\<close>

datatype Flow =
    Idle
  | Publishing Publish
  | Releasing
  | ReplayingRelease
  | Subscribing Subscribe
  | Unsubscribing Unsubscribe
  | Reserved

definition flow_of :: "'b bitset_ops \<Rightarrow> 'b MqttState \<Rightarrow> u16 \<Rightarrow> Flow" where
  "flow_of B s k =
     (case nth_opt (outgoing_pub s) (unat k) of
        Some (Some p) \<Rightarrow> Publishing p
      | _ \<Rightarrow>
        if bs_contains B (outgoing_rel s) (unat k) then Releasing
        else if bs_contains B (outgoing_rel_replay s) (unat k) then ReplayingRelease
        else case btree_get (pending_subscribe s) k of
          Some p \<Rightarrow> Subscribing (psub_subscribe p)
        | None \<Rightarrow>
          (case btree_get (pending_unsubscribe s) k of
             Some p \<Rightarrow> Unsubscribing (punsub_unsubscribe p)
           | None \<Rightarrow> if packet_identifier_in_use B s k then Reserved else Idle))"

text \<open>
  The protocol: what an acknowledgement of an identifier does to its flow, with the publish that
  waits for the identifier to become free. \<open>None\<close> is an acknowledgement that was not expected.
\<close>

definition freed_flow :: "Publish option \<Rightarrow> Flow" where
  "freed_flow waiting = (case waiting of Some c \<Rightarrow> Publishing c | None \<Rightarrow> Idle)"

fun flow_ack :: "Packet \<Rightarrow> Publish option \<Rightarrow> Flow \<Rightarrow> Flow option" where
  "flow_ack (PktPubAck _) waiting (Publishing _) = Some (freed_flow waiting)"
| "flow_ack (PktPubRec _) waiting (Publishing _) = Some Releasing"
| "flow_ack (PktPubComp _) waiting Releasing = Some (freed_flow waiting)"
| "flow_ack (PktSubAck suback) waiting (Subscribing sub) =
     (if length (return_codes suback) = length (subscribe_filters sub) then Some Idle else None)"
| "flow_ack (PktUnsubAck _) waiting (Unsubscribing _) = Some Idle"
| "flow_ack _ _ _ = None"

fun acked_pkid :: "Packet \<Rightarrow> u16 option" where
  "acked_pkid (PktPubAck a) = Some (puback_pkid a)"
| "acked_pkid (PktPubRec a) = Some (pubrec_pkid a)"
| "acked_pkid (PktPubComp a) = Some (pubcomp_pkid a)"
| "acked_pkid (PktSubAck a) = Some (suback_pkid a)"
| "acked_pkid (PktUnsubAck a) = Some (unsuback_pkid a)"
| "acked_pkid _ = None"

lemma flow_of_frame [simp]:
  "flow_of B (events_update f s) = flow_of B s"
  "flow_of B (last_incoming_update g s) = flow_of B s"
  "flow_of B (last_outgoing_update g s) = flow_of B s"
  "flow_of B (notices_sent_update h s) = flow_of B s"
  "flow_of B (ping_update p s) = flow_of B s"
  "flow_of B (inflight_update i s) = flow_of B s"
  "flow_of B (outgoing_pub_order_update q s) = flow_of B s"
  "flow_of B (outgoing_rel_order_update q s) = flow_of B s"
  "flow_of B (outgoing_pub_notice_update n s) = flow_of B s"
  "flow_of B (outgoing_rel_notice_update n s) = flow_of B s"
  "flow_of B (collision_update c s) = flow_of B s"
  "flow_of B (collision_notice_update d s) = flow_of B s"
  by (simp_all add: flow_of_def fun_eq_iff packet_identifier_in_use_def cong: option.case_cong)

context fixed_bitset begin

lemma flow_slot:
  "flow_of B s k =
     (if unat k \<in> occupied (outgoing_pub s) then Publishing (the (outgoing_pub s ! unat k))
      else if unat k \<in> bits B (outgoing_rel s) then Releasing
      else if unat k \<in> bits B (outgoing_rel_replay s) then ReplayingRelease
      else case map_of (pending_subscribe s) k of
        Some p \<Rightarrow> Subscribing (psub_subscribe p)
      | None \<Rightarrow>
        (case map_of (pending_unsubscribe s) k of
           Some p \<Rightarrow> Unsubscribing (punsub_unsubscribe p)
         | None \<Rightarrow> if unat k \<in> bits B (outbound_pkid_in_use s) then Reserved else Idle))"
  by (auto simp: flow_of_def nth_opt_def occupied_def bits_contains packet_identifier_in_use_def
      split: option.splits)

lemma flow_shrink:
  assumes "state_inv B Q s"
  shows "flow_of B (maybe_shrink_outgoing_tracking_capacity B s) = flow_of B s"
proof (cases "outbound_requests_drained B s")
  case True
  then have count: "outbound_pkid_count s = 0"
    by (simp add: outbound_requests_drained_def)
  have "outbound_pkid_count (maybe_shrink_outgoing_tracking_capacity B s) = 0"
    using count by (simp add: maybe_shrink_outgoing_tracking_capacity_def Let_def)
  note sets = drained_sets [OF assms count] drained_sets [OF shrink_inv [OF assms] this]
  show ?thesis
    using sets by (simp add: fun_eq_iff flow_slot)
qed (simp add: maybe_shrink_outgoing_tracking_capacity_def Let_def)

lemma map_of_remove: "map_of (btree_remove k m) j = (if j = k then None else map_of m j)"
  by (induction m) (auto simp: btree_remove_def)

lemma owner_k:
  fixes k :: u16
  assumes "state_inv B Q s"
  shows "unat k \<in> occupied (outgoing_pub s) \<Longrightarrow> unat k \<notin> bits B (outgoing_rel s) \<and> unat k \<notin> bits B (outgoing_rel_replay s)
      \<and> map_of (pending_subscribe s) k = None \<and> map_of (pending_unsubscribe s) k = None"
    and "unat k \<in> bits B (outgoing_rel s) \<Longrightarrow> unat k \<notin> occupied (outgoing_pub s) \<and> unat k \<notin> bits B (outgoing_rel_replay s)
      \<and> map_of (pending_subscribe s) k = None \<and> map_of (pending_unsubscribe s) k = None"
    and "map_of (pending_subscribe s) k = Some p \<Longrightarrow> unat k \<notin> occupied (outgoing_pub s) \<and> unat k \<notin> bits B (outgoing_rel s)
      \<and> unat k \<notin> bits B (outgoing_rel_replay s) \<and> map_of (pending_unsubscribe s) k = None"
    and "map_of (pending_unsubscribe s) k = Some q \<Longrightarrow> unat k \<notin> occupied (outgoing_pub s) \<and> unat k \<notin> bits B (outgoing_rel s)
      \<and> unat k \<notin> bits B (outgoing_rel_replay s) \<and> map_of (pending_subscribe s) k = None"
proof -
  note owner = exclusive_owner [OF state_invD(2) [OF assms, unfolded owners_inv_def, THEN conjunct1], of "unat k"]
  note keys = map_of_eq_None_iff
  show "unat k \<in> occupied (outgoing_pub s) \<Longrightarrow> unat k \<notin> bits B (outgoing_rel s) \<and> unat k \<notin> bits B (outgoing_rel_replay s)
      \<and> map_of (pending_subscribe s) k = None \<and> map_of (pending_unsubscribe s) k = None"
    using owner(1) by (simp add: keys)
  show "unat k \<in> bits B (outgoing_rel s) \<Longrightarrow> unat k \<notin> occupied (outgoing_pub s) \<and> unat k \<notin> bits B (outgoing_rel_replay s)
      \<and> map_of (pending_subscribe s) k = None \<and> map_of (pending_unsubscribe s) k = None"
    using owner(2) by (simp add: keys)
  show "unat k \<notin> occupied (outgoing_pub s) \<and> unat k \<notin> bits B (outgoing_rel s)
      \<and> unat k \<notin> bits B (outgoing_rel_replay s) \<and> map_of (pending_unsubscribe s) k = None"
    if "map_of (pending_subscribe s) k = Some p"
    using owner(4) subscribe_owner(1) [OF assms that] by (simp add: keys)
  show "unat k \<notin> occupied (outgoing_pub s) \<and> unat k \<notin> bits B (outgoing_rel s)
      \<and> unat k \<notin> bits B (outgoing_rel_replay s) \<and> map_of (pending_subscribe s) k = None"
    if "map_of (pending_unsubscribe s) k = Some q"
    using owner(5) unsubscribe_owner(1) [OF assms that] by (simp add: keys)
qed

lemma flow_free_publish:
  fixes k :: u16
  assumes "state_inv B Q s" "unat k \<in> occupied (outgoing_pub s)"
  shows "flow_of B (drop_publish k (free_id B k s)) = (flow_of B s)(k := Idle)"
  using owner_k(1) [OF assms] occupied_range [OF assms]
  by (simp add: fun_eq_iff flow_slot drop_publish_def free_id_def bs_simps word_unat_eq_iff [symmetric] cong: option.case_cong)

lemma flow_free_release:
  fixes k :: u16
  assumes "state_inv B Q s" "unat k \<in> bits B (outgoing_rel s)"
  shows "flow_of B (drop_release B k (free_id B k s)) = (flow_of B s)(k := Idle)"
  using owner_k(2) [OF assms] released_range [OF assms(1), of k] assms(2)
  by (simp add: fun_eq_iff flow_slot drop_release_def free_id_def bs_simps word_unat_eq_iff [symmetric] cong: option.case_cong)

lemma flow_start_release:
  fixes k :: u16
  assumes "state_inv B Q s" "unat k \<in> occupied (outgoing_pub s)"
  shows "flow_of B (start_release B k s) = (flow_of B s)(k := Releasing)"
  using owner_k(1) [OF assms] occupied_range [OF assms]
  by (simp add: fun_eq_iff flow_slot start_release_def bs_simps word_unat_eq_iff [symmetric] cong: option.case_cong)

lemma flow_drop_pending:
  fixes k :: u16
  assumes "state_inv B Q s"
  shows "map_of (pending_subscribe s) k = Some p \<Longrightarrow>
      flow_of B ((free_id B k s)\<lparr>pending_subscribe := btree_remove k (pending_subscribe s)\<rparr>) = (flow_of B s)(k := Idle)"
    and "map_of (pending_unsubscribe s) k = Some q \<Longrightarrow>
      flow_of B ((free_id B k s)\<lparr>pending_unsubscribe := btree_remove k (pending_unsubscribe s)\<rparr>) = (flow_of B s)(k := Idle)"
  using owner_k(3,4) [OF assms, of k] incoming_lens(4) [OF assms]
  by (simp_all add: fun_eq_iff flow_slot free_id_def bs_simps map_of_remove word_unat_eq_iff [symmetric] cong: option.case_cong)

lemma flow_store:
  fixes k :: u16
  assumes "publish_pkid c = k" "unat k < length (outgoing_pub s)" "unat k < bs_len B (outbound_pkid_in_use s)"
  shows "flow_of B (store_publish c n (assign_id B k s)) = (flow_of B s)(k := Publishing c)"
  using assms
  by (simp add: fun_eq_iff flow_slot store_publish_def assign_id_def bs_simps word_unat_eq_iff [symmetric] cong: option.case_cong)

lemma flow_completion:
  fixes k :: u16
  assumes "flow_of B t = (flow_of B s)(k := Idle)" "collision_for k t = None \<longrightarrow> state_inv B Q t"
    and "unat k < length (outgoing_pub t)" "unat k < bs_len B (outbound_pkid_in_use t)"
  shows "flow_of B (snd (after_completion B k t)) = (flow_of B s)(k := freed_flow (collision_for k t))"
proof (cases "collision_for k t")
  case None
  then show ?thesis
    using assms(1) flow_shrink [OF assms(2) [rule_format]] by (simp add: after_completion_def freed_flow_def)
next
  case (Some c)
  then have c: "publish_pkid c = k"
    by (simp add: collision_for_Some)
  then show ?thesis
    using assms(1,3,4) Some flow_store [OF c, of "t\<lparr>collision := None, collision_notice := None\<rparr>"]
    by (simp add: after_completion_def freed_flow_def resend_collision_def)
qed

lemma flow_puback:
  fixes k :: u16
  assumes "state_inv B Q s" "unat k \<in> occupied (outgoing_pub s)"
  shows "flow_of B (snd (after_completion B k (drop_publish k (free_id B k s))))
    = (flow_of B s)(k := freed_flow (collision_for k s))"
proof -
  have "state_inv B Q (drop_publish k (free_id B k s))" if "collision_for k s = None"
    using drop_publish_inv [OF assms] that [unfolded collision_for_None] by simp
  then show ?thesis
    using flow_completion [OF flow_free_publish [OF assms], of Q] freed_publish_facts [OF assms]
    by (simp add: sizes_inv_def)
qed

lemma flow_pubcomp:
  fixes k :: u16
  assumes "state_inv B Q s" "unat k \<in> bits B (outgoing_rel s)"
  shows "flow_of B (snd (after_completion B k (drop_release B k (free_id B k s))))
    = (flow_of B s)(k := freed_flow (collision_for k s))"
proof -
  have "state_inv B Q (drop_release B k (free_id B k s))" if "collision_for k s = None"
    using drop_release_inv [OF assms] that [unfolded collision_for_None] by simp
  then show ?thesis
    using flow_completion [OF flow_free_release [OF assms], of Q] freed_release_facts [OF assms]
    by (simp add: sizes_inv_def)
qed

end

section \<open>From a handler to the whole packet\<close>

lemma run_send_all:
  "for_each (\<lambda>notice. send_notice (DeferredNotice_complete notice)) ns s
    = (Ok (), notices_sent_update (\<lambda>sent. sent @ map DeferredNotice_complete ns) s)"
  by (induction ns arbitrary: s) (simp_all add: run_simps comp_def)

lemma run_complete_notices:
  "complete_notices effects s
    = (Ok (effect_outgoing effects),
       notices_sent_update (\<lambda>ns. ns @ map DeferredNotice_complete (effect_notices effects)) s)"
  by (simp add: complete_notices_def andThen_def run_send_all run_ret)

definition packet_events :: "'b bitset_ops \<Rightarrow> Packet \<Rightarrow> 'b MqttState \<Rightarrow> Event list \<Rightarrow> Event list" where
  "packet_events B packet s es =
     (if is_duplicate_incoming_qos2_publish B s packet then es
      else take (length (events s)) es @ [EvIncoming packet] @ drop (length (events s)) es)"

lemma handle_incoming_Ok:
  assumes "incoming_packet B packet s = (Ok effects, t)"
  shows "handle_incoming_packet B now packet s =
    (Ok (effect_outgoing effects),
     t\<lparr>events := packet_events B packet s (events t), last_incoming := now,
       notices_sent := notices_sent t @ map DeferredNotice_complete (effect_notices effects)\<rparr>)"
proof -
  have run: "handle_incoming_packet_with_effects B now packet s =
      (Ok effects, t\<lparr>events := packet_events B packet s (events t), last_incoming := now\<rparr>)"
    using assms by (cases t)
      (simp add: handle_incoming_packet_with_effects_def andThen_def run_simps packet_events_def)
  show ?thesis
    by (simp add: handle_incoming_packet_def andThen_def run run_complete_notices)
qed

lemma handle_incoming_Err:
  assumes "incoming_packet B packet s = (Err e, t)"
  shows "handle_incoming_packet B now packet s = (Err e, t)"
  using assms by (simp add: handle_incoming_packet_def handle_incoming_packet_with_effects_def andThen_def run_simps)

section \<open>The handlers refine the protocol\<close>

context fixed_bitset begin

lemma incoming_refines:
  assumes "state_inv B Q s" "acked_pkid packet = Some k"
  shows "case flow_ack packet (collision_for k s) (flow_of B s k) of
      None \<Rightarrow> \<exists>e. incoming_packet B packet s = (Err e, s)
    | Some flow \<Rightarrow> \<exists>effects t. incoming_packet B packet s = (Ok effects, t) \<and> flow_of B t = (flow_of B s)(k := flow)"
proof (cases packet)
  case (PktPubAck a)
  then show ?thesis
    using assms flow_puback [OF assms(1), of k]
    by (auto simp: incoming_packet_def run_puback [OF assms(1)] Let_def flow_slot [of s k] split: prod.splits option.splits)
next
  case (PktPubRec a)
  then show ?thesis
    using assms flow_start_release [OF assms(1), of k]
    by (auto simp: incoming_packet_def run_pubrec [OF assms(1)] Let_def flow_slot [of s k] split: option.splits)
next
  case (PktPubComp a)
  then show ?thesis
    using assms flow_pubcomp [OF assms(1), of k] owner_k(2) [OF assms(1), of k]
    by (auto simp: incoming_packet_def run_pubcomp [OF assms(1)] Let_def flow_slot [of s k] split: prod.splits option.splits)
next
  case (PktSubAck a)
  then show ?thesis
    using assms flow_drop_pending(1) [OF assms(1), of k] owner_k(3) [OF assms(1), of k]
    by (auto simp: incoming_packet_def run_suback [OF assms(1)] Let_def flow_slot [of s k] split: option.splits)
next
  case (PktUnsubAck a)
  then show ?thesis
    using assms flow_drop_pending(2) [OF assms(1), of k] owner_k(4) [OF assms(1), of k]
    by (auto simp: incoming_packet_def run_unsuback [OF assms(1)] Let_def flow_slot [of s k] split: option.splits)
qed (use assms in simp_all)

lemma collision_after:
  "collision (snd (after_completion B k t)) = (if collision_for k t = None then collision t else None)"
  by (auto simp: after_completion_def resend_collision_def store_publish_def assign_id_def
      maybe_shrink_outgoing_tracking_capacity_def Let_def split: option.splits)

end

section \<open>A cooperating broker drains the state\<close>

fun flow_weight :: "Flow \<Rightarrow> nat" where
  "flow_weight (Publishing _) = 2"
| "flow_weight Releasing = 1"
| "flow_weight (Subscribing _) = 1"
| "flow_weight (Unsubscribing _) = 1"
| "flow_weight _ = 0"

definition outstanding :: "'b bitset_ops \<Rightarrow> 'b MqttState \<Rightarrow> nat" where
  "outstanding B s = (\<Sum>k\<in>(UNIV :: u16 set). flow_weight (flow_of B s k)) + 3 * of_bool (collision s \<noteq> None)"

text \<open>The acknowledgement that a flow waits for.\<close>

fun expected_ack :: "u16 \<Rightarrow> Flow \<Rightarrow> Packet" where
  "expected_ack k (Publishing p) =
     (if publish_qos p = ExactlyOnce then PktPubRec \<lparr>pubrec_pkid = k\<rparr> else PktPubAck \<lparr>puback_pkid = k\<rparr>)"
| "expected_ack k (Subscribing sub) =
     PktSubAck \<lparr>suback_pkid = k, return_codes = replicate (length (subscribe_filters sub)) SubFailure\<rparr>"
| "expected_ack k (Unsubscribing _) = PktUnsubAck \<lparr>unsuback_pkid = k\<rparr>"
| "expected_ack k _ = PktPubComp \<lparr>pubcomp_pkid = k\<rparr>"

lemma sum_flow_update:
  "(\<Sum>j\<in>(UNIV :: u16 set). flow_weight ((g(k := f)) j)) + flow_weight (g k)
    = (\<Sum>j\<in>UNIV. flow_weight (g j)) + flow_weight f"
proof -
  have "(\<Sum>j\<in>UNIV - {k}. flow_weight ((g(k := f)) j)) = (\<Sum>j\<in>UNIV - {k}. flow_weight (g j))"
    by (rule sum.cong) auto
  then show ?thesis
    using sum.remove [of "UNIV :: u16 set" k "\<lambda>j. flow_weight (g j)"]
      sum.remove [of "UNIV :: u16 set" k "\<lambda>j. flow_weight ((g(k := f)) j)"]
    by simp
qed

lemma outstanding_decreases:
  assumes "flow_of B t = (flow_of B s)(k := f)"
    and "flow_weight f < flow_weight (flow_of B s k) \<and> collision t = collision s
      \<or> flow_weight f \<le> flow_weight (flow_of B s k) + 2 \<and> collision s \<noteq> None \<and> collision t = None"
  shows "outstanding B t < outstanding B s"
  using assms sum_flow_update [of "flow_of B s" k f] by (auto simp: outstanding_def)

context fixed_bitset begin

lemma stored_publish_qos:
  fixes k :: u16
  assumes "state_inv B Q s" "unat k \<in> occupied (outgoing_pub s)"
  shows "publish_qos (the (outgoing_pub s ! unat k)) \<noteq> AtMostOnce" "publish_pkid (the (outgoing_pub s ! unat k)) = k"
proof -
  obtain p where p: "outgoing_pub s ! unat k = Some p" "unat k < length (outgoing_pub s)"
    using assms(2) by (auto simp: occupied_def)
  have "stored_ok (outgoing_pub s)"
    using state_invD(5) [OF assms(1)] by (simp add: slots_inv_def)
  from stored_okD [OF this p(2,1)] p(1) show "publish_qos (the (outgoing_pub s ! unat k)) \<noteq> AtMostOnce"
      "publish_pkid (the (outgoing_pub s ! unat k)) = k"
    by (simp_all add: word_unat_eq_iff)
qed

lemma completion_progress:
  fixes k :: u16
  assumes "flow_of B (snd (after_completion B k t)) = (flow_of B s)(k := freed_flow (collision_for k s))"
    and "collision t = collision s" "collision_for k t = collision_for k s" "0 < flow_weight (flow_of B s k)"
  shows "outstanding B (snd (after_completion B k t)) < outstanding B s"
proof (rule outstanding_decreases [OF assms(1)])
  show "flow_weight (freed_flow (collision_for k s)) < flow_weight (flow_of B s k)
        \<and> collision (snd (after_completion B k t)) = collision s
      \<or> flow_weight (freed_flow (collision_for k s)) \<le> flow_weight (flow_of B s k) + 2
        \<and> collision s \<noteq> None \<and> collision (snd (after_completion B k t)) = None"
  proof (cases "collision_for k s")
    case None
    then show ?thesis
      using assms(2-4) by (simp add: freed_flow_def collision_after)
  next
    case (Some c)
    moreover have "collision s \<noteq> None"
      using Some by (simp add: collision_for_Some)
    ultimately show ?thesis
      using assms(2-4) by (simp add: freed_flow_def collision_after)
  qed
qed

lemma ack_progress:
  assumes "state_inv B Q s" "0 < flow_weight (flow_of B s k)"
  obtains effects t where "incoming_packet B (expected_ack k (flow_of B s k)) s = (Ok effects, t)"
    "outstanding B t < outstanding B s"
    "\<forall>j. flow_of B t j \<in> {ReplayingRelease, Reserved} \<longrightarrow> flow_of B s j \<in> {ReplayingRelease, Reserved}"
proof -
  have ex: "\<exists>effects t f. incoming_packet B (expected_ack k (flow_of B s k)) s = (Ok effects, t)
      \<and> flow_of B t = (flow_of B s)(k := f) \<and> f \<notin> {ReplayingRelease, Reserved} \<and> outstanding B t < outstanding B s"
  proof (cases "flow_of B s k")
    case (Publishing p)
    then have occ: "unat k \<in> occupied (outgoing_pub s)"
      by (auto simp: flow_slot split: if_splits option.splits)
    then have p: "the (outgoing_pub s ! unat k) = p"
      using Publishing by (simp add: flow_slot)
    show ?thesis
    proof (cases "publish_qos p = ExactlyOnce")
      case True
      note flow = flow_start_release [OF assms(1) occ]
      have "outstanding B (start_release B k s) < outstanding B s"
        by (rule outstanding_decreases [OF flow]) (simp add: Publishing start_release_def)
      then show ?thesis
        using flow occ True Publishing
        by (simp add: incoming_packet_def run_pubrec [OF assms(1)] outstanding_def) (rule exI [of _ Releasing], simp)
    next
      case False
      note flow = flow_puback [OF assms(1) occ]
      have "outstanding B (snd (after_completion B k (drop_publish k (free_id B k s)))) < outstanding B s"
        by (rule completion_progress [OF flow]) (simp_all add: Publishing drop_publish_def free_id_def collision_for_def)
      then show ?thesis
        using flow occ False Publishing
        by (auto simp: incoming_packet_def run_puback [OF assms(1)] freed_flow_def split: prod.splits option.splits)
    qed
  next
    case Releasing
    then have rel: "unat k \<in> bits B (outgoing_rel s)"
      by (auto simp: flow_slot split: if_splits option.splits)
    note flow = flow_pubcomp [OF assms(1) rel]
    have "outstanding B (snd (after_completion B k (drop_release B k (free_id B k s)))) < outstanding B s"
      by (rule completion_progress [OF flow]) (simp_all add: Releasing drop_release_def free_id_def collision_for_def)
    then show ?thesis
      using flow rel Releasing
      by (auto simp: incoming_packet_def run_pubcomp [OF assms(1)] freed_flow_def split: prod.splits option.splits)
  next
    case (Subscribing sub)
    then obtain p where p: "map_of (pending_subscribe s) k = Some p" "psub_subscribe p = sub"
      by (auto simp: flow_slot split: if_splits option.splits)
    note flow = flow_drop_pending(1) [OF assms(1) p(1)]
    have "outstanding B ((free_id B k s)\<lparr>pending_subscribe := btree_remove k (pending_subscribe s)\<rparr>) < outstanding B s"
      by (rule outstanding_decreases [OF flow]) (simp add: Subscribing free_id_def)
    then show ?thesis
      using flow p Subscribing by (auto simp: incoming_packet_def run_suback [OF assms(1)] Let_def)
  next
    case (Unsubscribing unsub)
    then obtain p where p: "map_of (pending_unsubscribe s) k = Some p"
      by (auto simp: flow_slot split: if_splits option.splits)
    note flow = flow_drop_pending(2) [OF assms(1) p]
    have "outstanding B ((free_id B k s)\<lparr>pending_unsubscribe := btree_remove k (pending_unsubscribe s)\<rparr>) < outstanding B s"
      by (rule outstanding_decreases [OF flow]) (simp add: Unsubscribing free_id_def)
    then show ?thesis
      using flow p Unsubscribing by (auto simp: incoming_packet_def run_unsuback [OF assms(1)] Let_def)
  qed (use assms(2) in simp_all)
  then show ?thesis
    using that by (metis fun_upd_apply)
qed

lemma idle_drained:
  assumes "state_inv B Q s" "\<forall>k. flow_of B s k = Idle"
  shows "outbound_requests_drained B s"
proof -
  have "i \<notin> bits B (outbound_pkid_in_use s)" for i
  proof
    assume i: "i \<in> bits B (outbound_pkid_in_use s)"
    then have "i < 65536"
      using bits_bound incoming_lens(4) [OF assms(1)] by metis
    then have "unat (word_of_nat i :: u16) = i"
      by (rule unat_u16_of_nat)
    then show False
      using assms(2) [rule_format, of "word_of_nat i"] i by (auto simp: flow_slot split: if_splits option.splits)
  qed
  then have "bits B (outbound_pkid_in_use s) = {}"
    by blast
  then show ?thesis
    using state_invD(2) [OF assms(1)] by (simp add: drained_iff [OF assms(1)] owners_inv_def unat_eq_0)
qed

lemma broker_drains:
  assumes "state_inv B Q s" "\<forall>k. flow_of B s k \<notin> {ReplayingRelease, Reserved}"
  shows "\<exists>packets responses t. traverse (handle_incoming_packet B now) packets s = (Ok responses, t)
    \<and> outbound_requests_drained B t"
  using assms
proof (induction "outstanding B s" arbitrary: s rule: less_induct)
  case less
  show ?case
  proof (cases "\<exists>k. 0 < flow_weight (flow_of B s k)")
    case False
    have "flow_of B s k = Idle" for k
      using False [simplified, rule_format, of k] less.prems(2) [rule_format, of k] by (cases "flow_of B s k") auto
    then have "traverse (handle_incoming_packet B now) [] s = (Ok [], s) \<and> outbound_requests_drained B s"
      using idle_drained [OF less.prems(1)] by (simp add: run_ret)
    then show ?thesis
      by blast
  next
    case True
    then obtain k where "0 < flow_weight (flow_of B s k)"
      by blast
    then obtain effects u where u: "incoming_packet B (expected_ack k (flow_of B s k)) s = (Ok effects, u)"
        "outstanding B u < outstanding B s"
        "\<forall>j. flow_of B u j \<in> {ReplayingRelease, Reserved} \<longrightarrow> flow_of B s j \<in> {ReplayingRelease, Reserved}"
      by (rule ack_progress [OF less.prems(1)])
    define p where "p = expected_ack k (flow_of B s k)"
    define v where "v = u\<lparr>events := packet_events B p s (events u), last_incoming := now,
       notices_sent := notices_sent u @ map DeferredNotice_complete (effect_notices effects)\<rparr>"
    have step: "handle_incoming_packet B now p s = (Ok (effect_outgoing effects), v)"
      using handle_incoming_Ok [OF u(1)] by (simp add: p_def v_def)
    have "state_inv B Q v"
      using keeps_inv_snd [OF keeps_inv_handle_incoming [OF less.prems(1)], of now p] by (simp add: step)
    moreover have "outstanding B v < outstanding B s" "\<forall>j. flow_of B v j \<notin> {ReplayingRelease, Reserved}"
      using u(2,3) less.prems(2) by (auto simp: v_def outstanding_def)
    ultimately obtain packets responses t where rest: "traverse (handle_incoming_packet B now) packets v = (Ok responses, t)"
        "outbound_requests_drained B t"
      using less.hyps by blast
    have "traverse (handle_incoming_packet B now) (p # packets) s = (Ok (effect_outgoing effects # responses), t)"
      by (simp add: andThen_def step rest(1) run_ret)
    then show ?thesis
      using rest(2) by blast
  qed
qed

lemma no_replay_flow:
  assumes "state_inv B {} s" "bs_ones B (outgoing_rel_replay s) = []"
  shows "flow_of B s k \<notin> {ReplayingRelease, Reserved}"
proof -
  note owner = exclusive_owner(8) [OF state_invD(2) [OF assms(1), unfolded owners_inv_def, THEN conjunct1], of "unat k"]
  show ?thesis
    using owner assms(2) by (auto simp: flow_slot ones_Nil map_of_eq_None_iff split: if_splits option.splits)
qed

end

section \<open>Properties\<close>

text \<open>
  C3: The acknowledgement handlers refine the protocol table \<open>flow_ack\<close> on the abstract view of
  the state: an acknowledgement the table does not expect is refused and changes nothing; one it
  expects succeeds and changes the flow of its packet identifier as the table says, and no other
  flow. In particular a second acknowledgement of the same identifier is refused.
\<close>

theorem ack_refines_protocol:
  assumes "fixed_bitset B" "state_inv B Q s" "acked_pkid packet = Some k"
  shows "case flow_ack packet (collision_for k s) (flow_of B s k) of
      None \<Rightarrow> \<exists>e. handle_incoming_packet B now packet s = (Err e, s)
    | Some flow \<Rightarrow> \<exists>r t. handle_incoming_packet B now packet s = (Ok r, t) \<and> flow_of B t = (flow_of B s)(k := flow)"
proof (cases "flow_ack packet (collision_for k s) (flow_of B s k)")
  case None
  then show ?thesis
    using fixed_bitset.incoming_refines [OF assms] handle_incoming_Err by fastforce
next
  case (Some flow)
  then obtain effects t where "incoming_packet B packet s = (Ok effects, t)" "flow_of B t = (flow_of B s)(k := flow)"
    using fixed_bitset.incoming_refines [OF assms] by auto
  then show ?thesis
    using Some handle_incoming_Ok [of B packet s effects t now] by simp
qed

theorem ack_refines_protocol_witness:
  "flow_of nat_bitset example_state 1 = Publishing example_publish
    \<and> (\<exists>r t. handle_incoming_packet nat_bitset 0 (PktPubAck \<lparr>puback_pkid = 1\<rparr>) example_state = (Ok r, t)
        \<and> flow_of nat_bitset t 1 = Idle)"
proof -
  have "nth_opt (outgoing_pub example_state) (unat (1 :: u16)) = Some (Some example_publish)" "collision example_state = None"
    by (simp_all add: example_simps nth_opt_def)
  then have flow: "flow_of nat_bitset example_state 1 = Publishing example_publish" "collision_for 1 example_state = None"
    by (simp_all add: flow_of_def collision_for_def)
  show ?thesis
    using ack_refines_protocol [OF nat_bits.fixed_bitset_axioms example_inv, of "PktPubAck \<lparr>puback_pkid = 1\<rparr>" 1 0] flow
    by (auto simp: freed_flow_def)
qed

text \<open>
  C12: A state in which no request waits to be replayed can always be drained: there is a finite
  sequence of packets from the broker, each of them accepted, after which nothing is tracked any
  more and every packet identifier is free.
\<close>

theorem broker_can_drain:
  assumes "fixed_bitset B" "state_reach B s" "bs_ones B (outgoing_rel_replay s) = []"
  shows "\<exists>packets responses t. traverse (handle_incoming_packet B now) packets s = (Ok responses, t)
    \<and> outbound_requests_drained B t"
  using fixed_bitset.broker_drains [OF assms(1) fixed_bitset.reach_inv [OF assms(1,2)]]
    fixed_bitset.no_replay_flow [OF assms(1) fixed_bitset.reach_inv [OF assms(1,2)] assms(3)]
  by blast

theorem broker_can_drain_witness:
  "\<exists>packets responses t. traverse (handle_incoming_packet nat_bitset 0) packets example_state = (Ok responses, t)
    \<and> outbound_requests_drained nat_bitset t"
  by (rule broker_can_drain [OF nat_bits.fixed_bitset_axioms example_reach]) (simp add: example_simps)

end
