(* ===== verification/V4_State_Receive.thy ===== *)
theory V4_State_Receive
  imports V4_State_Flow
begin

text \<open>
  The inbound side of the MQTT 3.1.1 client state: what is handed to the application. With
  automatic acknowledgement a QoS 2 publish is delivered once for each release by the broker,
  however often it is retransmitted.
\<close>

section \<open>Deliveries\<close>

fun qos2_delivery :: "u16 \<Rightarrow> Event \<Rightarrow> bool" where
  "qos2_delivery k (EvIncoming (PktPublish p)) \<longleftrightarrow> publish_qos p = ExactlyOnce \<and> publish_pkid p = k"
| "qos2_delivery k _ \<longleftrightarrow> False"

definition deliveries :: "u16 \<Rightarrow> Event list \<Rightarrow> nat" where
  "deliveries k es = length (filter (qos2_delivery k) es)"

definition releases :: "u16 \<Rightarrow> Packet list \<Rightarrow> nat" where
  "releases k packets = length (filter (\<lambda>packet. packet = PktPubRel \<lparr>pubrel_pkid = k\<rparr>) packets)"

text \<open>The packets of a broker, handled one after the other. A packet that is refused changes what
  its handler has changed up to the error.\<close>

definition incoming_run :: "'b bitset_ops \<Rightarrow> nat \<Rightarrow> Packet list \<Rightarrow> 'b MqttState \<Rightarrow> 'b MqttState" where
  "incoming_run B now packets s = fold (\<lambda>packet s. snd (handle_incoming_packet B now packet s)) packets s"

lemma deliveries_simps [simp]:
  "deliveries k [] = 0"
  "deliveries k (e # es) = of_bool (qos2_delivery k e) + deliveries k es"
  "deliveries k (xs @ ys) = deliveries k xs + deliveries k ys"
  by (simp_all add: deliveries_def)

lemma deliveries_forward:
  "deliveries k (packet_events B packet s es) = deliveries k es
    + (if is_duplicate_incoming_qos2_publish B s packet then 0 else of_bool (qos2_delivery k (EvIncoming packet)))"
proof -
  have "deliveries k (take n es) + deliveries k (drop n es) = deliveries k es" for n
    by (metis append_take_drop_id deliveries_simps(3))
  from this [of "length (events s)"] show ?thesis
    by (simp add: packet_events_def)
qed

context fixed_bitset begin

lemma completion_frame:
  "after_completion B k t = (packet, u) \<Longrightarrow>
    ack_mode u = ack_mode t \<and> incoming_pubrec u = incoming_pubrec t
      \<and> deliveries j (events u) = deliveries j (events t)"
  by (auto simp: after_completion_def resend_collision_def store_publish_def assign_id_def
      maybe_shrink_outgoing_tracking_capacity_def Let_def split: option.splits)

lemmas change_defs = drop_publish_def drop_release_def start_release_def free_id_def

text \<open>The handlers of all other packets neither deliver nor acknowledge a QoS 2 publish.\<close>

lemma other_packet:
  assumes "state_inv B Q s" "incoming_packet B packet s = (r, t)"
    and "\<And>p. packet \<noteq> PktPublish p" "\<And>p. packet \<noteq> PktPubRel p"
  shows "ack_mode t = ack_mode s" "incoming_pubrec t = incoming_pubrec s"
    "deliveries j (events t) = deliveries j (events s)"
proof -
  note runs = run_puback [OF assms(1)] run_pubrec [OF assms(1)] run_pubcomp [OF assms(1)] run_suback [OF assms(1)]
    run_unsuback [OF assms(1)]
  have "ack_mode t = ack_mode s \<and> incoming_pubrec t = incoming_pubrec s
      \<and> deliveries j (events t) = deliveries j (events s)"
    using assms(2-4)
    by (cases packet)
      (auto simp: incoming_packet_def runs Let_def run_simps handle_incoming_pingresp_def change_defs andThen_assoc
        split: if_splits option.splits prod.splits dest!: completion_frame [where j = j])
  then show "ack_mode t = ack_mode s" "incoming_pubrec t = incoming_pubrec s"
      "deliveries j (events t) = deliveries j (events s)"
    by simp_all
qed

lemma run_publish:
  assumes "state_inv B Q s" "ack_mode s = Automatic" "handle_incoming_publish B p s = (r, t)"
  shows "ack_mode t = Automatic" "deliveries j (events t) = deliveries j (events s)" "r \<noteq> Panic"
    "bits B (incoming_pubrec t) = (if publish_qos p = ExactlyOnce then insert (unat (publish_pkid p)) (bits B (incoming_pubrec s))
       else bits B (incoming_pubrec s))"
proof -
  let ?k = "unat (publish_pkid p)"
  note lens = incoming_lens [OF assms(1)]
  have inv: "state_inv B Q (s\<lparr>incoming_puback := bs_with B (incoming_puback s) ?k\<rparr>)"
      "state_inv B Q (s\<lparr>incoming_pub := bs_with B (incoming_pub s) ?k\<rparr>)"
    by (rule incoming_changes_inv [OF assms(1)]; use lens in \<open>auto simp: bs_simps\<close>)+
  have "ack_mode t = Automatic \<and> deliveries j (events t) = deliveries j (events s) \<and> r \<noteq> Panic
      \<and> bits B (incoming_pubrec t) = (if publish_qos p = ExactlyOnce then insert ?k (bits B (incoming_pubrec s))
         else bits B (incoming_pubrec s))"
  proof (cases "publish_qos p")
    case AtMostOnce
    then show ?thesis
      using assms(2,3) by (auto simp: handle_incoming_publish_def run_simps)
  next
    case AtLeastOnce
    then show ?thesis
      using assms(2,3) lens
      by (auto simp: handle_incoming_publish_def exec_rules bs_simps andThen_def run_outgoing_puback [OF inv(1)]
          PubAck_new_def)
  next
    case ExactlyOnce
    then show ?thesis
      using assms(2,3) lens
      by (auto simp: handle_incoming_publish_def exec_rules bs_simps andThen_def run_outgoing_pubrec [OF inv(2)]
          PubRec_new_def outgoing_pubrec_for_incoming_publish_def split: if_splits)
  qed
  then show "ack_mode t = Automatic" "deliveries j (events t) = deliveries j (events s)" "r \<noteq> Panic"
    "bits B (incoming_pubrec t) = (if publish_qos p = ExactlyOnce then insert (unat (publish_pkid p)) (bits B (incoming_pubrec s))
       else bits B (incoming_pubrec s))"
    by simp_all
qed

lemma run_pubrel:
  assumes "state_inv B Q s" "handle_incoming_pubrel B pubrel s = (r, t)"
  shows "ack_mode t = ack_mode s" "deliveries j (events t) = deliveries j (events s)" "r \<noteq> Panic"
    "bits B (incoming_pubrec s) - {unat (pubrel_pkid pubrel)} \<subseteq> bits B (incoming_pubrec t)"
    "bits B (incoming_pubrec t) \<subseteq> bits B (incoming_pubrec s)"
  using assms(2) incoming_lens [OF assms(1)]
  by (auto simp: handle_incoming_pubrel_def exec_rules bs_simps Let_def split: if_splits)

lemma handled_state:
  fixes now :: nat
  assumes "incoming_packet B packet s = (r, t)" "r \<noteq> Panic"
  defines "u \<equiv> snd (handle_incoming_packet B now packet s)"
  shows "ack_mode u = ack_mode t" "incoming_pubrec u = incoming_pubrec t"
    "deliveries j (events u) \<le> deliveries j (events t)
      + (if is_duplicate_incoming_qos2_publish B s packet then 0 else of_bool (qos2_delivery j (EvIncoming packet)))"
proof -
  have "ack_mode u = ack_mode t \<and> incoming_pubrec u = incoming_pubrec t \<and> deliveries j (events u) \<le> deliveries j (events t)
      + (if is_duplicate_incoming_qos2_publish B s packet then 0 else of_bool (qos2_delivery j (EvIncoming packet)))"
  proof (cases r)
    case (Ok effects)
    then have run: "incoming_packet B packet s = (Ok effects, t)"
      using assms(1) by simp
    show ?thesis
      unfolding u_def handle_incoming_Ok [OF run] by (simp add: deliveries_forward)
  next
    case (Err e)
    then have run: "incoming_packet B packet s = (Err e, t)"
      using assms(1) by simp
    show ?thesis
      unfolding u_def handle_incoming_Err [OF run] by simp
  qed (use assms(2) in simp)
  then show "ack_mode u = ack_mode t" "incoming_pubrec u = incoming_pubrec t"
    "deliveries j (events u) \<le> deliveries j (events t)
      + (if is_duplicate_incoming_qos2_publish B s packet then 0 else of_bool (qos2_delivery j (EvIncoming packet)))"
    by simp_all
qed

lemma delivery_step:
  fixes k :: u16 and now :: nat and packet :: Packet
  assumes "state_inv B Q s" "ack_mode s = Automatic"
  defines "u \<equiv> snd (handle_incoming_packet B now packet s)"
  shows "ack_mode u = Automatic"
    "deliveries k (events u) + of_bool (unat k \<in> bits B (incoming_pubrec s))
      \<le> deliveries k (events s) + of_bool (unat k \<in> bits B (incoming_pubrec u))
        + of_bool (packet = PktPubRel \<lparr>pubrel_pkid = k\<rparr>)"
proof -
  obtain r t where run: "incoming_packet B packet s = (r, t)"
    by fastforce
  have "r \<noteq> Panic"
    using keeps_inv_no_panic [OF keeps_inv_incoming [OF assms(1)], of packet] by (simp add: run)
  note handled = handled_state(1,2) [OF run this, where now = now, folded u_def]
    handled_state(3) [OF run this, where now = now and j = k, folded u_def]
  have "ack_mode u = Automatic \<and> deliveries k (events u) + of_bool (unat k \<in> bits B (incoming_pubrec s))
      \<le> deliveries k (events s) + of_bool (unat k \<in> bits B (incoming_pubrec u))
        + of_bool (packet = PktPubRel \<lparr>pubrel_pkid = k\<rparr>)"
  proof (cases packet)
    case (PktPublish p)
    then have "handle_incoming_publish B p s = (r, t)"
      using run by (simp add: incoming_packet_def)
    note pub = run_publish [OF assms(1,2) this]
    show ?thesis
      using handled pub(1) pub(2) [of k] pub(4) PktPublish
      by (auto simp: is_duplicate_incoming_qos2_publish_def bits_contains of_bool_def split: if_splits)
  next
    case (PktPubRel p)
    obtain r' where "handle_incoming_pubrel B p s = (r', t)"
      using run PktPubRel by (auto simp: incoming_packet_def andThen_def run_simps split: prod.splits outcome.splits)
    note rel = run_pubrel [OF assms(1) this]
    have "unat k \<in> bits B (incoming_pubrec s) \<Longrightarrow> unat k \<in> bits B (incoming_pubrec t) \<or> p = \<lparr>pubrel_pkid = k\<rparr>"
      using rel(4) by (cases p) (auto dest: word_unat_eq_iff [THEN iffD2])
    then show ?thesis
      using handled rel(1) rel(2) [of k] rel(5) PktPubRel assms(2)
      by (auto simp: is_duplicate_incoming_qos2_publish_def of_bool_def split: if_splits)
  qed (use handled other_packet(1,2) [OF assms(1) run] other_packet(3) [OF assms(1) run, where j = k] assms(2) in \<open>auto simp: is_duplicate_incoming_qos2_publish_def\<close>)
  then show "ack_mode u = Automatic" "deliveries k (events u) + of_bool (unat k \<in> bits B (incoming_pubrec s))
      \<le> deliveries k (events s) + of_bool (unat k \<in> bits B (incoming_pubrec u))
        + of_bool (packet = PktPubRel \<lparr>pubrel_pkid = k\<rparr>)"
    by simp_all
qed

lemma delivery_run:
  fixes k :: u16
  assumes "state_inv B Q s" "ack_mode s = Automatic"
  shows "deliveries k (events (incoming_run B now packets s)) + of_bool (unat k \<in> bits B (incoming_pubrec s))
    \<le> deliveries k (events s) + releases k packets + of_bool (unat k \<in> bits B (incoming_pubrec (incoming_run B now packets s)))"
  using assms
proof (induction packets arbitrary: s)
  case Nil
  then show ?case by (simp add: incoming_run_def releases_def)
next
  case (Cons packet packets)
  let ?u = "snd (handle_incoming_packet B now packet s)"
  note step = delivery_step [OF Cons.prems, where packet = packet and now = now]
  have inv: "state_inv B Q ?u"
    by (rule keeps_inv_snd [OF keeps_inv_handle_incoming [OF Cons.prems(1)]])
  show ?case
    using Cons.IH [OF inv step(1)] step(2) [of k] by (auto simp: incoming_run_def releases_def)
qed

end

section \<open>Properties\<close>

text \<open>
  C10: With automatic acknowledgement, whatever packets a broker sends, the application gets a QoS 2
  publish with a given packet identifier at most once for each PUBREL with that identifier, plus
  the one not yet released: retransmissions are not delivered again.
\<close>

theorem qos2_delivered_once:
  assumes "fixed_bitset B" "state_reach B s" "ack_mode s = Automatic"
  shows "deliveries k (events (incoming_run B now packets s)) \<le> deliveries k (events s) + releases k packets + 1"
  using fixed_bitset.delivery_run [OF assms(1) fixed_bitset.reach_inv [OF assms(1,2)] assms(3), of k now packets]
  by (auto simp: of_bool_def split: if_splits)

theorem qos2_delivered_once_witness:
  "let s = MqttStateBuilder_build nat_bitset 0 (MqttStateBuilder_new 10);
       p = PktPublish ((Publish_new [97] ExactlyOnce [])\<lparr>publish_pkid := 7\<rparr>);
       t = incoming_run nat_bitset 0 [p, p, PktPubRel \<lparr>pubrel_pkid = 7\<rparr>, p, p] s
   in deliveries 7 (events t) \<le> 2"
proof -
  let ?s = "MqttStateBuilder_build nat_bitset 0 (MqttStateBuilder_new 10)"
  let ?p = "PktPublish ((Publish_new [97] ExactlyOnce [])\<lparr>publish_pkid := 7\<rparr>)"
  have s: "ack_mode ?s = Automatic" "events ?s = []"
    by (simp_all add: MqttStateBuilder_build_def MqttStateBuilder_new_def new_internal_def Let_def)
  from qos2_delivered_once [OF nat_bits.fixed_bitset_axioms reach_build s(1), of 7 0
      "[?p, ?p, PktPubRel \<lparr>pubrel_pkid = 7\<rparr>, ?p, ?p]"]
  show ?thesis
    by (simp add: releases_def s(2))
qed

end
