(* ===== verification/Admission.thy ===== *)
theory Admission
  imports Prelude
begin

text \<open>
  Managed request admission (\<open>rumqttc-core/src/admission.rs\<close>): the lanes through which the clients
  hand requests to the event loop, and the gate they share. Each operation holds the locks it needs
  from its first read to its last write, so an operation is one atomic step and the clients are an
  interleaving of such steps. Wake-ups (\<open>Notify\<close>, \<open>Condvar\<close>) change no queue and are left out;
  an asynchronous call is the sequence of its critical sections. An \<open>Instant\<close> is a number up to
  \<open>limit\<close>, the last instant the platform can represent.

  \<open>request_channel\<close> is the interface the event loop needs of a receiver; the receivers of this
  module provide it.
\<close>

section \<open>Definitions\<close>

datatype 'a TrySendError = TrySendFull 'a | TrySendDisconnected 'a

datatype TryRecvError = TryRecvEmpty | TryRecvDisconnected

text \<open>The trait \<open>Item\<close>, and what its implementations do.\<close>

record 'a item_ops =
  item_fence :: "'a \<Rightarrow> nat option option"
  item_admitted :: "u64 \<Rightarrow> nat option \<Rightarrow> 'a \<Rightarrow> 'a"
  item_closing :: "'a \<Rightarrow> 'a"
  item_invalid_timeout :: "'a \<Rightarrow> 'a"

record Lifecycle =
  lc_sequence :: u64
  lc_fence :: "u64 option"
  lc_deadline :: "nat option"
  lc_terminated :: bool

record Gate =
  gate_state :: Lifecycle
  gate_fenced :: bool
  gate_terminated :: bool

definition Gate_default :: Gate where
  "Gate_default = \<lparr>gate_state = \<lparr>lc_sequence = 0, lc_fence = None, lc_deadline = None, lc_terminated = False\<rparr>,
     gate_fenced = False, gate_terminated = False\<rparr>"

definition Gate_terminate :: "Gate \<Rightarrow> Gate" where
  "Gate_terminate self =
     (if lc_terminated (gate_state self) then self
      else self\<lparr>gate_state := (gate_state self)\<lparr>lc_terminated := True\<rparr>, gate_terminated := True\<rparr>)"

definition clear_deadline :: "Gate \<Rightarrow> Gate" where
  "clear_deadline self = self\<lparr>gate_state := (gate_state self)\<lparr>lc_deadline := None\<rparr>\<rparr>"

definition has_fence :: "Gate \<Rightarrow> bool" where
  "has_fence self = gate_fenced self"

definition is_terminated :: "Gate \<Rightarrow> bool" where
  "is_terminated self = gate_terminated self"

definition Gate_snapshot :: "Gate \<Rightarrow> u64 option \<times> nat option" where
  "Gate_snapshot self =
     (if \<not> has_fence self then (None, None) else (lc_fence (gate_state self), lc_deadline (gate_state self)))"

text \<open>Whether \<open>expired\<close> returns without waiting.\<close>

definition Gate_expired :: "nat \<Rightarrow> Gate \<Rightarrow> bool" where
  "Gate_expired now self = (case snd (Gate_snapshot self) of Some deadline \<Rightarrow> deadline \<le> now | None \<Rightarrow> False)"

record 'a Queue =
  q_items :: "'a list"
  q_senders :: nat
  q_receivers :: nat
  q_waiting_receivers :: nat

record 'a Shared =
  sh_queue :: "'a Queue"
  sh_capacity :: "nat option"
  sh_priority :: bool

abbreviation sh_items :: "'a Shared \<Rightarrow> 'a list" where
  "sh_items lane \<equiv> q_items (sh_queue lane)"

definition channel :: "nat option \<Rightarrow> bool \<Rightarrow> 'a Shared" where
  "channel capacity priority =
     \<lparr>sh_queue = \<lparr>q_items = [], q_senders = 1, q_receivers = 1, q_waiting_receivers = 0\<rparr>,
      sh_capacity = capacity, sh_priority = priority\<rparr>"

definition Sender_clone :: "'a Shared \<Rightarrow> 'a Shared" where
  "Sender_clone self = self\<lparr>sh_queue := (sh_queue self)\<lparr>q_senders := q_senders (sh_queue self) + 1\<rparr>\<rparr>"

definition Sender_drop :: "'a Shared \<Rightarrow> 'a Shared" where
  "Sender_drop self = self\<lparr>sh_queue := (sh_queue self)\<lparr>q_senders := q_senders (sh_queue self) - 1\<rparr>\<rparr>"

definition Receiver_drop :: "'a Shared \<Rightarrow> 'a Shared" where
  "Receiver_drop self =
     self\<lparr>sh_queue := (sh_queue self)\<lparr>q_receivers := q_receivers (sh_queue self) - 1, q_items := []\<rparr>\<rparr>"

definition is_closing :: "Gate \<Rightarrow> 'a Shared \<Rightarrow> bool" where
  "is_closing gate self \<longleftrightarrow> has_fence gate \<and> \<not> sh_priority self"

definition instant_checked_add :: "nat \<Rightarrow> nat \<Rightarrow> nat \<Rightarrow> nat option" where
  "instant_checked_add limit now duration = (if now + duration \<le> limit then Some (now + duration) else None)"

definition u64_checked_inc :: "u64 \<Rightarrow> u64 option" where
  "u64_checked_inc n = (if n = - 1 then None else Some (n + 1))"

definition lane_available :: "'a Shared \<Rightarrow> bool" where
  "lane_available self =
     (case sh_capacity self of
        None \<Rightarrow> True
      | Some capacity \<Rightarrow>
          if capacity = 0 then length (sh_items self) < q_waiting_receivers (sh_queue self)
          else length (sh_items self) < capacity)"

definition try_send ::
  "'a item_ops \<Rightarrow> nat \<Rightarrow> nat \<Rightarrow> 'a \<Rightarrow> (Gate \<times> 'a Shared, 'a TrySendError, unit) sm" where
  "try_send ops limit now item =
     andThen (gets (\<lambda>(gate, self). (gate_state gate, self))) (\<lambda>(lifecycle, self).
     if q_receivers (sh_queue self) = 0 then fail (TrySendDisconnected item)
     else if lc_terminated lifecycle then fail (TrySendDisconnected item)
     else if lc_fence lifecycle \<noteq> None \<and> \<not> sh_priority self then fail (TrySendDisconnected (item_closing ops item))
     else if \<not> lane_available self then fail (TrySendFull item)
     else
       let fence = item_fence ops item;
           timeout = Option.bind fence (\<lambda>t. t);
           deadline = Option.bind timeout (instant_checked_add limit now) in
       if timeout \<noteq> None \<and> deadline = None then fail (TrySendDisconnected (item_invalid_timeout ops item))
       else
         andThen (expect (u64_checked_inc (lc_sequence lifecycle))) (\<lambda>sequence.
         andThen (modify (\<lambda>(gate, self).
           (gate\<lparr>gate_state := (gate_state gate)\<lparr>lc_sequence := sequence\<rparr>\<rparr>,
            self\<lparr>sh_queue := (sh_queue self)\<lparr>q_items := sh_items self @ [item_admitted ops sequence deadline item]\<rparr>\<rparr>))) (\<lambda>_.
         if fence \<noteq> None then
           modify (\<lambda>(gate, self).
             (gate\<lparr>gate_state := (gate_state gate)\<lparr>lc_fence := Some sequence, lc_deadline := deadline\<rparr>,
                   gate_fenced := True\<rparr>, self))
         else ret ())))"

definition Receiver_len :: "'a Shared \<Rightarrow> nat" where
  "Receiver_len self = length (sh_items self)"

definition Receiver_is_empty :: "'a Shared \<Rightarrow> bool" where
  "Receiver_is_empty self \<longleftrightarrow> Receiver_len self = 0"

definition Receiver_is_disconnected :: "'a Shared \<Rightarrow> bool" where
  "Receiver_is_disconnected self \<longleftrightarrow> q_senders (sh_queue self) = 0"

definition try_recv :: "'a Shared \<Rightarrow> (TryRecvError, 'a) outcome \<times> 'a Shared" where
  "try_recv self =
     (case sh_items self of
        item # items \<Rightarrow> (Ok item, self\<lparr>sh_queue := (sh_queue self)\<lparr>q_items := items\<rparr>\<rparr>)
      | [] \<Rightarrow> (Err (if q_senders (sh_queue self) = 0 then TryRecvDisconnected else TryRecvEmpty), self))"

definition Receiver_drain :: "'a Shared \<Rightarrow> 'a list \<times> 'a Shared" where
  "Receiver_drain self = (sh_items self, self\<lparr>sh_queue := (sh_queue self)\<lparr>q_items := []\<rparr>\<rparr>)"

text \<open>
  \<open>recv_async\<close> on an empty lane: a rendezvous receiver registers itself, and each later turn of the
  loop takes an item, retiring the registration under the same lock. A cancelled receiver
  withdraws its registration.
\<close>

definition recv_register :: "'a Shared \<Rightarrow> 'a Shared" where
  "recv_register self =
     (if sh_capacity self = Some 0
      then self\<lparr>sh_queue := (sh_queue self)\<lparr>q_waiting_receivers := q_waiting_receivers (sh_queue self) + 1\<rparr>\<rparr>
      else self)"

definition recv_cancel :: "'a Shared \<Rightarrow> 'a Shared" where
  "recv_cancel self =
     (if sh_capacity self = Some 0
      then self\<lparr>sh_queue := (sh_queue self)\<lparr>q_waiting_receivers := q_waiting_receivers (sh_queue self) - 1\<rparr>\<rparr>
      else self)"

definition recv_turn :: "'a Shared \<Rightarrow> (TryRecvError, 'a) outcome \<times> 'a Shared" where
  "recv_turn self =
     (case try_recv self of
        (Ok item, self) \<Rightarrow> (Ok item, recv_cancel self)
      | (r, self) \<Rightarrow> (r, self))"

section \<open>The interface of a receiver\<close>

record ('c, 'a) channel_ops =
  ch_try_recv :: "'c \<Rightarrow> (TryRecvError, 'a) outcome \<times> 'c"
  ch_drain :: "'c \<Rightarrow> 'a list \<times> 'c"
  ch_len :: "'c \<Rightarrow> nat"
  ch_is_empty :: "'c \<Rightarrow> bool"
  ch_is_disconnected :: "'c \<Rightarrow> bool"

locale request_channel =
  fixes C :: "('c, 'a) channel_ops" and items :: "'c \<Rightarrow> 'a list"
  assumes recv_some: "items c = x # xs \<Longrightarrow>
      \<exists>c'. ch_try_recv C c = (Ok x, c') \<and> items c' = xs \<and> (ch_is_disconnected C c' \<longleftrightarrow> ch_is_disconnected C c)"
    and recv_none: "items c = [] \<Longrightarrow>
      ch_try_recv C c = (Err (if ch_is_disconnected C c then TryRecvDisconnected else TryRecvEmpty), c)"
    and drain_all: "\<exists>c'. ch_drain C c = (items c, c') \<and> items c' = []
      \<and> (ch_is_disconnected C c' \<longleftrightarrow> ch_is_disconnected C c)"
    and len_items: "ch_len C c = length (items c)"
    and empty_items: "ch_is_empty C c \<longleftrightarrow> items c = []"
begin

lemma recv_cases:
  obtains x c' where "ch_try_recv C c = (Ok x, c')" "items c = x # items c'"
      "ch_is_disconnected C c' \<longleftrightarrow> ch_is_disconnected C c"
    | e where "ch_try_recv C c = (Err e, c)" "items c = []"
      "e = (if ch_is_disconnected C c then TryRecvDisconnected else TryRecvEmpty)"
  using recv_some [of c] recv_none [of c] by (cases "items c") auto

end

definition admission_channel :: "('a Shared, 'a) channel_ops" where
  "admission_channel = \<lparr>ch_try_recv = try_recv, ch_drain = Receiver_drain, ch_len = Receiver_len,
     ch_is_empty = Receiver_is_empty, ch_is_disconnected = Receiver_is_disconnected\<rparr>"

interpretation admission: request_channel admission_channel sh_items
  by unfold_locales
    (auto simp: admission_channel_def try_recv_def Receiver_drain_def Receiver_len_def Receiver_is_empty_def
      Receiver_is_disconnected_def)

section \<open>Interleavings\<close>

record 'a Lanes =
  lanes_gate :: Gate
  lanes_list :: "'a Shared list"

definition Lanes_new :: "(nat option \<times> bool) list \<Rightarrow> 'a Lanes" where
  "Lanes_new specs = \<lparr>lanes_gate = Gate_default, lanes_list = map (\<lambda>(capacity, priority). channel capacity priority) specs\<rparr>"

abbreviation with_lane :: "nat \<Rightarrow> 'a Shared \<Rightarrow> 'a Lanes \<Rightarrow> 'a Lanes" where
  "with_lane i lane s \<equiv> s\<lparr>lanes_list := (lanes_list s)[i := lane]\<rparr>"

text \<open>One step of some client or of the event loop. Fences are never sent on a priority lane.\<close>

inductive adm_step :: "'a item_ops \<Rightarrow> nat \<Rightarrow> 'a Lanes \<Rightarrow> 'a Lanes \<Rightarrow> bool" for ops limit where
  step_send: "\<lbrakk>i < length (lanes_list s); sh_priority (lanes_list s ! i) \<Longrightarrow> item_fence ops item = None;
      try_send ops limit now item (lanes_gate s, lanes_list s ! i) = (r, gate, lane)\<rbrakk>
    \<Longrightarrow> adm_step ops limit s ((with_lane i lane s)\<lparr>lanes_gate := gate\<rparr>)"
| step_recv: "\<lbrakk>i < length (lanes_list s); (r, lane) \<in> {try_recv (lanes_list s ! i), recv_turn (lanes_list s ! i)}\<rbrakk>
    \<Longrightarrow> adm_step ops limit s (with_lane i lane s)"
| step_drain: "\<lbrakk>i < length (lanes_list s); Receiver_drain (lanes_list s ! i) = (xs, lane)\<rbrakk>
    \<Longrightarrow> adm_step ops limit s (with_lane i lane s)"
| step_handle: "\<lbrakk>i < length (lanes_list s);
      f \<in> {Sender_clone, Sender_drop, Receiver_drop, recv_register, recv_cancel}\<rbrakk>
    \<Longrightarrow> adm_step ops limit s (with_lane i (f (lanes_list s ! i)) s)"
| step_gate: "f \<in> {Gate_terminate, clear_deadline} \<Longrightarrow> adm_step ops limit s (s\<lparr>lanes_gate := f (lanes_gate s)\<rparr>)"

definition adm_reach :: "'a item_ops \<Rightarrow> nat \<Rightarrow> 'a Lanes \<Rightarrow> bool" where
  "adm_reach ops limit s \<longleftrightarrow> (\<exists>specs. (adm_step ops limit)\<^sup>*\<^sup>* (Lanes_new specs) s)"

text \<open>What an implementation of \<open>Item\<close> promises: it remembers the sequence number it was admitted with.\<close>

locale admission_item =
  fixes ops :: "'a item_ops" and seq :: "'a \<Rightarrow> u64"
  assumes seq_admitted: "seq (item_admitted ops n d x) = n"
begin

abbreviation fence_of :: "'a Lanes \<Rightarrow> u64 option" where
  "fence_of s \<equiv> lc_fence (gate_state (lanes_gate s))"

definition gate_inv :: "Gate \<Rightarrow> bool" where
  "gate_inv gate \<longleftrightarrow>
     (gate_fenced gate \<longleftrightarrow> lc_fence (gate_state gate) \<noteq> None)
     \<and> (\<forall>f. lc_fence (gate_state gate) = Some f \<longrightarrow> f \<le> lc_sequence (gate_state gate))"

definition lane_inv :: "Gate \<Rightarrow> 'a Shared \<Rightarrow> bool" where
  "lane_inv gate lane \<longleftrightarrow>
     sorted_wrt (<) (map seq (sh_items lane))
     \<and> (\<forall>x \<in> set (sh_items lane). seq x \<le> lc_sequence (gate_state gate)
          \<and> (\<forall>f. lc_fence (gate_state gate) = Some f \<longrightarrow> \<not> sh_priority lane \<longrightarrow> seq x \<le> f))
     \<and> (\<forall>c. sh_capacity lane = Some c \<longrightarrow> c \<noteq> 0 \<longrightarrow> length (sh_items lane) \<le> c)"

definition adm_inv :: "'a Lanes \<Rightarrow> bool" where
  "adm_inv s \<longleftrightarrow> gate_inv (lanes_gate s) \<and> list_all (lane_inv (lanes_gate s)) (lanes_list s)"

lemma lane_inv_suffix:
  assumes "lane_inv gate lane" "sh_items lane = xs @ sh_items lane'"
    "sh_capacity lane' = sh_capacity lane" "sh_priority lane' = sh_priority lane"
  shows "lane_inv gate lane'"
  using assms by (fastforce simp: lane_inv_def sorted_wrt_append)

lemma adm_inv_lane: "\<lbrakk>adm_inv s; lane_inv (lanes_gate s) lane\<rbrakk> \<Longrightarrow> adm_inv (with_lane i lane s)"
  by (cases "i < length (lanes_list s)") (auto simp: adm_inv_def list_all_iff dest!: set_update_subset_insert [THEN subsetD])

lemma u64_checked_inc_Some:
  assumes "u64_checked_inc n = Some m"
  shows "m = n + 1" "n < m"
proof -
  have "1 + n \<noteq> 0"
    using assms by (auto simp: u64_checked_inc_def eq_neg_iff_add_eq_0 add.commute split: if_splits)
  then show "n < m" and "m = n + 1"
    using assms unatSuc [of n] by (auto simp: u64_checked_inc_def word_less_nat_alt add.commute split: if_splits)
qed

text \<open>A send leaves everything alone, or admits the item with the next sequence number.\<close>

lemma try_send_cases:
  assumes "try_send ops limit now item (gate, lane) = (r, gate', lane')"
  obtains "gate' = gate" "lane' = lane" "r \<noteq> Ok ()"
    | n d where "r = Ok ()" "lc_sequence (gate_state gate) < n" "lane_available lane"
      "lc_fence (gate_state gate) = None \<or> sh_priority lane"
      "lane' = lane\<lparr>sh_queue := (sh_queue lane)\<lparr>q_items := sh_items lane @ [item_admitted ops n d item]\<rparr>\<rparr>"
      "lc_sequence (gate_state gate') = n"
      "if item_fence ops item = None then lc_fence (gate_state gate') = lc_fence (gate_state gate) \<and> gate_fenced gate' = gate_fenced gate
       else lc_fence (gate_state gate') = Some n \<and> gate_fenced gate'"
proof (cases "r = Ok ()")
  case True
  let ?d = "Option.bind (Option.bind (item_fence ops item) (\<lambda>t. t)) (instant_checked_add limit now)"
  have ok: "lane_available lane" "lc_fence (gate_state gate) = None \<or> sh_priority lane"
    using assms True by (auto simp: try_send_def run_simps split: if_splits)
  obtain n where "u64_checked_inc (lc_sequence (gate_state gate)) = Some n"
    using assms True by (auto simp: try_send_def run_simps andThen_eq_Ok split: if_splits option.splits)
  then show thesis
    using assms True ok that(2) [of n ?d] u64_checked_inc_Some
    by (auto simp: try_send_def run_simps andThen_eq_Ok split: if_splits)
next
  case False
  then show thesis
    using assms that(1)
    by (auto simp: try_send_def run_simps andThen_def split: if_splits option.splits outcome.splits)
qed

lemma lane_inv_gate:
  assumes "lane_inv gate lane" "lc_sequence (gate_state gate) \<le> lc_sequence (gate_state gate')"
    and "\<And>f. lc_fence (gate_state gate') = Some f \<Longrightarrow>
      lc_fence (gate_state gate) = Some f \<or> lc_sequence (gate_state gate) \<le> f"
  shows "lane_inv gate' lane"
  unfolding lane_inv_def
proof (intro conjI ballI allI impI)
  fix x f
  assume x: "x \<in> set (sh_items lane)"
  then show "seq x \<le> lc_sequence (gate_state gate')"
    using assms(1,2) by (auto simp: lane_inv_def)
  assume "lc_fence (gate_state gate') = Some f" "\<not> sh_priority lane"
  then show "seq x \<le> f"
    using assms(1) assms(3) [of f] x by (fastforce simp: lane_inv_def)
qed (use assms(1) in \<open>simp_all add: lane_inv_def\<close>)

lemma send_keeps_inv:
  assumes "adm_inv s" "i < length (lanes_list s)" "sh_priority (lanes_list s ! i) \<Longrightarrow> item_fence ops item = None"
    "try_send ops limit now item (lanes_gate s, lanes_list s ! i) = (r, gate, lane)"
  shows "adm_inv ((with_lane i lane s)\<lparr>lanes_gate := gate\<rparr>)"
  using assms(4)
proof (cases rule: try_send_cases)
  case 1
  then show ?thesis
    using assms(1,2) by (simp add: adm_inv_def)
next
  case (2 n d)
  let ?g = "gate_state (lanes_gate s)" and ?l = "lanes_list s ! i"
  have inv: "gate_inv (lanes_gate s)" "list_all (lane_inv (lanes_gate s)) (lanes_list s)"
    using assms(1) by (simp_all add: adm_inv_def)
  have mono: "lane_inv gate l" if "lane_inv (lanes_gate s) l" for l
    using that 2(2,6,7) by (intro lane_inv_gate [OF that]) (auto split: if_splits)
  have "lane_inv (lanes_gate s) ?l"
    using inv(2) assms(2) by (simp add: list_all_length)
  note old = mono [OF this] this
  have fence: "seq x < n" if "x \<in> set (sh_items ?l)" for x
    using old(2) that 2(2) by (fastforce simp: lane_inv_def)
  have "f = n" if "lc_fence (gate_state gate) = Some f" "\<not> sh_priority ?l" for f
    using that 2(4,7) by (auto split: if_splits)
  then have "lane_inv gate lane"
    using old(1) 2(3,6) fence unfolding 2(5)
    by (auto simp: lane_inv_def sorted_wrt_append seq_admitted lane_available_def split: option.splits)
  moreover have "gate_inv gate"
    using inv(1) 2(2,6,7) by (auto simp: gate_inv_def split: if_splits)
  ultimately show ?thesis
    using mono inv(2) by (auto simp: adm_inv_def list_all_iff dest!: set_update_subset_insert [THEN subsetD])
qed

lemma step_keeps_inv: "\<lbrakk>adm_step ops limit s s'; adm_inv s\<rbrakk> \<Longrightarrow> adm_inv s'"
proof (induction rule: adm_step.induct)
  case (step_send i s item now r gate lane)
  then show ?case by (intro send_keeps_inv)
next
  case (step_recv i s r lane)
  have "lane_inv (lanes_gate s) (lanes_list s ! i)"
    using step_recv by (simp add: adm_inv_def list_all_length)
  moreover have "\<exists>xs. sh_items (lanes_list s ! i) = xs @ sh_items lane" "sh_capacity lane = sh_capacity (lanes_list s ! i)"
      "sh_priority lane = sh_priority (lanes_list s ! i)"
    using step_recv(2) by (auto simp: recv_turn_def try_recv_def recv_cancel_def split: list.splits if_splits)
  ultimately show ?case
    using step_recv(3) lane_inv_suffix adm_inv_lane by metis
next
  case (step_drain i s xs lane)
  have "lane_inv (lanes_gate s) (lanes_list s ! i)"
    using step_drain by (simp add: adm_inv_def list_all_length)
  then have "lane_inv (lanes_gate s) lane"
    by (rule lane_inv_suffix [where xs = xs]) (use step_drain(2) in \<open>auto simp: Receiver_drain_def\<close>)
  then show ?case
    by (rule adm_inv_lane [OF step_drain(3)])
next
  case (step_handle i s f)
  have "lane_inv (lanes_gate s) (lanes_list s ! i)"
    using step_handle by (simp add: adm_inv_def list_all_length)
  moreover have "\<exists>xs. sh_items (lanes_list s ! i) = xs @ sh_items (f (lanes_list s ! i))"
      "sh_capacity (f (lanes_list s ! i)) = sh_capacity (lanes_list s ! i)"
      "sh_priority (f (lanes_list s ! i)) = sh_priority (lanes_list s ! i)"
    using step_handle(2)
    by (auto simp: Sender_clone_def Sender_drop_def Receiver_drop_def recv_register_def recv_cancel_def split: if_splits)
  ultimately show ?case
    using step_handle(3) lane_inv_suffix adm_inv_lane by metis
next
  case (step_gate f s)
  then have "lc_sequence (gate_state (f (lanes_gate s))) = lc_sequence (gate_state (lanes_gate s))"
      "lc_fence (gate_state (f (lanes_gate s))) = fence_of s" "gate_fenced (f (lanes_gate s)) = gate_fenced (lanes_gate s)"
    by (auto simp: Gate_terminate_def clear_deadline_def split: if_splits)
  with step_gate(2) show ?case
    using lane_inv_gate [of "lanes_gate s" _ "f (lanes_gate s)"] by (auto simp: adm_inv_def gate_inv_def list_all_iff)
qed

lemma step_keeps_fence: "\<lbrakk>adm_step ops limit s s'; fence_of s = Some f\<rbrakk> \<Longrightarrow> fence_of s' = Some f"
proof (induction rule: adm_step.induct)
  case (step_send i s item now r gate lane)
  from step_send(3) show ?case
    by (cases rule: try_send_cases) (use step_send in \<open>auto split: if_splits\<close>)
qed (auto simp: Gate_terminate_def clear_deadline_def)

lemma reach_adm_inv: "adm_reach ops limit s \<Longrightarrow> adm_inv s"
proof -
  have new: "adm_inv (Lanes_new specs)" for specs
    by (auto simp: adm_inv_def gate_inv_def lane_inv_def Lanes_new_def Gate_default_def channel_def list_all_iff)
  have "(adm_step ops limit)\<^sup>*\<^sup>* s0 s \<Longrightarrow> adm_inv s0 \<Longrightarrow> adm_inv s" for s0
    by (induction rule: rtranclp_induct) (auto intro: step_keeps_inv)
  then show "adm_reach ops limit s \<Longrightarrow> adm_inv s"
    using new by (auto simp: adm_reach_def)
qed

lemma steps_keep_fence: "\<lbrakk>(adm_step ops limit)\<^sup>*\<^sup>* s s'; fence_of s = Some f\<rbrakk> \<Longrightarrow> fence_of s' = Some f"
  by (induction rule: rtranclp_induct) (auto intro: step_keeps_fence)

lemma fenced_send:
  assumes "lc_fence (gate_state gate) = Some f" "\<not> sh_priority lane"
  shows "\<exists>e. try_send ops limit now item (gate, lane) = (Err (TrySendDisconnected e), gate, lane)"
  using assms by (auto simp: try_send_def run_simps)

end

end
