(* ===== verification/V4_Ordered.thy ===== *)
theory V4_Ordered
  imports Admission V4_Notice V4_State
begin

text \<open>
  Ordered shutdown of the MQTT 3.1.1 client (\<open>rumqttc-v4/src/disconnect.rs\<close>, with the feature
  \<open>ordered-shutdown\<close>): the admission data of a request, the ledger of the publishes a shutdown waits
  for, and the completion of the shutdown. A one-shot channel is the value sent on it, if any.
\<close>

section \<open>Admission data\<close>

text \<open>The requests of this feature: those of \<open>V4_State\<close> and the two ordered disconnects.\<close>

datatype OrderedRequest =
    OrdRequest Request
  | DisconnectAfterQueued Disconnect
  | DisconnectAfterQueuedWithTimeout Disconnect nat

record Completion =
  completion_sender :: bool
  completion_admission :: "(u64 \<times> nat option) option"

record RequestMeta =
  meta_sequence :: u64
  meta_closing :: bool
  meta_invalid_timeout :: bool
  meta_deadline :: "nat option"
  meta_completion :: "Completion option"

definition RequestMeta_new :: RequestMeta where
  "RequestMeta_new = \<lparr>meta_sequence = 0, meta_closing = False, meta_invalid_timeout = False,
     meta_deadline = None, meta_completion = None\<rparr>"

record OrderedEnvelope =
  ord_request :: OrderedRequest
  ord_notice :: "TrackedNoticeTx option"
  ord_replay :: bool
  ord_meta :: RequestMeta

fun envelope_fence_request :: "OrderedRequest \<Rightarrow> nat option option" where
  "envelope_fence_request (DisconnectAfterQueued _) = Some None"
| "envelope_fence_request (DisconnectAfterQueuedWithTimeout _ timeout) = Some (Some timeout)"
| "envelope_fence_request _ = None"

definition envelope_fence :: "OrderedEnvelope \<Rightarrow> nat option option" where
  "envelope_fence self = envelope_fence_request (ord_request self)"

text \<open>\<open>OnceLock::set\<close> keeps the first value.\<close>

definition once_set :: "'a \<Rightarrow> 'a option \<Rightarrow> 'a option" where
  "once_set v cell = (case cell of None \<Rightarrow> Some v | Some w \<Rightarrow> Some w)"

definition envelope_admitted :: "u64 \<Rightarrow> nat option \<Rightarrow> OrderedEnvelope \<Rightarrow> OrderedEnvelope" where
  "envelope_admitted sequence deadline self =
     self\<lparr>ord_meta := (ord_meta self)\<lparr>meta_sequence := sequence, meta_deadline := deadline,
       meta_completion := map_option (\<lambda>completion.
         completion\<lparr>completion_admission := once_set (sequence, deadline) (completion_admission completion)\<rparr>)
         (meta_completion (ord_meta self))\<rparr>\<rparr>"

definition envelope_closing :: "OrderedEnvelope \<Rightarrow> OrderedEnvelope" where
  "envelope_closing self = self\<lparr>ord_meta := (ord_meta self)\<lparr>meta_closing := True\<rparr>\<rparr>"

definition envelope_invalid_timeout :: "OrderedEnvelope \<Rightarrow> OrderedEnvelope" where
  "envelope_invalid_timeout self = self\<lparr>ord_meta := (ord_meta self)\<lparr>meta_invalid_timeout := True\<rparr>\<rparr>"

definition envelope_item :: "OrderedEnvelope item_ops" where
  "envelope_item = \<lparr>item_fence = envelope_fence, item_admitted = envelope_admitted,
     item_closing = envelope_closing, item_invalid_timeout = envelope_invalid_timeout\<rparr>"

abbreviation envelope_sequence :: "OrderedEnvelope \<Rightarrow> u64" where
  "envelope_sequence self \<equiv> meta_sequence (ord_meta self)"

interpretation envelope: admission_item envelope_item envelope_sequence
  by unfold_locales (simp add: envelope_item_def envelope_admitted_def)

section \<open>The ledger\<close>

record Ledger =
  ledger_pending :: nat
  ledger_failure :: "PublishNoticeError option"

definition Ledger_default :: Ledger where
  "Ledger_default = \<lparr>ledger_pending = 0, ledger_failure = None\<rparr>"

datatype DisconnectNoticeError =
    NoticeDisconnectTimeout | NoticePublish PublishNoticeError | NoticeSupersededByImmediate | NoticeSuperseded
  | NoticeReceiverTerminated | NoticeSessionReset | NoticeRedirected | NoticeReplayUnavailable

definition Ledger_result :: "Ledger \<Rightarrow> DisconnectNoticeError + bool" where
  "Ledger_result self =
     (case ledger_failure self of
        None \<Rightarrow> Inr (ledger_pending self = 0)
      | Some error \<Rightarrow> Inl (NoticePublish error))"

definition Observation_new :: "Ledger \<Rightarrow> Ledger" where
  "Observation_new self = self\<lparr>ledger_pending := ledger_pending self + 1\<rparr>"

definition Observation_finish :: "PublishNoticeError + unit \<Rightarrow> Ledger \<Rightarrow> Ledger" where
  "Observation_finish result self =
     self\<lparr>ledger_failure := (case result of Inl error \<Rightarrow> once_set error (ledger_failure self) | Inr _ \<Rightarrow> ledger_failure self),
       ledger_pending := ledger_pending self - 1\<rparr>"

text \<open>An observation that is dropped unfinished.\<close>

definition Observation_drop :: "Ledger \<Rightarrow> Ledger" where
  "Observation_drop self = self\<lparr>ledger_failure := once_set PublishRecv (ledger_failure self),
     ledger_pending := ledger_pending self - 1\<rparr>"

text \<open>The shutdown is complete exactly when every observed publish has finished without an error.\<close>

lemma ledger_complete:
  "Ledger_result (fold (\<lambda>r. Observation_finish r) results ((Observation_new ^^ n) Ledger_default)) = Inr True
    \<longleftrightarrow> n \<le> length results \<and> (\<forall>r \<in> set results. r = Inr ())"
proof -
  have new: "(Observation_new ^^ n) Ledger_default = \<lparr>ledger_pending = n, ledger_failure = None\<rparr>"
    by (induction n) (simp_all add: Observation_new_def Ledger_default_def)
  have pending: "ledger_pending (fold Observation_finish results l) = ledger_pending l - length results" for l :: Ledger
    by (induction results arbitrary: l) (simp_all add: Observation_finish_def)
  have failure: "ledger_failure (fold Observation_finish results l) = None
      \<longleftrightarrow> ledger_failure l = None \<and> (\<forall>r \<in> set results. r = Inr ())" for l :: Ledger
    by (induction results arbitrary: l)
      (auto simp: Observation_finish_def once_set_def split: sum.splits option.splits)
  let ?l = "\<lparr>ledger_pending = n, ledger_failure = None\<rparr>"
  show ?thesis
    using pending [of ?l] failure [of ?l] unfolding new Ledger_result_def
    by (cases "ledger_failure (fold Observation_finish results ?l)") simp_all
qed

section \<open>Properties\<close>

text \<open>
  C15: An ordered disconnect fences the request lanes. However the clients and the event loop
  interleave, once a fence has been admitted it stays the fence; every request waiting in an ordinary lane
  was admitted no later than the fence and in the order of the lane; a bounded lane holds no more than its
  capacity; and every later send on such a lane is refused without changing it.
\<close>

theorem fence_closes_admission:
  assumes "adm_reach envelope_item limit s" "lc_fence (gate_state (lanes_gate s)) = Some f"
    and "(adm_step envelope_item limit)\<^sup>*\<^sup>* s s'" "lane \<in> set (lanes_list s')" "\<not> sh_priority lane"
  shows "fst (Gate_snapshot (lanes_gate s')) = Some f
    \<and> sorted_wrt (<) (map envelope_sequence (sh_items lane))
    \<and> (\<forall>x \<in> set (sh_items lane). envelope_sequence x \<le> f)
    \<and> (\<forall>c. sh_capacity lane = Some c \<longrightarrow> c \<noteq> 0 \<longrightarrow> length (sh_items lane) \<le> c)
    \<and> (\<exists>e. try_send envelope_item limit now item (lanes_gate s', lane)
          = (Err (TrySendDisconnected e), lanes_gate s', lane))"
proof -
  have "adm_reach envelope_item limit s'"
    using assms(1,3) unfolding adm_reach_def by (meson rtranclp_trans)
  then have inv: "envelope.adm_inv s'"
    by (rule envelope.reach_adm_inv)
  have fence: "lc_fence (gate_state (lanes_gate s')) = Some f"
    by (rule envelope.steps_keep_fence [OF assms(3,2)])
  have "gate_fenced (lanes_gate s')" "envelope.lane_inv (lanes_gate s') lane"
    using inv fence assms(4) by (auto simp: envelope.adm_inv_def envelope.gate_inv_def list_all_iff)
  then show ?thesis
    using fence assms(5) envelope.fenced_send [OF fence assms(5)]
    by (auto simp: Gate_snapshot_def has_fence_def envelope.lane_inv_def)
qed

definition fence_envelope :: OrderedEnvelope where
  "fence_envelope = \<lparr>ord_request = DisconnectAfterQueued Disconnect, ord_notice = None, ord_replay = False,
     ord_meta = RequestMeta_new\<rparr>"

theorem fence_closes_admission_witness:
  "\<exists>(s :: OrderedEnvelope Lanes) lane e. lanes_list s = [lane] \<and> length (sh_items lane) = 1
    \<and> try_send envelope_item 100 0 fence_envelope (lanes_gate s, lane)
        = (Err (TrySendDisconnected e), lanes_gate s, lane)"
proof -
  define s0 :: "OrderedEnvelope Lanes" where "s0 = Lanes_new [(Some 2, False)]"
  obtain r g l where run: "try_send envelope_item 100 0 fence_envelope (lanes_gate s0, lanes_list s0 ! 0) = (r, g, l)"
    using prod_cases3 by blast
  define s where "s = (with_lane 0 l s0)\<lparr>lanes_gate := g\<rparr>"
  have "adm_step envelope_item 100 s0 s"
    unfolding s_def by (rule step_send [OF _ _ run]) (simp_all add: s0_def Lanes_new_def channel_def)
  then have "adm_reach envelope_item 100 s"
    unfolding adm_reach_def s0_def by blast
  moreover have facts: "lc_fence (gate_state (lanes_gate s)) = Some 1" "lanes_list s = [l]" "\<not> sh_priority l" "length (sh_items l) = 1"
    using run by (auto simp: s_def s0_def Lanes_new_def channel_def Gate_default_def try_send_def run_simps andThen_def lane_available_def
        envelope_item_def envelope_fence_def fence_envelope_def u64_checked_inc_def)
  ultimately show ?thesis
    using fence_closes_admission [of 100 s 1 s l 0 fence_envelope] by (intro exI [of _ s] exI [of _ l]) auto
qed

end
