(* ===== verification/Session_IO.thy ===== *)
theory Session_IO
  imports Primitives
begin

text \<open>
  The byte writer and byte reader under the session checkpoint format (\<open>session.rs\<close>:
  \<open>SessionWriter\<close>, \<open>SessionReader\<close> and their errors). The writer refuses to grow beyond its limit and
  remembers the excess; the reader keeps a budget for the memory its results own. The
  interface \<open>field_codec\<close> states what a pair of a writing and a reading function owe each other,
  and lifts it once and for all to length-prefixed vectors.
\<close>

section \<open>Machine sizes\<close>

definition usize_max :: nat where
  "usize_max = 18446744073709551615"

definition saturating_add :: "nat \<Rightarrow> nat \<Rightarrow> nat" where
  "saturating_add a b = min (a + b) usize_max"

definition saturating_mul :: "nat \<Rightarrow> nat \<Rightarrow> nat" where
  "saturating_mul a b = min (a * b) usize_max"

definition usize_checked_add :: "nat \<Rightarrow> nat \<Rightarrow> nat option" where
  "usize_checked_add a b = (if a + b \<le> usize_max then Some (a + b) else None)"

definition usize_checked_mul :: "nat \<Rightarrow> nat \<Rightarrow> nat option" where
  "usize_checked_mul a b = (if a * b \<le> usize_max then Some (a * b) else None)"

definition usize_checked_sub :: "nat \<Rightarrow> nat \<Rightarrow> nat option" where
  "usize_checked_sub a b = (if b \<le> a then Some (a - b) else None)"

definition u32_try_from :: "nat \<Rightarrow> u32 option" where
  "u32_try_from n = (if n \<le> 4294967295 then Some (of_nat n) else None)"

section \<open>Format limits and errors\<close>

definition MAX_BINARY_LEN :: nat where
  "MAX_BINARY_LEN = 268435455"

definition MAX_COLLECTION_LEN :: nat where
  "MAX_COLLECTION_LEN = 1000000"

datatype SessionEncodeError =
    FieldTooLarge (too_large_field: string) (too_large_len: nat)

datatype SessionDecodeError =
    InvalidMagic
  | WrongProtocol u8
  | UnsupportedCodecVersion u16
  | Truncated string
  | TrailingBytes
  | InvalidUtf8 string
  | InvalidEnumTag string u8
  | LimitExceeded string nat

section \<open>Writer\<close>

text \<open>
  \<open>w_capacity\<close> is the capacity of the output vector. \<open>reserve_exact\<close> asks for exactly the bytes it
  is given; \<open>extend_from_slice\<close> grows the vector by doubling when it lacks room.
\<close>

record SessionWriter =
  w_bytes :: bytes
  w_capacity :: nat
  w_limit :: nat
  w_excess :: "nat option"

type_synonym 'a writer = "(SessionWriter, SessionEncodeError, 'a) sm"

definition SessionWriter_new :: "nat \<Rightarrow> SessionWriter" where
  "SessionWriter_new limit = \<lparr>w_bytes = [], w_capacity = 0, w_limit = limit, w_excess = None\<rparr>"

definition reserve_exact :: "nat \<Rightarrow> SessionWriter \<Rightarrow> SessionWriter" where
  "reserve_exact additional self =
     self\<lparr>w_capacity := max (w_capacity self) (length (w_bytes self) + additional)\<rparr>"

definition extend_from_slice :: "bytes \<Rightarrow> SessionWriter \<Rightarrow> SessionWriter" where
  "extend_from_slice value self =
     (let required = length (w_bytes self) + length value in
      self\<lparr>w_bytes := w_bytes self @ value,
           w_capacity := (if required \<le> w_capacity self then w_capacity self
             else max (max (w_capacity self * 2) required) 8)\<rparr>)"

definition writer_append :: "bytes \<Rightarrow> SessionWriter \<Rightarrow> SessionWriter" where
  "writer_append value self =
     (let len = saturating_add (length (w_bytes self)) (length value) in
      if len > w_limit self then self\<lparr>w_excess := Some len\<rparr>
      else if w_excess self = None then
        (let self =
           (if len > w_capacity self then
              let capacity = min (max (saturating_mul (w_capacity self) 2) len) (w_limit self) in
              reserve_exact (capacity - length (w_bytes self)) self
            else self) in
         extend_from_slice value self)
      else self)"

definition writer_u8 :: "u8 \<Rightarrow> unit writer" where
  "writer_u8 value = modify (writer_append [value])"

definition writer_bool :: "bool \<Rightarrow> unit writer" where
  "writer_bool value = writer_u8 (if value then 1 else 0)"

definition writer_u16 :: "u16 \<Rightarrow> unit writer" where
  "writer_u16 value = modify (writer_append (u16_be value))"

definition writer_u32 :: "u32 \<Rightarrow> unit writer" where
  "writer_u32 value = modify (writer_append (u32_be value))"

definition check_excess :: "unit writer" where
  "check_excess =
     andThen (gets w_excess) (\<lambda>excess.
     case excess of
       Some len \<Rightarrow> fail (FieldTooLarge ''checkpoint'' len)
     | None \<Rightarrow> ret ())"

definition writer_bytes :: "string \<Rightarrow> bytes \<Rightarrow> unit writer" where
  "writer_bytes field value =
     andThen (ensure (length value \<le> MAX_BINARY_LEN) (FieldTooLarge field (length value))) (\<lambda>_.
     andThen (ok_or (u32_try_from (length value)) (FieldTooLarge field (length value))) (\<lambda>len.
     andThen (writer_u32 len) (\<lambda>_.
     andThen (modify (writer_append value)) (\<lambda>_.
     check_excess))))"

definition writer_string :: "string \<Rightarrow> rstring \<Rightarrow> unit writer" where
  "writer_string field value = writer_bytes field value"

definition writer_vec :: "string \<Rightarrow> 'a list \<Rightarrow> ('a \<Rightarrow> unit writer) \<Rightarrow> unit writer" where
  "writer_vec field values wr =
     andThen (ensure (length values \<le> MAX_COLLECTION_LEN) (FieldTooLarge field (length values))) (\<lambda>_.
     andThen (ok_or (u32_try_from (length values)) (FieldTooLarge field (length values))) (\<lambda>len.
     andThen (writer_u32 len) (\<lambda>_.
     for_each (\<lambda>value. andThen (wr value) (\<lambda>_. check_excess)) values)))"

section \<open>Reader\<close>

record SessionReader =
  r_bytes :: bytes
  r_position :: nat
  r_remaining_memory :: nat

type_synonym 'a reader = "(SessionReader, SessionDecodeError, 'a) sm"

definition reserve_memory :: "string \<Rightarrow> nat \<Rightarrow> unit reader" where
  "reserve_memory field len =
     andThen (gets (\<lambda>self. usize_checked_sub (r_remaining_memory self) len)) (\<lambda>rest.
     andThen (ok_or rest (LimitExceeded field len)) (\<lambda>rest.
     modify (\<lambda>self. self\<lparr>r_remaining_memory := rest\<rparr>)))"

definition reader_finish :: "unit reader" where
  "reader_finish =
     andThen (gets (\<lambda>self. r_position self = length (r_bytes self))) (\<lambda>done.
     if done then ret () else fail TrailingBytes)"

definition reader_take :: "string \<Rightarrow> nat \<Rightarrow> bytes reader" where
  "reader_take field len =
     andThen (gets (\<lambda>self. usize_checked_add (r_position self) len)) (\<lambda>r.
     andThen (ok_or r (LimitExceeded field len)) (\<lambda>en.
     andThen (gets (\<lambda>self. if r_position self \<le> en \<and> en \<le> length (r_bytes self)
       then Some (take (en - r_position self) (drop (r_position self) (r_bytes self))) else None)) (\<lambda>slice.
     andThen (ok_or slice (Truncated field)) (\<lambda>bytes.
     andThen (modify (\<lambda>self. self\<lparr>r_position := en\<rparr>)) (\<lambda>_.
     ret bytes)))))"

definition reader_u8 :: "string \<Rightarrow> u8 reader" where
  "reader_u8 field = andThen (reader_take field 1) (\<lambda>bytes. expect (nth_opt bytes 0))"

definition reader_bool :: "string \<Rightarrow> bool reader" where
  "reader_bool field =
     andThen (reader_u8 field) (\<lambda>tag.
     if tag = 0 then ret False
     else if tag = 1 then ret True
     else fail (InvalidEnumTag field tag))"

definition reader_u16 :: "string \<Rightarrow> u16 reader" where
  "reader_u16 field =
     andThen (reader_take field 2) (\<lambda>bytes.
     andThen (expect (nth_opt bytes 0)) (\<lambda>a.
     andThen (expect (nth_opt bytes 1)) (\<lambda>b.
     ret (be_u16 a b))))"

definition reader_u32 :: "string \<Rightarrow> u32 reader" where
  "reader_u32 field =
     andThen (reader_take field 4) (\<lambda>bytes.
     andThen (expect (nth_opt bytes 0)) (\<lambda>a.
     andThen (expect (nth_opt bytes 1)) (\<lambda>b.
     andThen (expect (nth_opt bytes 2)) (\<lambda>c.
     andThen (expect (nth_opt bytes 3)) (\<lambda>d.
     ret (be_u32 a b c d))))))"

definition reader_bytes :: "string \<Rightarrow> bytes reader" where
  "reader_bytes field =
     andThen (reader_u32 field) (\<lambda>n.
     let len = unat n in
     andThen (ensure (len \<le> MAX_BINARY_LEN) (LimitExceeded field len)) (\<lambda>_.
     andThen (reserve_memory field len) (\<lambda>_.
     reader_take field len)))"

definition reader_string :: "string \<Rightarrow> rstring reader" where
  "reader_string field =
     andThen (reader_bytes field) (\<lambda>bytes.
     map_err (\<lambda>_. InvalidUtf8 field) (lift (from_utf8 bytes)))"

fun read_times :: "nat \<Rightarrow> 'a reader \<Rightarrow> 'a list reader" where
  "read_times 0 rd = ret []"
| "read_times (Suc n) rd =
     andThen rd (\<lambda>x.
     andThen (read_times n rd) (\<lambda>xs.
     ret (x # xs)))"

text \<open>The argument \<open>size_of\<close> is the size in memory of one element, which the compiler chooses.\<close>

definition reader_vec :: "string \<Rightarrow> nat \<Rightarrow> 'a reader \<Rightarrow> 'a list reader" where
  "reader_vec field size_of rd =
     andThen (reader_u32 field) (\<lambda>n.
     let len = unat n in
     andThen (ensure (len \<le> MAX_COLLECTION_LEN) (LimitExceeded field len)) (\<lambda>_.
     andThen (gets (\<lambda>self. length (r_bytes self) - r_position self)) (\<lambda>left.
     andThen (ensure (len \<le> left) (Truncated field)) (\<lambda>_.
     andThen (ok_or (usize_checked_mul len size_of) (LimitExceeded field len)) (\<lambda>memory.
     andThen (reserve_memory field memory) (\<lambda>_.
     read_times len rd))))))"

section \<open>What a writer has written\<close>

text \<open>
  \<open>wrote w b\<close>: the writer \<open>w\<close> was asked to write the bytes \<open>b\<close>. It holds them if they fit its limit;
  otherwise it has recorded the excess, and keeps it recorded from then on.
  \<open>emits c b m\<close>: the writing function \<open>m\<close> writes the bytes \<open>b\<close>, provided that \<open>c\<close> holds; it fails
  exactly when \<open>c\<close> does not, or when it notices that the limit is exceeded.
\<close>

definition fits :: "nat \<Rightarrow> nat \<Rightarrow> bool" where
  "fits limit n \<longleftrightarrow> min n usize_max \<le> limit"

definition wrote :: "SessionWriter \<Rightarrow> bytes \<Rightarrow> bool" where
  "wrote w b \<longleftrightarrow> (w_limit w < usize_max \<longrightarrow> w_capacity w \<le> w_limit w) \<and>
     (if fits (w_limit w) (length b) then w_excess w = None \<and> w_bytes w = b else w_excess w \<noteq> None)"

definition emits :: "bool \<Rightarrow> bytes \<Rightarrow> unit writer \<Rightarrow> bool" where
  "emits c b m \<longleftrightarrow> (\<forall>w a. wrote w a \<longrightarrow>
     wp m (\<lambda>_ w'. c \<and> wrote w' (a @ b) \<and> w_limit w' = w_limit w)
       (\<lambda>_ w'. \<not> (c \<and> fits (w_limit w) (length (a @ b)))
         \<and> (w_limit w < usize_max \<longrightarrow> w_capacity w' \<le> w_limit w)) w)"

named_theorems emit_rules \<open>what the writing functions write\<close>

lemma fits_mono: "fits limit n \<Longrightarrow> m \<le> n \<Longrightarrow> fits limit m"
  by (auto simp: fits_def)

lemma wrote_new: "wrote (SessionWriter_new limit) []"
  by (simp add: wrote_def fits_def SessionWriter_new_def)

lemma reserve_capacity:
  "len \<le> limit \<Longrightarrow> n \<le> len \<Longrightarrow> cap \<le> limit
    \<Longrightarrow> len \<le> max cap (n + (min (max x len) limit - n)) \<and> max cap (n + (min (max x len) limit - n)) \<le> (limit::nat)"
  by (simp add: min_def max_def)

lemma extend_bytes:
  "w_bytes (extend_from_slice b w) = w_bytes w @ b" "w_excess (extend_from_slice b w) = w_excess w"
  "w_limit (extend_from_slice b w) = w_limit w"
  "length (w_bytes w) + length b \<le> w_capacity w \<Longrightarrow> w_capacity (extend_from_slice b w) = w_capacity w"
  by (simp_all add: extend_from_slice_def Let_def)

lemma append_bytes:
  assumes "w_excess w = None" "fits (w_limit w) (length (w_bytes w @ b))"
  shows "w_bytes (writer_append b w) = w_bytes w @ b \<and> w_excess (writer_append b w) = None
    \<and> w_limit (writer_append b w) = w_limit w
    \<and> (w_limit w < usize_max \<and> w_capacity w \<le> w_limit w
        \<longrightarrow> w_capacity (writer_append b w) \<le> w_limit w)"
proof -
  define len where "len = min (length (w_bytes w) + length b) usize_max"
  have fit: "\<not> len > w_limit w"
    using assms(2) by (auto simp: fits_def len_def)
  have exact: "w_limit w < usize_max \<Longrightarrow> len = length (w_bytes w) + length b"
    using fit by (simp add: len_def min_def split: if_splits)
  note step = writer_append_def [of b w, unfolded saturating_add_def Let_def, folded len_def]
    fit assms(1) extend_bytes reserve_exact_def
  show ?thesis
  proof (cases "len > w_capacity w")
    case True
    have "len = length (w_bytes w) + length b \<Longrightarrow> w_capacity w \<le> w_limit w \<Longrightarrow> ?thesis"
      using reserve_capacity [of len "w_limit w" "length (w_bytes w)" "w_capacity w"
          "saturating_mul (w_capacity w) 2"] True fit
      by (simp add: step)
    with True exact show ?thesis
      by (auto simp: step)
  next
    case False
    then show ?thesis
      using fit exact by (auto simp: step)
  qed
qed

lemma append_excess:
  assumes "w_excess w \<noteq> None \<or> \<not> fits (w_limit w) (length (w_bytes w @ b))"
  shows "w_excess (writer_append b w) \<noteq> None \<and> w_limit (writer_append b w) = w_limit w
    \<and> w_capacity (writer_append b w) = w_capacity w"
  using assms by (auto simp: writer_append_def Let_def saturating_add_def fits_def)

lemma wrote_append:
  assumes "wrote w a"
  shows "wrote (writer_append b w) (a @ b) \<and> w_limit (writer_append b w) = w_limit w"
proof (cases "fits (w_limit w) (length (a @ b))")
  case True
  then have "fits (w_limit w) (length a)"
    by (rule fits_mono) simp
  with True show ?thesis
    using assms append_bytes [of w b] by (auto simp: wrote_def)
next
  case False
  then have "w_excess w \<noteq> None \<or> \<not> fits (w_limit w) (length (w_bytes w @ b))"
    using assms by (auto simp: wrote_def split: if_splits)
  with False show ?thesis
    using assms append_excess [of w b] by (auto simp: wrote_def)
qed

lemma emits_append: "emits True b (modify (writer_append b))"
  using wrote_append by (auto simp: emits_def wp_simps)

lemma emits_fixed [emit_rules]:
  "emits True [v] (writer_u8 v)"
  "emits True [if t then 1 else 0] (writer_bool t)"
  "emits True (u16_be n) (writer_u16 n)"
  "emits True (u32_be m) (writer_u32 m)"
  unfolding writer_bool_def writer_u8_def writer_u16_def writer_u32_def by (rule emits_append)+

lemma emits_ret [emit_rules]: "emits True [] (ret ())"
  by (auto simp: emits_def wp_simps)

lemma emits_ensure [emit_rules]: "emits c [] (ensure c e)"
  by (auto simp: emits_def wp_simps wrote_def)

lemma emits_check [emit_rules]: "emits True [] check_excess"
  by (auto simp: emits_def wp_simps wrote_def check_excess_def split: option.splits if_splits)

lemma emits_andThen:
  assumes m: "emits c b m" and k: "\<And>x. c \<Longrightarrow> emits d e (k x)"
  shows "emits (c \<and> d) (b @ e) (andThen m k)"
  unfolding emits_def wp_andThen
proof (intro allI impI, rule wp_mono)
  fix w a
  assume w: "wrote w a"
  show "wp m (\<lambda>_ w'. c \<and> wrote w' (a @ b) \<and> w_limit w' = w_limit w)
       (\<lambda>_ w'. \<not> (c \<and> fits (w_limit w) (length (a @ b)))
          \<and> (w_limit w < usize_max \<longrightarrow> w_capacity w' \<le> w_limit w)) w"
    using m w by (simp add: emits_def)
next
  fix w a x w'
  assume "c \<and> wrote w' (a @ b) \<and> w_limit w' = w_limit w"
  then have c: c and w: "wrote w' (a @ b)" and "w_limit w' = w_limit w"
    by auto
  then show "wp (k x) (\<lambda>_ w'. (c \<and> d) \<and> wrote w' (a @ b @ e) \<and> w_limit w' = w_limit w)
       (\<lambda>_ w'. \<not> ((c \<and> d) \<and> fits (w_limit w) (length (a @ b @ e)))
          \<and> (w_limit w < usize_max \<longrightarrow> w_capacity w' \<le> w_limit w)) w'"
    using k [OF c, unfolded emits_def, rule_format, OF w, of x] by (simp add: add.assoc)
next
  fix w a err w'
  assume "\<not> (c \<and> fits (w_limit w) (length (a @ b))) \<and> (w_limit w < usize_max \<longrightarrow> w_capacity w' \<le> w_limit w)"
  then show "\<not> ((c \<and> d) \<and> fits (w_limit w) (length (a @ b @ e)))
          \<and> (w_limit w < usize_max \<longrightarrow> w_capacity w' \<le> w_limit w)"
    using fits_mono [of "w_limit w" "length (a @ b @ e)" "length (a @ b)"] by auto
qed

lemma emits_guarded: "(c \<Longrightarrow> emits d b m) \<Longrightarrow> emits (c \<and> d) b (andThen (ensure c e) (\<lambda>_. m))"
  using emits_andThen [OF emits_ensure, of c d b "\<lambda>_. m"] by simp

lemma emits_seq: "emits True b m \<Longrightarrow> emits d e m' \<Longrightarrow> emits d (b @ e) (andThen m (\<lambda>_. m'))"
  using emits_andThen [of True b m d e "\<lambda>_. m'"] by simp

lemma emits_cong: "emits c b m \<Longrightarrow> c = c' \<Longrightarrow> b = b' \<Longrightarrow> emits c' b' m"
  by simp

lemma andThen_ok_or: "v = Some x \<Longrightarrow> andThen (ok_or v e) k = k x"
  by (simp add: ok_or_def)

text \<open>The length-prefixed fields of the format.\<close>

definition bytes_wire :: "bytes \<Rightarrow> bytes" where
  "bytes_wire b = u32_be (of_nat (length b)) @ b"

definition vec_wire :: "('a \<Rightarrow> bytes) \<Rightarrow> 'a list \<Rightarrow> bytes" where
  "vec_wire wire xs = u32_be (of_nat (length xs)) @ concat (map wire xs)"

lemma emits_bytes [emit_rules]: "emits (length b \<le> MAX_BINARY_LEN) (bytes_wire b) (writer_bytes field b)"
proof -
  have "emits True (bytes_wire b) (andThen (writer_u32 (of_nat (length b)))
      (\<lambda>_. andThen (modify (writer_append b)) (\<lambda>_. check_excess)))"
    using emits_seq [OF emits_fixed(4) emits_seq [OF emits_append emits_check]] by (simp add: bytes_wire_def)
  moreover have "length b \<le> MAX_BINARY_LEN \<Longrightarrow> u32_try_from (length b) = Some (of_nat (length b))"
    by (simp add: u32_try_from_def MAX_BINARY_LEN_def)
  ultimately have "emits (length b \<le> MAX_BINARY_LEN \<and> True) (bytes_wire b) (writer_bytes field b)"
    unfolding writer_bytes_def by (intro emits_guarded) (simp add: andThen_ok_or)
  then show ?thesis by simp
qed

lemma emits_string [emit_rules]: "emits (length b \<le> MAX_BINARY_LEN) (bytes_wire b) (writer_string field b)"
  unfolding writer_string_def by (rule emits_bytes)

lemma emits_for_each:
  assumes "\<And>x. emits (c x) (wire x) (wr x)"
  shows "emits (list_all c xs) (concat (map wire xs)) (for_each (\<lambda>x. andThen (wr x) (\<lambda>_. check_excess)) xs)"
proof (induction xs)
  case Nil
  then show ?case by (simp add: emits_ret)
next
  case (Cons x xs)
  have "emits (c x) (wire x) (andThen (wr x) (\<lambda>_. check_excess))"
    using emits_andThen [OF assms emits_check, of x] by simp
  from emits_andThen [OF this Cons.IH] show ?case by simp
qed

lemma emits_vec:
  assumes "\<And>x. emits (c x) (wire x) (wr x)"
  shows "emits (length xs \<le> MAX_COLLECTION_LEN \<and> list_all c xs) (vec_wire wire xs) (writer_vec field xs wr)"
proof -
  have "length xs \<le> MAX_COLLECTION_LEN \<Longrightarrow> u32_try_from (length xs) = Some (of_nat (length xs))"
    by (simp add: u32_try_from_def MAX_COLLECTION_LEN_def)
  then show ?thesis
    unfolding writer_vec_def vec_wire_def
    using emits_seq [OF emits_fixed(4) emits_for_each [OF assms]]
    by (intro emits_guarded) (simp add: andThen_ok_or)
qed

section \<open>What a reader has read\<close>

text \<open>
  \<open>consumes b n r r'\<close>: from \<open>r\<close> to \<open>r'\<close> the reader moved over exactly the bytes \<open>b\<close> and spent \<open>n\<close> bytes of
  its memory budget. \<open>reads m R\<close>: \<open>m\<close> never panics, and it returns \<open>x\<close> exactly when it can consume
  some bytes \<open>b\<close> and memory \<open>n\<close> with \<open>R x b n\<close>.
\<close>

definition reader_ok :: "SessionReader \<Rightarrow> bool" where
  "reader_ok r \<longleftrightarrow> r_position r \<le> length (r_bytes r) \<and> length (r_bytes r) \<le> usize_max
     \<and> r_remaining_memory r \<le> usize_max"

definition consumes :: "bytes \<Rightarrow> nat \<Rightarrow> SessionReader \<Rightarrow> SessionReader \<Rightarrow> bool" where
  "consumes b m r r' \<longleftrightarrow>
     drop (r_position r) (r_bytes r) = b @ drop (r_position r') (r_bytes r)
     \<and> r_bytes r' = r_bytes r
     \<and> r_position r' = r_position r + length b \<and> r_position r' \<le> length (r_bytes r)
     \<and> r_remaining_memory r = r_remaining_memory r' + m"

definition reads :: "'a reader \<Rightarrow> ('a \<Rightarrow> bytes \<Rightarrow> nat \<Rightarrow> bool) \<Rightarrow> bool" where
  "reads m R \<longleftrightarrow> (\<forall>r. reader_ok r \<longrightarrow> fst (m r) \<noteq> Panic \<and>
     (\<forall>x r'. m r = (Ok x, r') \<longleftrightarrow> (\<exists>b n. R x b n \<and> consumes b n r r')))"

named_theorems read_rules \<open>what the reading functions read\<close>

lemma consumes_ok: "reader_ok r \<Longrightarrow> consumes b m r r' \<Longrightarrow> reader_ok r'"
  by (auto simp: reader_ok_def consumes_def)

lemma consumes_refl [simp]: "consumes [] 0 r r' \<longleftrightarrow> r_position r \<le> length (r_bytes r) \<and> r' = r"
  by (cases r; cases r') (auto simp: consumes_def)

lemma consumes_trans: "consumes a m r s \<Longrightarrow> consumes b n s t \<Longrightarrow> consumes (a @ b) (m + n) r t"
  by (auto simp: consumes_def)

lemma consumes_split:
  assumes "consumes (a @ b) (m + n) r t"
  obtains s where "consumes a m r s" "consumes b n s t"
proof
  let ?s = "r\<lparr>r_position := r_position r + length a, r_remaining_memory := r_remaining_memory t + n\<rparr>"
  have "drop (length a) (drop (r_position r) (r_bytes r)) = b @ drop (r_position t) (r_bytes r)"
    using assms by (simp add: consumes_def)
  then have "drop (r_position r + length a) (r_bytes r) = b @ drop (r_position t) (r_bytes r)"
    by (simp add: add.commute)
  then show "consumes a m r ?s" "consumes b n ?s t"
    using assms by (auto simp: consumes_def)
qed

lemma reads_ret [read_rules]: "reads (ret v) (\<lambda>x b n. x = v \<and> b = [] \<and> n = 0)"
  by (auto simp: reads_def run_simps reader_ok_def)

lemma reads_fail [read_rules]: "reads (fail e) (\<lambda>x b n. False)"
  by (auto simp: reads_def run_simps)

lemma reads_ensure [read_rules]: "reads (ensure c e) (\<lambda>x b n. c \<and> b = [] \<and> n = 0)"
  by (auto simp: reads_def run_simps reader_ok_def)

lemma reads_if [read_rules]:
  "reads m R \<Longrightarrow> reads m' S \<Longrightarrow> reads (if c then m else m') (\<lambda>x b n. if c then R x b n else S x b n)"
  by simp

lemma reads_expect [read_rules]:
  "v \<noteq> None \<Longrightarrow> reads (expect v) (\<lambda>x b n. v = Some x \<and> b = [] \<and> n = 0)"
  by (auto simp: reads_def run_simps reader_ok_def)

lemma reads_lift:
  "v \<noteq> Panic \<Longrightarrow> reads (map_err g (lift v)) (\<lambda>x b n. v = Ok x \<and> b = [] \<and> n = 0)"
  by (cases v) (auto simp: reads_def run_map_err run_lift reader_ok_def)

lemma reads_andThen [read_rules]:
  assumes m: "reads m R" and k: "\<And>x b n. R x b n \<Longrightarrow> reads (k x) (S x)"
  shows "reads (andThen m k) (\<lambda>y b n. \<exists>x b1 n1 b2 n2. R x b1 n1 \<and> S x y b2 n2 \<and> b = b1 @ b2 \<and> n = n1 + n2)"
  unfolding reads_def
proof (intro allI impI conjI)
  fix r
  assume r: "reader_ok r"
  have m_ok: "m r = (Ok x, r') \<longleftrightarrow> (\<exists>b n. R x b n \<and> consumes b n r r')" for x r'
    using m r by (simp add: reads_def)
  have k_ok: "fst (k x r') \<noteq> Panic \<and> (\<forall>y r''. k x r' = (Ok y, r'') \<longleftrightarrow> (\<exists>b n. S x y b n \<and> consumes b n r' r''))"
    if "R x b n" "consumes b n r r'" for x b n r'
    using k [OF that(1)] consumes_ok [OF r that(2)] by (simp add: reads_def)
  show "fst (andThen m k r) \<noteq> Panic"
  proof (cases "m r")
    case (Pair v r')
    then show ?thesis
      using m r m_ok k_ok by (cases v) (fastforce simp: andThen_def reads_def)+
  qed
  fix y r''
  have "andThen m k r = (Ok y, r'') \<longleftrightarrow>
      (\<exists>x b n b' n' r'. R x b n \<and> S x y b' n' \<and> consumes b n r r' \<and> consumes b' n' r' r'')"
    unfolding andThen_eq_Ok m_ok using k_ok by blast
  also have "\<dots> \<longleftrightarrow> (\<exists>x b n b' n'. R x b n \<and> S x y b' n' \<and> consumes (b @ b') (n + n') r r'')"
    by (meson consumes_trans consumes_split)
  finally show "andThen m k r = (Ok y, r'') \<longleftrightarrow> (\<exists>b n. (\<exists>x b1 n1 b2 n2. R x b1 n1 \<and> S x y b2 n2
      \<and> b = b1 @ b2 \<and> n = n1 + n2) \<and> consumes b n r r'')"
    by blast
qed

lemma reads_cong: "reads m R \<Longrightarrow> (\<And>x b n. R x b n \<longleftrightarrow> S x b n) \<Longrightarrow> reads m S"
  by (simp add: reads_def)

lemma reads_take: "reads (reader_take field len) (\<lambda>x b n. length x = len \<and> b = x \<and> n = 0)"
  unfolding reads_def
proof (intro allI impI conjI)
  fix r
  assume r: "reader_ok r"
  have run: "reader_take field len r =
      (if r_position r + len \<le> usize_max then
         if r_position r + len \<le> length (r_bytes r) then
           (Ok (take len (drop (r_position r) (r_bytes r))), r\<lparr>r_position := r_position r + len\<rparr>)
         else (Err (Truncated field), r)
       else (Err (LimitExceeded field len), r))"
    by (simp add: reader_take_def usize_checked_add_def ok_or_def run_simps)
  show "fst (reader_take field len r) \<noteq> Panic"
    by (simp add: run)
  fix x r'
  have "drop (r_position r) (r_bytes r) = take len (drop (r_position r) (r_bytes r)) @ drop (r_position r + len) (r_bytes r)"
    by (metis append_take_drop_id drop_drop add.commute)
  then show "reader_take field len r = (Ok x, r') \<longleftrightarrow> (\<exists>b n. (length x = len \<and> b = x \<and> n = 0) \<and> consumes b n r r')"
    unfolding run using r by (cases r; cases r') (auto simp: consumes_def reader_ok_def)
qed

lemma reads_reserve: "reads (reserve_memory field len) (\<lambda>x b n. b = [] \<and> n = len)"
  unfolding reads_def
proof (intro allI impI conjI)
  fix r
  assume r: "reader_ok r"
  have run: "reserve_memory field len r =
      (if len \<le> r_remaining_memory r then (Ok (), r\<lparr>r_remaining_memory := r_remaining_memory r - len\<rparr>)
       else (Err (LimitExceeded field len), r))"
    by (simp add: reserve_memory_def usize_checked_sub_def ok_or_def run_simps)
  show "fst (reserve_memory field len r) \<noteq> Panic"
    by (simp add: run)
  fix x r'
  show "reserve_memory field len r = (Ok x, r') \<longleftrightarrow> (\<exists>b n. (b = [] \<and> n = len) \<and> consumes b n r r')"
    unfolding run using r by (cases r; cases r') (auto simp: consumes_def reader_ok_def)
qed

lemma reads_u8: "reads (reader_u8 field) (\<lambda>x b n. b = [x] \<and> n = 0)"
  unfolding reader_u8_def
  by (rule reads_cong [OF reads_andThen [OF reads_take reads_expect]])
    (auto simp: nth_opt_eq_Some length_Suc_conv)

lemma reads_bool: "reads (reader_bool field) (\<lambda>x b n. b = [if x then 1 else 0] \<and> n = 0)"
  unfolding reader_bool_def
  by (rule reads_cong [OF reads_andThen [OF reads_u8 reads_if [OF reads_ret reads_if [OF reads_ret reads_fail]]]])
    (auto split: if_splits intro: exI [where x = "1 :: u8"] exI [where x = "0 :: u8"])

lemma be_u32_unique: "u32_be (be_u32 a b c d) = [a, b, c, d]"
  unfolding u32_be_def be_u32_def
  by (simp; intro conjI; rule bit_word_eqI) (auto simp: bit_simps dest: bit_imp_le_length)

lemma u16_be_iff: "length b = 2 \<and> x = be_u16 (b ! 0) (b ! 1) \<longleftrightarrow> b = u16_be x"
proof
  assume "b = u16_be x"
  then show "length b = 2 \<and> x = be_u16 (b ! 0) (b ! 1)"
    by (simp add: u16_be_def)
qed (auto simp: numeral_eq_Suc length_Suc_conv u16_be_inverse)

lemma u32_be_iff:
  "length b = 4 \<and> x = be_u32 (b ! 0) (b ! 1) (b ! 2) (b ! 3) \<longleftrightarrow> b = u32_be x"
proof
  assume "b = u32_be x"
  then show "length b = 4 \<and> x = be_u32 (b ! 0) (b ! 1) (b ! 2) (b ! 3)"
    by (simp add: u32_be_def)
qed (auto simp: numeral_eq_Suc length_Suc_conv be_u32_unique)

lemma reads_u16: "reads (reader_u16 field) (\<lambda>x b n. b = u16_be x \<and> n = 0)"
  unfolding reader_u16_def u16_be_iff [symmetric]
  by (rule reads_cong [OF reads_andThen [OF reads_take reads_andThen [OF reads_expect reads_andThen
        [OF reads_expect reads_ret]]]]) auto

lemma reads_u32: "reads (reader_u32 field) (\<lambda>x b n. b = u32_be x \<and> n = 0)"
  unfolding reader_u32_def u32_be_iff [symmetric]
  by (rule reads_cong [OF reads_andThen [OF reads_take reads_andThen [OF reads_expect reads_andThen
        [OF reads_expect reads_andThen [OF reads_expect reads_andThen [OF reads_expect reads_ret]]]]]]) auto

lemma unat_u32_of_nat: "m \<le> 4294967295 \<Longrightarrow> unat (of_nat m :: u32) = m"
  by (simp add: unat_of_nat)

lemma reads_bytes:
  "reads (reader_bytes field) (\<lambda>x b n. length x \<le> MAX_BINARY_LEN \<and> b = bytes_wire x \<and> n = length x)"
  unfolding reader_bytes_def Let_def
  by (rule reads_cong [OF reads_andThen [OF reads_u32 reads_andThen [OF reads_ensure reads_andThen
        [OF reads_reserve reads_take]]]])
    (auto simp: bytes_wire_def MAX_BINARY_LEN_def unat_u32_of_nat intro!: exI [where x = "of_nat (length _) :: u32"])

lemma reads_string:
  "reads (reader_string field)
     (\<lambda>x b n. valid_utf8 x \<and> length x \<le> MAX_BINARY_LEN \<and> b = bytes_wire x \<and> n = length x)"
  unfolding reader_string_def
  by (rule reads_cong [OF reads_andThen [OF reads_bytes reads_lift]]) (auto simp: from_utf8_simps)

lemma reads_times:
  assumes "reads rd (\<lambda>x b n. good x \<and> b = wire x \<and> n = mem x)"
  shows "reads (read_times k rd)
    (\<lambda>xs b n. length xs = k \<and> list_all good xs \<and> b = concat (map wire xs) \<and> n = sum_list (map mem xs))"
proof (induction k)
  case 0
  show ?case
    unfolding read_times.simps by (rule reads_cong [OF reads_ret]) auto
next
  case (Suc k)
  show ?case
    unfolding read_times.simps
    by (rule reads_cong [OF reads_andThen [OF assms reads_andThen [OF Suc.IH reads_ret]]])
      (auto simp: length_Suc_conv)
qed

text \<open>A check that only fails when the reading would fail anyway changes nothing of what is read.\<close>

lemma reads_guard:
  assumes "reads m R" "\<And>r x b n r'. reader_ok r \<Longrightarrow> R x b n \<Longrightarrow> consumes b n r r' \<Longrightarrow> c r"
  shows "reads (andThen (gets c) (\<lambda>ok. andThen (ensure ok e) (\<lambda>_. m))) R"
  using assms unfolding reads_def by (auto simp: run_simps)

section \<open>The contract of a field\<close>

text \<open>
  A writing and a reading function for the same data: \<open>wr\<close> writes the encoding \<open>wire x\<close> when \<open>x\<close> is
  within the size limits, and \<open>rd\<close> returns \<open>x\<close> exactly when the input starts with \<open>wire x\<close>, where \<open>x\<close> is
  within the limits and well typed (its strings are UTF-8) and the memory it owns is available. An
  encoding is never empty, so the reader can bound the length of a vector by the bytes left.
\<close>

locale field_codec =
  fixes wr :: "'a \<Rightarrow> unit writer"
    and rd :: "'a reader"
    and wire :: "'a \<Rightarrow> bytes"
    and sized :: "'a \<Rightarrow> bool"
    and typed :: "'a \<Rightarrow> bool"
    and mem :: "'a \<Rightarrow> nat"
  assumes writes: "emits (sized x) (wire x) (wr x)"
    and reads: "reads rd (\<lambda>x b n. (typed x \<and> sized x) \<and> b = wire x \<and> n = mem x)"
    and wire_nonempty: "wire x \<noteq> []"
begin

lemma writes_vec:
  "emits (length xs \<le> MAX_COLLECTION_LEN \<and> list_all sized xs) (vec_wire wire xs) (writer_vec field xs wr)"
  by (rule emits_vec [OF writes])

lemma length_wires: "length xs \<le> length (concat (map wire xs))"
proof (induction xs)
  case (Cons x xs)
  moreover have "1 \<le> length (wire x)"
    using wire_nonempty by (simp add: Suc_leI)
  ultimately show ?case by (simp del: One_nat_def)
qed simp

lemma reads_elements:
  "reads (read_times k rd) (\<lambda>xs b n. length xs = k \<and> list_all (\<lambda>x. typed x \<and> sized x) xs
     \<and> b = concat (map wire xs) \<and> n = sum_list (map mem xs))"
  by (rule reads_times [OF reads])

lemma reads_vec:
  "reads (reader_vec field size_of rd)
     (\<lambda>xs b n. (list_all typed xs \<and> length xs \<le> MAX_COLLECTION_LEN \<and> list_all sized xs)
        \<and> b = vec_wire wire xs \<and> n = length xs * size_of + sum_list (map mem xs))"
proof -
  have checks: "reader_vec field size_of rd =
      andThen (reader_u32 field) (\<lambda>v.
      andThen (ensure (unat v \<le> MAX_COLLECTION_LEN) (LimitExceeded field (unat v))) (\<lambda>_.
      andThen (gets (\<lambda>r. unat v \<le> length (r_bytes r) - r_position r)) (\<lambda>ok.
      andThen (ensure ok (Truncated field)) (\<lambda>_.
      andThen (gets (\<lambda>r. unat v * size_of \<le> usize_max)) (\<lambda>ok.
      andThen (ensure ok (LimitExceeded field (unat v))) (\<lambda>_.
      andThen (reserve_memory field (unat v * size_of)) (\<lambda>_. read_times (unat v) rd)))))))"
    unfolding reader_vec_def Let_def
    by (intro arg_cong [where f = "andThen _"] ext) (simp add: usize_checked_mul_def ok_or_def run_simps)
  have memory: "k * size_of \<le> usize_max"
    if "reader_ok r" "consumes b (k * size_of + n) r r'" for k b n and r r'
    using that by (simp add: consumes_def reader_ok_def)
  have left: "length xs \<le> length (r_bytes r) - r_position r"
    if "consumes (concat (map wire xs)) n r r'" for xs n and r r'
    using that length_wires [of xs] unfolding consumes_def by linarith
  have elements: "reads (andThen (reserve_memory field (k * size_of)) (\<lambda>_. read_times k rd))
      (\<lambda>xs b n. length xs = k \<and> list_all (\<lambda>x. typed x \<and> sized x) xs
        \<and> b = concat (map wire xs) \<and> n = k * size_of + sum_list (map mem xs))" for k
    by (rule reads_cong [OF reads_andThen [OF reads_reserve reads_elements]]) auto
  show ?thesis
    unfolding checks
    by (rule reads_cong [OF reads_andThen [OF reads_u32 reads_andThen [OF reads_ensure reads_guard
          [OF reads_guard [OF elements]]]]])
      (auto simp: vec_wire_def MAX_COLLECTION_LEN_def unat_u32_of_nat list_all_iff
        intro!: exI [where x = "of_nat (length _) :: u32"] dest: memory left)
qed

end

end
