(* ===== verification/V4_Session.thy ===== *)
theory V4_Session
  imports Session_IO
begin

text \<open>
  The session checkpoint of the MQTT 3.1.1 client and its canonical byte format
  (\<open>rumqttc-v4/src/session.rs\<close>): the persisted data, \<open>encode\<close>, \<open>encode_with_limit\<close>, \<open>decode\<close> and
  \<open>decode_with_memory_limit\<close>. The theorems at the end show that the two directions are inverse to
  each other, that a damaged checkpoint is never accepted as another length, and that neither
  direction exceeds the memory it was given.
\<close>

section \<open>Persisted data\<close>

record SessionStoreKey =
  ssk_scope :: rstring
  ssk_client_id :: rstring

datatype PersistedAckMode = PAutomatic | PManual

datatype PersistedQoS = PAtMostOnce | PAtLeastOnce | PExactlyOnce

record PersistedPublish =
  pp_dup :: bool
  pp_qos :: PersistedQoS
  pp_retain :: bool
  pp_topic :: bytes
  pp_pkid :: u16
  pp_payload :: bytes

record PersistedPubRel =
  ppr_pkid :: u16

record PersistedFilter =
  pf_path :: rstring
  pf_qos :: PersistedQoS

record PersistedSubscribe =
  pss_pkid :: u16
  pss_filters :: "PersistedFilter list"

record PersistedUnsubscribe =
  psu_pkid :: u16
  psu_topics :: "rstring list"

datatype PersistedRequest =
    is_PersistedReqPublish: PersistedReqPublish PersistedPublish
  | is_PersistedReqPubRel: PersistedReqPubRel PersistedPubRel
  | is_PersistedReqSubscribe: PersistedReqSubscribe PersistedSubscribe
  | is_PersistedReqUnsubscribe: PersistedReqUnsubscribe PersistedUnsubscribe

record PersistedIncomingQos2 =
  piq_pkid :: u16

record PersistedSession =
  ps_format_version :: u16
  ps_client_id :: rstring
  ps_clean_session :: bool
  ps_max_inflight :: u16
  ps_ack_mode :: PersistedAckMode
  ps_replay :: "PersistedRequest list"
  ps_incoming_qos2 :: "PersistedIncomingQos2 list"

section \<open>Encoding\<close>

definition SESSION_MAGIC :: bytes where
  "SESSION_MAGIC = [0x52, 0x4D, 0x51, 0x53, 0x45, 0x53, 0x53]"

definition SESSION_PROTOCOL :: u8 where
  "SESSION_PROTOCOL = 4"

definition SESSION_CODEC_VERSION :: u16 where
  "SESSION_CODEC_VERSION = 2"

fun encode_ack_mode :: "PersistedAckMode \<Rightarrow> u8" where
  "encode_ack_mode PAutomatic = 1"
| "encode_ack_mode PManual = 2"

fun encode_qos :: "PersistedQoS \<Rightarrow> u8" where
  "encode_qos PAtMostOnce = 0"
| "encode_qos PAtLeastOnce = 1"
| "encode_qos PExactlyOnce = 2"

definition write_filter :: "PersistedFilter \<Rightarrow> unit writer" where
  "write_filter flt =
     andThen (writer_string ''subscribe.filter.path'' (pf_path flt)) (\<lambda>_.
     writer_u8 (encode_qos (pf_qos flt)))"

definition write_topic :: "rstring \<Rightarrow> unit writer" where
  "write_topic topic = writer_string ''unsubscribe.topic'' topic"

fun write_request :: "PersistedRequest \<Rightarrow> unit writer" where
  "write_request (PersistedReqPublish publish) =
     andThen (writer_u8 1) (\<lambda>_.
     andThen (writer_bool (pp_dup publish)) (\<lambda>_.
     andThen (writer_u8 (encode_qos (pp_qos publish))) (\<lambda>_.
     andThen (writer_bool (pp_retain publish)) (\<lambda>_.
     andThen (writer_bytes ''publish.topic'' (pp_topic publish)) (\<lambda>_.
     andThen (writer_u16 (pp_pkid publish)) (\<lambda>_.
     writer_bytes ''publish.payload'' (pp_payload publish)))))))"
| "write_request (PersistedReqPubRel pubrel) =
     andThen (writer_u8 2) (\<lambda>_.
     writer_u16 (ppr_pkid pubrel))"
| "write_request (PersistedReqSubscribe subscribe) =
     andThen (writer_u8 3) (\<lambda>_.
     andThen (writer_u16 (pss_pkid subscribe)) (\<lambda>_.
     writer_vec ''subscribe.filters'' (pss_filters subscribe) write_filter))"
| "write_request (PersistedReqUnsubscribe unsubscribe) =
     andThen (writer_u8 4) (\<lambda>_.
     andThen (writer_u16 (psu_pkid unsubscribe)) (\<lambda>_.
     writer_vec ''unsubscribe.topics'' (psu_topics unsubscribe) write_topic))"

definition write_incoming :: "PersistedIncomingQos2 \<Rightarrow> unit writer" where
  "write_incoming incoming = writer_u16 (piq_pkid incoming)"

definition write_session :: "PersistedSession \<Rightarrow> unit writer" where
  "write_session self =
     andThen (modify (writer_append SESSION_MAGIC)) (\<lambda>_.
     andThen (writer_u8 SESSION_PROTOCOL) (\<lambda>_.
     andThen (writer_u16 SESSION_CODEC_VERSION) (\<lambda>_.
     andThen (writer_u16 (ps_format_version self)) (\<lambda>_.
     andThen (writer_string ''client_id'' (ps_client_id self)) (\<lambda>_.
     andThen (writer_bool (ps_clean_session self)) (\<lambda>_.
     andThen (writer_u16 (ps_max_inflight self)) (\<lambda>_.
     andThen (writer_u8 (encode_ack_mode (ps_ack_mode self))) (\<lambda>_.
     andThen (writer_vec ''replay'' (ps_replay self) write_request) (\<lambda>_.
     andThen (writer_vec ''incoming_qos2'' (ps_incoming_qos2 self) write_incoming) (\<lambda>_.
     check_excess))))))))))"

definition encode_with_limit :: "PersistedSession \<Rightarrow> nat \<Rightarrow> (SessionEncodeError, bytes) outcome" where
  "encode_with_limit self limit =
     fst (andThen (write_session self) (\<lambda>_. gets w_bytes) (SessionWriter_new limit))"

definition session_encode :: "PersistedSession \<Rightarrow> (SessionEncodeError, bytes) outcome" where
  "session_encode self = encode_with_limit self usize_max"

section \<open>Decoding\<close>

text \<open>The sizes in memory of the element types of the decoded vectors, chosen by the compiler.\<close>

record session_layout =
  size_of_request :: nat
  size_of_incoming :: nat
  size_of_filter :: nat
  size_of_string :: nat

definition decode_ack_mode :: "u8 \<Rightarrow> (SessionDecodeError, PersistedAckMode) outcome" where
  "decode_ack_mode tag =
     (if tag = 1 then Ok PAutomatic
      else if tag = 2 then Ok PManual
      else Err (InvalidEnumTag ''ack_mode'' tag))"

definition decode_qos :: "u8 \<Rightarrow> (SessionDecodeError, PersistedQoS) outcome" where
  "decode_qos tag =
     (if tag = 0 then Ok PAtMostOnce
      else if tag = 1 then Ok PAtLeastOnce
      else if tag = 2 then Ok PExactlyOnce
      else Err (InvalidEnumTag ''qos'' tag))"

definition reader_magic :: "unit reader" where
  "reader_magic =
     andThen (reader_take ''magic'' (length SESSION_MAGIC)) (\<lambda>magic.
     if magic \<noteq> SESSION_MAGIC then fail InvalidMagic else ret ())"

definition read_filter :: "PersistedFilter reader" where
  "read_filter =
     andThen (reader_string ''subscribe.filter.path'') (\<lambda>path.
     andThen (andThen (reader_u8 ''subscribe.filter.qos'') (\<lambda>tag. lift (decode_qos tag))) (\<lambda>qos.
     ret \<lparr>pf_path = path, pf_qos = qos\<rparr>))"

definition read_topic :: "rstring reader" where
  "read_topic = reader_string ''unsubscribe.topic''"

definition read_publish :: "PersistedRequest reader" where
  "read_publish =
     andThen (reader_bool ''publish.dup'') (\<lambda>dup.
     andThen (andThen (reader_u8 ''publish.qos'') (\<lambda>tag. lift (decode_qos tag))) (\<lambda>qos.
     andThen (reader_bool ''publish.retain'') (\<lambda>retain.
     andThen (reader_bytes ''publish.topic'') (\<lambda>topic.
     andThen (reader_u16 ''publish.pkid'') (\<lambda>pkid.
     andThen (reader_bytes ''publish.payload'') (\<lambda>payload.
     ret (PersistedReqPublish \<lparr>pp_dup = dup, pp_qos = qos, pp_retain = retain, pp_topic = topic,
       pp_pkid = pkid, pp_payload = payload\<rparr>)))))))"

definition read_request :: "session_layout \<Rightarrow> PersistedRequest reader" where
  "read_request layout =
     andThen (reader_u8 ''request.type'') (\<lambda>tag.
     if tag = 1 then read_publish
     else if tag = 2 then
       andThen (reader_u16 ''pubrel.pkid'') (\<lambda>pkid.
       ret (PersistedReqPubRel \<lparr>ppr_pkid = pkid\<rparr>))
     else if tag = 3 then
       andThen (reader_u16 ''subscribe.pkid'') (\<lambda>pkid.
       andThen (reader_vec ''subscribe.filters'' (size_of_filter layout) read_filter) (\<lambda>filters.
       ret (PersistedReqSubscribe \<lparr>pss_pkid = pkid, pss_filters = filters\<rparr>)))
     else if tag = 4 then
       andThen (reader_u16 ''unsubscribe.pkid'') (\<lambda>pkid.
       andThen (reader_vec ''unsubscribe.topics'' (size_of_string layout) read_topic) (\<lambda>topics.
       ret (PersistedReqUnsubscribe \<lparr>psu_pkid = pkid, psu_topics = topics\<rparr>)))
     else fail (InvalidEnumTag ''request.type'' tag))"

definition read_incoming :: "PersistedIncomingQos2 reader" where
  "read_incoming =
     andThen (reader_u16 ''incoming_qos2.pkid'') (\<lambda>pkid.
     ret \<lparr>piq_pkid = pkid\<rparr>)"

definition read_session :: "session_layout \<Rightarrow> PersistedSession reader" where
  "read_session layout =
     andThen reader_magic (\<lambda>_.
     andThen (reader_u8 ''protocol'') (\<lambda>protocol.
     andThen (ensure (protocol = SESSION_PROTOCOL) (WrongProtocol protocol)) (\<lambda>_.
     andThen (reader_u16 ''codec_version'') (\<lambda>codec_version.
     andThen (ensure (codec_version = SESSION_CODEC_VERSION) (UnsupportedCodecVersion codec_version)) (\<lambda>_.
     andThen (reader_u16 ''format_version'') (\<lambda>format_version.
     andThen (reader_string ''client_id'') (\<lambda>client_id.
     andThen (reader_bool ''clean_session'') (\<lambda>clean_session.
     andThen (reader_u16 ''max_inflight'') (\<lambda>max_inflight.
     andThen (andThen (reader_u8 ''ack_mode'') (\<lambda>tag. lift (decode_ack_mode tag))) (\<lambda>ack_mode.
     andThen (reader_vec ''replay'' (size_of_request layout) (read_request layout)) (\<lambda>replay.
     andThen (reader_vec ''incoming_qos2'' (size_of_incoming layout) read_incoming) (\<lambda>incoming_qos2.
     ret \<lparr>ps_format_version = format_version, ps_client_id = client_id, ps_clean_session = clean_session,
       ps_max_inflight = max_inflight, ps_ack_mode = ack_mode, ps_replay = replay,
       ps_incoming_qos2 = incoming_qos2\<rparr>))))))))))))"

definition decode_with_memory_limit ::
  "session_layout \<Rightarrow> bytes \<Rightarrow> nat \<Rightarrow> (SessionDecodeError, PersistedSession) outcome" where
  "decode_with_memory_limit layout bytes memory_limit =
     fst (andThen (read_session layout) (\<lambda>session. andThen reader_finish (\<lambda>_. ret session))
       \<lparr>r_bytes = bytes, r_position = 0, r_remaining_memory = memory_limit\<rparr>)"

definition session_decode :: "session_layout \<Rightarrow> bytes \<Rightarrow> (SessionDecodeError, PersistedSession) outcome" where
  "session_decode layout bytes = decode_with_memory_limit layout bytes usize_max"

section \<open>The format\<close>

text \<open>
  The bytes each part of a checkpoint is encoded to, the sizes the format admits, the UTF-8 strings
  of the Rust types, and the memory a decoded part owns.
\<close>

definition filter_wire :: "PersistedFilter \<Rightarrow> bytes" where
  "filter_wire f = bytes_wire (pf_path f) @ [encode_qos (pf_qos f)]"

fun request_wire :: "PersistedRequest \<Rightarrow> bytes" where
  "request_wire (PersistedReqPublish p) =
     1 # (if pp_dup p then 1 else 0) # encode_qos (pp_qos p) # (if pp_retain p then 1 else 0)
     # bytes_wire (pp_topic p) @ u16_be (pp_pkid p) @ bytes_wire (pp_payload p)"
| "request_wire (PersistedReqPubRel p) = 2 # u16_be (ppr_pkid p)"
| "request_wire (PersistedReqSubscribe p) = 3 # u16_be (pss_pkid p) @ vec_wire filter_wire (pss_filters p)"
| "request_wire (PersistedReqUnsubscribe p) = 4 # u16_be (psu_pkid p) @ vec_wire bytes_wire (psu_topics p)"

definition session_wire :: "PersistedSession \<Rightarrow> bytes" where
  "session_wire s =
     SESSION_MAGIC @ [SESSION_PROTOCOL] @ u16_be SESSION_CODEC_VERSION @ u16_be (ps_format_version s)
     @ bytes_wire (ps_client_id s) @ [if ps_clean_session s then 1 else 0] @ u16_be (ps_max_inflight s)
     @ [encode_ack_mode (ps_ack_mode s)] @ vec_wire request_wire (ps_replay s)
     @ vec_wire (\<lambda>i. u16_be (piq_pkid i)) (ps_incoming_qos2 s)"

fun request_sized :: "PersistedRequest \<Rightarrow> bool" where
  "request_sized (PersistedReqPublish p) \<longleftrightarrow>
     length (pp_topic p) \<le> MAX_BINARY_LEN \<and> length (pp_payload p) \<le> MAX_BINARY_LEN"
| "request_sized (PersistedReqPubRel p) \<longleftrightarrow> True"
| "request_sized (PersistedReqSubscribe p) \<longleftrightarrow> length (pss_filters p) \<le> MAX_COLLECTION_LEN
     \<and> list_all (\<lambda>f. length (pf_path f) \<le> MAX_BINARY_LEN) (pss_filters p)"
| "request_sized (PersistedReqUnsubscribe p) \<longleftrightarrow> length (psu_topics p) \<le> MAX_COLLECTION_LEN
     \<and> list_all (\<lambda>t. length t \<le> MAX_BINARY_LEN) (psu_topics p)"

definition session_sized :: "PersistedSession \<Rightarrow> bool" where
  "session_sized s \<longleftrightarrow> length (ps_client_id s) \<le> MAX_BINARY_LEN
     \<and> length (ps_replay s) \<le> MAX_COLLECTION_LEN \<and> list_all request_sized (ps_replay s)
     \<and> length (ps_incoming_qos2 s) \<le> MAX_COLLECTION_LEN"

fun request_typed :: "PersistedRequest \<Rightarrow> bool" where
  "request_typed (PersistedReqSubscribe p) \<longleftrightarrow> list_all (\<lambda>f. valid_utf8 (pf_path f)) (pss_filters p)"
| "request_typed (PersistedReqUnsubscribe p) \<longleftrightarrow> list_all valid_utf8 (psu_topics p)"
| "request_typed p \<longleftrightarrow> True"

definition session_typed :: "PersistedSession \<Rightarrow> bool" where
  "session_typed s \<longleftrightarrow> valid_utf8 (ps_client_id s) \<and> list_all request_typed (ps_replay s)"

fun request_memory :: "session_layout \<Rightarrow> PersistedRequest \<Rightarrow> nat" where
  "request_memory l (PersistedReqPublish p) = length (pp_topic p) + length (pp_payload p)"
| "request_memory l (PersistedReqPubRel p) = 0"
| "request_memory l (PersistedReqSubscribe p) =
     length (pss_filters p) * size_of_filter l + sum_list (map (\<lambda>f. length (pf_path f)) (pss_filters p))"
| "request_memory l (PersistedReqUnsubscribe p) =
     length (psu_topics p) * size_of_string l + sum_list (map length (psu_topics p))"

definition session_memory :: "session_layout \<Rightarrow> PersistedSession \<Rightarrow> nat" where
  "session_memory l s =
     length (ps_client_id s)
     + (length (ps_replay s) * size_of_request l + sum_list (map (request_memory l) (ps_replay s)))
     + length (ps_incoming_qos2 s) * size_of_incoming l"

section \<open>Fields and requests\<close>

lemma reads_decode_qos:
  "reads (andThen (reader_u8 field) (\<lambda>tag. lift (decode_qos tag))) (\<lambda>x b n. b = [encode_qos x] \<and> n = 0)"
proof -
  have "reads (lift (decode_qos tag)) (\<lambda>x b n. tag = encode_qos x \<and> b = [] \<and> n = 0)" for tag
  proof -
    have "decode_qos tag = Ok x \<longleftrightarrow> tag = encode_qos x" for x
      by (cases x) (auto simp: decode_qos_def)
    moreover have "decode_qos tag \<noteq> Panic"
      by (simp add: decode_qos_def)
    ultimately show ?thesis
      by (auto simp: reads_def run_simps reader_ok_def)
  qed
  from reads_andThen [OF reads_u8 this] show ?thesis
    by (rule reads_cong) auto
qed

lemma reads_decode_ack_mode:
  "reads (andThen (reader_u8 field) (\<lambda>tag. lift (decode_ack_mode tag))) (\<lambda>x b n. b = [encode_ack_mode x] \<and> n = 0)"
proof -
  have "reads (lift (decode_ack_mode tag)) (\<lambda>x b n. tag = encode_ack_mode x \<and> b = [] \<and> n = 0)" for tag
  proof -
    have "decode_ack_mode tag = Ok x \<longleftrightarrow> tag = encode_ack_mode x" for x
      by (cases x) (auto simp: decode_ack_mode_def)
    moreover have "decode_ack_mode tag \<noteq> Panic"
      by (simp add: decode_ack_mode_def)
    ultimately show ?thesis
      by (auto simp: reads_def run_simps reader_ok_def)
  qed
  from reads_andThen [OF reads_u8 this] show ?thesis
    by (rule reads_cong) auto
qed

lemma record_eqs:
  "f = \<lparr>pf_path = path, pf_qos = q\<rparr> \<longleftrightarrow> pf_path f = path \<and> pf_qos f = q"
  "p = \<lparr>pp_dup = d, pp_qos = q, pp_retain = r, pp_topic = t, pp_pkid = i, pp_payload = l\<rparr> \<longleftrightarrow>
     pp_dup p = d \<and> pp_qos p = q \<and> pp_retain p = r \<and> pp_topic p = t \<and> pp_pkid p = i \<and> pp_payload p = l"
  "pr = \<lparr>ppr_pkid = i\<rparr> \<longleftrightarrow> ppr_pkid pr = i"
  "iq = \<lparr>piq_pkid = i\<rparr> \<longleftrightarrow> piq_pkid iq = i"
  "sub = \<lparr>pss_pkid = i, pss_filters = fs\<rparr> \<longleftrightarrow> pss_pkid sub = i \<and> pss_filters sub = fs"
  "unsub = \<lparr>psu_pkid = i, psu_topics = ts\<rparr> \<longleftrightarrow> psu_pkid unsub = i \<and> psu_topics unsub = ts"
  "s = \<lparr>ps_format_version = v, ps_client_id = c, ps_clean_session = b, ps_max_inflight = m, ps_ack_mode = a,
        ps_replay = rs, ps_incoming_qos2 = is\<rparr> \<longleftrightarrow>
     ps_format_version s = v \<and> ps_client_id s = c \<and> ps_clean_session s = b \<and> ps_max_inflight s = m
     \<and> ps_ack_mode s = a \<and> ps_replay s = rs \<and> ps_incoming_qos2 s = is"
  by (cases f, force) (cases p, force, cases pr, force, cases iq, force, cases sub, force, cases unsub, force, cases s, force)

interpretation filter_codec: field_codec write_filter read_filter filter_wire
  "\<lambda>f. length (pf_path f) \<le> MAX_BINARY_LEN" "\<lambda>f. valid_utf8 (pf_path f)" "\<lambda>f. length (pf_path f)"
proof
  fix f :: PersistedFilter
  show "emits (length (pf_path f) \<le> MAX_BINARY_LEN) (filter_wire f) (write_filter f)"
    unfolding write_filter_def filter_wire_def
    using emits_andThen [OF emits_string emits_fixed(1)] by simp
  show "filter_wire f \<noteq> []"
    by (simp add: filter_wire_def)
  show "reads read_filter (\<lambda>f b n. (valid_utf8 (pf_path f) \<and> length (pf_path f) \<le> MAX_BINARY_LEN)
      \<and> b = filter_wire f \<and> n = length (pf_path f))"
    unfolding read_filter_def filter_wire_def
    by (rule reads_cong [OF reads_andThen [OF reads_string reads_andThen [OF reads_decode_qos reads_ret]]])
      (auto simp: record_eqs)
qed

interpretation topic_codec: field_codec write_topic read_topic bytes_wire
  "\<lambda>t. length t \<le> MAX_BINARY_LEN" valid_utf8 length
proof
  fix t :: rstring
  show "emits (length t \<le> MAX_BINARY_LEN) (bytes_wire t) (write_topic t)"
    unfolding write_topic_def by (rule emits_string)
  show "bytes_wire t \<noteq> []"
    by (simp add: bytes_wire_def u32_be_def)
  show "reads read_topic (\<lambda>t b n. (valid_utf8 t \<and> length t \<le> MAX_BINARY_LEN) \<and> b = bytes_wire t \<and> n = length t)"
    unfolding read_topic_def by (rule reads_cong [OF reads_string]) auto
qed

interpretation incoming_codec: field_codec write_incoming read_incoming "\<lambda>i. u16_be (piq_pkid i)"
  "\<lambda>_. True" "\<lambda>_. True" "\<lambda>_. 0"
proof
  fix i :: PersistedIncomingQos2
  show "emits True (u16_be (piq_pkid i)) (write_incoming i)"
    unfolding write_incoming_def by (rule emits_fixed)
  show "u16_be (piq_pkid i) \<noteq> []"
    by (simp add: u16_be_def)
  show "reads read_incoming (\<lambda>i b n. (True \<and> True) \<and> b = u16_be (piq_pkid i) \<and> n = 0)"
    unfolding read_incoming_def by (rule reads_cong [OF reads_andThen [OF reads_u16 reads_ret]]) auto
qed

lemma emits_request: "emits (request_sized p) (request_wire p) (write_request p)"
proof (cases p)
  case (PersistedReqPublish q)
  have "emits (length (pp_topic q) \<le> MAX_BINARY_LEN \<and> length (pp_payload q) \<le> MAX_BINARY_LEN)
     (bytes_wire (pp_topic q) @ u16_be (pp_pkid q) @ bytes_wire (pp_payload q))
     (andThen (writer_bytes ''publish.topic'' (pp_topic q)) (\<lambda>_.
      andThen (writer_u16 (pp_pkid q)) (\<lambda>_. writer_bytes ''publish.payload'' (pp_payload q))))"
    by (intro emits_andThen [OF emits_bytes] emits_seq [OF emits_fixed(3)] emits_bytes)
  with PersistedReqPublish show ?thesis
    using emits_seq [OF emits_fixed(1) emits_seq [OF emits_fixed(2) emits_seq [OF emits_fixed(1)
          emits_seq [OF emits_fixed(2)]]]] by simp
next
  case (PersistedReqPubRel q)
  then show ?thesis
    using emits_seq [OF emits_fixed(1) emits_fixed(3)] by simp
next
  case (PersistedReqSubscribe q)
  then show ?thesis
    using emits_seq [OF emits_fixed(1) emits_seq [OF emits_fixed(3) filter_codec.writes_vec]] by simp
next
  case (PersistedReqUnsubscribe q)
  then show ?thesis
    using emits_seq [OF emits_fixed(1) emits_seq [OF emits_fixed(3) topic_codec.writes_vec]] by simp
qed

lemma reads_publish:
  "reads read_publish (\<lambda>x b n. is_PersistedReqPublish x \<and> request_sized x
     \<and> request_wire x = 1 # b \<and> n = request_memory l x)"
  unfolding read_publish_def
  apply (rule reads_cong [OF reads_andThen [OF reads_bool reads_andThen [OF reads_decode_qos reads_andThen [OF reads_bool
        reads_andThen [OF reads_bytes reads_andThen [OF reads_u16 reads_andThen [OF reads_bytes reads_ret]]]]]]])
  subgoal for x b n by (cases x) (auto simp: record_eqs)
  done

lemma reads_pubrel:
  "reads (andThen (reader_u16 field) (\<lambda>pkid. ret (PersistedReqPubRel \<lparr>ppr_pkid = pkid\<rparr>)))
     (\<lambda>x b n. is_PersistedReqPubRel x \<and> request_wire x = 2 # b \<and> n = 0)"
  apply (rule reads_cong [OF reads_andThen [OF reads_u16 reads_ret]])
  subgoal for x b n by (cases x) (auto simp: record_eqs)
  done

lemma reads_subscribe:
  "reads (andThen (reader_u16 field) (\<lambda>pkid. andThen (reader_vec field' (size_of_filter l) read_filter) (\<lambda>filters.
       ret (PersistedReqSubscribe \<lparr>pss_pkid = pkid, pss_filters = filters\<rparr>))))
     (\<lambda>x b n. is_PersistedReqSubscribe x \<and> request_typed x \<and> request_sized x
       \<and> request_wire x = 3 # b \<and> n = request_memory l x)"
  apply (rule reads_cong [OF reads_andThen [OF reads_u16 reads_andThen [OF filter_codec.reads_vec reads_ret]]])
  subgoal for x b n by (cases x) (auto simp: record_eqs)
  done

lemma reads_unsubscribe:
  "reads (andThen (reader_u16 field) (\<lambda>pkid. andThen (reader_vec field' (size_of_string l) read_topic) (\<lambda>topics.
       ret (PersistedReqUnsubscribe \<lparr>psu_pkid = pkid, psu_topics = topics\<rparr>))))
     (\<lambda>x b n. is_PersistedReqUnsubscribe x \<and> request_typed x \<and> request_sized x
       \<and> request_wire x = 4 # b \<and> n = request_memory l x)"
  apply (rule reads_cong [OF reads_andThen [OF reads_u16 reads_andThen [OF topic_codec.reads_vec reads_ret]]])
  subgoal for x b n by (cases x) (auto simp: record_eqs)
  done

lemma reads_request:
  "reads (read_request l) (\<lambda>x b n. (request_typed x \<and> request_sized x) \<and> b = request_wire x \<and> n = request_memory l x)"
  unfolding read_request_def
  apply (rule reads_cong [OF reads_andThen [OF reads_u8 reads_if [OF reads_publish [of l] reads_if [OF reads_pubrel
        reads_if [OF reads_subscribe reads_if [OF reads_unsubscribe reads_fail]]]]]])
  subgoal for x b n by (cases x) (auto split: if_splits intro: exI [where x = "1 :: u8"] exI [where x = "2 :: u8"]
        exI [where x = "3 :: u8"] exI [where x = "4 :: u8"])
  done

interpretation request_codec: field_codec write_request "read_request l" request_wire request_sized request_typed
  "request_memory l" for l
proof
  fix p
  show "emits (request_sized p) (request_wire p) (write_request p)"
    by (rule emits_request)
  show "request_wire p \<noteq> []"
    by (cases p) simp_all
qed (rule reads_request)

section \<open>Whole sessions\<close>

lemma emits_session: "emits (session_sized s) (session_wire s) (write_session s)"
proof -
  have "emits (session_sized s)
     (bytes_wire (ps_client_id s) @ [if ps_clean_session s then 1 else 0] @ u16_be (ps_max_inflight s)
       @ [encode_ack_mode (ps_ack_mode s)] @ vec_wire request_wire (ps_replay s)
       @ vec_wire (\<lambda>i. u16_be (piq_pkid i)) (ps_incoming_qos2 s) @ [])
     (andThen (writer_string ''client_id'' (ps_client_id s)) (\<lambda>_.
      andThen (writer_bool (ps_clean_session s)) (\<lambda>_.
      andThen (writer_u16 (ps_max_inflight s)) (\<lambda>_.
      andThen (writer_u8 (encode_ack_mode (ps_ack_mode s))) (\<lambda>_.
      andThen (writer_vec ''replay'' (ps_replay s) write_request) (\<lambda>_.
      andThen (writer_vec ''incoming_qos2'' (ps_incoming_qos2 s) write_incoming) (\<lambda>_.
      check_excess)))))))"
    unfolding session_sized_def
    by (rule emits_cong [OF emits_andThen [OF emits_string emits_seq [OF emits_fixed(2) emits_seq [OF emits_fixed(3)
          emits_seq [OF emits_fixed(1) emits_andThen [OF request_codec.writes_vec emits_andThen
          [OF incoming_codec.writes_vec emits_check]]]]]]])
      (auto simp: list_all_iff)
  then show ?thesis
    unfolding write_session_def session_wire_def
    using emits_seq [OF emits_append emits_seq [OF emits_fixed(1) emits_seq [OF emits_fixed(3) emits_seq
        [OF emits_fixed(3)]]]] by simp
qed

lemma reads_magic: "reads reader_magic (\<lambda>x b n. b = SESSION_MAGIC \<and> n = 0)"
  unfolding reader_magic_def
  by (rule reads_cong [OF reads_andThen [OF reads_take reads_if [OF reads_fail reads_ret]]]) auto

lemma reads_session:
  "reads (read_session l) (\<lambda>s b n. (session_typed s \<and> session_sized s) \<and> b = session_wire s \<and> n = session_memory l s)"
  unfolding read_session_def
  by (rule reads_cong [OF reads_andThen [OF reads_magic reads_andThen [OF reads_u8 reads_andThen [OF reads_ensure
        reads_andThen [OF reads_u16 reads_andThen [OF reads_ensure reads_andThen [OF reads_u16 reads_andThen [OF reads_string
        reads_andThen [OF reads_bool reads_andThen [OF reads_u16 reads_andThen [OF reads_decode_ack_mode
        reads_andThen [OF request_codec.reads_vec reads_andThen [OF incoming_codec.reads_vec reads_ret]]]]]]]]]]]]])
    (auto simp: record_eqs session_typed_def session_sized_def session_wire_def session_memory_def list_all_iff)

lemma encode_with_limit_Ok:
  "encode_with_limit s limit = Ok bs \<longleftrightarrow> session_sized s \<and> fits limit (length (session_wire s)) \<and> bs = session_wire s"
  "encode_with_limit s limit \<noteq> Panic"
  "limit < usize_max \<Longrightarrow> w_capacity (snd (write_session s (SessionWriter_new limit))) \<le> limit"
proof -
  define w where "w = SessionWriter_new limit"
  have limit: "w_limit w = limit"
    by (simp add: w_def SessionWriter_new_def)
  have run: "wp (write_session s) (\<lambda>_ w'. session_sized s \<and> wrote w' (session_wire s) \<and> w_limit w' = limit)
      (\<lambda>_ w'. \<not> (session_sized s \<and> fits limit (length (session_wire s)))
        \<and> (limit < usize_max \<longrightarrow> w_capacity w' \<le> limit)) w"
    using emits_session [of s] wrote_new [of limit] by (fastforce simp: emits_def w_def [symmetric] limit)
  have checked: "w_excess w' = None" if "write_session s w = (Ok (), w')" for w'
    using that by (auto simp: write_session_def andThen_eq_Ok check_excess_def run_simps split: option.splits)
  show "encode_with_limit s limit = Ok bs \<longleftrightarrow> session_sized s \<and> fits limit (length (session_wire s)) \<and> bs = session_wire s"
    "encode_with_limit s limit \<noteq> Panic"
    "limit < usize_max \<Longrightarrow> w_capacity (snd (write_session s (SessionWriter_new limit))) \<le> limit"
    using run checked
    by (auto simp: encode_with_limit_def wp_def andThen_def wrote_def run_simps w_def [symmetric]
        split: prod.splits outcome.splits if_splits)
qed

lemma session_encode_Ok: "session_encode s = Ok bs \<longleftrightarrow> session_sized s \<and> bs = session_wire s"
  by (auto simp: session_encode_def encode_with_limit_Ok fits_def)

lemma decode_Ok:
  assumes "length bs \<le> usize_max" "m \<le> usize_max"
  shows "decode_with_memory_limit l bs m = Ok s \<longleftrightarrow>
    session_typed s \<and> session_sized s \<and> bs = session_wire s \<and> session_memory l s \<le> m"
    "decode_with_memory_limit l bs m \<noteq> Panic"
proof -
  let ?r = "\<lparr>r_bytes = bs, r_position = 0, r_remaining_memory = m\<rparr>"
  have ok: "reader_ok ?r"
    using assms by (simp add: reader_ok_def)
  have "fst (andThen (read_session l) (\<lambda>session. andThen reader_finish (\<lambda>_. ret session)) ?r) = Ok s \<longleftrightarrow>
      (\<exists>r'. read_session l ?r = (Ok s, r') \<and> r_position r' = length (r_bytes r'))"
    by (auto simp: andThen_def reader_finish_def run_simps split: prod.splits outcome.splits)
  also have "\<dots> \<longleftrightarrow> session_typed s \<and> session_sized s \<and>
      (\<exists>r'. consumes (session_wire s) (session_memory l s) ?r r' \<and> r_position r' = length (r_bytes r'))"
    using reads_session [of l] ok by (auto simp: reads_def)
  also have "(\<exists>r'. consumes (session_wire s) (session_memory l s) ?r r' \<and> r_position r' = length (r_bytes r')) \<longleftrightarrow>
      bs = session_wire s \<and> session_memory l s \<le> m"
    by (auto simp: consumes_def intro: exI [where x = "\<lparr>r_bytes = bs, r_position = length bs,
          r_remaining_memory = m - session_memory l s\<rparr>"])
  finally show "decode_with_memory_limit l bs m = Ok s \<longleftrightarrow>
    session_typed s \<and> session_sized s \<and> bs = session_wire s \<and> session_memory l s \<le> m"
    by (simp add: decode_with_memory_limit_def)
  show "decode_with_memory_limit l bs m \<noteq> Panic"
    using reads_session [of l] ok
    by (auto simp: decode_with_memory_limit_def reads_def andThen_def reader_finish_def run_simps
        split: prod.splits outcome.splits)
qed

lemma decode_extended:
  assumes "session_decode l bs = Ok s" "length (bs @ extra) \<le> usize_max" "extra \<noteq> []"
  shows "session_decode l (bs @ extra) = Err TrailingBytes"
proof -
  let ?r = "\<lparr>r_bytes = bs @ extra, r_position = 0, r_remaining_memory = usize_max\<rparr>"
  let ?r' = "\<lparr>r_bytes = bs @ extra, r_position = length bs, r_remaining_memory = usize_max - session_memory l s\<rparr>"
  have s: "session_typed s" "session_sized s" "bs = session_wire s" "session_memory l s \<le> usize_max"
    using assms by (simp_all add: session_decode_def decode_Ok)
  then have "consumes (session_wire s) (session_memory l s) ?r ?r'"
    by (simp add: consumes_def)
  moreover have "reader_ok ?r"
    using assms(2) by (simp add: reader_ok_def)
  ultimately have "read_session l ?r = (Ok s, ?r')"
    using reads_session [of l] s by (auto simp: reads_def)
  then show ?thesis
    using assms(3) by (simp add: session_decode_def decode_with_memory_limit_def andThen_def reader_finish_def run_simps)
qed

section \<open>Properties\<close>

text \<open>A checkpoint with one request of every kind, and the sizes of a 64-bit target.\<close>

definition example_session :: PersistedSession where
  "example_session = \<lparr>ps_format_version = 2, ps_client_id = [0x63], ps_clean_session = False, ps_max_inflight = 10,
     ps_ack_mode = PManual,
     ps_replay =
       [PersistedReqPublish \<lparr>pp_dup = True, pp_qos = PExactlyOnce, pp_retain = False, pp_topic = [0x61], pp_pkid = 1,
          pp_payload = [1, 2, 3]\<rparr>,
        PersistedReqPubRel \<lparr>ppr_pkid = 2\<rparr>,
        PersistedReqSubscribe \<lparr>pss_pkid = 3, pss_filters = [\<lparr>pf_path = [0x23], pf_qos = PAtLeastOnce\<rparr>]\<rparr>,
        PersistedReqUnsubscribe \<lparr>psu_pkid = 4, psu_topics = [[0x62], [0x63]]\<rparr>],
     ps_incoming_qos2 = [\<lparr>piq_pkid = 7\<rparr>]\<rparr>"

definition example_layout :: session_layout where
  "example_layout = \<lparr>size_of_request = 64, size_of_incoming = 2, size_of_filter = 32, size_of_string = 24\<rparr>"

lemmas session_format = session_wire_def vec_wire_def bytes_wire_def filter_wire_def session_sized_def session_typed_def
  session_memory_def MAX_BINARY_LEN_def MAX_COLLECTION_LEN_def usize_max_def SESSION_MAGIC_def

lemma example_session_facts:
  "session_encode example_session = Ok (session_wire example_session)"
  "length (session_wire example_session) \<le> usize_max" "session_memory example_layout example_session \<le> 500"
  "session_typed example_session" "length (session_wire example_session) = 82"
  by (simp_all add: session_encode_Ok session_format example_session_def example_layout_def)

text \<open>
  C21: The session codec is a bijection between well-typed checkpoints and their encodings: decoding
  returns a session exactly when the bytes are the encoding of that session and the memory it owns
  is within the budget. So every encoded checkpoint decodes to what was encoded, a decoded
  checkpoint re-encodes to the same bytes, and no two byte strings decode to the same session.
\<close>

theorem session_codec_inverse:
  assumes "length bs \<le> usize_max" "memory_limit \<le> usize_max"
  shows "decode_with_memory_limit layout bs memory_limit = Ok s \<longleftrightarrow>
    session_typed s \<and> session_encode s = Ok bs \<and> session_memory layout s \<le> memory_limit"
  using assms by (auto simp: decode_Ok session_encode_Ok)

theorem session_codec_inverse_witness:
  "decode_with_memory_limit example_layout (session_wire example_session) 500 = Ok example_session"
  using session_codec_inverse [OF example_session_facts(2), of 500] example_session_facts
  by (simp add: usize_max_def)

text \<open>
  C23: Encoding under a limit gives exactly the unlimited encoding when that fits, and fails
  otherwise; it never panics, and the output buffer never grows beyond the limit, not even when
  the encoding fails.
\<close>

theorem encode_with_limit_bounded:
  assumes "limit < usize_max"
  shows "(encode_with_limit s limit = Ok bs \<longleftrightarrow> session_encode s = Ok bs \<and> length bs \<le> limit)
    \<and> encode_with_limit s limit \<noteq> Panic
    \<and> w_capacity (snd (write_session s (SessionWriter_new limit))) \<le> limit"
  using assms by (auto simp: encode_with_limit_Ok session_encode_Ok fits_def)

theorem encode_with_limit_bounded_witness:
  "encode_with_limit example_session 82 = Ok (session_wire example_session)
    \<and> encode_with_limit example_session 81 \<noteq> Ok (session_wire example_session)"
  using encode_with_limit_bounded [of 82 example_session "session_wire example_session"]
    encode_with_limit_bounded [of 81 example_session "session_wire example_session"] example_session_facts
  by (simp add: usize_max_def)

text \<open>
  C22: A damaged checkpoint is not mistaken for another one: if the bytes decode, then the same
  bytes with anything appended are refused because of the trailing bytes, and every truncation of
  them is refused. Decoding never panics, whatever the bytes.
\<close>

theorem torn_checkpoint_refused:
  assumes "session_decode layout bs = Ok s" "length (bs @ extra) \<le> usize_max"
  shows "(extra \<noteq> [] \<longrightarrow> session_decode layout (bs @ extra) = Err TrailingBytes)
    \<and> (n < length bs \<longrightarrow> (\<exists>e. session_decode layout (take n bs) = Err e))"
proof (intro conjI impI)
  show "extra \<noteq> [] \<Longrightarrow> session_decode layout (bs @ extra) = Err TrailingBytes"
    using assms by (rule decode_extended)
  assume n: "n < length bs"
  then have "length (take n bs) \<le> usize_max"
    using assms(2) by simp
  then have "session_decode layout (take n bs) \<noteq> Panic"
    using decode_Ok(2) by (simp add: session_decode_def)
  moreover have "session_decode layout (take n bs) \<noteq> Ok s'" for s'
    using decode_extended [of layout "take n bs" s' "drop n bs"] n assms by auto
  ultimately show "\<exists>e. session_decode layout (take n bs) = Err e"
    by (cases "session_decode layout (take n bs)") auto
qed

theorem torn_checkpoint_refused_witness:
  "(\<exists>e. session_decode example_layout (take 81 (session_wire example_session)) = Err e)
    \<and> session_decode example_layout (session_wire example_session @ [0]) = Err TrailingBytes"
proof -
  have "session_decode example_layout (session_wire example_session) = Ok example_session"
    using example_session_facts by (simp add: session_decode_def decode_Ok session_encode_Ok usize_max_def)
  from torn_checkpoint_refused [OF this, of "[0]" 81] show ?thesis
    using example_session_facts by (simp add: usize_max_def)
qed

end
