(* ===== verification/V4_Options.thy ===== *)
theory V4_Options
  imports V4_State V4_Session
begin

text \<open>
  The options of the MQTT 3.1.1 client (\<open>rumqttc-v4/src/lib.rs\<close>: \<open>Broker\<close>, \<open>MqttOptions\<close>,
  \<open>MqttOptionsBuilder\<close> and the conversion from a URL; \<open>rumqttc-core/src/websockets.rs\<close>: \<open>split_url\<close>).
  Parsing URLs is the work of the crates \<open>url\<close>, \<open>http\<close> and \<open>percent-encoding\<close>: a parsed URL is a record,
  and the other two are the argument \<open>U\<close> of the definitions. The options that are only handed on to
  the connection set-up (proxy, request modifiers and the socket connector) are left out.
\<close>

section \<open>Brokers and transports\<close>

datatype Broker =
    BrokerTcp rstring u16
  | BrokerUnix bytes
  | BrokerWebsocket rstring bool

typedecl TlsConfiguration

datatype Transport =
    TransportTcp
  | TransportTls TlsConfiguration
  | TransportUnix
  | TransportWs
  | TransportWss TlsConfiguration

datatype ConfigError =
    CfgBrokerTransportMismatch
  | CfgPersistentSessionRequiresClientId
  | CfgMaxIncomingPacketSize
  | CfgMaxOutgoingPacketSize
  | CfgInflight

datatype OptionError =
    OptScheme
  | OptSecureUrlRequiresExplicitTransport
  | OptClientId
  | OptUnixSocketPath
  | OptWebsocketUrl
  | OptWssRequiresExplicitTransport
  | OptWssUrlRequired
  | OptKeepAlive
  | OptCleanSession
  | OptMaxIncomingPacketSize
  | OptMaxOutgoingPacketSize
  | OptRequestChannelCapacity
  | OptMaxRequestBatch
  | OptReadBatchSize
  | OptPendingThrottle
  | OptInflight
  | OptConfig ConfigError
  | OptUnknown rstring

text \<open>
  What the third-party crates provide: the scheme, host and port of an \<open>http::Uri\<close> (\<open>None\<close> when the
  text is not a URI), percent decoding, and the entry that iterating over a hash map yields first.
\<close>

record http_uri =
  uri_scheme :: "rstring option"
  uri_host :: "rstring option"
  uri_port_u16 :: "u16 option"

record url_crates =
  parse_uri :: "rstring \<Rightarrow> http_uri option"
  percent_decode :: "rstring \<Rightarrow> bytes"
  first_entry :: "(rstring \<times> rstring) list \<Rightarrow> rstring \<times> rstring"

text \<open>The ASCII text of a literal.\<close>

definition ascii :: "string \<Rightarrow> rstring" where
  "ascii = map of_char"

datatype UrlError = UrlInvalid | UrlProtocol | UrlHost

definition uri_domain :: "http_uri \<Rightarrow> rstring option" where
  "uri_domain uri =
     map_option (\<lambda>host.
       if 2 \<le> length host \<and> hd host = 0x5B \<and> last host = 0x5D then butlast (tl host) else host)
       (uri_host uri)"

definition uri_port :: "http_uri \<Rightarrow> u16 option \<Rightarrow> u16 option" where
  "uri_port uri default_port =
     (case uri_port_u16 uri of
        Some port \<Rightarrow> Some port
      | None \<Rightarrow>
          if default_port \<noteq> None then default_port
          else if uri_scheme uri = Some (ascii ''wss'') then Some 443
          else if uri_scheme uri = Some (ascii ''ws'') then Some 80
          else None)"

definition split_url_with_default_port ::
  "url_crates \<Rightarrow> rstring \<Rightarrow> u16 option \<Rightarrow> (UrlError, rstring \<times> u16) outcome" where
  "split_url_with_default_port U url default_port =
     (case parse_uri U url of
        None \<Rightarrow> Err UrlInvalid
      | Some uri \<Rightarrow>
          (case uri_domain uri of
             None \<Rightarrow> Err UrlProtocol
           | Some domain \<Rightarrow>
               (case uri_port uri default_port of
                  None \<Rightarrow> Err UrlHost
                | Some port \<Rightarrow> Ok (domain, port))))"

definition split_url :: "url_crates \<Rightarrow> rstring \<Rightarrow> (UrlError, rstring \<times> u16) outcome" where
  "split_url U url = split_url_with_default_port U url None"

definition Broker_websocket :: "url_crates \<Rightarrow> rstring \<Rightarrow> (OptionError, Broker) outcome" where
  "Broker_websocket U url =
     (case parse_uri U url of
        None \<Rightarrow> Err OptWebsocketUrl
      | Some uri \<Rightarrow>
          if uri_scheme uri = Some (ascii ''ws'') then
            (case split_url U url of
               Ok _ \<Rightarrow> Ok (BrokerWebsocket url False)
             | _ \<Rightarrow> Err OptWebsocketUrl)
          else if uri_scheme uri = Some (ascii ''wss'') then Err OptWssRequiresExplicitTransport
          else Err OptScheme)"

definition Broker_secure_websocket :: "url_crates \<Rightarrow> rstring \<Rightarrow> (OptionError, Broker) outcome" where
  "Broker_secure_websocket U url =
     (case parse_uri U url of
        None \<Rightarrow> Err OptWebsocketUrl
      | Some uri \<Rightarrow>
          if uri_scheme uri = Some (ascii ''wss'') then
            (case split_url U url of
               Ok _ \<Rightarrow> Ok (BrokerWebsocket url True)
             | _ \<Rightarrow> Err OptWebsocketUrl)
          else if uri_scheme uri = Some (ascii ''ws'') then Err OptWssUrlRequired
          else Err OptScheme)"

fun tcp_address :: "Broker \<Rightarrow> (rstring \<times> u16) option" where
  "tcp_address (BrokerTcp host port) = Some (host, port)"
| "tcp_address _ = None"

fun unix_path :: "Broker \<Rightarrow> bytes option" where
  "unix_path (BrokerUnix path) = Some path"
| "unix_path _ = None"

fun websocket_url :: "Broker \<Rightarrow> rstring option" where
  "websocket_url (BrokerWebsocket url _) = Some url"
| "websocket_url _ = None"

fun default_transport :: "Broker \<Rightarrow> Transport" where
  "default_transport (BrokerTcp _ _) = TransportTcp"
| "default_transport (BrokerUnix _) = TransportUnix"
| "default_transport (BrokerWebsocket _ _) = TransportWs"

fun broker_transport_matches :: "Broker \<Rightarrow> Transport \<Rightarrow> bool" where
  "broker_transport_matches broker TransportTcp = (case broker of BrokerTcp _ _ \<Rightarrow> True | _ \<Rightarrow> False)"
| "broker_transport_matches broker (TransportTls _) = (case broker of BrokerTcp _ _ \<Rightarrow> True | _ \<Rightarrow> False)"
| "broker_transport_matches broker TransportUnix = (case broker of BrokerUnix _ \<Rightarrow> True | _ \<Rightarrow> False)"
| "broker_transport_matches broker TransportWs = (case broker of BrokerWebsocket _ secure \<Rightarrow> \<not> secure | _ \<Rightarrow> False)"
| "broker_transport_matches broker (TransportWss _) = (case broker of BrokerWebsocket _ _ \<Rightarrow> True | _ \<Rightarrow> False)"

section \<open>Options\<close>

datatype SessionMode = SessionClean | SessionPersistent

datatype SessionPresentMismatchPolicy = MismatchError | MismatchAcceptAsClean

text \<open>
  Durations are counted in microseconds. A session store is known by a handle: the store itself is
  the application's code.
\<close>

record MqttOptions =
  opt_broker :: Broker
  opt_transport :: Transport
  opt_keep_alive :: nat
  opt_clean_session :: bool
  opt_session_present_mismatch :: SessionPresentMismatchPolicy
  opt_client_id :: rstring
  opt_auth :: ConnectAuth
  opt_max_incoming_packet_size :: nat
  opt_max_outgoing_packet_size :: nat
  opt_request_channel_capacity :: nat
  opt_max_request_batch :: nat
  opt_read_batch_size :: nat
  opt_pending_throttle :: nat
  opt_inflight :: u16
  opt_last_will :: "LastWill option"
  opt_ack_mode :: AckMode
  opt_session_store :: "nat option"
  opt_session_store_scope :: rstring

definition is_mqtt_minimum_client_id :: "rstring \<Rightarrow> bool" where
  "is_mqtt_minimum_client_id cid \<longleftrightarrow>
     1 \<le> length cid \<and> length cid \<le> 23
     \<and> list_all (\<lambda>b. 0x30 \<le> b \<and> b \<le> 0x39 \<or> 0x41 \<le> b \<and> b \<le> 0x5A \<or> 0x61 \<le> b \<and> b \<le> 0x7A) cid"

definition MqttOptions_new :: "rstring \<Rightarrow> Broker \<Rightarrow> MqttOptions" where
  "MqttOptions_new cid broker =
     \<lparr>opt_broker = broker, opt_transport = default_transport broker, opt_keep_alive = 60 * 1000000,
      opt_clean_session = True, opt_session_present_mismatch = MismatchError, opt_client_id = cid,
      opt_auth = AuthNone, opt_max_incoming_packet_size = 10 * 1024, opt_max_outgoing_packet_size = 10 * 1024,
      opt_request_channel_capacity = 10, opt_max_request_batch = 0, opt_read_batch_size = 0,
      opt_pending_throttle = 0, opt_inflight = 100, opt_last_will = None, opt_ack_mode = Automatic,
      opt_session_store = None, opt_session_store_scope = []\<rparr>"

definition MqttOptions_validate :: "MqttOptions \<Rightarrow> (ConfigError, unit) outcome" where
  "MqttOptions_validate self =
     (if \<not> broker_transport_matches (opt_broker self) (opt_transport self) then Err CfgBrokerTransportMismatch
      else if \<not> opt_clean_session self \<and> opt_client_id self = [] then Err CfgPersistentSessionRequiresClientId
      else if opt_inflight self = 0 then Err CfgInflight
      else if opt_max_incoming_packet_size self = 0 then Err CfgMaxIncomingPacketSize
      else if opt_max_outgoing_packet_size self = 0 then Err CfgMaxOutgoingPacketSize
      else Ok ())"

definition try_set_client_id :: "rstring \<Rightarrow> (MqttOptions, ConfigError, unit) sm" where
  "try_set_client_id cid =
     andThen (gets (\<lambda>self. cid = [] \<and> \<not> opt_clean_session self)) (\<lambda>bad.
     if bad then fail CfgPersistentSessionRequiresClientId
     else modify (\<lambda>self. self\<lparr>opt_client_id := cid\<rparr>))"

definition try_set_clean_session :: "bool \<Rightarrow> (MqttOptions, ConfigError, unit) sm" where
  "try_set_clean_session clean =
     andThen (gets (\<lambda>self. opt_client_id self = [] \<and> \<not> clean)) (\<lambda>bad.
     if bad then fail CfgPersistentSessionRequiresClientId
     else modify (\<lambda>self. self\<lparr>opt_clean_session := clean\<rparr>))"

definition try_set_session_mode :: "SessionMode \<Rightarrow> (MqttOptions, ConfigError, unit) sm" where
  "try_set_session_mode mode = try_set_clean_session (mode = SessionClean)"

definition try_set_inflight :: "u16 \<Rightarrow> (MqttOptions, ConfigError, unit) sm" where
  "try_set_inflight n =
     (if n = 0 then fail CfgInflight
      else modify (\<lambda>self. self\<lparr>opt_inflight := n\<rparr>))"

definition set_max_packet_size :: "nat \<Rightarrow> nat \<Rightarrow> MqttOptions \<Rightarrow> MqttOptions" where
  "set_max_packet_size incoming outgoing self =
     self\<lparr>opt_max_incoming_packet_size := incoming, opt_max_outgoing_packet_size := outgoing\<rparr>"

definition set_keep_alive :: "u16 \<Rightarrow> MqttOptions \<Rightarrow> MqttOptions" where
  "set_keep_alive seconds self = self\<lparr>opt_keep_alive := unat seconds * 1000000\<rparr>"

definition session_store_key :: "MqttOptions \<Rightarrow> SessionStoreKey" where
  "session_store_key self = \<lparr>ssk_scope = opt_session_store_scope self, ssk_client_id = opt_client_id self\<rparr>"

definition MqttOptionsBuilder_try_build :: "MqttOptions \<Rightarrow> (ConfigError, MqttOptions) outcome" where
  "MqttOptionsBuilder_try_build options =
     (case MqttOptions_validate options of Ok _ \<Rightarrow> Ok options | Err e \<Rightarrow> Err e | Panic \<Rightarrow> Panic)"

section \<open>Options from a URL\<close>

record url =
  url_scheme :: rstring
  url_host_str :: "rstring option"
  url_port :: "u16 option"
  url_username :: rstring
  url_password :: "rstring option"
  url_path :: rstring
  url_as_str :: rstring
  url_query_pairs :: "(rstring \<times> rstring) list"

text \<open>
  \<open>str::parse\<close> for unsigned integers of the standard library: an optional plus sign, then decimal
  digits, and a value of at most \<open>m\<close>.
\<close>

fun parse_digits :: "rstring \<Rightarrow> nat \<Rightarrow> nat option" where
  "parse_digits [] acc = Some acc"
| "parse_digits (b # bs) acc =
     (if 0x30 \<le> b \<and> b \<le> 0x39 then parse_digits bs (10 * acc + unat (b - 0x30)) else None)"

definition parse_uint :: "nat \<Rightarrow> rstring \<Rightarrow> nat option" where
  "parse_uint m text =
     (let digits = (if text \<noteq> [] \<and> hd text = 0x2B then tl text else text) in
      if digits = [] then None
      else case parse_digits digits 0 of
        Some n \<Rightarrow> if n \<le> m then Some n else None
      | None \<Rightarrow> None)"

definition parse_bool :: "rstring \<Rightarrow> bool option" where
  "parse_bool text =
     (if text = ascii ''true'' then Some True
      else if text = ascii ''false'' then Some False
      else None)"

text \<open>\<open>HashMap\<close> collected from the query pairs (a later pair replaces an earlier one), and \<open>remove\<close>.\<close>

fun collect_queries :: "(rstring \<times> rstring) list \<Rightarrow> (rstring \<times> rstring) list" where
  "collect_queries [] = []"
| "collect_queries ((k, v) # rest) =
     (let m = collect_queries rest in if k \<in> fst ` set rest then m else (k, v) # m)"

definition query_remove :: "string \<Rightarrow> ((rstring \<times> rstring) list, 'e, rstring option) sm" where
  "query_remove key =
     andThen (gets (\<lambda>queries. map_of queries (ascii key))) (\<lambda>v.
     andThen (modify (filter (\<lambda>(k, _). k \<noteq> ascii key))) (\<lambda>_.
     ret v))"

definition query_option ::
  "string \<Rightarrow> (rstring \<Rightarrow> 'a option) \<Rightarrow> OptionError \<Rightarrow> ((rstring \<times> rstring) list, OptionError, 'a option) sm" where
  "query_option key parse err =
     andThen (query_remove key) (\<lambda>v.
     case v of
       None \<Rightarrow> ret None
     | Some text \<Rightarrow>
         (case parse text of
            Some x \<Rightarrow> ret (Some x)
          | None \<Rightarrow> fail err))"

definition parse_unix_socket_path :: "url_crates \<Rightarrow> url \<Rightarrow> (OptionError, bytes) outcome" where
  "parse_unix_socket_path U url =
     (if url_host_str url \<noteq> None then Err OptUnixSocketPath
      else
        let path = percent_decode U (url_path url) in
        if path = [] \<or> path = [0x2F] then Err OptUnixSocketPath
        else Ok path)"

definition set_url_credentials :: "url \<Rightarrow> MqttOptions \<Rightarrow> MqttOptions" where
  "set_url_credentials url options =
     (case url_password url of
        Some password \<Rightarrow> options\<lparr>opt_auth := AuthUsernamePassword (url_username url) password\<rparr>
      | None \<Rightarrow>
          if url_username url \<noteq> [] then options\<lparr>opt_auth := AuthUsername (url_username url)\<rparr>
          else options)"

definition broker_from_url :: "url_crates \<Rightarrow> url \<Rightarrow> (OptionError, Broker) outcome" where
  "broker_from_url U url =
     (let scheme = url_scheme url in
      if scheme = ascii ''mqtts'' \<or> scheme = ascii ''ssl'' then Err OptSecureUrlRequiresExplicitTransport
      else if scheme = ascii ''mqtt'' \<or> scheme = ascii ''tcp'' then
        Ok (BrokerTcp (case url_host_str url of Some h \<Rightarrow> h | None \<Rightarrow> [])
              (case url_port url of Some p \<Rightarrow> p | None \<Rightarrow> 1883))
      else if scheme = ascii ''unix'' then
        (case parse_unix_socket_path U url of Ok path \<Rightarrow> Ok (BrokerUnix path) | Err e \<Rightarrow> Err e | Panic \<Rightarrow> Panic)
      else if scheme = ascii ''ws'' then Broker_websocket U (url_as_str url)
      else if scheme = ascii ''wss'' then Err OptWssRequiresExplicitTransport
      else Err OptScheme)"

definition apply_option :: "('a \<Rightarrow> MqttOptions \<Rightarrow> MqttOptions) \<Rightarrow> 'a option \<Rightarrow> MqttOptions \<Rightarrow> MqttOptions" where
  "apply_option f v options = (case v of Some x \<Rightarrow> f x options | None \<Rightarrow> options)"

text \<open>A fallible setter on the options, inside the function that owns the map of queries.\<close>

definition try_set ::
  "(MqttOptions, ConfigError, unit) sm \<Rightarrow> MqttOptions \<Rightarrow> ('q, OptionError, MqttOptions) sm" where
  "try_set setter options =
     (case setter options of
        (Ok _, options') \<Rightarrow> ret options'
      | (Err e, _) \<Rightarrow> fail (OptConfig e)
      | (Panic, _) \<Rightarrow> panic)"

definition options_from_queries ::
  "url_crates \<Rightarrow> url \<Rightarrow> Broker \<Rightarrow> ((rstring \<times> rstring) list, OptionError, MqttOptions) sm" where
  "options_from_queries U url broker =
     andThen (query_remove ''client_id'') (\<lambda>r.
     andThen (ok_or r OptClientId) (\<lambda>cid.
     let options = MqttOptions_new cid broker in
     andThen (query_option ''keep_alive_secs'' (parse_uint 65535) OptKeepAlive) (\<lambda>keep_alive.
     let options = apply_option (\<lambda>n. set_keep_alive (of_nat n)) keep_alive options in
     andThen (query_option ''clean_session'' parse_bool OptCleanSession) (\<lambda>clean.
     andThen (case clean of Some c \<Rightarrow> try_set (try_set_clean_session c) options | None \<Rightarrow> ret options) (\<lambda>options.
     let options = set_url_credentials url options in
     andThen (query_option ''max_incoming_packet_size_bytes'' (parse_uint usize_max) OptMaxIncomingPacketSize) (\<lambda>incoming.
     andThen (query_option ''max_outgoing_packet_size_bytes'' (parse_uint usize_max) OptMaxOutgoingPacketSize) (\<lambda>outgoing.
     let options = (case (incoming, outgoing) of
         (Some i, Some ou) \<Rightarrow> set_max_packet_size i ou options
       | _ \<Rightarrow> options) in
     andThen (query_option ''request_channel_capacity_num'' (parse_uint usize_max) OptRequestChannelCapacity) (\<lambda>capacity.
     let options = apply_option (\<lambda>n self. self\<lparr>opt_request_channel_capacity := n\<rparr>) capacity options in
     andThen (query_option ''max_request_batch_num'' (parse_uint usize_max) OptMaxRequestBatch) (\<lambda>batch.
     let options = apply_option (\<lambda>n self. self\<lparr>opt_max_request_batch := n\<rparr>) batch options in
     andThen (query_option ''read_batch_size_num'' (parse_uint usize_max) OptReadBatchSize) (\<lambda>size.
     let options = apply_option (\<lambda>n self. self\<lparr>opt_read_batch_size := n\<rparr>) size options in
     andThen (query_option ''pending_throttle_usecs'' (parse_uint (2 ^ 64 - 1)) OptPendingThrottle) (\<lambda>throttle.
     let options = apply_option (\<lambda>n self. self\<lparr>opt_pending_throttle := n\<rparr>) throttle options in
     andThen (query_option ''inflight_num'' (parse_uint 65535) OptInflight) (\<lambda>infl.
     andThen (case infl of Some n \<Rightarrow> try_set (try_set_inflight (of_nat n)) options | None \<Rightarrow> ret options) (\<lambda>options.
     andThen (gets (\<lambda>queries. queries)) (\<lambda>queries.
     if queries \<noteq> [] then fail (OptUnknown (fst (first_entry U queries)))
     else
       andThen (map_err OptConfig (lift (MqttOptions_validate options))) (\<lambda>_.
       ret options)))))))))))))))"

definition options_try_from_url :: "url_crates \<Rightarrow> url \<Rightarrow> (OptionError, MqttOptions) outcome" where
  "options_try_from_url U url =
     (case broker_from_url U url of
        Ok broker \<Rightarrow> fst (options_from_queries U url broker (collect_queries (url_query_pairs url)))
      | Err e \<Rightarrow> Err e
      | Panic \<Rightarrow> Panic)"

section \<open>Properties\<close>

lemma andThen_OkE:
  "andThen m k s = (Ok y, t) \<Longrightarrow> (\<And>x s'. m s = (Ok x, s') \<Longrightarrow> k x s' = (Ok y, t) \<Longrightarrow> thesis) \<Longrightarrow> thesis"
  by (auto simp: andThen_eq_Ok)

lemma ascii_inject: "ascii a = ascii b \<longleftrightarrow> a = b"
proof -
  have "unat (of_char c :: u8) = of_char c" for c
  proof -
    have "unat (of_nat (of_char c :: nat) :: u8) = of_char c"
      using nat_of_char_less_256 [of c] by (simp only: unat_of_nat) simp
    then show ?thesis by (simp only: of_nat_of_char)
  qed
  then have "inj (of_char :: char \<Rightarrow> u8)"
    by (intro injI) (metis of_char_eq_iff)
  then show ?thesis
    by (simp add: ascii_def inj_map_eq_map)
qed

lemma query_removes:
  "query_remove key s = (Ok x, s') \<Longrightarrow> s' = filter (\<lambda>(k, _). k \<noteq> ascii key) s"
  "query_option key parse err s = (Ok y, s') \<Longrightarrow> s' = filter (\<lambda>(k, _). k \<noteq> ascii key) s"
  by (auto simp: query_option_def query_remove_def run_simps andThen_eq_Ok split: option.splits)

lemma try_set_keeps: "try_set f options s = (Ok x, s') \<Longrightarrow> s' = s"
  by (auto simp: try_set_def run_simps split: prod.splits outcome.splits)

lemma case_keeps:
  "(case v of Some c \<Rightarrow> try_set (f c) options | None \<Rightarrow> ret options) s = (Ok x, s') \<Longrightarrow> s' = s"
  by (auto simp: run_simps split: option.splits dest: try_set_keeps)

lemma keys_of_collected: "fst ` set (collect_queries pairs) = fst ` set pairs"
  by (induction pairs rule: collect_queries.induct) (auto simp: Let_def)

definition query_keys :: "string list" where
  "query_keys = [''client_id'', ''keep_alive_secs'', ''clean_session'', ''max_incoming_packet_size_bytes'',
     ''max_outgoing_packet_size_bytes'', ''request_channel_capacity_num'', ''max_request_batch_num'',
     ''read_batch_size_num'', ''pending_throttle_usecs'', ''inflight_num'']"

definition keys_within :: "rstring set \<Rightarrow> (rstring \<times> rstring) list \<Rightarrow> bool" where
  "keys_within K queries \<longleftrightarrow> fst ` set queries \<subseteq> K"

lemma keys_within_removed:
  "keys_within K (filter (\<lambda>(k, _). k \<noteq> ascii key) queries) \<longleftrightarrow> keys_within (insert (ascii key) K) queries"
  by (force simp: keys_within_def)

lemma validated_last:
  assumes "(if queries \<noteq> [] then fail e else andThen (map_err OptConfig (lift (MqttOptions_validate x))) (\<lambda>_. ret x)) s
    = (Ok options, s')"
  shows "queries = [] \<and> MqttOptions_validate options = Ok ()"
  using assms by (cases "MqttOptions_validate x") (auto simp: run_simps andThen_eq_Ok run_map_err split: if_splits)

lemma ok_or_keeps: "ok_or v e s = (Ok x, s') \<Longrightarrow> s' = s"
  by (auto simp: run_simps split: option.splits)

lemma gets_keeps: "gets (\<lambda>queries. queries) s = (Ok x, s') \<Longrightarrow> x = s \<and> s' = s"
  by auto

lemma known_keys: "keys_within (ascii ` set query_keys) s \<longleftrightarrow> keys_within {} (fold (\<lambda>key. filter (\<lambda>(k, _). k \<noteq> ascii key)) query_keys s)"
  by (simp only: query_keys_def fold.simps comp_def id_apply keys_within_removed list.set image_insert image_empty)

lemma options_from_queries_Ok:
  assumes "options_from_queries U url broker s = (Ok options, s')"
  shows "MqttOptions_validate options = Ok () \<and> keys_within (ascii ` set query_keys) s"
  using assms unfolding options_from_queries_def Let_def known_keys
  apply (elim andThen_OkE)
  apply (drule query_removes case_keeps ok_or_keeps gets_keeps validated_last)+
  apply (elim conjE)
  apply hypsubst
  apply (simp only: query_keys_def fold.simps comp_def id_apply)
  apply (simp only: keys_within_def list.set image_empty empty_subsetI simp_thms)
  done

lemma broker_from_url_safe: "broker_from_url U url \<noteq> Panic"
  by (auto simp: broker_from_url_def Broker_websocket_def parse_unix_socket_path_def Let_def
      split: option.splits outcome.splits)

lemma safe_query: "safe (query_remove key) s" "safe (query_option key parse err) s"
  by (auto simp: query_option_def query_remove_def safe_def run_simps andThen_def split: option.splits)

lemma safe_setters:
  "safe (case v of Some c \<Rightarrow> try_set (try_set_clean_session c) options | None \<Rightarrow> ret options) s"
  "safe (case w of Some n \<Rightarrow> try_set (try_set_inflight (of_nat n)) options | None \<Rightarrow> ret options) s"
  by (auto simp: safe_def try_set_def try_set_clean_session_def try_set_inflight_def run_simps
      split: option.splits prod.splits outcome.splits)

lemma validate_safe: "MqttOptions_validate options \<noteq> Panic"
  by (simp add: MqttOptions_validate_def)

lemma options_from_queries_safe: "safe (options_from_queries U url broker) s"
  unfolding options_from_queries_def Let_def
  by (intro safe_andThen safe_query safe_setters safe_if safe_simple safe_map_err safe_lift validate_safe)

text \<open>
  C38: Options made from a URL are valid: the conversion never panics, and it only
  succeeds with options that pass the validation (matching transport, client identifier for a
  persistent session, non-zero limits), and only when every query parameter is one it knows.
\<close>

theorem url_options_valid:
  "(options_try_from_url U url = Ok options \<longrightarrow>
      MqttOptions_validate options = Ok () \<and> fst ` set (url_query_pairs url) \<subseteq> ascii ` set query_keys)
    \<and> options_try_from_url U url \<noteq> Panic"
proof (intro conjI impI)
  show "options_try_from_url U url \<noteq> Panic"
    using broker_from_url_safe [of U url] options_from_queries_safe [of U url]
    by (auto simp: options_try_from_url_def safe_def split: outcome.splits)
  assume "options_try_from_url U url = Ok options"
  then obtain broker queries where
      "options_from_queries U url broker (collect_queries (url_query_pairs url)) = (Ok options, queries)"
    by (auto simp: options_try_from_url_def split: outcome.splits) (metis prod.collapse)
  from options_from_queries_Ok [OF this]
  show "MqttOptions_validate options = Ok ()" "fst ` set (url_query_pairs url) \<subseteq> ascii ` set query_keys"
    by (simp_all add: keys_within_def keys_of_collected)
qed

definition example_url :: "(rstring \<times> rstring) list \<Rightarrow> url" where
  "example_url queries = \<lparr>url_scheme = ascii ''mqtt'', url_host_str = Some (ascii ''h''), url_port = None, url_username = [],
     url_password = None, url_path = [], url_as_str = [], url_query_pairs = queries\<rparr>"

lemma exec_query:
  "andThen (query_remove key) k s = k (map_of s (ascii key)) (filter (\<lambda>(k, _). k \<noteq> ascii key) s)"
  "andThen (query_option key parse err) c s =
    (case map_of s (ascii key) of
       None \<Rightarrow> c None (filter (\<lambda>(k, _). k \<noteq> ascii key) s)
     | Some text \<Rightarrow>
         (case parse text of
            Some x \<Rightarrow> c (Some x) (filter (\<lambda>(k, _). k \<noteq> ascii key) s)
          | None \<Rightarrow> (Err err, filter (\<lambda>(k, _). k \<noteq> ascii key) s)))"
  by (simp_all add: query_remove_def query_option_def andThen_def run_simps split: option.splits)

lemma example_url_options:
  "options_try_from_url U (example_url [(ascii ''client_id'', ascii ''c''), (ascii ''max_incoming_packet_size_bytes'', ascii ''9'')])
    = Ok (MqttOptions_new (ascii ''c'') (BrokerTcp (ascii ''h'') 1883))"
proof -
  have "parse_uint usize_max (ascii ''9'') = Some 9"
    by (simp add: parse_uint_def usize_max_def ascii_def)
  moreover have "broker_from_url U (example_url qs) = Ok (BrokerTcp (ascii ''h'') 1883)" for qs
    by (simp add: broker_from_url_def example_url_def ascii_def)
  moreover have "MqttOptions_validate (MqttOptions_new (ascii ''c'') (BrokerTcp (ascii ''h'') 1883)) = Ok ()"
    by (simp add: MqttOptions_validate_def MqttOptions_new_def ascii_def)
  moreover have "set_url_credentials (example_url qs) x = x" for qs x
    by (simp add: set_url_credentials_def example_url_def)
  moreover have "url_query_pairs (example_url qs) = qs" for qs
    by (simp add: example_url_def)
  ultimately show ?thesis
    by (simp add: options_try_from_url_def options_from_queries_def exec_query exec_option run_simps apply_option_def
      run_map_err ascii_inject Let_def)
      (simp add: andThen_def run_map_err run_simps)
qed

theorem url_options_valid_witness:
  "MqttOptions_validate (MqttOptions_new (ascii ''c'') (BrokerTcp (ascii ''h'') 1883)) = Ok ()"
  using url_options_valid example_url_options by blast


end
