(* ===== verification/V4_Persist.thy ===== *)
theory V4_Persist
  imports V4_Options V4_State_Props
begin

text \<open>
  Saving the MQTT 3.1.1 client state into a session checkpoint and restoring it
  (\<open>rumqttc-v4/src/state.rs\<close>, from \<open>persisted_session\<close> on).
\<close>

section \<open>Saving\<close>

fun persisted_ack_mode :: "AckMode \<Rightarrow> PersistedAckMode" where
  "persisted_ack_mode Automatic = PAutomatic"
| "persisted_ack_mode Manual = PManual"

fun persisted_qos :: "QoS \<Rightarrow> PersistedQoS" where
  "persisted_qos AtMostOnce = PAtMostOnce"
| "persisted_qos AtLeastOnce = PAtLeastOnce"
| "persisted_qos ExactlyOnce = PExactlyOnce"

fun qos_from_persisted :: "PersistedQoS \<Rightarrow> QoS" where
  "qos_from_persisted PAtMostOnce = AtMostOnce"
| "qos_from_persisted PAtLeastOnce = AtLeastOnce"
| "qos_from_persisted PExactlyOnce = ExactlyOnce"

definition persisted_publish :: "Publish \<Rightarrow> PersistedPublish option" where
  "persisted_publish publish =
     (if publish_qos publish = AtMostOnce \<or> publish_pkid publish = 0 \<or> publish_topic publish = [] then None
      else Some \<lparr>pp_dup = True, pp_qos = persisted_qos (publish_qos publish), pp_retain = publish_retain publish,
        pp_topic = publish_topic publish, pp_pkid = publish_pkid publish, pp_payload = publish_payload publish\<rparr>)"

definition persisted_filter :: "SubscribeFilter \<Rightarrow> PersistedFilter" where
  "persisted_filter flt = \<lparr>pf_path = filter_path flt, pf_qos = persisted_qos (filter_qos flt)\<rparr>"

definition persisted_subscribe :: "Subscribe \<Rightarrow> PersistedSubscribe" where
  "persisted_subscribe subscribe =
     \<lparr>pss_pkid = subscribe_pkid subscribe, pss_filters = map persisted_filter (subscribe_filters subscribe)\<rparr>"

definition persisted_unsubscribe :: "Unsubscribe \<Rightarrow> PersistedUnsubscribe" where
  "persisted_unsubscribe unsubscribe =
     \<lparr>psu_pkid = unsubscribe_pkid unsubscribe, psu_topics = unsubscribe_topics unsubscribe\<rparr>"

fun persisted_request_from_request :: "Request \<Rightarrow> PersistedRequest option" where
  "persisted_request_from_request (ReqPublish publish) = map_option PersistedReqPublish (persisted_publish publish)"
| "persisted_request_from_request (ReqPubRel pubrel) = Some (PersistedReqPubRel \<lparr>ppr_pkid = pubrel_pkid pubrel\<rparr>)"
| "persisted_request_from_request (ReqSubscribe subscribe) =
     (if subscribe_pkid subscribe \<noteq> 0 then Some (PersistedReqSubscribe (persisted_subscribe subscribe)) else None)"
| "persisted_request_from_request (ReqUnsubscribe unsubscribe) =
     (if unsubscribe_pkid unsubscribe \<noteq> 0 then Some (PersistedReqUnsubscribe (persisted_unsubscribe unsubscribe)) else None)"
| "persisted_request_from_request _ = None"

definition persisted_publish_slot :: "u16 \<Rightarrow> ('b MqttState, 'e, PersistedRequest list) sm" where
  "persisted_publish_slot pkid =
     andThen (gets (\<lambda>self. nth_opt (outgoing_pub self) (unat pkid))) (\<lambda>r.
     andThen (expect r) (\<lambda>slot.
     ret (case Option.bind slot persisted_publish of
         Some persisted \<Rightarrow> [PersistedReqPublish persisted]
       | None \<Rightarrow> [])))"

definition persisted_replay_requests :: "('b MqttState, 'e, PersistedRequest list) sm" where
  "persisted_replay_requests =
     andThen (gets outgoing_pub_order) (\<lambda>order.
     andThen (traverse persisted_publish_slot order) (\<lambda>publishes.
     gets (\<lambda>self. concat publishes
       @ map (\<lambda>pkid. PersistedReqPubRel \<lparr>ppr_pkid = pkid\<rparr>) (outgoing_rel_order self)
       @ map (\<lambda>(_, pending). PersistedReqSubscribe (persisted_subscribe (psub_subscribe pending))) (pending_subscribe self)
       @ map (\<lambda>(_, pending). PersistedReqUnsubscribe (persisted_unsubscribe (punsub_unsubscribe pending)))
           (pending_unsubscribe self))))"

definition persisted_session ::
  "'b bitset_ops \<Rightarrow> MqttOptions \<Rightarrow> Request list \<Rightarrow> ('b MqttState, 'e, PersistedSession) sm" where
  "persisted_session B options replay_requests =
     andThen persisted_replay_requests (\<lambda>replay.
     gets (\<lambda>self.
       \<lparr>ps_format_version = 2,
        ps_client_id = opt_client_id options,
        ps_clean_session = opt_clean_session options,
        ps_max_inflight = opt_inflight options,
        ps_ack_mode = persisted_ack_mode (opt_ack_mode options),
        ps_replay = replay @ List.map_filter persisted_request_from_request replay_requests,
        ps_incoming_qos2 = List.map_filter (\<lambda>pkid. map_option (\<lambda>pkid. \<lparr>piq_pkid = pkid\<rparr>) (u16_try_from pkid))
          (bs_ones B (incoming_pubrec self))\<rparr>))"

section \<open>Restoring\<close>

datatype SessionRestoreError =
    UnsupportedFormatVersion u16
  | ClientIdMismatch rstring rstring
  | CleanSessionMismatch bool bool
  | MaxInflightMismatch u16 u16
  | AckModeMismatch
  | InvalidPacketIdentifier u16
  | OutgoingPacketIdentifierCountOutOfRange nat
  | DuplicateOutgoingPacketIdentifier u16
  | OutgoingPublishWindowExceeded nat u16
  | InvalidOutgoingPublishQoS u16

definition validate_persisted_session_signature ::
  "MqttOptions \<Rightarrow> PersistedSession \<Rightarrow> (SessionRestoreError, unit) outcome" where
  "validate_persisted_session_signature options session =
     (if ps_format_version session \<noteq> 2 then Err (UnsupportedFormatVersion (ps_format_version session))
      else if ps_client_id session \<noteq> opt_client_id options then
        Err (ClientIdMismatch (ps_client_id session) (opt_client_id options))
      else if ps_clean_session session \<noteq> opt_clean_session options then
        Err (CleanSessionMismatch (ps_clean_session session) (opt_clean_session options))
      else if ps_max_inflight session \<noteq> opt_inflight options then
        Err (MaxInflightMismatch (ps_max_inflight session) (opt_inflight options))
      else if ps_ack_mode session \<noteq> persisted_ack_mode (opt_ack_mode options) then Err AckModeMismatch
      else Ok ())"

definition validate_pkid :: "u16 \<Rightarrow> (SessionRestoreError, unit) outcome" where
  "validate_pkid pkid = (if pkid = 0 then Err (InvalidPacketIdentifier pkid) else Ok ())"

fun validate_persisted_replay_request :: "PersistedRequest \<Rightarrow> ('s, SessionRestoreError, u16) sm" where
  "validate_persisted_replay_request (PersistedReqPublish publish) =
     andThen (lift (validate_pkid (pp_pkid publish))) (\<lambda>_.
     if pp_qos publish = PAtMostOnce then fail (InvalidOutgoingPublishQoS (pp_pkid publish))
     else ret (pp_pkid publish))"
| "validate_persisted_replay_request (PersistedReqPubRel pubrel) =
     andThen (lift (validate_pkid (ppr_pkid pubrel))) (\<lambda>_. ret (ppr_pkid pubrel))"
| "validate_persisted_replay_request (PersistedReqSubscribe subscribe) =
     andThen (lift (validate_pkid (pss_pkid subscribe))) (\<lambda>_. ret (pss_pkid subscribe))"
| "validate_persisted_replay_request (PersistedReqUnsubscribe unsubscribe) =
     andThen (lift (validate_pkid (psu_pkid unsubscribe))) (\<lambda>_. ret (psu_pkid unsubscribe))"

fun counts_for_window :: "PersistedRequest \<Rightarrow> bool" where
  "counts_for_window (PersistedReqPublish _) = True"
| "counts_for_window (PersistedReqPubRel _) = True"
| "counts_for_window _ = False"

fun validate_replay ::
  "'b bitset_ops \<Rightarrow> PersistedRequest list \<Rightarrow> 'b \<Rightarrow> nat \<Rightarrow> ('s, SessionRestoreError, nat) sm" where
  "validate_replay B [] packet_ids count = ret count"
| "validate_replay B (request # requests) packet_ids count =
     andThen (validate_persisted_replay_request request) (\<lambda>pkid.
     andThen (ensure (\<not> bs_contains B packet_ids (unat pkid)) (DuplicateOutgoingPacketIdentifier pkid)) (\<lambda>_.
     andThen (expect (bs_insert B packet_ids (unat pkid))) (\<lambda>packet_ids.
     validate_replay B requests packet_ids (if counts_for_window request then count + 1 else count))))"

definition validate_persisted_session_packet_ids ::
  "'b bitset_ops \<Rightarrow> PersistedSession \<Rightarrow> ('b MqttState, SessionRestoreError, unit) sm" where
  "validate_persisted_session_packet_ids B session =
     andThen (for_each (\<lambda>incoming. lift (validate_pkid (piq_pkid incoming))) (ps_incoming_qos2 session)) (\<lambda>_.
     andThen (validate_replay B (ps_replay session) (bs_with_capacity B full_packet_identifier_len) 0)
       (\<lambda>publish_window_count.
     andThen (gets max_inflight) (\<lambda>max_in.
     ensure (publish_window_count \<le> unat max_in) (OutgoingPublishWindowExceeded publish_window_count max_in))))"

definition filter_from_persisted :: "PersistedFilter \<Rightarrow> SubscribeFilter" where
  "filter_from_persisted flt = \<lparr>filter_path = pf_path flt, filter_qos = qos_from_persisted (pf_qos flt)\<rparr>"

fun request_from_persisted_request :: "PersistedRequest \<Rightarrow> ('s, SessionRestoreError, Request) sm" where
  "request_from_persisted_request (PersistedReqPublish publish) =
     andThen (lift (validate_pkid (pp_pkid publish))) (\<lambda>_.
     ret (ReqPublish \<lparr>publish_dup = True, publish_qos = qos_from_persisted (pp_qos publish),
       publish_retain = pp_retain publish, publish_topic = pp_topic publish, publish_pkid = pp_pkid publish,
       publish_payload = pp_payload publish\<rparr>))"
| "request_from_persisted_request (PersistedReqPubRel pubrel) =
     andThen (lift (validate_pkid (ppr_pkid pubrel))) (\<lambda>_.
     ret (ReqPubRel (PubRel_new (ppr_pkid pubrel))))"
| "request_from_persisted_request (PersistedReqSubscribe subscribe) =
     andThen (lift (validate_pkid (pss_pkid subscribe))) (\<lambda>_.
     ret (ReqSubscribe \<lparr>subscribe_pkid = pss_pkid subscribe,
       subscribe_filters = map filter_from_persisted (pss_filters subscribe)\<rparr>))"
| "request_from_persisted_request (PersistedReqUnsubscribe unsubscribe) =
     andThen (lift (validate_pkid (psu_pkid unsubscribe))) (\<lambda>_.
     ret (ReqUnsubscribe \<lparr>unsubscribe_pkid = psu_pkid unsubscribe,
       unsubscribe_topics = psu_topics unsubscribe\<rparr>))"

definition restore_incoming :: "'b bitset_ops \<Rightarrow> PersistedIncomingQos2 \<Rightarrow> ('b MqttState, 'e, unit) sm" where
  "restore_incoming B incoming =
     andThen (try_field incoming_pub incoming_pub_update (\<lambda>b. bs_insert B b (unat (piq_pkid incoming)))) (\<lambda>_.
     try_field incoming_pubrec incoming_pubrec_update (\<lambda>b. bs_insert B b (unat (piq_pkid incoming))))"

fun restore_owner :: "'b bitset_ops \<Rightarrow> PersistedRequest \<Rightarrow> ('b MqttState, 'e, u16) sm" where
  "restore_owner B (PersistedReqPublish publish) =
     andThen (modify (ensure_outgoing_tracking_capacity B (unat (pp_pkid publish) + 1))) (\<lambda>_.
     ret (pp_pkid publish))"
| "restore_owner B (PersistedReqPubRel pubrel) =
     andThen (modify (ensure_outgoing_tracking_capacity B (unat (ppr_pkid pubrel) + 1))) (\<lambda>_.
     andThen (try_field outgoing_rel_replay outgoing_rel_replay_update (\<lambda>b. bs_insert B b (unat (ppr_pkid pubrel)))) (\<lambda>_.
     andThen (modify (outgoing_rel_replay_order_update (\<lambda>order. order @ [ppr_pkid pubrel]))) (\<lambda>_.
     ret (ppr_pkid pubrel))))"
| "restore_owner B (PersistedReqSubscribe subscribe) = ret (pss_pkid subscribe)"
| "restore_owner B (PersistedReqUnsubscribe unsubscribe) = ret (psu_pkid unsubscribe)"

definition restore_request :: "'b bitset_ops \<Rightarrow> PersistedRequest \<Rightarrow> ('b MqttState, 'e, unit) sm" where
  "restore_request B request =
     andThen (restore_owner B request) (\<lambda>pkid.
     try_field outbound_pkid_in_use outbound_pkid_in_use_update (\<lambda>b. bs_insert B b (unat pkid)))"

definition restore_persisted_session ::
  "'b bitset_ops \<Rightarrow> nat \<Rightarrow> MqttOptions \<Rightarrow> PersistedSession
    \<Rightarrow> ('b MqttState, SessionRestoreError, Request list) sm" where
  "restore_persisted_session B now options session =
     andThen (lift (validate_persisted_session_signature options session)) (\<lambda>_.
     andThen (validate_persisted_session_packet_ids B session) (\<lambda>_.
     andThen (reset_session_state B now) (\<lambda>_.
     andThen (for_each (restore_incoming B) (ps_incoming_qos2 session)) (\<lambda>_.
     andThen (for_each (restore_request B) (ps_replay session)) (\<lambda>_.
     andThen (try_field outbound_pkid_in_use outbound_pkid_in_use_update (\<lambda>b. bs_set B b 0 False)) (\<lambda>_.
     andThen (gets (\<lambda>self. length (bs_ones B (outbound_pkid_in_use self)))) (\<lambda>count.
     andThen (ok_or (u16_try_from count) (OutgoingPacketIdentifierCountOutOfRange count)) (\<lambda>n.
     andThen (modify (outbound_pkid_count_update (\<lambda>_. n))) (\<lambda>_.
     traverse request_from_persisted_request (ps_replay session))))))))))"

section \<open>What can be restored\<close>

fun prequest_pkid :: "PersistedRequest \<Rightarrow> u16" where
  "prequest_pkid (PersistedReqPublish p) = pp_pkid p"
| "prequest_pkid (PersistedReqPubRel p) = ppr_pkid p"
| "prequest_pkid (PersistedReqSubscribe p) = pss_pkid p"
| "prequest_pkid (PersistedReqUnsubscribe p) = psu_pkid p"

fun replayable_request :: "PersistedRequest \<Rightarrow> bool" where
  "replayable_request (PersistedReqPublish p) \<longleftrightarrow> pp_pkid p \<noteq> 0 \<and> pp_qos p \<noteq> PAtMostOnce"
| "replayable_request r \<longleftrightarrow> prequest_pkid r \<noteq> 0"

fun restored_request :: "PersistedRequest \<Rightarrow> Request" where
  "restored_request (PersistedReqPublish p) = ReqPublish \<lparr>publish_dup = True, publish_qos = qos_from_persisted (pp_qos p),
     publish_retain = pp_retain p, publish_topic = pp_topic p, publish_pkid = pp_pkid p, publish_payload = pp_payload p\<rparr>"
| "restored_request (PersistedReqPubRel p) = ReqPubRel (PubRel_new (ppr_pkid p))"
| "restored_request (PersistedReqSubscribe p) =
     ReqSubscribe \<lparr>subscribe_pkid = pss_pkid p, subscribe_filters = map filter_from_persisted (pss_filters p)\<rparr>"
| "restored_request (PersistedReqUnsubscribe p) =
     ReqUnsubscribe \<lparr>unsubscribe_pkid = psu_pkid p, unsubscribe_topics = psu_topics p\<rparr>"

definition window_use :: "PersistedRequest list \<Rightarrow> nat" where
  "window_use rs = length (filter counts_for_window rs)"

definition restorable :: "MqttOptions \<Rightarrow> u16 \<Rightarrow> PersistedSession \<Rightarrow> bool" where
  "restorable options max_in session \<longleftrightarrow>
     validate_persisted_session_signature options session = Ok ()
     \<and> list_all (\<lambda>i. piq_pkid i \<noteq> 0) (ps_incoming_qos2 session)
     \<and> list_all replayable_request (ps_replay session) \<and> distinct (map prequest_pkid (ps_replay session))
     \<and> window_use (ps_replay session) \<le> unat max_in"

lemma replayable_pkid: "replayable_request r \<Longrightarrow> prequest_pkid r \<noteq> 0"
  by (cases r) auto

lemma run_validate_request:
  "replayable_request r \<Longrightarrow> validate_persisted_replay_request r s = (Ok (prequest_pkid r), s)"
  "\<not> replayable_request r \<Longrightarrow> \<exists>e. validate_persisted_replay_request r s = (Err e, s)"
  by (cases r; auto simp: validate_pkid_def run_simps exec_lift andThen_def)+

lemma run_request_from_persisted:
  "replayable_request r \<Longrightarrow> request_from_persisted_request r s = (Ok (restored_request r), s)"
  by (cases r) (auto simp: validate_pkid_def run_simps)

lemma run_requests_from_persisted:
  "list_all replayable_request rs \<Longrightarrow> traverse request_from_persisted_request rs s = (Ok (map restored_request rs), s)"
  by (induction rs) (simp_all add: run_ret run_request_from_persisted andThen_def)

lemma run_validate_incoming:
  "\<exists>e. for_each (\<lambda>incoming. lift (validate_pkid (piq_pkid incoming))) xs s =
    (if list_all (\<lambda>i. piq_pkid i \<noteq> 0) xs then Ok () else Err e, s)"
  by (induction xs) (auto simp: validate_pkid_def run_ret run_fail exec_lift)

context fixed_bitset begin

lemma run_validate_replay:
  assumes "bs_len B ids = 65536"
  shows "\<exists>e. validate_replay B rs ids n s =
    (if list_all replayable_request rs \<and> distinct (map prequest_pkid rs) \<and> unat ` prequest_pkid ` set rs \<inter> bits B ids = {}
     then Ok (n + window_use rs) else Err e, s)"
  using assms
proof (induction rs arbitrary: ids n)
  case Nil
  then show ?case by (simp add: run_simps window_use_def)
next
  case (Cons r rs)
  let ?k = "unat (prequest_pkid r)"
  show ?case
  proof (cases "replayable_request r \<and> ?k \<notin> bits B ids")
    case True
    then have step: "validate_replay B (r # rs) ids n s
        = validate_replay B rs (bs_with B ids ?k) (if counts_for_window r then n + 1 else n) s"
      using Cons.prems by (simp add: andThen_Ok [OF run_validate_request(1)] exec_option bs_simps)
    have len: "bs_len B (bs_with B ids ?k) = 65536" and ids: "bits B (bs_with B ids ?k) = insert ?k (bits B ids)"
      using Cons.prems by (simp_all add: bs_simps)
    have cond: "list_all replayable_request (r # rs) \<and> distinct (map prequest_pkid (r # rs))
          \<and> unat ` prequest_pkid ` set (r # rs) \<inter> bits B ids = {} \<longleftrightarrow>
        list_all replayable_request rs \<and> distinct (map prequest_pkid rs)
          \<and> unat ` prequest_pkid ` set rs \<inter> insert ?k (bits B ids) = {}"
      using True by (auto simp: word_unat_eq_iff [symmetric])
    have count: "n + window_use (r # rs) = (if counts_for_window r then n + 1 else n) + window_use rs"
      by (simp add: window_use_def)
    show ?thesis
      unfolding step cond count using Cons.IH [OF len, unfolded ids] .
  next
    case False
    then show ?thesis
      using run_validate_request(2) [of r s]
      by (cases "replayable_request r") (auto simp: andThen_Ok [OF run_validate_request(1)] andThen_Err bs_simps run_simps)
  qed
qed

lemma run_validate_session:
  "\<exists>e. andThen (lift (validate_persisted_session_signature options session))
      (\<lambda>_. validate_persisted_session_packet_ids B session) s =
    (if restorable options (max_inflight s) session then Ok () else Err e, s)"
proof (cases "validate_persisted_session_signature options session")
  case (Ok u)
  obtain e1 where incoming: "for_each (\<lambda>incoming. lift (validate_pkid (piq_pkid incoming))) (ps_incoming_qos2 session) s =
      (if list_all (\<lambda>i. piq_pkid i \<noteq> 0) (ps_incoming_qos2 session) then Ok () else Err e1, s)"
    by (rule exE [OF run_validate_incoming])
  obtain e2 where replay: "validate_replay B (ps_replay session) (bs_with_capacity B full_packet_identifier_len) 0 s =
      (if list_all replayable_request (ps_replay session) \<and> distinct (map prequest_pkid (ps_replay session))
       then Ok (0 + window_use (ps_replay session)) else Err e2, s)"
    by (rule exE [OF run_validate_replay [of "bs_with_capacity B full_packet_identifier_len" "ps_replay session" 0 s]])
      (simp_all add: bits_with_capacity with_capacity full_packet_identifier_len_def)
  show ?thesis
    using Ok by (auto simp: restorable_def validate_persisted_session_packet_ids_def andThen_def incoming replay run_simps)
next
  case (Err e)
  then show ?thesis by (auto simp: restorable_def exec_lift run_simps)
next
  case Panic
  then show ?thesis by (simp add: validate_persisted_session_signature_def split: if_splits)
qed


end

section \<open>Restoring the tracking\<close>

definition recount :: "'b bitset_ops \<Rightarrow> 'b MqttState \<Rightarrow> 'b MqttState" where
  "recount B s = s\<lparr>outbound_pkid_count := word_of_nat (card (bits B (outbound_pkid_in_use s)))\<rparr>"

fun replay_owner :: "PersistedRequest \<Rightarrow> nat set" where
  "replay_owner (PersistedReqPubRel p) = {}"
| "replay_owner r = {unat (prequest_pkid r)}"

definition with_incoming :: "'b bitset_ops \<Rightarrow> PersistedIncomingQos2 list \<Rightarrow> 'b MqttState \<Rightarrow> 'b MqttState" where
  "with_incoming B xs s = s\<lparr>incoming_pub := bs_with_all B (map piq_pkid xs) (incoming_pub s),
     incoming_pubrec := bs_with_all B (map piq_pkid xs) (incoming_pubrec s)\<rparr>"

fun with_owner :: "'b bitset_ops \<Rightarrow> PersistedRequest \<Rightarrow> 'b MqttState \<Rightarrow> 'b MqttState" where
  "with_owner B (PersistedReqPublish p) s = ensure_outgoing_tracking_capacity B (unat (pp_pkid p) + 1) s"
| "with_owner B (PersistedReqPubRel p) s =
     (let t = ensure_outgoing_tracking_capacity B (unat (ppr_pkid p) + 1) s in
      t\<lparr>outgoing_rel_replay := bs_with B (outgoing_rel_replay t) (unat (ppr_pkid p)),
        outgoing_rel_replay_order := outgoing_rel_replay_order t @ [ppr_pkid p]\<rparr>)"
| "with_owner B _ s = s"

definition with_request :: "'b bitset_ops \<Rightarrow> PersistedRequest \<Rightarrow> 'b MqttState \<Rightarrow> 'b MqttState" where
  "with_request B r s = (let t = with_owner B r s in
     t\<lparr>outbound_pkid_in_use := bs_with B (outbound_pkid_in_use t) (unat (prequest_pkid r))\<rparr>)"

context fixed_bitset begin

lemma run_restore_one:
  assumes "bs_len B (incoming_pub s) = 65536" "bs_len B (incoming_pubrec s) = 65536"
  shows "restore_incoming B x s = (Ok (), with_incoming B [x] s)"
  using assms by (simp add: restore_incoming_def exec_rules bs_simps with_incoming_def bs_with_all_def)

lemma run_restore_incoming:
  assumes "bs_len B (incoming_pub s) = 65536" "bs_len B (incoming_pubrec s) = 65536"
  shows "for_each (restore_incoming B) xs s = (Ok (), with_incoming B xs s)"
  using assms
proof (induction xs arbitrary: s)
  case Nil
  then show ?case by (simp add: run_simps with_incoming_def bs_with_all_def)
next
  case (Cons x xs)
  have "with_incoming B xs (with_incoming B [x] s) = with_incoming B (x # xs) s"
    by (simp add: with_incoming_def bs_with_all_def)
  moreover have "bs_len B (incoming_pub (with_incoming B [x] s)) = 65536"
      "bs_len B (incoming_pubrec (with_incoming B [x] s)) = 65536"
    using Cons.prems by (simp_all add: with_incoming_def bs_with_all_def bs_simps)
  ultimately show ?case
    using Cons.IH [of "with_incoming B [x] s"] by (simp add: andThen_def run_restore_one [OF Cons.prems])
qed

lemma ensure_capacity_size:
  assumes "sizes_inv B s" "n \<le> 65536"
  shows "n \<le> bs_len B (outgoing_rel_replay (ensure_outgoing_tracking_capacity B n s))"
    and "outbound_pkid_in_use (ensure_outgoing_tracking_capacity B n s) = outbound_pkid_in_use s"
    and "outbound_pkid_count_update f (ensure_outgoing_tracking_capacity B n s)
      = ensure_outgoing_tracking_capacity B n (outbound_pkid_count_update f s)"
  using assms unfolding ensure_capacity_fields [OF assms]
  by (simp_all add: sizes_inv_def bs_simps ensure_outgoing_tracking_capacity_def Let_def)

lemma run_restore_request:
  assumes "sizes_inv B s"
  shows "restore_request B r s = (Ok (), with_request B r s)"
proof -
  have cap: "unat k + 1 \<le> 65536" for k :: u16
    using unat_u16_bounds [of k] by linarith
  show ?thesis
    using assms ensure_capacity_size [OF assms cap]
    by (cases r) (simp_all add: restore_request_def with_request_def Let_def exec_rules bs_simps sizes_inv_def Suc_le_eq)
qed


lemma card_ids:
  assumes "bs_len B b = 65536" "0 \<notin> bits B b"
  shows "unat (word_of_nat (card (bits B b)) :: u16) = card (bits B b)"
proof -
  have "bits B b \<subseteq> {1..<65536}"
    using bits_bound [of _ b] assms by (auto simp: Suc_le_eq intro: gr0I)
  then have "card (bits B b) \<le> card {1..<65536::nat}"
    by (intro card_mono) simp_all
  then show ?thesis
    by (intro unat_u16_of_nat) simp
qed

lemma exclusive_claim:
  assumes "exclusive P R RR S U Q I" "k \<notin> I"
  shows "exclusive P R RR S U (insert k Q) (insert k I)" "exclusive P R (insert k RR) S U Q (insert k I)"
  using exclusive_owner(7) [OF assms] by (intro exclusive_update [OF assms(1), of k]; simp)+

lemma claimed:
  fixes k :: u16
  assumes "state_inv B Q (recount B s)" "k \<noteq> 0"
  defines "b \<equiv> bs_with B (outbound_pkid_in_use s) (unat k)"
  shows "bs_len B b = 65536" "bits B b = insert (unat k) (bits B (outbound_pkid_in_use s))"
    "0 \<notin> bits B b" "unat (word_of_nat (card (bits B b)) :: u16) = card (bits B b)"
proof -
  have len: "bs_len B (outbound_pkid_in_use s) = 65536" and zero: "0 \<notin> bits B (outbound_pkid_in_use s)"
    using state_invD(1,2) [OF assms(1)] by (simp_all add: recount_def sizes_inv_def owners_inv_def)
  show new: "bs_len B b = 65536" "bits B b = insert (unat k) (bits B (outbound_pkid_in_use s))"
    using len by (simp_all add: b_def bs_simps)
  show "0 \<notin> bits B b"
    unfolding new using zero assms(2) by (metis insert_iff unat_eq_0)
  with new(1) show "unat (word_of_nat (card (bits B b)) :: u16) = card (bits B b)"
    by (rule card_ids)
qed

lemma claim_id_inv:
  fixes k :: u16
  assumes "state_inv B Q (recount B s)" "unat k \<notin> bits B (outbound_pkid_in_use s)" "k \<noteq> 0"
  shows "state_inv B (insert (unat k) Q)
    (recount B (s\<lparr>outbound_pkid_in_use := bs_with B (outbound_pkid_in_use s) (unat k)\<rparr>))"
proof -
  note inv = state_invD [OF assms(1)] and new = claimed [OF assms(1,3)]
  show ?thesis
  proof (rule state_invI, goal_cases)
    case 2
    then show ?case
      using inv(2) new(3,4) exclusive_claim(1) [of _ _ _ _ _ _ "bits B (outbound_pkid_in_use s)" "unat k"] assms(2)
      by (simp add: owners_inv_def recount_def new(2))
  qed (use inv new(1) in \<open>simp_all add: inv_defs recount_def cong: option.case_cong\<close>)
qed

lemma claim_replay_inv:
  fixes k :: u16
  assumes "state_inv B Q (recount B s)" "unat k \<notin> bits B (outbound_pkid_in_use s)" "k \<noteq> 0"
    "unat k < length (outgoing_pub s)"
  shows "state_inv B Q (recount B (s\<lparr>outgoing_rel_replay := bs_with B (outgoing_rel_replay s) (unat k),
      outgoing_rel_replay_order := outgoing_rel_replay_order s @ [k],
      outbound_pkid_in_use := bs_with B (outbound_pkid_in_use s) (unat k)\<rparr>))"
proof -
  note inv = state_invD [OF assms(1)] and new = claimed [OF assms(1,3)]
  have rel: "bs_len B (bs_with B (outgoing_rel_replay s) (unat k)) = length (outgoing_pub s)"
      "bits B (bs_with B (outgoing_rel_replay s) (unat k)) = insert (unat k) (bits B (outgoing_rel_replay s))"
    using inv(1) assms(4) by (simp_all add: bs_simps recount_def sizes_inv_def)
  have "unat k \<notin> bits B (outgoing_rel_replay s)"
    using inv(2) assms(2) exclusive_owner(3) by (fastforce simp: owners_inv_def recount_def)
  then have order: "order_inv (outgoing_rel_replay_order s @ [k]) (insert (unat k) (bits B (outgoing_rel_replay s)))"
    using inv(4) by (intro order_inv_append) (simp_all add: orders_inv_def recount_def)
  show ?thesis
  proof (rule state_invI, goal_cases)
    case 2
    then show ?case
      using inv(2) new(3,4) exclusive_claim(2) [of _ _ _ _ _ _ "bits B (outbound_pkid_in_use s)" "unat k"] assms(2)
      by (simp add: owners_inv_def recount_def new(2) rel)
  next
    case 4
    then show ?case
      using inv(4) order by (simp add: orders_inv_def recount_def rel)
  qed (use inv new(1) rel in \<open>simp_all add: inv_defs recount_def cong: option.case_cong\<close>)
qed

lemma ensured_inv:
  fixes k :: u16
  assumes "state_inv B Q (recount B s)"
  defines "t \<equiv> ensure_outgoing_tracking_capacity B (unat k + 1) s"
  shows "state_inv B Q (recount B t)" "outbound_pkid_in_use t = outbound_pkid_in_use s" "unat k < length (outgoing_pub t)"
proof -
  have cap: "unat k + 1 \<le> 65536"
    using unat_u16_bounds [of k] by linarith
  have sizes: "sizes_inv B s"
    using state_invD(1) [OF assms(1)] by (simp add: sizes_inv_def recount_def)
  note fields = ensure_capacity_size [OF sizes cap]
  show same: "outbound_pkid_in_use t = outbound_pkid_in_use s"
    by (simp only: t_def fields)
  have "recount B t = ensure_outgoing_tracking_capacity B (unat k + 1) (recount B s)"
    unfolding recount_def same by (simp only: t_def fields)
  then show inv: "state_inv B Q (recount B t)"
    using ensure_capacity_inv [OF assms(1) cap] by simp
  have "bs_len B (outgoing_rel_replay t) = length (outgoing_pub t)"
    using state_invD(1) [OF inv] by (simp add: sizes_inv_def recount_def)
  then show "unat k < length (outgoing_pub t)"
    using fields(1) by (simp add: t_def)
qed

lemma with_request_inv:
  assumes "state_inv B Q (recount B s)" "unat (prequest_pkid r) \<notin> bits B (outbound_pkid_in_use s)" "prequest_pkid r \<noteq> 0"
  shows "state_inv B (Q \<union> replay_owner r) (recount B (with_request B r s))"
    and "bits B (outbound_pkid_in_use (with_request B r s)) = insert (unat (prequest_pkid r)) (bits B (outbound_pkid_in_use s))"
proof -
  note ens = ensured_inv [OF assms(1), where k = "prequest_pkid r"] and new = claimed(2) [OF assms(1,3)]
  show "state_inv B (Q \<union> replay_owner r) (recount B (with_request B r s))"
    using claim_id_inv [OF assms] claim_id_inv [OF ens(1) _ assms(3)] claim_replay_inv [OF ens(1) _ assms(3) ens(3)] ens(2) assms(2)
    by (cases r) (simp_all add: with_request_def Let_def)
  show "bits B (outbound_pkid_in_use (with_request B r s)) = insert (unat (prequest_pkid r)) (bits B (outbound_pkid_in_use s))"
    using new ens(2) by (cases r) (simp_all add: with_request_def Let_def)
qed

lemma run_restore_requests:
  assumes "state_inv B Q (recount B s)" "list_all replayable_request rs" "distinct (map prequest_pkid rs)"
    "unat ` prequest_pkid ` set rs \<inter> bits B (outbound_pkid_in_use s) = {}"
  shows "for_each (restore_request B) rs s = (Ok (), fold (with_request B) rs s)
    \<and> state_inv B (Q \<union> (\<Union>r \<in> set rs. replay_owner r)) (recount B (fold (with_request B) rs s))"
  using assms
proof (induction rs arbitrary: Q s)
  case Nil
  then show ?case by (simp add: run_simps)
next
  case (Cons r rs)
  have "unat (prequest_pkid r) \<notin> bits B (outbound_pkid_in_use s)" "prequest_pkid r \<noteq> 0"
    using Cons.prems by (auto dest: replayable_pkid)
  note step = with_request_inv [OF Cons.prems(1) this]
  have sizes: "sizes_inv B s"
    using state_invD(1) [OF Cons.prems(1)] by (simp add: sizes_inv_def recount_def)
  have "unat ` prequest_pkid ` set rs \<inter> bits B (outbound_pkid_in_use (with_request B r s)) = {}"
    using Cons.prems(3,4) unfolding step(2) by (auto simp: word_unat_eq_iff [symmetric])
  with Cons.IH [OF step(1)] Cons.prems show ?case
    by (simp add: andThen_def run_restore_request [OF sizes] Un_assoc)
qed


lemma with_request_fields [simp]:
  "incoming_pub (with_request B r s) = incoming_pub s" "incoming_pubrec (with_request B r s) = incoming_pubrec s"
  "inflight (with_request B r s) = inflight s" "max_inflight (with_request B r s) = max_inflight s"
  "ack_mode (with_request B r s) = ack_mode s" "notices_sent (with_request B r s) = notices_sent s"
  by (cases r; simp add: with_request_def ensure_outgoing_tracking_capacity_def Let_def)+

lemma with_requests_fields:
  "incoming_pub (fold (with_request B) rs s) = incoming_pub s" "incoming_pubrec (fold (with_request B) rs s) = incoming_pubrec s"
  "inflight (fold (with_request B) rs s) = inflight s" "max_inflight (fold (with_request B) rs s) = max_inflight s"
  "ack_mode (fold (with_request B) rs s) = ack_mode s" "notices_sent (fold (with_request B) rs s) = notices_sent s"
  by (induction rs arbitrary: s) simp_all

text \<open>The state after a restore: a new state with the owners of the session's requests.\<close>

definition fresh_state :: "nat \<Rightarrow> PersistedSession \<Rightarrow> 'b MqttState \<Rightarrow> 'b MqttState" where
  "fresh_state now session s = with_incoming B (ps_incoming_qos2 session)
     ((new_internal B now (max_inflight s) (ack_mode s))\<lparr>notices_sent := notices_sent s @ reset_notices s\<rparr>)"

definition restored_state :: "nat \<Rightarrow> PersistedSession \<Rightarrow> 'b MqttState \<Rightarrow> 'b MqttState" where
  "restored_state now session s = (let t = fold (with_request B) (ps_replay session) (fresh_state now session s) in
     recount B (t\<lparr>outbound_pkid_in_use := bs_without B (outbound_pkid_in_use t) 0\<rparr>))"

lemma fresh_state_inv: "state_inv B {} (recount B (fresh_state now session s))"
    and fresh_ids: "bits B (outbound_pkid_in_use (fresh_state now session s)) = {}"
proof -
  have incoming: "unat ` set (map piq_pkid (ps_incoming_qos2 session)) \<subseteq> {..<65536}"
    by auto
  note new = new_internal_inv [of now "max_inflight s" "ack_mode s"]
  show "bits B (outbound_pkid_in_use (fresh_state now session s)) = {}"
    by (simp add: fresh_state_def with_incoming_def new_internal_def Let_def bits_with_capacity)
  have "recount B (fresh_state now session s) = fresh_state now session s"
    by (simp add: recount_def fresh_state_def with_incoming_def new_internal_def Let_def bits_with_capacity)
  moreover have "state_inv B {} (fresh_state now session s)"
    using state_invD [OF new] bs_with_all_simps [of "map piq_pkid (ps_incoming_qos2 session)"] incoming
    unfolding fresh_state_def
    by (intro state_invI) (auto simp: inv_defs with_incoming_def cong: option.case_cong)
  ultimately show "state_inv B {} (recount B (fresh_state now session s))"
    by simp
qed


lemma with_requests_ids:
  assumes "state_inv B Q (recount B s)" "list_all replayable_request rs" "distinct (map prequest_pkid rs)"
    "unat ` prequest_pkid ` set rs \<inter> bits B (outbound_pkid_in_use s) = {}"
  shows "bits B (outbound_pkid_in_use (fold (with_request B) rs s))
    = unat ` prequest_pkid ` set rs \<union> bits B (outbound_pkid_in_use s)"
  using assms
proof (induction rs arbitrary: Q s)
  case (Cons r rs)
  have "unat (prequest_pkid r) \<notin> bits B (outbound_pkid_in_use s)" "prequest_pkid r \<noteq> 0"
    using Cons.prems by (auto dest: replayable_pkid)
  note step = with_request_inv [OF Cons.prems(1) this]
  have "unat ` prequest_pkid ` set rs \<inter> bits B (outbound_pkid_in_use (with_request B r s)) = {}"
    using Cons.prems(3,4) unfolding step(2) by (auto simp: word_unat_eq_iff [symmetric])
  with Cons.IH [OF step(1)] Cons.prems show ?case
    by (simp add: step(2))
qed simp

lemma cleared_zero_inv:
  assumes "state_inv B Q (recount B t)"
  defines "u \<equiv> t\<lparr>outbound_pkid_in_use := bs_without B (outbound_pkid_in_use t) 0\<rparr>"
  shows "state_inv B Q (recount B u)" "bits B (outbound_pkid_in_use u) = bits B (outbound_pkid_in_use t)"
    "bs_len B (outbound_pkid_in_use t) = 65536" "card (bits B (outbound_pkid_in_use t)) < 65536"
proof -
  note inv = state_invD [OF assms(1)]
  show len: "bs_len B (outbound_pkid_in_use t) = 65536"
    using inv(1) by (simp add: sizes_inv_def recount_def)
  have zero: "0 \<notin> bits B (outbound_pkid_in_use t)"
    using inv(2) by (simp add: owners_inv_def recount_def)
  then show same: "bits B (outbound_pkid_in_use u) = bits B (outbound_pkid_in_use t)"
    using len by (simp add: u_def bs_simps)
  show "card (bits B (outbound_pkid_in_use t)) < 65536"
    using card_ids [OF len zero] unat_u16_bound [of "word_of_nat (card (bits B (outbound_pkid_in_use t)))"] by linarith
  show "state_inv B Q (recount B u)"
    using inv same len unfolding u_def
    by (intro state_invI) (simp_all add: inv_defs recount_def bs_simps cong: option.case_cong)
qed

lemma run_restore:
  assumes "state_inv B Q s"
  shows "restorable options (max_inflight s) session \<Longrightarrow>
      restore_persisted_session B now options session s
        = (Ok (map restored_request (ps_replay session)), restored_state now session s)"
    and "restorable options (max_inflight s) session \<Longrightarrow>
      state_inv B (\<Union>r \<in> set (ps_replay session). replay_owner r) (restored_state now session s)"
    and "restorable options (max_inflight s) session \<Longrightarrow>
      bits B (outbound_pkid_in_use (restored_state now session s)) = unat ` prequest_pkid ` set (ps_replay session)"
    and "\<not> restorable options (max_inflight s) session \<Longrightarrow>
      \<exists>e. restore_persisted_session B now options session s = (Err e, s)"
proof -
  define check where "check = andThen (lift (validate_persisted_session_signature options session))
      (\<lambda>_. validate_persisted_session_packet_ids B session)"
  obtain e where valid: "check s = (if restorable options (max_inflight s) session then Ok () else Err e, s)"
    unfolding check_def by (rule exE [OF run_validate_session])
  define count :: "unit \<Rightarrow> ('b MqttState, SessionRestoreError, Request list) sm" where "count = (\<lambda>_.
     andThen (try_field outbound_pkid_in_use outbound_pkid_in_use_update (\<lambda>b. bs_set B b 0 False)) (\<lambda>_.
     andThen (gets (\<lambda>self. length (bs_ones B (outbound_pkid_in_use self)))) (\<lambda>count.
     andThen (ok_or (u16_try_from count) (OutgoingPacketIdentifierCountOutOfRange count)) (\<lambda>n.
     andThen (modify (outbound_pkid_count_update (\<lambda>_. n))) (\<lambda>_.
     traverse request_from_persisted_request (ps_replay session))))))"
  define rest where "rest = (\<lambda>_::unit.
     andThen (reset_session_state B now) (\<lambda>_.
     andThen (for_each (restore_incoming B) (ps_incoming_qos2 session)) (\<lambda>_.
     andThen (for_each (restore_request B) (ps_replay session)) count)))"
  have split: "restore_persisted_session B now options session s = andThen check rest s"
    by (simp add: restore_persisted_session_def check_def rest_def count_def andThen_assoc)
  show "\<exists>e. restore_persisted_session B now options session s = (Err e, s)"
    if "\<not> restorable options (max_inflight s) session"
    using that by (auto simp: split andThen_def valid)
  assume ok: "restorable options (max_inflight s) session"
  let ?f = "fresh_state now session s"
  let ?t = "fold (with_request B) (ps_replay session) ?f"
  have replay: "list_all replayable_request (ps_replay session)" "distinct (map prequest_pkid (ps_replay session))"
    using ok by (simp_all add: restorable_def)
  have free: "unat ` prequest_pkid ` set (ps_replay session) \<inter> bits B (outbound_pkid_in_use ?f) = {}"
    by (simp add: fresh_ids)
  note requests = run_restore_requests [OF fresh_state_inv replay free]
  note inv = requests [THEN conjunct2]
  note final = cleared_zero_inv [OF inv]
  show "state_inv B (\<Union>r \<in> set (ps_replay session). replay_owner r) (restored_state now session s)"
    using final(1) by (simp add: restored_state_def Let_def)
  show "bits B (outbound_pkid_in_use (restored_state now session s)) = unat ` prequest_pkid ` set (ps_replay session)"
    using final(2) with_requests_ids [OF fresh_state_inv replay free] fresh_ids
    by (simp add: restored_state_def Let_def recount_def)
  have incoming: "for_each (restore_incoming B) (ps_incoming_qos2 session)
      ((new_internal B now (max_inflight s) (ack_mode s))\<lparr>notices_sent := notices_sent s @ reset_notices s\<rparr>)
      = (Ok () :: (SessionRestoreError, unit) outcome, ?f)"
    unfolding fresh_state_def
    by (rule run_restore_incoming) (simp_all add: new_internal_def Let_def with_capacity)
  have "rest () s = count () ?t"
    by (simp add: rest_def andThen_def run_reset [OF assms] incoming requests)
  also have "\<dots> = (Ok (map restored_request (ps_replay session)), restored_state now session s)"
    using final(2-4)
    by (simp add: count_def exec_rules bs_simps length_ones u16_try_from_def run_requests_from_persisted [OF replay(1)]
        restored_state_def Let_def recount_def)
  finally have "rest () s = (Ok (map restored_request (ps_replay session)), restored_state now session s)" .
  then show "restore_persisted_session B now options session s
      = (Ok (map restored_request (ps_replay session)), restored_state now session s)"
    using ok by (simp add: split andThen_def valid)
qed


end

section \<open>What is saved\<close>

text \<open>The requests that \<open>clean\<close> would hand back for a replay: everything but the held publish.\<close>

definition tracked_requests :: "'b MqttState \<Rightarrow> Request list" where
  "tracked_requests s = map clean_request
     (map (cleaned_publish s) (outgoing_pub_order s) @ map (cleaned_pubrel s) (outgoing_rel_order s)
      @ map cleaned_subscribe (pending_subscribe s) @ map cleaned_unsubscribe (pending_unsubscribe s))"

definition persistable :: "Request \<Rightarrow> bool" where
  "persistable r \<longleftrightarrow> persisted_request_from_request r \<noteq> None"

lemma map_filter_append: "List.map_filter f (xs @ ys) = List.map_filter f xs @ List.map_filter f ys"
  by (simp add: List.map_filter_def)

lemma qos_inverse: "qos_from_persisted (persisted_qos q) = q"
  by (cases q) simp_all

lemma filter_inverse: "filter_from_persisted (persisted_filter f) = f"
  by (simp add: filter_from_persisted_def persisted_filter_def qos_inverse)

lemma restored_inverse:
  assumes "persisted_request_from_request r = Some p" "\<And>q. r = ReqPublish q \<Longrightarrow> publish_dup q"
  shows "restored_request p = r"
  using assms
  by (cases r) (auto simp: persisted_publish_def persisted_subscribe_def persisted_unsubscribe_def qos_inverse
      filter_inverse PubRel_new_def o_def split: if_splits)

lemma restored_saved:
  assumes "\<And>q. ReqPublish q \<in> set rs \<Longrightarrow> publish_dup q"
  shows "map restored_request (List.map_filter persisted_request_from_request rs) = filter persistable rs"
  using assms
proof (induction rs)
  case (Cons r rs)
  then show ?case
    using restored_inverse [of r]
    by (cases "persisted_request_from_request r") (auto simp: map_filter_simps persistable_def)
qed (simp add: map_filter_simps)

lemma tracked_dup: "ReqPublish q \<in> set (tracked_requests s) \<Longrightarrow> publish_dup q"
  by (auto simp: tracked_requests_def cleaned_publish_def cleaned_pubrel_def)

fun request_id :: "Request \<Rightarrow> u16" where
  "request_id (ReqPublish p) = publish_pkid p"
| "request_id (ReqPubRel p) = pubrel_pkid p"
| "request_id (ReqSubscribe p) = subscribe_pkid p"
| "request_id (ReqUnsubscribe p) = unsubscribe_pkid p"
| "request_id _ = 0"

definition saved :: "Request list \<Rightarrow> PersistedRequest list" where
  "saved rs = List.map_filter persisted_request_from_request rs"

lemma persisted_id: "persisted_request_from_request r = Some p \<Longrightarrow> prequest_pkid p = request_id r"
  by (cases r) (auto simp: persisted_publish_def persisted_subscribe_def persisted_unsubscribe_def split: if_splits)

lemma persisted_replayable:
  "persisted_request_from_request r = Some p \<Longrightarrow> request_id r \<noteq> 0 \<Longrightarrow> replayable_request p"
  by (cases r; cases "publish_qos (case r of ReqPublish q \<Rightarrow> q)")
    (auto simp: persisted_publish_def persisted_subscribe_def persisted_unsubscribe_def split: if_splits)

lemma saved_simps:
  "saved [] = []" "saved (r # rs) = (case persisted_request_from_request r of Some p \<Rightarrow> p # saved rs | None \<Rightarrow> saved rs)"
  "saved (xs @ ys) = saved xs @ saved ys"
  by (simp_all add: saved_def map_filter_simps map_filter_append split: option.splits)

lemma saved_ids: "map prequest_pkid (saved rs) = map request_id (filter persistable rs)"
  by (induction rs) (auto simp: saved_simps persistable_def persisted_id split: option.splits)

lemma saved_replayable: "0 \<notin> request_id ` set rs \<Longrightarrow> list_all replayable_request (saved rs)"
  by (induction rs) (auto simp: saved_simps persisted_replayable split: option.splits)

fun uses_window :: "Request \<Rightarrow> bool" where
  "uses_window (ReqPublish _) = True"
| "uses_window (ReqPubRel _) = True"
| "uses_window _ = False"

lemma persisted_window: "persisted_request_from_request r = Some p \<Longrightarrow> counts_for_window p = uses_window r"
  by (cases r) (auto split: if_splits)

lemma saved_window_use: "window_use (saved rs) = length (filter uses_window (filter persistable rs))"
  by (induction rs) (auto simp: saved_simps window_use_def persistable_def persisted_window split: option.splits)

definition tracked_ids :: "'b MqttState \<Rightarrow> u16 list" where
  "tracked_ids s = outgoing_pub_order s @ outgoing_rel_order s @ map fst (pending_subscribe s) @ map fst (pending_unsubscribe s)"

context fixed_bitset begin

lemma order_slot:
  assumes "state_inv B Q s" "k \<in> set (outgoing_pub_order s)"
  obtains p where "unat k < length (outgoing_pub s)" "outgoing_pub s ! unat k = Some p" "publish_pkid p = k" "publish_qos p \<noteq> AtMostOnce"
proof -
  have "unat k \<in> occupied (outgoing_pub s)"
    using state_invD(4) [OF assms(1)] assms(2) by (auto simp: orders_inv_def order_inv_def)
  then obtain p where p: "unat k < length (outgoing_pub s)" "outgoing_pub s ! unat k = Some p"
    using occupied_bound occupied_nth by blast
  moreover have "unat (publish_pkid p) = unat k \<and> publish_qos p \<noteq> AtMostOnce"
    using state_invD(5) [OF assms(1)] stored_okD [OF _ p] by (simp add: slots_inv_def)
  ultimately show ?thesis
    using that by (simp add: word_unat_eq_iff [symmetric])
qed

lemma tracked_request_ids:
  assumes "state_inv B Q s"
  shows "map request_id (tracked_requests s) = tracked_ids s"
proof -
  have "request_id (clean_request (cleaned_publish s k)) = k" if "k \<in> set (outgoing_pub_order s)" for k
    by (rule order_slot [OF assms that]) (simp add: cleaned_publish_def)
  then have "map (request_id \<circ> clean_request \<circ> cleaned_publish s) (outgoing_pub_order s) = outgoing_pub_order s"
    by (simp add: map_idI)
  moreover have "map (request_id \<circ> clean_request \<circ> cleaned_pubrel s) (outgoing_rel_order s) = outgoing_rel_order s"
    by (simp add: map_idI cleaned_pubrel_def PubRel_new_def)
  moreover have "map (request_id \<circ> clean_request \<circ> cleaned_subscribe) (pending_subscribe s) = map fst (pending_subscribe s)"
    "map (request_id \<circ> clean_request \<circ> cleaned_unsubscribe) (pending_unsubscribe s) = map fst (pending_unsubscribe s)"
    by auto
  ultimately show ?thesis
    by (simp add: tracked_requests_def tracked_ids_def comp_assoc)
qed

lemma tracked_ids_distinct:
  assumes "state_inv B Q s"
  shows "distinct (tracked_ids s)" "unat ` set (tracked_ids s) \<subseteq> bits B (outbound_pkid_in_use s) - (Q \<union> bits B (outgoing_rel_replay s))"
    "0 \<notin> set (tracked_ids s)"
proof -
  note inv = state_invD [OF assms]
  note owner = exclusive_owner [OF inv(2) [unfolded owners_inv_def, THEN conjunct1]]
  have orders: "distinct (outgoing_pub_order s)" "distinct (outgoing_rel_order s)"
      "unat ` set (outgoing_pub_order s) = occupied (outgoing_pub s)" "unat ` set (outgoing_rel_order s) = bits B (outgoing_rel s)"
    using inv(4) by (simp_all add: orders_inv_def order_inv_def)
  have "distinct (map fst (pending_subscribe s))" "distinct (map fst (pending_unsubscribe s))"
    using inv(7) by (auto simp: pending_inv_def btree_ordered_def strict_sorted_iff)
  moreover have "unat k \<notin> unat ` set (outgoing_rel_order s) \<and> unat k \<notin> subscribe_ids s \<and> unat k \<notin> unsubscribe_ids s"
    if "k \<in> set (outgoing_pub_order s)" for k
    using owner(1) [of "unat k"] that orders(3) by (metis imageI orders(4))
  moreover have "unat k \<notin> subscribe_ids s \<and> unat k \<notin> unsubscribe_ids s" if "k \<in> set (outgoing_rel_order s)" for k
    using owner(2) [of "unat k"] that orders(4) by blast
  moreover have "unat k \<notin> unsubscribe_ids s" if "k \<in> fst ` set (pending_subscribe s)" for k
    using owner(4) [of "unat k"] that by blast
  ultimately show "distinct (tracked_ids s)"
    using orders(1,2) by (auto simp: tracked_ids_def)
  have "i \<in> bits B (outbound_pkid_in_use s) - (Q \<union> bits B (outgoing_rel_replay s))"
    if "i \<in> occupied (outgoing_pub s) \<union> bits B (outgoing_rel s) \<union> subscribe_ids s \<union> unsubscribe_ids s" for i
    using that owner(1,2,4,5) [of i] by blast
  then show used: "unat ` set (tracked_ids s) \<subseteq> bits B (outbound_pkid_in_use s) - (Q \<union> bits B (outgoing_rel_replay s))"
    using orders(3,4) by (simp add: tracked_ids_def image_Un) blast
  show "0 \<notin> set (tracked_ids s)"
    using used inv(2) by (auto simp: owners_inv_def dest: subsetD)
qed


lemma run_persisted_slots:
  assumes "\<And>k. k \<in> set order \<Longrightarrow> unat k < length (outgoing_pub s)"
  shows "traverse persisted_publish_slot order s =
    (Ok (map (\<lambda>k. case Option.bind (outgoing_pub s ! unat k) persisted_publish of
        Some p \<Rightarrow> [PersistedReqPublish p] | None \<Rightarrow> []) order), s)"
  using assms by (induction order) (simp_all add: persisted_publish_slot_def run_simps exec_rules andThen_def)

lemma saved_publishes:
  assumes "state_inv B Q s" "set order \<subseteq> set (outgoing_pub_order s)"
  shows "concat (map (\<lambda>k. case Option.bind (outgoing_pub s ! unat k) persisted_publish of
        Some p \<Rightarrow> [PersistedReqPublish p] | None \<Rightarrow> []) order) = saved (map (clean_request \<circ> cleaned_publish s) order)"
  using assms(2)
proof (induction order)
  case (Cons k order)
  then obtain p where p: "outgoing_pub s ! unat k = Some p"
    by (meson order_slot [OF assms(1)] list.set_intros(1) subsetD)
  moreover have "persisted_publish (p\<lparr>publish_dup := True\<rparr>) = persisted_publish p"
    by (simp add: persisted_publish_def)
  ultimately show ?case
    using Cons by (simp add: saved_simps cleaned_publish_def split: option.splits)
qed (simp add: saved_simps)

lemma saved_controls:
  assumes "state_inv B Q s"
  shows "map (\<lambda>pkid. PersistedReqPubRel \<lparr>ppr_pkid = pkid\<rparr>) order = saved (map (clean_request \<circ> cleaned_pubrel s) order)"
    "map (\<lambda>(_, pending). PersistedReqSubscribe (persisted_subscribe (psub_subscribe pending))) (pending_subscribe s)
      = saved (map (clean_request \<circ> cleaned_subscribe) (pending_subscribe s))"
    "map (\<lambda>(_, pending). PersistedReqUnsubscribe (persisted_unsubscribe (punsub_unsubscribe pending))) (pending_unsubscribe s)
      = saved (map (clean_request \<circ> cleaned_unsubscribe) (pending_unsubscribe s))"
proof -
  show "map (\<lambda>pkid. PersistedReqPubRel \<lparr>ppr_pkid = pkid\<rparr>) order = saved (map (clean_request \<circ> cleaned_pubrel s) order)"
    by (induction order) (simp_all add: saved_simps cleaned_pubrel_def PubRel_new_def)
  have "0 \<notin> fst ` set (pending_subscribe s)" "0 \<notin> fst ` set (pending_unsubscribe s)"
    using tracked_ids_distinct(3) [OF assms] by (auto simp: tracked_ids_def)
  moreover have "\<forall>(k, p) \<in> set (pending_subscribe s). subscribe_pkid (psub_subscribe p) = k"
      "\<forall>(k, p) \<in> set (pending_unsubscribe s). unsubscribe_pkid (punsub_unsubscribe p) = k"
    using state_invD(7) [OF assms] by (simp_all add: pending_inv_def)
  moreover have "map (\<lambda>(_, pending). PersistedReqSubscribe (persisted_subscribe (psub_subscribe pending))) m
      = saved (map (clean_request \<circ> cleaned_subscribe) m)"
    if "0 \<notin> fst ` set m" "\<forall>(k, p) \<in> set m. subscribe_pkid (psub_subscribe p) = k" for m
    using that by (induction m) (auto simp: saved_simps persisted_subscribe_def)
  moreover have "map (\<lambda>(_, pending). PersistedReqUnsubscribe (persisted_unsubscribe (punsub_unsubscribe pending))) m
      = saved (map (clean_request \<circ> cleaned_unsubscribe) m)"
    if "0 \<notin> fst ` set m" "\<forall>(k, p) \<in> set m. unsubscribe_pkid (punsub_unsubscribe p) = k" for m
    using that by (induction m) (auto simp: saved_simps persisted_unsubscribe_def)
  ultimately show
    "map (\<lambda>(_, pending). PersistedReqSubscribe (persisted_subscribe (psub_subscribe pending))) (pending_subscribe s)
      = saved (map (clean_request \<circ> cleaned_subscribe) (pending_subscribe s))"
    "map (\<lambda>(_, pending). PersistedReqUnsubscribe (persisted_unsubscribe (punsub_unsubscribe pending))) (pending_unsubscribe s)
      = saved (map (clean_request \<circ> cleaned_unsubscribe) (pending_unsubscribe s))"
    by blast+
qed

lemma run_persisted_replay:
  assumes "state_inv B Q s"
  shows "persisted_replay_requests s = (Ok (saved (tracked_requests s)), s)"
proof -
  have "unat k < length (outgoing_pub s)" if "k \<in> set (outgoing_pub_order s)" for k
    using order_slot [OF assms that] by blast
  note slots = run_persisted_slots [of "outgoing_pub_order s", OF this]
  show ?thesis
    by (simp add: persisted_replay_requests_def andThen_def slots saved_publishes [OF assms] saved_controls [OF assms]
        tracked_requests_def saved_simps)
qed

definition saved_session :: "MqttOptions \<Rightarrow> Request list \<Rightarrow> 'b MqttState \<Rightarrow> PersistedSession" where
  "saved_session options rs s =
     \<lparr>ps_format_version = 2, ps_client_id = opt_client_id options, ps_clean_session = opt_clean_session options,
      ps_max_inflight = opt_inflight options, ps_ack_mode = persisted_ack_mode (opt_ack_mode options),
      ps_replay = saved (tracked_requests s @ rs),
      ps_incoming_qos2 = map (\<lambda>i. \<lparr>piq_pkid = word_of_nat i\<rparr>) (bs_ones B (incoming_pubrec s))\<rparr>"

lemma run_persisted:
  assumes "state_inv B Q s"
  shows "persisted_session B options rs s = (Ok (saved_session options rs s), s)"
proof -
  have "i < 65536" if "i \<in> set (bs_ones B (incoming_pubrec s))" for i
    using that state_invD(1) [OF assms] bits_bound [of i "incoming_pubrec s"] by (simp add: set_ones sizes_inv_def)
  then have "List.map_filter (\<lambda>pkid. map_option (\<lambda>pkid. \<lparr>piq_pkid = pkid\<rparr>) (u16_try_from pkid)) (bs_ones B (incoming_pubrec s))
      = map (\<lambda>i. \<lparr>piq_pkid = word_of_nat i\<rparr>) (bs_ones B (incoming_pubrec s))"
    by (induction "bs_ones B (incoming_pubrec s)") (auto simp: List.map_filter_def u16_try_from_def)
  then show ?thesis
    by (simp add: persisted_session_def andThen_def run_persisted_replay [OF assms] saved_session_def saved_def map_filter_append)
qed


lemma saved_persistable: "saved (filter persistable xs) = saved xs"
  by (induction xs) (auto simp: saved_simps persistable_def split: option.splits)

lemma saved_incoming:
  assumes "state_inv B Q s" "0 \<notin> bits B (incoming_pubrec s)"
  shows "list_all (\<lambda>i. piq_pkid i \<noteq> 0) (ps_incoming_qos2 (saved_session options rs s))"
proof -
  have "word_of_nat i \<noteq> (0 :: u16)" if "i \<in> set (bs_ones B (incoming_pubrec s))" for i
  proof
    have "i < 65536" "i \<noteq> 0"
      using that assms(2) state_invD(1) [OF assms(1)] bits_bound [of i "incoming_pubrec s"]
      by (auto simp: set_ones sizes_inv_def intro: gr0I)
    moreover assume "word_of_nat i = (0 :: u16)"
    ultimately show False
      using unat_u16_of_nat [of i] by simp
  qed
  then show ?thesis
    by (auto simp: saved_session_def list_all_iff)
qed

lemma saved_restorable:
  assumes "state_inv B Q s" "0 \<notin> bits B (incoming_pubrec s)"
    and rs: "distinct (map request_id (filter persistable rs))"
      "unat ` request_id ` set (filter persistable rs) \<subseteq> Q \<union> bits B (outgoing_rel_replay s)"
  shows "restorable options m (saved_session options rs s) \<longleftrightarrow> window_use (saved (tracked_requests s @ rs)) \<le> unat m"
proof -
  note ids = tracked_ids_distinct [OF assms(1)] and rids = tracked_request_ids [OF assms(1)]
  note owners = state_invD(2) [OF assms(1), unfolded owners_inv_def]
  have owned: "Q \<union> bits B (outgoing_rel_replay s) \<subseteq> bits B (outbound_pkid_in_use s)" "0 \<notin> bits B (outbound_pkid_in_use s)"
    using exclusive_owner(3,6) [OF owners [THEN conjunct1]] owners by blast+
  define T R where "T = request_id ` set (tracked_requests s)" and "R = request_id ` set (filter persistable rs)"
  have T: "T = set (tracked_ids s)"
    unfolding T_def rids [symmetric] by simp
  have "unat ` T \<inter> unat ` R = {}"
    using ids(2) rs(2) unfolding T R_def by blast
  then have disjoint: "T \<inter> R = {}"
    by blast
  have "distinct (map request_id (tracked_requests s))"
    using ids(1) rids by simp
  then have "distinct (map request_id (filter persistable (tracked_requests s)))"
    by (rule distinct_map_filter)
  moreover have "request_id ` set (filter persistable (tracked_requests s)) \<subseteq> T"
    unfolding T_def by auto
  ultimately have distinct: "distinct (map prequest_pkid (saved (tracked_requests s @ rs)))"
    using rs(1) disjoint unfolding saved_ids filter_append map_append distinct_append R_def set_map by blast
  have "0 \<notin> R"
    using rs(2) owned unfolding R_def by (metis image_eqI subsetD unsigned_0)
  then have "0 \<notin> request_id ` set (filter persistable (tracked_requests s @ rs))"
    using ids(3) unfolding filter_append set_append image_Un T [symmetric] T_def R_def by auto
  then have "list_all replayable_request (saved (tracked_requests s @ rs))"
    using saved_replayable saved_persistable by metis
  then show ?thesis
    using distinct saved_incoming [OF assms(1,2)]
    by (simp add: restorable_def saved_session_def validate_persisted_session_signature_def)
qed

lemma tracked_window:
  assumes "state_inv B Q s"
  shows "window_use (saved (tracked_requests s)) \<le> unat (max_inflight s)"
proof -
  have "filter uses_window (filter persistable xs) = filter persistable (filter uses_window xs)" for xs
    by (simp add: conj_commute)
  then have "window_use (saved (tracked_requests s)) \<le> length (filter uses_window (tracked_requests s))"
    by (simp only: saved_window_use length_filter_le)
  also have "\<dots> = length (outgoing_pub_order s) + length (outgoing_rel_order s)"
    by (simp add: tracked_requests_def filter_map o_def cleaned_publish_def cleaned_pubrel_def filter_empty_conv split_paired_all)
  also have "\<dots> = unat (inflight s)"
    using state_invD(3,4) [OF assms] order_length [of "outgoing_pub_order s" "occupied (outgoing_pub s)"]
      order_length [of "outgoing_rel_order s" "bits B (outgoing_rel s)"]
    by (simp add: window_inv_def orders_inv_def)
  also have "\<dots> \<le> unat (max_inflight s)"
    using state_invD(3) [OF assms] by (simp add: window_inv_def word_le_nat_alt)
  finally show ?thesis .
qed


lemma restored_fields:
  "inflight (restored_state now session s) = 0" "max_inflight (restored_state now session s) = max_inflight s"
  "ack_mode (restored_state now session s) = ack_mode s"
  "notices_sent (restored_state now session s) = notices_sent s @ reset_notices s"
  "bits B (incoming_pubrec (restored_state now session s)) = unat ` piq_pkid ` set (ps_incoming_qos2 session)"
proof -
  have "unat ` piq_pkid ` set (ps_incoming_qos2 session) \<subseteq> {..<65536}"
    by auto
  then have "bits B (incoming_pubrec (fresh_state now session s)) = unat ` piq_pkid ` set (ps_incoming_qos2 session)"
    using bs_with_all_simps [of "map piq_pkid (ps_incoming_qos2 session)" "bs_with_capacity B (65535 + 1)"]
    by (simp add: fresh_state_def with_incoming_def new_internal_def Let_def with_capacity bits_with_capacity)
  then show "bits B (incoming_pubrec (restored_state now session s)) = unat ` piq_pkid ` set (ps_incoming_qos2 session)"
    by (simp add: restored_state_def recount_def Let_def with_requests_fields)
qed (simp_all add: restored_state_def recount_def Let_def with_requests_fields fresh_state_def with_incoming_def new_internal_def)

lemma saved_incoming_ids:
  assumes "state_inv B Q s"
  shows "unat ` piq_pkid ` set (ps_incoming_qos2 (saved_session options rs s)) = bits B (incoming_pubrec s)"
proof -
  have "unat (word_of_nat i :: u16) = i" if "i \<in> bits B (incoming_pubrec s)" for i
    using that state_invD(1) [OF assms] bits_bound [of i "incoming_pubrec s"] by (simp add: sizes_inv_def unat_u16_of_nat)
  then show ?thesis
    by (auto simp: saved_session_def set_ones image_iff)
qed

lemma restore_saved:
  fixes options now
  assumes "state_inv B Q s" "0 \<notin> bits B (incoming_pubrec s)" "state_inv B Q' s'" "max_inflight s' = max_inflight s"
  defines "t \<equiv> restored_state now (saved_session options [] s) s'"
  shows "restore_persisted_session B now options (saved_session options [] s) s' = (Ok (filter persistable (tracked_requests s)), t)"
    and "state_inv B (\<Union>r \<in> set (saved (tracked_requests s)). replay_owner r) t"
    and "bits B (outbound_pkid_in_use t) = unat ` request_id ` set (filter persistable (tracked_requests s))"
    and "bits B (incoming_pubrec t) = bits B (incoming_pubrec s)"
proof -
  have ok: "restorable options (max_inflight s') (saved_session options [] s)"
    using saved_restorable [OF assms(1,2), of "[]" options "max_inflight s'"] tracked_window [OF assms(1)] assms(4) by simp
  have replay: "ps_replay (saved_session options [] s) = saved (tracked_requests s)"
    by (simp add: saved_session_def)
  note run = run_restore(1-3) [OF assms(3), where options = options and session = "saved_session options [] s", OF ok, where now = now]
  have ids: "prequest_pkid ` set (saved (tracked_requests s)) = request_id ` set (filter persistable (tracked_requests s))"
    using arg_cong [OF saved_ids [of "tracked_requests s"], of set] by simp
  show "restore_persisted_session B now options (saved_session options [] s) s' = (Ok (filter persistable (tracked_requests s)), t)"
    unfolding run(1) t_def replay by (simp add: saved_def restored_saved [OF tracked_dup])
  show "state_inv B (\<Union>r \<in> set (saved (tracked_requests s)). replay_owner r) t"
    "bits B (outbound_pkid_in_use t) = unat ` request_id ` set (filter persistable (tracked_requests s))"
    using run(2,3) unfolding t_def replay ids by simp_all
  show "bits B (incoming_pubrec t) = bits B (incoming_pubrec s)"
    unfolding t_def restored_fields(5) by (rule saved_incoming_ids [OF assms(1)])
qed


end

section \<open>Properties\<close>

text \<open>
  C19: Restoring a checkpoint is all or nothing. If its signature matches the options, its identifiers are
  non-zero and pairwise different, no publish has QoS 0 and the window is large enough, then the requests are handed back
  for replay and the new state reserves exactly their identifiers; otherwise an error is returned
  and the old state is untouched. There is no other outcome, whatever the store returned.
\<close>

theorem restore_all_or_nothing:
  assumes "fixed_bitset B" "state_inv B Q s"
  shows "if restorable options (max_inflight s) session
    then \<exists>t. restore_persisted_session B now options session s = (Ok (map restored_request (ps_replay session)), t)
      \<and> state_inv B (\<Union>r \<in> set (ps_replay session). replay_owner r) t
      \<and> (\<forall>i. bs_contains B (outbound_pkid_in_use t) i \<longleftrightarrow> i \<in> unat ` prequest_pkid ` set (ps_replay session))
      \<and> (\<forall>i. bs_contains B (incoming_pubrec t) i \<longleftrightarrow> i \<in> unat ` piq_pkid ` set (ps_incoming_qos2 session))
      \<and> inflight t = 0 \<and> max_inflight t = max_inflight s
    else \<exists>e. restore_persisted_session B now options session s = (Err e, s)"
  using fixed_bitset.run_restore [OF assms, of options session now] fixed_bitset.restored_fields [OF assms(1), of now session s]
  by (simp add: bits_contains)

definition example_options :: MqttOptions where
  "example_options = (MqttOptions_new [0x63] (BrokerTcp [0x68] 1883))\<lparr>opt_clean_session := False, opt_inflight := 10,
     opt_ack_mode := Manual\<rparr>"

theorem restore_all_or_nothing_witness:
  "\<exists>t. restore_persisted_session nat_bitset 0 example_options example_session (new_internal nat_bitset 0 10 Manual)
      = (Ok (map restored_request (ps_replay example_session)), t)
    \<and> bs_contains nat_bitset (outbound_pkid_in_use t) 4 \<and> \<not> bs_contains nat_bitset (outbound_pkid_in_use t) 5"
proof -
  have "restorable example_options 10 example_session"
    by (simp add: restorable_def validate_persisted_session_signature_def example_options_def example_session_def
        MqttOptions_new_def window_use_def)
  moreover have "max_inflight (new_internal nat_bitset 0 10 Manual) = 10"
    by (simp add: new_internal_def Let_def)
  moreover have "4 \<in> unat ` prequest_pkid ` set (ps_replay example_session)"
      "5 \<notin> unat ` prequest_pkid ` set (ps_replay example_session)"
    by (simp_all add: example_session_def)
  ultimately show ?thesis
    using restore_all_or_nothing [OF nat_bits.fixed_bitset_axioms nat_bits.new_internal_inv, of example_options 0 10 Manual
        example_session 0] by auto
qed



end
