(* ===== verification/Scheduler.thy ===== *)
theory Scheduler
  imports Prelude
begin

text \<open>
  The outbound scheduler of \<open>rumqttc-core/src/scheduler.rs\<close>: the queue from which the event loop
  takes the next request it may send. A request that can be sent leaves from the front; a
  control request may overtake publishes that wait for flow control; nothing crosses a fence.
\<close>

section \<open>Definitions\<close>

datatype RequestClass = FlowControlledPublish | PublishClass | ControlClass | Fence

datatype RequestReadiness = Ready | Blocked

record ScheduledRequest =
  sched_class :: RequestClass
  sched_readiness :: RequestReadiness

record 'a OutboundScheduler =
  sched_queue :: "'a list"

definition OutboundScheduler_default :: "'a OutboundScheduler" where
  "OutboundScheduler_default = \<lparr>sched_queue = []\<rparr>"

definition sched_push_back :: "'a \<Rightarrow> 'a OutboundScheduler \<Rightarrow> 'a OutboundScheduler" where
  "sched_push_back item self = self\<lparr>sched_queue := sched_queue self @ [item]\<rparr>"

definition sched_is_empty :: "'a OutboundScheduler \<Rightarrow> bool" where
  "sched_is_empty self \<longleftrightarrow> sched_queue self = []"

definition sched_len :: "'a OutboundScheduler \<Rightarrow> nat" where
  "sched_len self = length (sched_queue self)"

definition sched_clear :: "'a OutboundScheduler \<Rightarrow> 'a OutboundScheduler" where
  "sched_clear self = self\<lparr>sched_queue := []\<rparr>"

definition sched_drain :: "'a OutboundScheduler \<Rightarrow> 'a list \<times> 'a OutboundScheduler" where
  "sched_drain self = (sched_queue self, self\<lparr>sched_queue := []\<rparr>)"

fun next_ready_loop :: "('a \<Rightarrow> ScheduledRequest) \<Rightarrow> bool \<Rightarrow> nat \<Rightarrow> 'a list \<Rightarrow> nat option" where
  "next_ready_loop classify can_bypass index [] = None"
| "next_ready_loop classify can_bypass index (x # xs) =
     (let request = classify x in
      if sched_class request = Fence
      then (if index = 0 \<and> sched_readiness request = Ready then Some index else None)
      else if sched_readiness request = Ready \<and> index = 0 then Some index
      else if sched_class request = ControlClass \<and> sched_readiness request = Ready \<and> can_bypass
      then Some index
      else if sched_class request = FlowControlledPublish \<and> sched_readiness request = Blocked
      then next_ready_loop classify can_bypass (index + 1) xs
      else next_ready_loop classify False (index + 1) xs)"

definition next_ready_index :: "('a \<Rightarrow> ScheduledRequest) \<Rightarrow> 'a OutboundScheduler \<Rightarrow> nat option" where
  "next_ready_index classify self = next_ready_loop classify True 0 (sched_queue self)"

definition has_ready :: "('a \<Rightarrow> ScheduledRequest) \<Rightarrow> 'a OutboundScheduler \<Rightarrow> bool" where
  "has_ready classify self \<longleftrightarrow> next_ready_index classify self \<noteq> None"

text \<open>\<open>VecDeque::remove\<close>.\<close>

definition deque_remove :: "nat \<Rightarrow> 'a list \<Rightarrow> 'a option \<times> 'a list" where
  "deque_remove i xs =
     (if i < length xs then (Some (xs ! i), take i xs @ drop (i + 1) xs) else (None, xs))"

definition pop_next ::
  "('a \<Rightarrow> ScheduledRequest) \<Rightarrow> 'a OutboundScheduler \<Rightarrow> 'a option \<times> 'a OutboundScheduler" where
  "pop_next classify self =
     (case next_ready_index classify self of
        None \<Rightarrow> (None, self)
      | Some index \<Rightarrow>
          (case deque_remove index (sched_queue self) of
             (item, queue) \<Rightarrow> (item, self\<lparr>sched_queue := queue\<rparr>)))"

section \<open>Selection\<close>

text \<open>A request that a control request may overtake.\<close>

definition waiting :: "('a \<Rightarrow> ScheduledRequest) \<Rightarrow> 'a \<Rightarrow> bool" where
  "waiting classify x \<longleftrightarrow>
     classify x = \<lparr>sched_class = FlowControlledPublish, sched_readiness = Blocked\<rparr>"

lemma waiting_iff:
  "waiting classify x \<longleftrightarrow>
     sched_class (classify x) = FlowControlledPublish \<and> sched_readiness (classify x) = Blocked"
  by (cases "classify x") (simp add: waiting_def)

lemma next_ready_loop_no_bypass: "next_ready_loop classify False (Suc n) xs = None"
  by (induction xs arbitrary: n) (auto simp: Let_def)

lemma next_ready_loop_while:
  "next_ready_loop classify True (Suc n) xs =
     (case dropWhile (waiting classify) xs of
        [] \<Rightarrow> None
      | x # _ \<Rightarrow> if sched_class (classify x) = ControlClass \<and> sched_readiness (classify x) = Ready
                 then Some (Suc n + length (takeWhile (waiting classify) xs)) else None)"
proof (induction xs arbitrary: n)
  case (Cons x xs)
  then show ?case
    by (cases "sched_class (classify x)"; cases "sched_readiness (classify x)")
      (auto simp: waiting_iff [of classify x] next_ready_loop_no_bypass split: list.split,
        metis dropWhile_eq_Nil_conv list.distinct(1))
qed simp

lemma waiting_split:
  assumes "\<not> waiting classify x"
  shows "xs = pre @ x # post \<and> list_all (waiting classify) pre \<longleftrightarrow>
    takeWhile (waiting classify) xs = pre \<and> dropWhile (waiting classify) xs = x # post"
proof
  assume "xs = pre @ x # post \<and> list_all (waiting classify) pre"
  then show "takeWhile (waiting classify) xs = pre \<and> dropWhile (waiting classify) xs = x # post"
    using assms by (simp add: list_all_iff takeWhile_append2 dropWhile_append2)
next
  assume w: "takeWhile (waiting classify) xs = pre \<and> dropWhile (waiting classify) xs = x # post"
  then have "xs = pre @ x # post"
    by (metis takeWhile_dropWhile_id)
  then show "xs = pre @ x # post \<and> list_all (waiting classify) pre"
    using w by (metis list_all_iff set_takeWhileD)
qed

lemma next_ready_loop_bypass:
  "next_ready_loop classify True (Suc n) xs = Some i \<longleftrightarrow>
     (\<exists>pre x post. xs = pre @ x # post \<and> i = Suc n + length pre \<and> list_all (waiting classify) pre
        \<and> sched_class (classify x) = ControlClass \<and> sched_readiness (classify x) = Ready)"
proof
  assume "next_ready_loop classify True (Suc n) xs = Some i"
  then obtain x post where x: "dropWhile (waiting classify) xs = x # post"
      "sched_class (classify x) = ControlClass" "sched_readiness (classify x) = Ready"
      "i = Suc n + length (takeWhile (waiting classify) xs)"
    by (auto simp: next_ready_loop_while split: list.splits if_splits)
  moreover have "\<not> waiting classify x"
    using x(2) by (simp add: waiting_iff)
  ultimately show "\<exists>pre x post. xs = pre @ x # post \<and> i = Suc n + length pre \<and> list_all (waiting classify) pre
        \<and> sched_class (classify x) = ControlClass \<and> sched_readiness (classify x) = Ready"
    using waiting_split [of classify x xs "takeWhile (waiting classify) xs" post] by blast
next
  assume "\<exists>pre x post. xs = pre @ x # post \<and> i = Suc n + length pre \<and> list_all (waiting classify) pre
        \<and> sched_class (classify x) = ControlClass \<and> sched_readiness (classify x) = Ready"
  then obtain pre x post where x: "xs = pre @ x # post \<and> list_all (waiting classify) pre"
      "i = Suc n + length pre" "sched_class (classify x) = ControlClass" "sched_readiness (classify x) = Ready"
    by blast
  have "\<not> waiting classify x"
    using x(3) by (simp add: waiting_iff)
  then show "next_ready_loop classify True (Suc n) xs = Some i"
    using waiting_split [of classify x xs pre post] x by (simp add: next_ready_loop_while)
qed

lemma next_ready_index_Some:
  "next_ready_index classify self = Some i \<longleftrightarrow>
     (\<exists>pre x post. sched_queue self = pre @ x # post \<and> i = length pre
        \<and> sched_readiness (classify x) = Ready
        \<and> (pre = [] \<or> sched_class (classify x) = ControlClass \<and> list_all (waiting classify) pre))"
proof (cases "sched_queue self")
  case (Cons y ys)
  show ?thesis
  proof (cases "waiting classify y")
    case True
    then have "next_ready_index classify self = next_ready_loop classify True (Suc 0) ys"
      using Cons by (simp add: next_ready_index_def waiting_iff)
    moreover have "(\<exists>pre x post. y # ys = pre @ x # post \<and> i = length pre
        \<and> sched_readiness (classify x) = Ready
        \<and> (pre = [] \<or> sched_class (classify x) = ControlClass \<and> list_all (waiting classify) pre)) \<longleftrightarrow>
      (\<exists>pre x post. ys = pre @ x # post \<and> i = Suc 0 + length pre \<and> list_all (waiting classify) pre
        \<and> sched_class (classify x) = ControlClass \<and> sched_readiness (classify x) = Ready)"
      (is "?lhs \<longleftrightarrow> ?rhs")
    proof
      assume ?lhs
      then obtain pre x post where x: "y # ys = pre @ x # post" "i = length pre"
          "sched_readiness (classify x) = Ready"
          "pre = [] \<or> sched_class (classify x) = ControlClass \<and> list_all (waiting classify) pre"
        by blast
      with True show ?rhs
        by (cases pre) (auto simp: waiting_iff)
    next
      assume ?rhs
      then obtain pre x post where "ys = pre @ x # post" "i = Suc 0 + length pre"
          "list_all (waiting classify) pre" "sched_class (classify x) = ControlClass"
          "sched_readiness (classify x) = Ready"
        by blast
      with True show ?lhs
        by (intro exI [of _ "y # pre"] exI [of _ x] exI [of _ post]) simp
    qed
    ultimately show ?thesis using Cons by (simp add: next_ready_loop_bypass)
  next
    case False
    then have "next_ready_index classify self = Some i \<longleftrightarrow> i = 0 \<and> sched_readiness (classify y) = Ready"
      using Cons by (cases "sched_class (classify y)"; cases "sched_readiness (classify y)")
        (auto simp: next_ready_index_def waiting_iff next_ready_loop_no_bypass)
    then show ?thesis using Cons False by (auto simp: Cons_eq_append_conv)
  qed
qed (simp add: next_ready_index_def)

lemma deque_remove_middle: "deque_remove (length pre) (pre @ x # post) = (Some x, pre @ post)"
  by (simp add: deque_remove_def nth_append)

lemma pop_next_Some:
  "pop_next classify self = (Some x, self') \<longleftrightarrow>
     (\<exists>pre post. sched_queue self = pre @ x # post \<and> self' = self\<lparr>sched_queue := pre @ post\<rparr>
        \<and> sched_readiness (classify x) = Ready
        \<and> (pre = [] \<or> sched_class (classify x) = ControlClass \<and> list_all (waiting classify) pre))"
proof (cases "next_ready_index classify self")
  case None
  then show ?thesis
    using next_ready_index_Some [of classify self] by (fastforce simp: pop_next_def)
next
  case (Some i)
  then obtain pre y post where q: "sched_queue self = pre @ y # post" "i = length pre"
      "sched_readiness (classify y) = Ready"
      "pre = [] \<or> sched_class (classify y) = ControlClass \<and> list_all (waiting classify) pre"
    by (auto simp: next_ready_index_Some)
  then have pop: "pop_next classify self = (Some y, self\<lparr>sched_queue := pre @ post\<rparr>)"
    using Some by (simp add: pop_next_def deque_remove_middle)
  show ?thesis
  proof
    assume "pop_next classify self = (Some x, self')"
    then show "\<exists>pre post. sched_queue self = pre @ x # post \<and> self' = self\<lparr>sched_queue := pre @ post\<rparr>
        \<and> sched_readiness (classify x) = Ready
        \<and> (pre = [] \<or> sched_class (classify x) = ControlClass \<and> list_all (waiting classify) pre)"
      using pop q by auto
  next
    assume "\<exists>pre post. sched_queue self = pre @ x # post \<and> self' = self\<lparr>sched_queue := pre @ post\<rparr>
        \<and> sched_readiness (classify x) = Ready
        \<and> (pre = [] \<or> sched_class (classify x) = ControlClass \<and> list_all (waiting classify) pre)"
    then obtain pre' post' where q': "sched_queue self = pre' @ x # post'"
        "self' = self\<lparr>sched_queue := pre' @ post'\<rparr>" "sched_readiness (classify x) = Ready"
        "pre' = [] \<or> sched_class (classify x) = ControlClass \<and> list_all (waiting classify) pre'"
      by blast
    then have "next_ready_index classify self = Some (length pre')"
      by (auto simp: next_ready_index_Some)
    then show "pop_next classify self = (Some x, self')"
      using q' by (simp add: pop_next_def deque_remove_middle)
  qed
qed

section \<open>Runs of the scheduler\<close>

text \<open>
  The scheduler at work: requests arrive at the back, and whenever the event loop asks, with
  whatever readiness the connection has at that moment, the selected request leaves. The class
  of a request does not change while it is queued.
\<close>

inductive sched_run :: "('a \<Rightarrow> RequestClass) \<Rightarrow> 'a list \<Rightarrow> 'a list \<Rightarrow> 'a OutboundScheduler \<Rightarrow> bool"
  for cls where
  start: "sched_run cls [] [] OutboundScheduler_default"
| arrive: "sched_run cls arrivals sent q \<Longrightarrow>
     sched_run cls (arrivals @ [x]) sent (sched_push_back x q)"
| leave: "\<lbrakk>sched_run cls arrivals sent q; \<And>y. sched_class (classify y) = cls y;
     pop_next classify q = (Some x, q')\<rbrakk> \<Longrightarrow> sched_run cls arrivals (sent @ [x]) q'"

lemma pop_next_projection:
  assumes "pop_next classify q = (Some x, q')" and "\<And>y. sched_class (classify y) = cls y"
    and "c = ControlClass \<or> c = FlowControlledPublish"
  shows "filter (\<lambda>y. cls y \<noteq> c) (x # sched_queue q') = filter (\<lambda>y. cls y \<noteq> c) (sched_queue q)"
proof -
  from assms(1) obtain pre post where q: "sched_queue q = pre @ x # post" "q' = q\<lparr>sched_queue := pre @ post\<rparr>"
      "pre = [] \<or> sched_class (classify x) = ControlClass \<and> list_all (waiting classify) pre"
    unfolding pop_next_Some by blast
  have "filter (\<lambda>y. cls y \<noteq> FlowControlledPublish) pre = []" if "list_all (waiting classify) pre"
    using that assms(2) by (induction pre) (auto simp: waiting_iff)
  then show ?thesis
    using q assms(2,3) by auto
qed

text \<open>
  C35: which request is sent next. The selected request is ready, and either it is at the front
  or it is a control request and everything before it is a publish blocked by flow control;
  conversely such a request is selected, and taking it leaves the order of the others unchanged.
\<close>

theorem pop_next_selects:
  "pop_next classify self = (Some x, self') \<longleftrightarrow>
     (\<exists>pre post. sched_queue self = pre @ x # post \<and> self' = self\<lparr>sched_queue := pre @ post\<rparr>
        \<and> sched_readiness (classify x) = Ready
        \<and> (pre = [] \<or> sched_class (classify x) = ControlClass
             \<and> list_all (\<lambda>y. classify y = \<lparr>sched_class = FlowControlledPublish, sched_readiness = Blocked\<rparr>) pre))"
  using pop_next_Some [of classify self x self'] unfolding waiting_def [abs_def] .

text \<open>
  C36: the only reordering is a control request overtaking flow-controlled publishes. In every
  run, the requests that are not control requests leave in the order of their arrival, and so do
  the requests that are not flow-controlled publishes; in particular nothing leaves before a
  fence it arrived after.
\<close>

theorem sched_run_order:
  assumes "sched_run cls arrivals sent q"
  shows "filter (\<lambda>x. cls x \<noteq> ControlClass) (sent @ sched_queue q) = filter (\<lambda>x. cls x \<noteq> ControlClass) arrivals
    \<and> filter (\<lambda>x. cls x \<noteq> FlowControlledPublish) (sent @ sched_queue q)
      = filter (\<lambda>x. cls x \<noteq> FlowControlledPublish) arrivals"
  using assms
proof (induction rule: sched_run.induct)
  case start
  then show ?case by (simp add: OutboundScheduler_default_def)
next
  case (arrive arrivals sent q x)
  then show ?case by (simp add: sched_push_back_def)
next
  case (leave arrivals sent q classify x q')
  have "filter (\<lambda>y. cls y \<noteq> c) ((sent @ [x]) @ sched_queue q') = filter (\<lambda>y. cls y \<noteq> c) (sent @ sched_queue q)"
    if "c = ControlClass \<or> c = FlowControlledPublish" for c
    using pop_next_projection [OF leave(3,2) that] by simp
  then show ?case using leave.IH by simp
qed

theorem sched_run_order_witness:
  "let cls = (\<lambda>x::nat. if x = 1 then FlowControlledPublish else ControlClass) in
   filter (\<lambda>x. cls x \<noteq> ControlClass) ([2] @ [1]) = filter (\<lambda>x. cls x \<noteq> ControlClass) [1, 2]"
proof -
  define cls where "cls = (\<lambda>x::nat. if x = 1 then FlowControlledPublish else ControlClass)"
  define classify where "classify = (\<lambda>x::nat. \<lparr>sched_class = cls x,
    sched_readiness = (if x = 1 then Blocked else Ready)\<rparr>)"
  have "sched_run cls ([] @ [1]) [] (sched_push_back 1 OutboundScheduler_default)"
    by (intro sched_run.intros)
  then have "sched_run cls (([] @ [1]) @ [2]) [] (sched_push_back 2 (sched_push_back 1 OutboundScheduler_default))"
    by (rule sched_run.arrive)
  moreover have "pop_next classify (sched_push_back 2 (sched_push_back 1 OutboundScheduler_default))
      = (Some 2, \<lparr>sched_queue = [1]\<rparr>)"
    by (simp add: pop_next_def next_ready_index_def sched_push_back_def OutboundScheduler_default_def
        classify_def cls_def deque_remove_def)
  ultimately have "sched_run cls [1, 2] ([] @ [2]) \<lparr>sched_queue = [1]\<rparr>"
    by (intro sched_run.leave [where classify = classify]) (simp_all add: classify_def)
  from sched_run_order [OF this] show ?thesis by (simp add: cls_def)
qed

end
