(* ===== verification/V4_EventLoop.thy ===== *)
theory V4_EventLoop
  imports V4_Persist Scheduler Admission
begin

text \<open>
  The event loop of the MQTT 3.1.1 client (\<open>rumqttc-v4/src/eventloop.rs\<close> and \<open>framed.rs\<close>), with the
  default features: its queues, the admission and scheduling of requests, the handling of network reads,
  keep-alive, graceful and immediate disconnects, reconnects, and the session store. This theory
  holds the definitions.

  \<^item> Methods that take \<open>&mut self\<close> are computations over the record \<open>EventLoop\<close>; \<open>on_state\<close> runs a
    computation of \<open>V4_State\<close> on its field.
  \<^item> The request channels are the crate \<open>flume\<close> or the lanes of \<open>Admission\<close>: their operations are the argument \<open>C\<close>.
  \<^item> Sockets, TLS, \<open>tokio_util::codec::Framed\<close>, the clock and the session store are the argument \<open>W\<close>,
    a record of operations on a world \<open>'w\<close>, the field \<open>el_world\<close>. A write or a wait without a deadline
    is one that completes; with a deadline, \<open>None\<close> says that the deadline passed first.
  \<^item> A poll runs until it is ready or has to wait for the world (\<open>Poll_Pending\<close>); a pending poll is
    taken up again from its start.
\<close>

section \<open>Data\<close>

datatype PollSource = PollRequest u8 | PollNetwork | PollKeepAlive

record RequestEnvelope =
  env_request :: Request
  env_notice :: "TrackedNoticeTx option"
  env_replay :: bool

definition from_parts_with_replay :: "Request \<Rightarrow> TrackedNoticeTx option \<Rightarrow> bool \<Rightarrow> RequestEnvelope" where
  "from_parts_with_replay request notice replay =
     \<lparr>env_request = request, env_notice = notice, env_replay = replay\<rparr>"

definition plain :: "Request \<Rightarrow> RequestEnvelope" where
  "plain request = \<lparr>env_request = request, env_notice = None, env_replay = False\<rparr>"

definition plain_replay :: "Request \<Rightarrow> RequestEnvelope" where
  "plain_replay request = \<lparr>env_request = request, env_notice = None, env_replay = True\<rparr>"

definition tracked_publish :: "Publish \<Rightarrow> PublishNoticeTx \<Rightarrow> RequestEnvelope" where
  "tracked_publish publish notice =
     \<lparr>env_request = ReqPublish publish, env_notice = Some (TrackedPublish notice), env_replay = False\<rparr>"

definition tracked_subscribe :: "Subscribe \<Rightarrow> SubscribeNoticeTx \<Rightarrow> RequestEnvelope" where
  "tracked_subscribe subscribe notice =
     \<lparr>env_request = ReqSubscribe subscribe, env_notice = Some (TrackedSubscribe notice), env_replay = False\<rparr>"

definition tracked_unsubscribe :: "Unsubscribe \<Rightarrow> UnsubscribeNoticeTx \<Rightarrow> RequestEnvelope" where
  "tracked_unsubscribe unsubscribe notice =
     \<lparr>env_request = ReqUnsubscribe unsubscribe, env_notice = Some (TrackedUnsubscribe notice), env_replay = False\<rparr>"

datatype BatchControl = BatchContinue | BatchStop

record PendingDisconnect =
  pd_deadline :: "nat option"

definition PendingDisconnect_new :: "nat \<Rightarrow> nat option \<Rightarrow> PendingDisconnect" where
  "PendingDisconnect_new now timeout = \<lparr>pd_deadline = map_option (\<lambda>timeout. now + timeout) timeout\<rparr>"

datatype SessionStoreResetAction = KeepStore | ClearStore

text \<open>The errors of TLS, websockets and proxies are represented by their messages.\<close>

datatype ConnectionError =
    ConnMqttState StateError
  | ConnNetworkTimeout
  | ConnFlushTimeout
  | ConnDisconnectTimeout
  | ConnTransport rstring
  | ConnIo rstring
  | ConnRefused ConnectReturnCode
  | ConnNotConnAck Packet
  | ConnSessionStateMismatch bool bool
  | ConnSessionStore rstring
  | ConnSessionRestore SessionRestoreError
  | ConnBrokerTransportMismatch
  | ConnRequestsDone
  | ConnInvalidUrl UrlError

record SessionStoreState =
  ss_loaded :: bool
  ss_clear_pending :: bool

definition SessionStoreState_new :: SessionStoreState where
  "SessionStoreState_new = \<lparr>ss_loaded = False, ss_clear_pending = False\<rparr>"

datatype ConnAckDiagnostic = SessionPresentMismatchAcceptedAsClean

record ConnAckSessionDiagnostics =
  raw_session_present :: bool
  session_resumed :: bool
  connack_diagnostic :: "ConnAckDiagnostic option"

datatype SessionDisposition = Fresh | Resumed

record SessionReconciliation =
  rec_disposition :: SessionDisposition
  rec_diagnostic :: "ConnAckDiagnostic option"

definition is_fresh :: "SessionReconciliation \<Rightarrow> bool" where
  "is_fresh self \<longleftrightarrow> rec_disposition self = Fresh"

definition reconciliation_diagnostics :: "bool \<Rightarrow> SessionReconciliation \<Rightarrow> ConnAckSessionDiagnostics" where
  "reconciliation_diagnostics raw self =
     \<lparr>raw_session_present = raw, session_resumed = (\<not> is_fresh self), connack_diagnostic = rec_diagnostic self\<rparr>"

type_synonym IncomingFrame = "(v4_error + Packet) option"

record Network =
  write_deadline :: "nat option"

datatype PollReady =
    ReadyClosed
  | ReadyImmediate RequestEnvelope
  | ReadyControl RequestEnvelope
  | ReadyRequest "ConnectionError + RequestEnvelope"
  | ReadyNetwork IncomingFrame
  | ReadyKeepAlive

datatype 'a Poll = Poll_Pending | Poll_Ready 'a

datatype ReadBatchOutcome = NoResponseWritten | ResponseWritten

record ReadBatch =
  rb_outcome :: ReadBatchOutcome
  rb_notices :: "DeferredNotice list"

record ReadBatchError =
  rbe_source :: StateError
  rbe_batch :: ReadBatch

datatype DrainBranch = DrainImmediate | DrainRead | DrainDeadline

record ('b, 'c, 'w) EventLoop =
  el_options :: MqttOptions
  el_state :: "'b MqttState"
  requests_rx :: 'c
  control_requests_rx :: 'c
  immediate_disconnect_rx :: 'c
  el_pending :: "RequestEnvelope list"
  el_queued :: "RequestEnvelope OutboundScheduler"
  el_network :: "Network option"
  next_poll_source :: PollSource
  pending_connection_error :: "ConnectionError option"
  keepalive_timeout :: "nat option"
  keepalive_scan_deadline :: "nat option"
  session_client_id :: "rstring option"
  el_session_store_key :: "SessionStoreKey option"
  session_store :: SessionStoreState
  connack_session :: "ConnAckSessionDiagnostics option"
  connection_timeout :: nat
  pending_disconnect :: "PendingDisconnect option"
  disconnect_complete :: bool
  el_world :: 'w

type_synonym ('b, 'c, 'w, 'a) el = "(('b, 'c, 'w) EventLoop, ConnectionError, 'a) sm"

record 'w world_ops =
  clock :: "'w \<Rightarrow> nat"
  framed_next :: "'w \<Rightarrow> IncomingFrame option \<times> 'w"
  framed_next_until :: "nat \<Rightarrow> 'w \<Rightarrow> IncomingFrame option \<times> 'w"
  framed_feed :: "Packet \<Rightarrow> 'w \<Rightarrow> (v4_error + unit) \<times> 'w"
  framed_feed_until :: "nat \<Rightarrow> Packet \<Rightarrow> 'w \<Rightarrow> (v4_error + unit) option \<times> 'w"
  framed_flush :: "'w \<Rightarrow> (v4_error + unit) \<times> 'w"
  framed_flush_until :: "nat \<Rightarrow> 'w \<Rightarrow> (v4_error + unit) option \<times> 'w"
  throttle_elapsed :: "'w \<Rightarrow> bool"
  select_order :: "'w \<Rightarrow> DrainBranch list"
  store_load :: "SessionStoreKey \<Rightarrow> 'w \<Rightarrow> (rstring + PersistedSession option) \<times> 'w"
  store_save :: "SessionStoreKey \<Rightarrow> PersistedSession \<Rightarrow> 'w \<Rightarrow> (rstring + unit) \<times> 'w"
  store_clear :: "SessionStoreKey \<Rightarrow> 'w \<Rightarrow> (rstring + unit) \<times> 'w"
  error_text :: "ConnectionError \<Rightarrow> rstring"
  unix_connect :: "bytes \<Rightarrow> nat \<Rightarrow> 'w \<Rightarrow> (ConnectionError + unit) option \<times> 'w"
  socket_connect :: "rstring \<Rightarrow> u16 \<Rightarrow> nat \<Rightarrow> 'w \<Rightarrow> (ConnectionError + unit) option \<times> 'w"
  tls_connect :: "rstring \<Rightarrow> u16 \<Rightarrow> TlsConfiguration \<Rightarrow> nat \<Rightarrow> 'w \<Rightarrow> (ConnectionError + unit) option \<times> 'w"
  websocket_connect :: "rstring \<Rightarrow> nat \<Rightarrow> 'w \<Rightarrow> (ConnectionError + unit) option \<times> 'w"
  world_urls :: url_crates

section \<open>Combinators\<close>

definition on_state :: "('b MqttState, 'e, 'a) sm \<Rightarrow> (('b, 'c, 'w) EventLoop, 'e, 'a) sm" where
  "on_state m = (\<lambda>self. case m (el_state self) of (r, s) \<Rightarrow> (r, self\<lparr>el_state := s\<rparr>))"

definition on_world :: "('w \<Rightarrow> 'a \<times> 'w) \<Rightarrow> (('b, 'c, 'w) EventLoop, 'e, 'a) sm" where
  "on_world f = (\<lambda>self. case f (el_world self) of (x, w) \<Rightarrow> (Ok x, self\<lparr>el_world := w\<rparr>))"

text \<open>A call whose result is inspected instead of propagated with \<open>?\<close>.\<close>

definition attempt :: "('s, 'e, 'a) sm \<Rightarrow> ('s, 'f, 'e + 'a) sm" where
  "attempt m = (\<lambda>s. case m s of
      (Ok x, s') \<Rightarrow> (Ok (Inr x), s')
    | (Err e, s') \<Rightarrow> (Ok (Inl e), s')
    | (Panic, s') \<Rightarrow> (Panic, s'))"

definition from_result :: "'e + 'a \<Rightarrow> ('s, 'e, 'a) sm" where
  "from_result r = (case r of Inl e \<Rightarrow> fail e | Inr x \<Rightarrow> ret x)"

definition state_call :: "('b, 'a) state_m \<Rightarrow> ('b, 'c, 'w, 'a) el" where
  "state_call m = map_err ConnMqttState (on_state m)"

definition instant_now :: "'w world_ops \<Rightarrow> (('b, 'c, 'w) EventLoop, 'e, nat) sm" where
  "instant_now W = gets (\<lambda>self. clock W (el_world self))"

definition pop_event :: "(('b, 'c, 'w) EventLoop, 'e, Event option) sm" where
  "pop_event =
     andThen (gets (\<lambda>self. events (el_state self))) (\<lambda>es.
     case es of
       [] \<Rightarrow> ret None
     | event # es \<Rightarrow>
         andThen (modify (\<lambda>self. self\<lparr>el_state := (el_state self)\<lparr>events := es\<rparr>\<rparr>)) (\<lambda>_.
         ret (Some event)))"

definition send_notices :: "NoticeSent list \<Rightarrow> (('b, 'c, 'w) EventLoop, 'e, unit) sm" where
  "send_notices sent = modify (\<lambda>self. self\<lparr>el_state := (el_state self)\<lparr>notices_sent := notices_sent (el_state self) @ sent\<rparr>\<rparr>)"

definition recv_requests :: "('c, RequestEnvelope) channel_ops
    \<Rightarrow> (('b, 'c, 'w) EventLoop, 'e, (TryRecvError, RequestEnvelope) outcome) sm" where
  "recv_requests C = (\<lambda>self. case ch_try_recv C (requests_rx self) of (r, c) \<Rightarrow> (Ok r, self\<lparr>requests_rx := c\<rparr>))"

definition recv_control :: "('c, RequestEnvelope) channel_ops
    \<Rightarrow> (('b, 'c, 'w) EventLoop, 'e, (TryRecvError, RequestEnvelope) outcome) sm" where
  "recv_control C = (\<lambda>self. case ch_try_recv C (control_requests_rx self) of (r, c) \<Rightarrow> (Ok r, self\<lparr>control_requests_rx := c\<rparr>))"

definition recv_immediate :: "('c, RequestEnvelope) channel_ops
    \<Rightarrow> (('b, 'c, 'w) EventLoop, 'e, (TryRecvError, RequestEnvelope) outcome) sm" where
  "recv_immediate C = (\<lambda>self. case ch_try_recv C (immediate_disconnect_rx self) of (r, c) \<Rightarrow> (Ok r, self\<lparr>immediate_disconnect_rx := c\<rparr>))"

section \<open>Arbitration\<close>

definition MAX_REQUEST_BURST :: u8 where
  "MAX_REQUEST_BURST = 8"

definition PollSource_default :: PollSource where
  "PollSource_default = PollRequest MAX_REQUEST_BURST"

fun PollSource_next :: "PollSource \<Rightarrow> PollSource" where
  "PollSource_next (PollRequest _) = PollNetwork"
| "PollSource_next PollNetwork = PollKeepAlive"
| "PollSource_next PollKeepAlive = PollRequest MAX_REQUEST_BURST"

definition after_ready :: "PollSource \<Rightarrow> PollSource" where
  "after_ready self =
     (case self of
        PollRequest remaining \<Rightarrow> if remaining > 1 then PollRequest (remaining - 1) else PollSource_next self
      | _ \<Rightarrow> PollSource_next self)"

section \<open>Classification\<close>

fun should_replay_after_reconnect :: "Request \<Rightarrow> bool" where
  "should_replay_after_reconnect (ReqPubAck _) = False"
| "should_replay_after_reconnect (ReqPubRec _) = False"
| "should_replay_after_reconnect _ = True"

fun is_disconnect_request :: "Request \<Rightarrow> bool" where
  "is_disconnect_request (ReqDisconnect _) = True"
| "is_disconnect_request (ReqDisconnectWithTimeout _ _) = True"
| "is_disconnect_request (ReqDisconnectNow _) = True"
| "is_disconnect_request _ = False"

definition scheduled :: "RequestClass \<Rightarrow> bool \<Rightarrow> ScheduledRequest" where
  "scheduled cls ready = \<lparr>sched_class = cls, sched_readiness = (if ready then Ready else Blocked)\<rparr>"

fun classify_publish_or_control_request ::
  "Request \<Rightarrow> (Publish \<Rightarrow> bool) \<Rightarrow> bool \<Rightarrow> ScheduledRequest" where
  "classify_publish_or_control_request (ReqPublish publish) can_send_pub can_send_control =
     (if publish_qos publish \<noteq> AtMostOnce then scheduled FlowControlledPublish (can_send_pub publish)
      else scheduled PublishClass True)"
| "classify_publish_or_control_request (ReqSubscribe _) can_send_pub can_send_control =
     scheduled ControlClass can_send_control"
| "classify_publish_or_control_request (ReqUnsubscribe _) can_send_pub can_send_control =
     scheduled ControlClass can_send_control"
| "classify_publish_or_control_request _ can_send_pub can_send_control = scheduled ControlClass True"

definition classify_request :: "'b bitset_ops \<Rightarrow> 'b MqttState \<Rightarrow> Request \<Rightarrow> ScheduledRequest" where
  "classify_request B state request =
     classify_publish_or_control_request request (can_send_publish B state) (control_packet_identifier_available state)"

definition classify_replay_request :: "'b bitset_ops \<Rightarrow> 'b MqttState \<Rightarrow> Request \<Rightarrow> ScheduledRequest" where
  "classify_replay_request B state request =
     (case request of
        ReqPubRel pubrel \<Rightarrow> scheduled ControlClass (can_send_pubrel B state (pubrel_pkid pubrel))
      | _ \<Rightarrow>
          classify_publish_or_control_request request (can_send_replayed_publish B state)
            (case request of
               ReqSubscribe subscribe \<Rightarrow> can_send_replayed_control_packet B state (subscribe_pkid subscribe)
             | ReqUnsubscribe unsubscribe \<Rightarrow> can_send_replayed_control_packet B state (unsubscribe_pkid unsubscribe)
             | _ \<Rightarrow> True))"

definition classify_envelope :: "'b bitset_ops \<Rightarrow> 'b MqttState \<Rightarrow> RequestEnvelope \<Rightarrow> ScheduledRequest" where
  "classify_envelope B state envelope =
     (if env_replay envelope then classify_replay_request B state (env_request envelope)
      else classify_request B state (env_request envelope))"

section \<open>The network\<close>

text \<open>\<open>await_write\<close>: a write under the deadline of the batch, if there is one.\<close>

definition await_write ::
  "('w \<Rightarrow> (v4_error + unit) \<times> 'w) \<Rightarrow> (nat \<Rightarrow> 'w \<Rightarrow> (v4_error + unit) option \<times> 'w)
    \<Rightarrow> (('b, 'c, 'w) EventLoop, StateError, unit) sm" where
  "await_write write write_until =
     andThen (gets el_network) (\<lambda>n.
     andThen (expect n) (\<lambda>network.
     case write_deadline network of
       None \<Rightarrow> andThen (on_world write) (\<lambda>r. map_err Deserialization (from_result r))
     | Some deadline \<Rightarrow>
         andThen (on_world (write_until deadline)) (\<lambda>r.
         case r of
           None \<Rightarrow> fail (StateIo IoTimedOut (ascii ''network response write timed out''))
         | Some r \<Rightarrow> map_err Deserialization (from_result r))))"

definition Network_write :: "'w world_ops \<Rightarrow> Packet \<Rightarrow> (('b, 'c, 'w) EventLoop, StateError, unit) sm" where
  "Network_write W packet = await_write (framed_feed W packet) (\<lambda>deadline. framed_feed_until W deadline packet)"

definition Network_write_request :: "'w world_ops \<Rightarrow> Packet \<Rightarrow> (('b, 'c, 'w) EventLoop, StateError, unit) sm" where
  "Network_write_request W packet =
     andThen (gets el_network) (\<lambda>n.
     andThen (expect n) (\<lambda>_.
     andThen (on_world (framed_feed W packet)) (\<lambda>r.
     map_err Deserialization (from_result r))))"

text \<open>\<open>Network::read\<close> within the connection deadline.\<close>

definition Network_read :: "'w world_ops \<Rightarrow> nat \<Rightarrow> ('b, 'c, 'w, Packet) el" where
  "Network_read W deadline =
     andThen (on_world (framed_next_until W deadline)) (\<lambda>r.
     case r of
       None \<Rightarrow> fail ConnNetworkTimeout
     | Some None \<Rightarrow> fail (ConnMqttState ConnectionAborted)
     | Some (Some (Inr packet)) \<Rightarrow> ret packet
     | Some (Some (Inl e)) \<Rightarrow>
         (case e of InsufficientBytes _ \<Rightarrow> panic | _ \<Rightarrow> fail (ConnMqttState (Deserialization e))))"

text \<open>One turn of the loop of \<open>readb_from\<close>; \<open>continue\<close> is the rest of the loop.\<close>

definition readb_turn ::
  "'b bitset_ops \<Rightarrow> 'w world_ops \<Rightarrow> IncomingFrame \<Rightarrow> ReadBatchOutcome \<Rightarrow> DeferredNotice list
    \<Rightarrow> (ReadBatchOutcome \<Rightarrow> DeferredNotice list \<Rightarrow> ('b, 'c, 'w, ReadBatchError + ReadBatch) el)
    \<Rightarrow> ('b, 'c, 'w, ReadBatchError + ReadBatch) el" where
  "readb_turn B W res outcome notices continue =
     (let failed = (\<lambda>err notices.
            ret (Inl \<lparr>rbe_source = err, rbe_batch = \<lparr>rb_outcome = outcome, rb_notices = notices\<rparr>\<rparr>)) in
      case res of
        Some (Inr packet) \<Rightarrow>
          andThen (instant_now W) (\<lambda>now.
          andThen (attempt (on_state (handle_incoming_packet_with_effects B now packet))) (\<lambda>r.
          case r of
            Inl err \<Rightarrow> failed err notices
          | Inr effects \<Rightarrow>
              let has_deferred_notices = (effect_notices effects \<noteq> []);
                  notices = notices @ effect_notices effects in
              andThen (case effect_outgoing effects of
                  None \<Rightarrow> ret (Inr outcome)
                | Some outgoing \<Rightarrow>
                    andThen (attempt (Network_write W outgoing)) (\<lambda>r.
                    ret (case r of Inl err \<Rightarrow> Inl err | Inr _ \<Rightarrow> Inr ResponseWritten))) (\<lambda>written.
              case written of
                Inl err \<Rightarrow> failed err notices
              | Inr outcome \<Rightarrow>
                  if has_deferred_notices then ret (Inr \<lparr>rb_outcome = outcome, rb_notices = notices\<rparr>)
                  else continue outcome notices)))
      | Some (Inl e) \<Rightarrow> (case e of InsufficientBytes _ \<Rightarrow> panic | _ \<Rightarrow> failed (Deserialization e) notices)
      | None \<Rightarrow> failed ConnectionAborted notices)"

text \<open>The loop, with the number of packets that may still follow.\<close>

primrec readb_loop ::
  "'b bitset_ops \<Rightarrow> 'w world_ops \<Rightarrow> nat \<Rightarrow> IncomingFrame \<Rightarrow> ReadBatchOutcome \<Rightarrow> DeferredNotice list
    \<Rightarrow> ('b, 'c, 'w, ReadBatchError + ReadBatch) el" where
  "readb_loop B W 0 res outcome notices =
     readb_turn B W res outcome notices (\<lambda>outcome notices.
       ret (Inr \<lparr>rb_outcome = outcome, rb_notices = notices\<rparr>))"
| "readb_loop B W (Suc n) res outcome notices =
     readb_turn B W res outcome notices (\<lambda>outcome notices.
       andThen (on_world (framed_next W)) (\<lambda>r.
       case r of
         Some res \<Rightarrow> readb_loop B W n res outcome notices
       | None \<Rightarrow> ret (Inr \<lparr>rb_outcome = outcome, rb_notices = notices\<rparr>)))"

definition readb_from ::
  "'b bitset_ops \<Rightarrow> 'w world_ops \<Rightarrow> IncomingFrame \<Rightarrow> nat \<Rightarrow> ('b, 'c, 'w, ReadBatchError + ReadBatch) el" where
  "readb_from B W res read_batch_limit =
     readb_loop B W (max read_batch_limit 1 - 1) res NoResponseWritten []"

section \<open>Queues\<close>

definition EventLoop_new ::
  "'b bitset_ops \<Rightarrow> nat \<Rightarrow> MqttOptions \<Rightarrow> 'c \<Rightarrow> 'c \<Rightarrow> 'c \<Rightarrow> nat \<Rightarrow> 'w \<Rightarrow> ('b, 'c, 'w) EventLoop" where
  "EventLoop_new B now options requests control immediate timeout world =
     \<lparr>el_options = options,
      el_state = new_internal B now (opt_inflight options) (opt_ack_mode options),
      requests_rx = requests,
      control_requests_rx = control,
      immediate_disconnect_rx = immediate,
      el_pending = [],
      el_queued = OutboundScheduler_default,
      el_network = None,
      next_poll_source = PollSource_default,
      pending_connection_error = None,
      keepalive_timeout = None,
      keepalive_scan_deadline = None,
      session_client_id = None,
      el_session_store_key = None,
      session_store = SessionStoreState_new,
      connack_session = None,
      connection_timeout = timeout,
      pending_disconnect = None,
      disconnect_complete = False,
      el_world = world\<rparr>"

definition pending_len :: "('b, 'c, 'w) EventLoop \<Rightarrow> nat" where
  "pending_len self = length (el_pending self) + sched_len (el_queued self)"

definition pending_is_empty :: "('b, 'c, 'w) EventLoop \<Rightarrow> bool" where
  "pending_is_empty self \<longleftrightarrow> el_pending self = [] \<and> sched_is_empty (el_queued self)"

text \<open>The requests of a channel that survive a reconnect, in front of which they were pending.\<close>

abbreviation replayed :: "RequestEnvelope list \<Rightarrow> RequestEnvelope list" where
  "replayed \<equiv> filter (\<lambda>envelope. should_replay_after_reconnect (env_request envelope))"

definition drain_channels_to_pending ::
  "('c, RequestEnvelope) channel_ops \<Rightarrow> ('b, 'c, 'w) EventLoop \<Rightarrow> ('b, 'c, 'w) EventLoop" where
  "drain_channels_to_pending C self =
     (case ch_drain C (requests_rx self) of (requests, rx) \<Rightarrow>
      case ch_drain C (control_requests_rx self) of (controls, control_rx) \<Rightarrow>
        self\<lparr>el_pending := el_pending self @ replayed requests @ replayed controls,
          requests_rx := rx, control_requests_rx := control_rx\<rparr>)"

definition EventLoop_clean ::
  "'b bitset_ops \<Rightarrow> ('c, RequestEnvelope) channel_ops \<Rightarrow> (('b, 'c, 'w) EventLoop, 'e, unit) sm" where
  "EventLoop_clean B C =
     andThen (modify (\<lambda>self. self\<lparr>el_network := None, connack_session := None, keepalive_timeout := None,
       keepalive_scan_deadline := None, pending_disconnect := None\<rparr>)) (\<lambda>_.
     andThen (on_state (clean_with_notices_for_reconnect B)) (\<lambda>cleaned.
     andThen (modify (\<lambda>self. self\<lparr>el_pending := el_pending self @ map (\<lambda>clean.
       from_parts_with_replay (clean_request clean) (clean_notice clean) (clean_replay clean)) cleaned\<rparr>)) (\<lambda>_.
     andThen (modify (\<lambda>self. case sched_drain (el_queued self) of (envelopes, queued) \<Rightarrow>
       self\<lparr>el_pending := el_pending self @ replayed envelopes, el_queued := queued\<rparr>)) (\<lambda>_.
     modify (drain_channels_to_pending C)))))"

definition discard_pending_manual_acknowledgements ::
  "('c, RequestEnvelope) channel_ops \<Rightarrow> ('b, 'c, 'w) EventLoop \<Rightarrow> ('b, 'c, 'w) EventLoop" where
  "discard_pending_manual_acknowledgements C self =
     drain_channels_to_pending C (self\<lparr>el_pending := replayed (el_pending self),
       el_queued := fold sched_push_back (replayed (sched_queue (el_queued self))) (sched_clear (el_queued self))\<rparr>)"

definition all_request_sources_drained ::
  "'b bitset_ops \<Rightarrow> ('c, RequestEnvelope) channel_ops \<Rightarrow> ('b, 'c, 'w) EventLoop \<Rightarrow> bool" where
  "all_request_sources_drained B C self \<longleftrightarrow>
     sched_is_empty (el_queued self)
     \<and> el_pending self = []
     \<and> pending_disconnect self = None
     \<and> ch_is_disconnected C (requests_rx self)
     \<and> ch_is_empty C (requests_rx self)
     \<and> ch_is_disconnected C (control_requests_rx self)
     \<and> ch_is_empty C (control_requests_rx self)
     \<and> outbound_requests_drained B (el_state self)"

fun fail_tracked_notice :: "NoticeFailureReason \<Rightarrow> TrackedNoticeTx \<Rightarrow> NoticeSent" where
  "fail_tracked_notice reason (TrackedPublish notice) = PublishNoticeTx_error notice (publish_error reason)"
| "fail_tracked_notice reason (TrackedSubscribe notice) = SubscribeNoticeTx_error notice (subscribe_error reason)"
| "fail_tracked_notice reason (TrackedUnsubscribe notice) = UnsubscribeNoticeTx_error notice (unsubscribe_error reason)"

definition drain_pending_as_failed ::
  "NoticeFailureReason \<Rightarrow> (('b, 'c, 'w) EventLoop, 'e, nat) sm" where
  "drain_pending_as_failed reason =
     andThen (gets (\<lambda>self. el_pending self @ fst (sched_drain (el_queued self)))) (\<lambda>envelopes.
     andThen (modify (\<lambda>self. self\<lparr>el_pending := [], el_queued := snd (sched_drain (el_queued self))\<rparr>)) (\<lambda>_.
     andThen (send_notices (map (fail_tracked_notice reason) (List.map_filter env_notice envelopes))) (\<lambda>_.
     ret (length envelopes))))"

definition drop_unprocessed_requests ::
  "('c, RequestEnvelope) channel_ops \<Rightarrow> ('b, 'c, 'w) EventLoop \<Rightarrow> ('b, 'c, 'w) EventLoop" where
  "drop_unprocessed_requests C self =
     self\<lparr>el_pending := [], el_queued := sched_clear (el_queued self),
       requests_rx := snd (ch_drain C (requests_rx self)),
       control_requests_rx := snd (ch_drain C (control_requests_rx self))\<rparr>"

section \<open>Session state and session store\<close>

definition reset_session_state_internal ::
  "'b bitset_ops \<Rightarrow> 'w world_ops \<Rightarrow> SessionStoreResetAction \<Rightarrow> (('b, 'c, 'w) EventLoop, 'e, unit) sm" where
  "reset_session_state_internal B W store_reset =
     andThen (drain_pending_as_failed FailSessionReset) (\<lambda>_.
     andThen (instant_now W) (\<lambda>now.
     andThen (on_state (reset_session_state B now)) (\<lambda>_.
     modify (\<lambda>self. self\<lparr>connack_session := None, session_client_id := None, el_session_store_key := None,
       session_store := (session_store self)\<lparr>ss_loaded := False,
         ss_clear_pending := ss_clear_pending (session_store self) \<or> store_reset = ClearStore\<rparr>\<rparr>))))"

definition EventLoop_reset_session_state ::
  "'b bitset_ops \<Rightarrow> 'w world_ops \<Rightarrow> (('b, 'c, 'w) EventLoop, 'e, unit) sm" where
  "EventLoop_reset_session_state B W = reset_session_state_internal B W ClearStore"

definition reset_session_state_without_store_invalidation ::
  "'b bitset_ops \<Rightarrow> 'w world_ops \<Rightarrow> (('b, 'c, 'w) EventLoop, 'e, unit) sm" where
  "reset_session_state_without_store_invalidation B W = reset_session_state_internal B W KeepStore"

definition reset_session_state_if_client_id_changed ::
  "'b bitset_ops \<Rightarrow> 'w world_ops \<Rightarrow> (('b, 'c, 'w) EventLoop, 'e, unit) sm" where
  "reset_session_state_if_client_id_changed B W =
     andThen (gets (\<lambda>self. session_store_key (el_options self))) (\<lambda>current_key.
     andThen (gets el_session_store_key) (\<lambda>key.
     if key = Some current_key then ret ()
     else
       andThen (if key \<noteq> None then reset_session_state_without_store_invalidation B W else ret ()) (\<lambda>_.
       modify (\<lambda>self. self\<lparr>session_client_id := None, el_session_store_key := None,
         session_store := (session_store self)\<lparr>ss_loaded := False\<rparr>\<rparr>))))"

definition mark_store :: "bool \<Rightarrow> (('b, 'c, 'w) EventLoop, 'e, unit) sm" where
  "mark_store cleared = modify (\<lambda>self. self\<lparr>session_store := (session_store self)\<lparr>ss_loaded := True,
     ss_clear_pending := ss_clear_pending (session_store self) \<and> \<not> cleared\<rparr>\<rparr>)"

definition clear_persisted_session :: "'w world_ops \<Rightarrow> ('b, 'c, 'w, unit) el" where
  "clear_persisted_session W =
     andThen (gets el_options) (\<lambda>options.
     case opt_session_store options of
       None \<Rightarrow> mark_store True
     | Some _ \<Rightarrow>
         andThen (on_world (store_clear W (session_store_key options))) (\<lambda>r.
         andThen (map_err ConnSessionStore (from_result r)) (\<lambda>_.
         mark_store True)))"

definition clear_persisted_session_or_block_reload :: "'w world_ops \<Rightarrow> ('b, 'c, 'w, unit) el" where
  "clear_persisted_session_or_block_reload W =
     andThen (modify (\<lambda>self. self\<lparr>session_store := (session_store self)\<lparr>ss_clear_pending := True\<rparr>\<rparr>)) (\<lambda>_.
     clear_persisted_session W)"

definition load_persisted_session_if_needed :: "'b bitset_ops \<Rightarrow> 'w world_ops \<Rightarrow> ('b, 'c, 'w, unit) el" where
  "load_persisted_session_if_needed B W =
     andThen (gets session_store) (\<lambda>store.
     andThen (gets el_options) (\<lambda>options.
     if ss_clear_pending store then clear_persisted_session W
     else if ss_loaded store \<or> opt_clean_session options then mark_store False
     else
       case opt_session_store options of
         None \<Rightarrow> mark_store True
       | Some _ \<Rightarrow>
           let key = session_store_key options in
           andThen (on_world (store_load W key)) (\<lambda>r.
           andThen (map_err ConnSessionStore (from_result r)) (\<lambda>loaded.
           case loaded of
             None \<Rightarrow> mark_store False
           | Some session \<Rightarrow>
               andThen (instant_now W) (\<lambda>now.
               andThen (map_err ConnSessionRestore (on_state (restore_persisted_session B now options session))) (\<lambda>replay.
               andThen (modify (\<lambda>self. self\<lparr>el_pending := el_pending self @ map plain_replay replay,
                 session_client_id := Some (ssk_client_id key), el_session_store_key := Some key\<rparr>)) (\<lambda>_.
               mark_store False)))))))"

text \<open>The requests of the queues that belong to the saved session.\<close>

definition replay_requests :: "('b, 'c, 'w) EventLoop \<Rightarrow> Request list" where
  "replay_requests self = map env_request (filter env_replay (el_pending self @ sched_queue (el_queued self)))"

definition persisted_session_save ::
  "'b bitset_ops \<Rightarrow> (('b, 'c, 'w) EventLoop, 'e, (SessionStoreKey \<times> PersistedSession) option) sm" where
  "persisted_session_save B =
     andThen (gets el_options) (\<lambda>options.
     if opt_clean_session options then ret None
     else
       case opt_session_store options of
         None \<Rightarrow> ret None
       | Some _ \<Rightarrow>
           andThen (gets replay_requests) (\<lambda>requests.
           andThen (on_state (persisted_session B options requests)) (\<lambda>session.
           ret (Some (session_store_key options, session)))))"

definition save_persisted_session :: "'b bitset_ops \<Rightarrow> 'w world_ops \<Rightarrow> ('b, 'c, 'w, unit) el" where
  "save_persisted_session B W =
     andThen (persisted_session_save B) (\<lambda>save.
     case save of
       None \<Rightarrow> ret ()
     | Some (key, session) \<Rightarrow>
         andThen (on_world (store_save W key session)) (\<lambda>r.
         andThen (map_err ConnSessionStore (from_result r)) (\<lambda>_.
         mark_store True)))"

text \<open>The vector \<open>qos0_notices\<close> of the caller is passed in and returned.\<close>

definition persist_session_or_fail_qos0_notices ::
  "'b bitset_ops \<Rightarrow> 'w world_ops \<Rightarrow> PublishNoticeTx list \<Rightarrow> PublishNoticeTx option
    \<Rightarrow> ('b, 'c, 'w, PublishNoticeTx list) el" where
  "persist_session_or_fail_qos0_notices B W qos0_notices flush_notice =
     (let notices = qos0_notices @ (case flush_notice of None \<Rightarrow> [] | Some notice \<Rightarrow> [notice]) in
      andThen (attempt (save_persisted_session B W)) (\<lambda>r.
      case r of
        Inl err \<Rightarrow>
          andThen (send_notices (map (\<lambda>notice.
            PublishNoticeTx_error notice (PublishSessionPersistence (error_text W err))) notices)) (\<lambda>_.
          fail err)
      | Inr _ \<Rightarrow> ret notices))"

section \<open>Connecting\<close>

definition within_deadline :: "('w \<Rightarrow> (ConnectionError + 'a) option \<times> 'w) \<Rightarrow> ('b, 'c, 'w, 'a) el" where
  "within_deadline f =
     andThen (on_world f) (\<lambda>r.
     case r of None \<Rightarrow> fail ConnNetworkTimeout | Some r \<Rightarrow> from_result r)"

definition network_connect :: "'w world_ops \<Rightarrow> MqttOptions \<Rightarrow> nat \<Rightarrow> ('b, 'c, 'w, unit) el" where
  "network_connect W options deadline =
     (case opt_transport options of
        TransportUnix \<Rightarrow>
          andThen (ok_or (unix_path (opt_broker options)) ConnBrokerTransportMismatch) (\<lambda>path.
          within_deadline (unix_connect W path deadline))
      | transport \<Rightarrow>
          andThen (case transport of
              TransportWs \<Rightarrow>
                andThen (ok_or (websocket_url (opt_broker options)) ConnBrokerTransportMismatch) (\<lambda>url.
                map_err ConnInvalidUrl (lift (split_url (world_urls W) url)))
            | TransportWss _ \<Rightarrow>
                andThen (ok_or (websocket_url (opt_broker options)) ConnBrokerTransportMismatch) (\<lambda>url.
                map_err ConnInvalidUrl (lift (split_url_with_default_port (world_urls W) url (Some 443))))
            | _ \<Rightarrow> ok_or (tcp_address (opt_broker options)) ConnBrokerTransportMismatch) (\<lambda>(domain, port).
          andThen (within_deadline (socket_connect W domain port deadline)) (\<lambda>_.
          let websocket =
                andThen (ok_or (websocket_url (opt_broker options)) ConnBrokerTransportMismatch) (\<lambda>url.
                within_deadline (websocket_connect W url deadline)) in
          case transport of
            TransportTls tls_config \<Rightarrow> within_deadline (tls_connect W domain port tls_config deadline)
          | TransportWs \<Rightarrow> websocket
          | TransportWss tls_config \<Rightarrow>
              andThen (within_deadline (tls_connect W domain port tls_config deadline)) (\<lambda>_. websocket)
          | _ \<Rightarrow> ret ())))"

definition connect_packet :: "MqttOptions \<Rightarrow> Connect" where
  "connect_packet options =
     (let seconds = opt_keep_alive options div 1000000 in
      (Connect_new (opt_client_id options))\<lparr>
        keep_alive := (case u16_try_from seconds of Some n \<Rightarrow> n | None \<Rightarrow> - 1),
        clean_session := opt_clean_session options,
        last_will := opt_last_will options,
        connect_auth := opt_auth options\<rparr>)"

definition mqtt_connect :: "'w world_ops \<Rightarrow> MqttOptions \<Rightarrow> nat \<Rightarrow> ('b, 'c, 'w, ConnAck) el" where
  "mqtt_connect W options deadline =
     (let timed = (\<lambda>f. andThen (on_world f) (\<lambda>r.
        case r of None \<Rightarrow> fail ConnNetworkTimeout | Some r \<Rightarrow> map_err (\<lambda>e. ConnMqttState (Deserialization e)) (from_result r))) in
      andThen (timed (framed_feed_until W deadline (PktConnect (connect_packet options)))) (\<lambda>_.
      andThen (timed (framed_flush_until W deadline)) (\<lambda>_.
      andThen (Network_read W deadline) (\<lambda>packet.
      case packet of
        PktConnAck connack \<Rightarrow>
          if connack_code connack = ConnSuccess then ret connack else fail (ConnRefused (connack_code connack))
      | _ \<Rightarrow> fail (ConnNotConnAck packet)))))"

definition connect :: "'w world_ops \<Rightarrow> MqttOptions \<Rightarrow> nat \<Rightarrow> ('b, 'c, 'w, ConnAck) el" where
  "connect W options deadline =
     andThen (network_connect W options deadline) (\<lambda>_.
     mqtt_connect W options deadline)"

definition reconcile_connack_session ::
  "'b bitset_ops \<Rightarrow> 'w world_ops \<Rightarrow> bool \<Rightarrow> ('b, 'c, 'w, SessionReconciliation) el" where
  "reconcile_connack_session B W present =
     andThen (gets el_options) (\<lambda>options.
     let clean = opt_clean_session options;
         mismatch = (clean \<and> present) in
     andThen
       (if mismatch then
          (case opt_session_present_mismatch options of
             MismatchError \<Rightarrow> fail (ConnSessionStateMismatch clean present)
           | MismatchAcceptAsClean \<Rightarrow> ret (Some SessionPresentMismatchAcceptedAsClean))
        else ret None) (\<lambda>diagnostic.
     let reconciliation =
           \<lparr>rec_disposition = (if clean \<or> \<not> present then Fresh else Resumed), rec_diagnostic = diagnostic\<rparr> in
     andThen (if is_fresh reconciliation then reset_session_state_without_store_invalidation B W else ret ()) (\<lambda>_.
     ret reconciliation)))"

definition ticks :: "nat \<Rightarrow> nat" where
  "ticks seconds = seconds * 1000000"

definition establish_connection :: "'b bitset_ops \<Rightarrow> 'w world_ops \<Rightarrow> ('b, 'c, 'w, Event) el" where
  "establish_connection B W =
     andThen (reset_session_state_if_client_id_changed B W) (\<lambda>_.
     andThen (load_persisted_session_if_needed B W) (\<lambda>_.
     andThen (gets el_options) (\<lambda>options.
     andThen (gets connection_timeout) (\<lambda>timeout.
     andThen (instant_now W) (\<lambda>now.
     andThen (connect W options (now + ticks timeout)) (\<lambda>connack.
     andThen (reconcile_connack_session B W (session_present connack)) (\<lambda>reconciliation.
     andThen (if is_fresh reconciliation then clear_persisted_session_or_block_reload W else ret ()) (\<lambda>_.
     andThen (modify (\<lambda>self. self\<lparr>session_client_id := Some (opt_client_id options),
       el_session_store_key := Some (session_store_key options),
       el_network := Some \<lparr>write_deadline = None\<rparr>,
       connack_session := Some (reconciliation_diagnostics (session_present connack) reconciliation)\<rparr>)) (\<lambda>_.
     andThen (instant_now W) (\<lambda>now.
     andThen (modify (\<lambda>self.
       if keepalive_timeout self = None \<and> opt_keep_alive options \<noteq> 0
       then self\<lparr>keepalive_timeout := Some (now + opt_keep_alive options)\<rparr> else self)) (\<lambda>_.
     ret (EvIncoming (PktConnAck connack)))))))))))))"

section \<open>Timers\<close>

definition response_write_deadline :: "'w world_ops \<Rightarrow> (('b, 'c, 'w) EventLoop, 'e, nat) sm" where
  "response_write_deadline W = gets (\<lambda>self. clock W (el_world self) + ticks (connection_timeout self))"

definition close_timed_out_transport :: "('b, 'c, 'w) EventLoop \<Rightarrow> ('b, 'c, 'w) EventLoop" where
  "close_timed_out_transport self =
     self\<lparr>el_network := None, keepalive_timeout := None, keepalive_scan_deadline := None, connack_session := None\<rparr>"

fun is_timed_out :: "ConnectionError \<Rightarrow> bool" where
  "is_timed_out (ConnMqttState (StateIo kind _)) \<longleftrightarrow> kind = IoTimedOut"
| "is_timed_out _ \<longleftrightarrow> False"

definition defer_connection_error :: "ConnectionError \<Rightarrow> ('b, 'c, 'w, Event) el" where
  "defer_connection_error error =
     andThen (if is_timed_out error \<or> error = ConnDisconnectTimeout \<or> error = ConnFlushTimeout
        then modify close_timed_out_transport else ret ()) (\<lambda>_.
     andThen pop_event (\<lambda>event.
     case event of
       Some event \<Rightarrow>
         andThen (modify (\<lambda>self. self\<lparr>pending_connection_error := Some error\<rparr>)) (\<lambda>_.
         ret event)
     | None \<Rightarrow> fail error))"

abbreviation await_pingresp :: "('b, 'c, 'w) EventLoop \<Rightarrow> bool" where
  "await_pingresp self \<equiv> PingState_await_pingresp (ping (el_state self))"

definition check_keepalive_scan_timeout :: "'w world_ops \<Rightarrow> ('b, 'c, 'w, unit) el" where
  "check_keepalive_scan_timeout W =
     andThen (gets keepalive_scan_deadline) (\<lambda>scan.
     case scan of
       None \<Rightarrow> ret ()
     | Some deadline \<Rightarrow>
         andThen (gets (\<lambda>self. \<not> await_pingresp self \<or> opt_keep_alive (el_options self) = 0)) (\<lambda>over.
         andThen (instant_now W) (\<lambda>now.
         if over then modify (\<lambda>self. self\<lparr>keepalive_scan_deadline := None\<rparr>)
         else if deadline \<le> now then fail (ConnMqttState AwaitPingResp)
         else ret ())))"

definition reset_keepalive_timeout ::
  "'w world_ops \<Rightarrow> ('b, 'c, 'w) EventLoop \<Rightarrow> ('b, 'c, 'w) EventLoop" where
  "reset_keepalive_timeout W self =
     (if opt_keep_alive (el_options self) = 0 then self\<lparr>keepalive_scan_deadline := None\<rparr>
      else if await_pingresp self \<and> keepalive_scan_deadline self \<noteq> None then self
      else self\<lparr>keepalive_scan_deadline := None,
        keepalive_timeout := map_option (\<lambda>_. clock W (el_world self) + opt_keep_alive (el_options self)) (keepalive_timeout self)\<rparr>)"

definition effective_read_batch_size ::
  "('c, RequestEnvelope) channel_ops \<Rightarrow> ('b, 'c, 'w) EventLoop \<Rightarrow> nat" where
  "effective_read_batch_size C self =
     (let configured = opt_read_batch_size (el_options self) in
      if configured > 0 then min (max configured 1) 128
      else
        let request_batch = max (opt_max_request_batch (el_options self)) 1;
            window = unat (opt_inflight (el_options self));
            adaptive = max (max request_batch (window div 2)) 8;
            adaptive =
              (if el_pending self \<noteq> [] \<or> \<not> sched_is_empty (el_queued self)
                 \<or> \<not> ch_is_empty C (requests_rx self) \<or> \<not> ch_is_empty C (control_requests_rx self)
               then min adaptive 16 else adaptive) in
        min (max adaptive 1) 128)"

section \<open>Writing requests\<close>

definition flush_network :: "'w world_ops \<Rightarrow> ('b, 'c, 'w, unit) el" where
  "flush_network W =
     andThen (gets el_network) (\<lambda>n.
     andThen (expect n) (\<lambda>_.
     andThen (response_write_deadline W) (\<lambda>deadline.
     andThen (on_world (framed_flush_until W deadline)) (\<lambda>r.
     case r of
       None \<Rightarrow> fail ConnFlushTimeout
     | Some r \<Rightarrow> map_err (\<lambda>e. ConnMqttState (Deserialization e)) (from_result r)))))"

definition flush_request_batch :: "'w world_ops \<Rightarrow> bool \<Rightarrow> PublishNoticeTx list \<Rightarrow> ('b, 'c, 'w, unit) el" where
  "flush_request_batch W should_flush qos0_notices =
     (if \<not> should_flush then ret ()
      else
        andThen (attempt (flush_network W)) (\<lambda>r.
        case r of
          Inr _ \<Rightarrow>
            andThen (send_notices (map (\<lambda>notice. PublishNoticeTx_success notice Qos0Flushed) qos0_notices)) (\<lambda>_.
            modify (reset_keepalive_timeout W))
        | Inl err \<Rightarrow>
            andThen (send_notices (map (\<lambda>notice. PublishNoticeTx_error notice Qos0NotFlushed) qos0_notices)) (\<lambda>_.
            fail err)))"

text \<open>The caller's \<open>should_flush\<close> and \<open>qos0_notices\<close> are passed in and returned.\<close>

definition handle_protocol_request ::
  "'b bitset_ops \<Rightarrow> 'w world_ops \<Rightarrow> RequestEnvelope \<Rightarrow> bool \<Rightarrow> PublishNoticeTx list
    \<Rightarrow> ('b, 'c, 'w, BatchControl \<times> bool \<times> PublishNoticeTx list) el" where
  "handle_protocol_request B W envelope should_flush qos0_notices =
     andThen (instant_now W) (\<lambda>now.
     andThen (state_call
       (if env_replay envelope
        then handle_replayed_outgoing_packet_with_notice B now (env_request envelope) (env_notice envelope)
        else handle_outgoing_packet_with_notice B now (env_request envelope) (env_notice envelope)))
       (\<lambda>(outgoing, flush_notice).
     andThen (persist_session_or_fail_qos0_notices B W qos0_notices flush_notice) (\<lambda>qos0_notices.
     case outgoing of
       None \<Rightarrow> ret (BatchContinue, should_flush, qos0_notices)
     | Some outgoing \<Rightarrow>
         andThen (attempt (Network_write_request W outgoing)) (\<lambda>r.
         case r of
           Inl err \<Rightarrow>
             andThen (send_notices (map (\<lambda>notice. PublishNoticeTx_error notice Qos0NotFlushed) qos0_notices)) (\<lambda>_.
             fail (ConnMqttState err))
         | Inr _ \<Rightarrow> ret (BatchContinue, True, qos0_notices)))))"

definition handle_disconnect_now ::
  "'b bitset_ops \<Rightarrow> 'w world_ops \<Rightarrow> RequestEnvelope \<Rightarrow> bool \<Rightarrow> PublishNoticeTx list
    \<Rightarrow> ('b, 'c, 'w, BatchControl \<times> bool \<times> PublishNoticeTx list) el" where
  "handle_disconnect_now B W envelope should_flush qos0_notices =
     andThen (instant_now W) (\<lambda>now.
     andThen (state_call (handle_outgoing_packet_with_notice B now (env_request envelope) (env_notice envelope)))
       (\<lambda>(outgoing, _).
     andThen (save_persisted_session B W) (\<lambda>_.
     andThen
       (case outgoing of
          None \<Rightarrow> ret should_flush
        | Some outgoing \<Rightarrow>
            andThen (map_err ConnMqttState (Network_write_request W outgoing)) (\<lambda>_.
            ret True)) (\<lambda>should_flush.
     andThen (modify (\<lambda>self. self\<lparr>disconnect_complete := True\<rparr>)) (\<lambda>_.
     ret (BatchStop, should_flush, qos0_notices))))))"

definition handle_request ::
  "'b bitset_ops \<Rightarrow> 'w world_ops \<Rightarrow> RequestEnvelope \<Rightarrow> bool \<Rightarrow> PublishNoticeTx list
    \<Rightarrow> ('b, 'c, 'w, BatchControl \<times> bool \<times> PublishNoticeTx list) el" where
  "handle_request B W envelope should_flush qos0_notices =
     (case env_request envelope of
        ReqDisconnect _ \<Rightarrow>
          andThen (instant_now W) (\<lambda>now.
          andThen (modify (\<lambda>self. self\<lparr>pending_disconnect := Some (PendingDisconnect_new now None)\<rparr>)) (\<lambda>_.
          ret (BatchStop, should_flush, qos0_notices)))
      | ReqDisconnectWithTimeout _ timeout \<Rightarrow>
          andThen (instant_now W) (\<lambda>now.
          andThen (modify (\<lambda>self. self\<lparr>pending_disconnect := Some (PendingDisconnect_new now (Some timeout))\<rparr>)) (\<lambda>_.
          ret (BatchStop, should_flush, qos0_notices)))
      | ReqDisconnectNow _ \<Rightarrow> handle_disconnect_now B W envelope should_flush qos0_notices
      | _ \<Rightarrow> handle_protocol_request B W envelope should_flush qos0_notices)"

definition next_scheduled_request ::
  "'b bitset_ops \<Rightarrow> (('b, 'c, 'w) EventLoop, 'e, RequestEnvelope option) sm" where
  "next_scheduled_request B =
     (\<lambda>self. case pop_next (classify_envelope B (el_state self)) (el_queued self) of
        (envelope, queued) \<Rightarrow> (Ok envelope, self\<lparr>el_queued := queued\<rparr>))"

text \<open>The rest of the batch: at most \<open>n\<close> further requests.\<close>

primrec request_batch ::
  "'b bitset_ops \<Rightarrow> 'w world_ops \<Rightarrow> nat \<Rightarrow> bool \<Rightarrow> PublishNoticeTx list
    \<Rightarrow> ('b, 'c, 'w, bool \<times> PublishNoticeTx list) el" where
  "request_batch B W 0 should_flush qos0_notices = ret (should_flush, qos0_notices)"
| "request_batch B W (Suc n) should_flush qos0_notices =
     andThen (next_scheduled_request B) (\<lambda>next.
     case next of
       None \<Rightarrow> ret (should_flush, qos0_notices)
     | Some envelope \<Rightarrow>
         andThen (handle_request B W envelope should_flush qos0_notices) (\<lambda>(control, should_flush, qos0_notices).
         case control of
           BatchContinue \<Rightarrow> request_batch B W n should_flush qos0_notices
         | BatchStop \<Rightarrow> ret (should_flush, qos0_notices)))"

definition handle_ready_requests :: "'b bitset_ops \<Rightarrow> 'w world_ops \<Rightarrow> ('b, 'c, 'w, bool) el" where
  "handle_ready_requests B W =
     andThen (next_scheduled_request B) (\<lambda>next.
     case next of
       None \<Rightarrow> ret False
     | Some envelope \<Rightarrow>
         andThen (handle_request B W envelope False []) (\<lambda>(control, should_flush, qos0_notices).
         andThen
           (case control of
              BatchContinue \<Rightarrow>
                andThen (gets (\<lambda>self. max (opt_max_request_batch (el_options self)) 1 - 1)) (\<lambda>n.
                request_batch B W n should_flush qos0_notices)
            | BatchStop \<Rightarrow> ret (should_flush, qos0_notices)) (\<lambda>(should_flush, qos0_notices).
         andThen (flush_request_batch W should_flush qos0_notices) (\<lambda>_.
         ret True))))"

definition handle_immediate_disconnect ::
  "'b bitset_ops \<Rightarrow> 'w world_ops \<Rightarrow> RequestEnvelope \<Rightarrow> ('b, 'c, 'w, Event) el" where
  "handle_immediate_disconnect B W envelope =
     andThen (handle_request B W envelope False []) (\<lambda>(_, should_flush, qos0_notices).
     andThen (flush_request_batch W should_flush qos0_notices) (\<lambda>_.
     andThen pop_event expect))"

section \<open>Reading\<close>

text \<open>
  The flush of a read batch runs under two deadlines, that of the batch and the connection timeout; the one of
  the batch is looked at first.
\<close>

definition flush_read_batch :: "'w world_ops \<Rightarrow> ('b, 'c, 'w, unit) el" where
  "flush_read_batch W =
     andThen (gets el_network) (\<lambda>n.
     andThen (expect n) (\<lambda>network.
     andThen (response_write_deadline W) (\<lambda>outer.
     let until = (case write_deadline network of None \<Rightarrow> outer | Some inner \<Rightarrow> min inner outer) in
     andThen (on_world (framed_flush_until W until)) (\<lambda>r.
     case r of
       Some r \<Rightarrow> map_err (\<lambda>e. ConnMqttState (Deserialization e)) (from_result r)
     | None \<Rightarrow>
         (case write_deadline network of
            Some inner \<Rightarrow>
              if inner \<le> outer
              then fail (ConnMqttState (StateIo IoTimedOut (ascii ''network response write timed out'')))
              else fail ConnFlushTimeout
          | None \<Rightarrow> fail ConnFlushTimeout)))))"

definition complete_read_batch ::
  "'b bitset_ops \<Rightarrow> 'w world_ops \<Rightarrow> ReadBatch \<Rightarrow> ('b, 'c, 'w, ReadBatchOutcome) el" where
  "complete_read_batch B W batch =
     andThen (attempt (save_persisted_session B W)) (\<lambda>r.
     case r of
       Inl err \<Rightarrow>
         andThen (send_notices (map (\<lambda>notice. DeferredNotice_persistence_error notice (error_text W err)) (rb_notices batch))) (\<lambda>_.
         fail err)
     | Inr _ \<Rightarrow>
         andThen (attempt (flush_read_batch W)) (\<lambda>flush_result.
         andThen (send_notices (map DeferredNotice_complete (rb_notices batch))) (\<lambda>_.
         andThen (from_result flush_result) (\<lambda>_.
         ret (rb_outcome batch)))))"

text \<open>The error to return.\<close>

definition complete_failed_read_batch ::
  "'b bitset_ops \<Rightarrow> 'w world_ops \<Rightarrow> ReadBatchError \<Rightarrow> (('b, 'c, 'w) EventLoop, 'e, ConnectionError) sm" where
  "complete_failed_read_batch B W error =
     (let notices = rb_notices (rbe_batch error) in
      if notices = [] then ret (ConnMqttState (rbe_source error))
      else
        andThen (attempt (save_persisted_session B W)) (\<lambda>r.
        case r of
          Inl err \<Rightarrow>
            andThen (send_notices (map (\<lambda>notice. DeferredNotice_persistence_error notice (error_text W err)) notices)) (\<lambda>_.
            ret err)
        | Inr _ \<Rightarrow>
            andThen (send_notices (map DeferredNotice_complete notices)) (\<lambda>_.
            ret (ConnMqttState (rbe_source error)))))"

definition complete_network_read ::
  "'b bitset_ops \<Rightarrow> 'w world_ops \<Rightarrow> ReadBatchError + ReadBatch \<Rightarrow> ('b, 'c, 'w, unit) el" where
  "complete_network_read B W batch =
     (case batch of
        Inl err \<Rightarrow> andThen (complete_failed_read_batch B W err) fail
      | Inr batch \<Rightarrow>
          andThen (complete_read_batch B W batch) (\<lambda>outcome.
          if outcome = ResponseWritten then modify (reset_keepalive_timeout W) else ret ()))"

definition replace_write_deadline :: "nat option \<Rightarrow> ('b, 'c, 'w) EventLoop \<Rightarrow> ('b, 'c, 'w) EventLoop" where
  "replace_write_deadline deadline self =
     self\<lparr>el_network := map_option (\<lambda>network. network\<lparr>write_deadline := deadline\<rparr>) (el_network self)\<rparr>"

text \<open>\<open>ResponseWriteDeadlineGuard\<close> restores the deadline however the batch ends.\<close>

definition read_network_batch ::
  "'b bitset_ops \<Rightarrow> 'w world_ops \<Rightarrow> IncomingFrame \<Rightarrow> nat \<Rightarrow> nat \<Rightarrow> ('b, 'c, 'w, unit) el" where
  "read_network_batch B W first read_batch_size deadline =
     andThen (gets keepalive_scan_deadline) (\<lambda>scan.
     let deadline = (case scan of None \<Rightarrow> deadline | Some scan_deadline \<Rightarrow> min scan_deadline deadline) in
     andThen (gets el_network) (\<lambda>n.
     andThen (expect n) (\<lambda>network.
     andThen (modify (replace_write_deadline (Some deadline))) (\<lambda>_.
     andThen (readb_from B W first read_batch_size) (\<lambda>batch.
     andThen (case batch of
         Inl error \<Rightarrow> if is_timed_out (ConnMqttState (rbe_source error)) then modify close_timed_out_transport else ret ()
       | Inr _ \<Rightarrow> ret ()) (\<lambda>_.
     andThen (attempt (complete_network_read B W batch)) (\<lambda>result.
     andThen (case result of
         Inl error \<Rightarrow> if is_timed_out error then modify close_timed_out_transport else ret ()
       | Inr _ \<Rightarrow> ret ()) (\<lambda>_.
     andThen (modify (replace_write_deadline (write_deadline network))) (\<lambda>_.
     from_result result)))))))))"

definition handle_network_read ::
  "'b bitset_ops \<Rightarrow> ('c, RequestEnvelope) channel_ops \<Rightarrow> 'w world_ops \<Rightarrow> IncomingFrame \<Rightarrow> ('b, 'c, 'w, Event) el" where
  "handle_network_read B C W first =
     andThen (gets (effective_read_batch_size C)) (\<lambda>read_batch_size.
     andThen (response_write_deadline W) (\<lambda>deadline.
     andThen (attempt (read_network_batch B W first read_batch_size deadline)) (\<lambda>r.
     case r of
       Inr _ \<Rightarrow> andThen pop_event expect
     | Inl error \<Rightarrow> defer_connection_error error)))"

section \<open>Keep-alive\<close>

primrec scan_ready_packets :: "'b bitset_ops \<Rightarrow> 'w world_ops \<Rightarrow> nat \<Rightarrow> nat \<Rightarrow> ('b, 'c, 'w, bool) el" where
  "scan_ready_packets B W deadline 0 = ret True"
| "scan_ready_packets B W deadline (Suc n) =
     andThen (gets el_network) (\<lambda>network.
     andThen (expect network) (\<lambda>_.
     andThen (on_world (framed_next W)) (\<lambda>frame.
     case frame of
       None \<Rightarrow> ret False
     | Some first \<Rightarrow>
         andThen (read_network_batch B W first 1 deadline) (\<lambda>_.
         andThen (gets await_pingresp) (\<lambda>awaiting.
         if \<not> awaiting then
           andThen (modify (\<lambda>self. self\<lparr>keepalive_scan_deadline := None\<rparr>)) (\<lambda>_.
           ret True)
         else scan_ready_packets B W deadline n)))))"

definition scan_keepalive_response :: "'b bitset_ops \<Rightarrow> 'w world_ops \<Rightarrow> ('b, 'c, 'w, Event option) el" where
  "scan_keepalive_response B W =
     andThen (gets keepalive_scan_deadline) (\<lambda>scan.
     andThen (response_write_deadline W) (\<lambda>fresh.
     let deadline = (case scan of Some deadline \<Rightarrow> deadline | None \<Rightarrow> fresh) in
     andThen (modify (\<lambda>self. self\<lparr>keepalive_scan_deadline := Some deadline\<rparr>)) (\<lambda>_.
     andThen (scan_ready_packets B W deadline 128) (\<lambda>read_some.
     if \<not> read_some then ret None
     else
       andThen pop_event (\<lambda>event.
       andThen (expect event) (\<lambda>event.
       ret (Some event)))))))"

definition handle_keepalive_ping_inner :: "'b bitset_ops \<Rightarrow> 'w world_ops \<Rightarrow> ('b, 'c, 'w, Event) el" where
  "handle_keepalive_ping_inner B W =
     andThen (check_keepalive_scan_timeout W) (\<lambda>_.
     andThen (gets await_pingresp) (\<lambda>awaiting.
     andThen (if awaiting then scan_keepalive_response B W else ret None) (\<lambda>event.
     case event of
       Some event \<Rightarrow> ret event
     | None \<Rightarrow>
         andThen (instant_now W) (\<lambda>now.
         andThen (state_call (handle_outgoing_packet_with_notice B now ReqPingReq None)) (\<lambda>(outgoing, _).
         andThen (case outgoing of
             None \<Rightarrow> ret ()
           | Some outgoing \<Rightarrow> map_err ConnMqttState (Network_write W outgoing)) (\<lambda>_.
         andThen (flush_network W) (\<lambda>_.
         andThen (modify (reset_keepalive_timeout W)) (\<lambda>_.
         andThen pop_event expect))))))))"

definition handle_keepalive_ping :: "'b bitset_ops \<Rightarrow> 'w world_ops \<Rightarrow> ('b, 'c, 'w, Event) el" where
  "handle_keepalive_ping B W =
     andThen (gets await_pingresp) (\<lambda>awaiting.
     andThen (attempt (handle_keepalive_ping_inner B W)) (\<lambda>r.
     case r of
       Inl error \<Rightarrow> if awaiting then defer_connection_error error else fail error
     | Inr event \<Rightarrow> ret event))"

section \<open>Admission of requests\<close>

definition normal_request_admission_allowed :: "'b bitset_ops \<Rightarrow> ('b, 'c, 'w) EventLoop \<Rightarrow> bool" where
  "normal_request_admission_allowed B self \<longleftrightarrow>
     sched_is_empty (el_queued self) \<or> has_ready (classify_envelope B (el_state self)) (el_queued self)"

definition try_next_request ::
  "('c, RequestEnvelope) channel_ops \<Rightarrow> (('b, 'c, 'w) EventLoop, 'e, RequestEnvelope option) sm" where
  "try_next_request C =
     andThen (gets el_pending) (\<lambda>pending.
     case pending of
       envelope # pending \<Rightarrow>
         andThen (modify (\<lambda>self. self\<lparr>el_pending := pending\<rparr>)) (\<lambda>_.
         ret (Some envelope))
     | [] \<Rightarrow>
         andThen (recv_requests C) (\<lambda>r.
         ret (case r of Ok envelope \<Rightarrow> Some envelope | _ \<Rightarrow> None)))"

definition queue_push :: "RequestEnvelope \<Rightarrow> (('b, 'c, 'w) EventLoop, 'e, unit) sm" where
  "queue_push envelope = modify (\<lambda>self. self\<lparr>el_queued := sched_push_back envelope (el_queued self)\<rparr>)"

primrec admit_existing ::
  "'b bitset_ops \<Rightarrow> ('c, RequestEnvelope) channel_ops \<Rightarrow> nat \<Rightarrow> (('b, 'c, 'w) EventLoop, 'e, unit) sm" where
  "admit_existing B C 0 = ret ()"
| "admit_existing B C (Suc n) =
     andThen (gets (\<lambda>self. \<not> normal_request_admission_allowed B self \<and> el_pending self = [])) (\<lambda>closed.
     if closed then ret ()
     else
       andThen (try_next_request C) (\<lambda>next.
       case next of
         None \<Rightarrow> ret ()
       | Some envelope \<Rightarrow>
           andThen (queue_push envelope) (\<lambda>_.
           if is_disconnect_request (env_request envelope) then ret () else admit_existing B C n)))"

definition try_admit_existing_normal_requests ::
  "'b bitset_ops \<Rightarrow> ('c, RequestEnvelope) channel_ops \<Rightarrow> (('b, 'c, 'w) EventLoop, 'e, unit) sm" where
  "try_admit_existing_normal_requests B C =
     andThen (gets (\<lambda>self. length (el_pending self) + ch_len C (requests_rx self))) (\<lambda>ready.
     admit_existing B C ready)"

primrec admit_batch ::
  "('c, RequestEnvelope) channel_ops \<Rightarrow> nat \<Rightarrow> (('b, 'c, 'w) EventLoop, 'e, unit) sm" where
  "admit_batch C 0 = ret ()"
| "admit_batch C (Suc n) =
     andThen (try_next_request C) (\<lambda>next.
     case next of
       None \<Rightarrow> ret ()
     | Some envelope \<Rightarrow>
         andThen (queue_push envelope) (\<lambda>_.
         if is_disconnect_request (env_request envelope) then ret () else admit_batch C n))"

definition admit_normal_request_batch ::
  "'b bitset_ops \<Rightarrow> ('c, RequestEnvelope) channel_ops \<Rightarrow> RequestEnvelope
    \<Rightarrow> (('b, 'c, 'w) EventLoop, 'e, unit) sm" where
  "admit_normal_request_batch B C first =
     andThen (queue_push first) (\<lambda>_.
     andThen (gets (\<lambda>self. is_disconnect_request (env_request first)
       \<or> \<not> normal_request_admission_allowed B self \<and> el_pending self = [])) (\<lambda>stop.
     if stop then ret ()
     else
       andThen (gets (\<lambda>self. max (opt_max_request_batch (el_options self)) 1 - 1)) (\<lambda>n.
       admit_batch C n)))"

section \<open>Waiting\<close>

text \<open>
  One poll of the source whose turn it is. A request that waits in \<open>pending\<close> is ready once the pause
  between retransmissions (\<open>pending_throttle\<close>, or one yield) is over.
\<close>

fun poll_source ::
  "('c, RequestEnvelope) channel_ops \<Rightarrow> 'w world_ops \<Rightarrow> bool \<Rightarrow> bool \<Rightarrow> PollSource
    \<Rightarrow> (('b, 'c, 'w) EventLoop, 'e, PollReady option) sm" where
  "poll_source C W requests_enabled keepalive_enabled (PollRequest _) =
     (if \<not> requests_enabled then ret None
      else
        andThen (gets el_pending) (\<lambda>pending.
        case pending of
          [] \<Rightarrow>
            andThen (recv_requests C) (\<lambda>r.
            ret (case r of
                Ok envelope \<Rightarrow> Some (ReadyRequest (Inr envelope))
              | Err TryRecvDisconnected \<Rightarrow> Some (ReadyRequest (Inl ConnRequestsDone))
              | _ \<Rightarrow> None))
        | envelope # pending \<Rightarrow>
            andThen (gets (\<lambda>self. throttle_elapsed W (el_world self))) (\<lambda>elapsed.
            if elapsed then
              andThen (modify (\<lambda>self. self\<lparr>el_pending := pending\<rparr>)) (\<lambda>_.
              ret (Some (ReadyRequest (Inr envelope))))
            else ret None)))"
| "poll_source C W requests_enabled keepalive_enabled PollNetwork =
     andThen (on_world (framed_next W)) (\<lambda>frame.
     ret (map_option ReadyNetwork frame))"
| "poll_source C W requests_enabled keepalive_enabled PollKeepAlive =
     gets (\<lambda>self.
       case keepalive_timeout self of
         Some deadline \<Rightarrow>
           if keepalive_enabled \<and> deadline \<le> clock W (el_world self) then Some ReadyKeepAlive else None
       | None \<Rightarrow> None)"

primrec poll_sources ::
  "('c, RequestEnvelope) channel_ops \<Rightarrow> 'w world_ops \<Rightarrow> bool \<Rightarrow> bool \<Rightarrow> nat \<Rightarrow> PollSource
    \<Rightarrow> (('b, 'c, 'w) EventLoop, 'e, PollReady option) sm" where
  "poll_sources C W requests_enabled keepalive_enabled 0 source = ret None"
| "poll_sources C W requests_enabled keepalive_enabled (Suc n) source =
     andThen (poll_source C W requests_enabled keepalive_enabled source) (\<lambda>ready.
     if ready \<noteq> None then
       andThen (modify (\<lambda>self. self\<lparr>next_poll_source := after_ready source\<rparr>)) (\<lambda>_.
       ret ready)
     else poll_sources C W requests_enabled keepalive_enabled n (PollSource_next source))"

text \<open>The buffered requests that need no waiting.\<close>

definition buffered_ready ::
  "('c, RequestEnvelope) channel_ops \<Rightarrow> (('b, 'c, 'w) EventLoop, 'e, PollReady option) sm" where
  "buffered_ready C =
     andThen (recv_immediate C) (\<lambda>r.
     case r of Ok envelope \<Rightarrow> ret (Some (ReadyImmediate envelope)) | _ \<Rightarrow>
     andThen (recv_control C) (\<lambda>r.
     case r of Ok envelope \<Rightarrow> ret (Some (ReadyControl envelope)) | _ \<Rightarrow>
     andThen (recv_requests C) (\<lambda>r.
     case r of
       Ok envelope \<Rightarrow>
         andThen (modify (\<lambda>self. self\<lparr>next_poll_source := after_ready (next_poll_source self)\<rparr>)) (\<lambda>_.
         ret (Some (ReadyRequest (Inr envelope))))
     | _ \<Rightarrow> ret None)))"

definition requests_enabled ::
  "'b bitset_ops \<Rightarrow> ('c, RequestEnvelope) channel_ops \<Rightarrow> ('b, 'c, 'w) EventLoop \<Rightarrow> bool" where
  "requests_enabled B C self \<longleftrightarrow>
     (normal_request_admission_allowed B self \<or> el_pending self \<noteq> [])
     \<and> (el_pending self \<noteq> [] \<or> \<not> ch_is_empty C (requests_rx self) \<or> \<not> ch_is_disconnected C (requests_rx self))"

fun is_request_source :: "PollSource \<Rightarrow> bool" where
  "is_request_source (PollRequest _) = True"
| "is_request_source _ = False"

text \<open>A receive that is polled once: the request, the end of the channel, or nothing yet.\<close>

definition poll_recv ::
  "bool \<Rightarrow> (('b, 'c, 'w) EventLoop, 'e, (TryRecvError, RequestEnvelope) outcome) sm \<Rightarrow> (RequestEnvelope \<Rightarrow> PollReady)
    \<Rightarrow> (('b, 'c, 'w) EventLoop, 'e, PollReady option) sm" where
  "poll_recv enabled recv ready =
     (if \<not> enabled then ret None
      else
        andThen recv (\<lambda>r.
        ret (case r of
            Ok envelope \<Rightarrow> Some (ready envelope)
          | Err TryRecvDisconnected \<Rightarrow> Some ReadyClosed
          | _ \<Rightarrow> None)))"

definition next_ready ::
  "'b bitset_ops \<Rightarrow> ('c, RequestEnvelope) channel_ops \<Rightarrow> 'w world_ops
    \<Rightarrow> (('b, 'c, 'w) EventLoop, 'e, PollReady option) sm" where
  "next_ready B C W =
     andThen (gets (requests_enabled B C)) (\<lambda>requests_en.
     andThen (gets (\<lambda>self. requests_en \<and> el_pending self = [] \<and> is_request_source (next_poll_source self))) (\<lambda>fast.
     andThen (if fast then buffered_ready C else ret None) (\<lambda>ready.
     if ready \<noteq> None then ret ready
     else
       andThen (gets (\<lambda>self. \<not> ch_is_disconnected C (immediate_disconnect_rx self))) (\<lambda>immediate_enabled.
       andThen (gets (\<lambda>self. \<not> ch_is_empty C (control_requests_rx self)
         \<or> \<not> ch_is_disconnected C (control_requests_rx self))) (\<lambda>control_enabled.
       andThen (gets (\<lambda>self. keepalive_timeout self \<noteq> None \<and> opt_keep_alive (el_options self) \<noteq> 0)) (\<lambda>keepalive_enabled.
       andThen (gets el_network) (\<lambda>network.
       andThen (expect network) (\<lambda>_.
       andThen (poll_recv immediate_enabled (recv_immediate C) ReadyImmediate) (\<lambda>ready.
       if ready \<noteq> None then ret ready
       else
         andThen (poll_recv control_enabled (recv_control C) ReadyControl) (\<lambda>ready.
         if ready \<noteq> None then ret ready
         else
           andThen (gets next_poll_source) (\<lambda>source.
           poll_sources C W requests_en keepalive_enabled 3 source)))))))))))"

section \<open>Graceful disconnect\<close>

datatype DrainReady = DrainedImmediate RequestEnvelope | DrainedClosed | DrainedFrame IncomingFrame | DrainedDeadline

text \<open>\<open>select!\<close> polls its branches in an order of its own choice and takes the first that is ready.\<close>

fun poll_drain ::
  "('c, RequestEnvelope) channel_ops \<Rightarrow> 'w world_ops \<Rightarrow> nat option \<Rightarrow> bool \<Rightarrow> DrainBranch list
    \<Rightarrow> (('b, 'c, 'w) EventLoop, 'e, DrainReady option) sm" where
  "poll_drain C W read_deadline immediate_enabled [] = ret None"
| "poll_drain C W read_deadline immediate_enabled (DrainImmediate # branches) =
     (if \<not> immediate_enabled then poll_drain C W read_deadline immediate_enabled branches
      else
        andThen (recv_immediate C) (\<lambda>r.
        case r of
          Ok envelope \<Rightarrow> ret (Some (DrainedImmediate envelope))
        | Err TryRecvDisconnected \<Rightarrow> ret (Some DrainedClosed)
        | _ \<Rightarrow> poll_drain C W read_deadline immediate_enabled branches))"
| "poll_drain C W read_deadline immediate_enabled (DrainRead # branches) =
     andThen (on_world (framed_next W)) (\<lambda>frame.
     case frame of
       Some frame \<Rightarrow> ret (Some (DrainedFrame frame))
     | None \<Rightarrow> poll_drain C W read_deadline immediate_enabled branches)"
| "poll_drain C W read_deadline immediate_enabled (DrainDeadline # branches) =
     andThen (gets (\<lambda>self. case read_deadline of Some deadline \<Rightarrow> deadline \<le> clock W (el_world self) | None \<Rightarrow> False))
       (\<lambda>expired.
     if expired then ret (Some DrainedDeadline)
     else poll_drain C W read_deadline immediate_enabled branches)"

definition option_min :: "nat option \<Rightarrow> nat option \<Rightarrow> nat option" where
  "option_min a b =
     (case (a, b) of (Some x, Some y) \<Rightarrow> Some (min x y) | (None, b) \<Rightarrow> b | (a, None) \<Rightarrow> a)"

definition reached :: "'w world_ops \<Rightarrow> nat option \<Rightarrow> (('b, 'c, 'w) EventLoop, 'e, bool) sm" where
  "reached W deadline = gets (\<lambda>self. case deadline of Some deadline \<Rightarrow> deadline \<le> clock W (el_world self) | None \<Rightarrow> False)"

definition poll_disconnect_drain ::
  "'b bitset_ops \<Rightarrow> ('c, RequestEnvelope) channel_ops \<Rightarrow> 'w world_ops \<Rightarrow> ('b, 'c, 'w, Event option Poll) el" where
  "poll_disconnect_drain B C W =
     andThen (gets (effective_read_batch_size C)) (\<lambda>read_batch_size.
     andThen (gets el_network) (\<lambda>network.
     andThen (expect network) (\<lambda>_.
     andThen (gets (\<lambda>self. Option.bind (pending_disconnect self) pd_deadline)) (\<lambda>deadline.
     andThen (gets (\<lambda>self. option_min deadline (keepalive_scan_deadline self))) (\<lambda>read_deadline.
     andThen (gets (\<lambda>self. \<not> ch_is_disconnected C (immediate_disconnect_rx self))) (\<lambda>immediate_enabled.
     andThen (gets (\<lambda>self. select_order W (el_world self))) (\<lambda>order.
     andThen (poll_drain C W read_deadline immediate_enabled order) (\<lambda>ready.
     case ready of
       None \<Rightarrow> ret Poll_Pending
     | Some (DrainedImmediate envelope) \<Rightarrow>
         andThen (handle_immediate_disconnect B W envelope) (\<lambda>event. ret (Poll_Ready (Some event)))
     | Some DrainedClosed \<Rightarrow> ret (Poll_Ready None)
     | Some DrainedDeadline \<Rightarrow>
         andThen (reached W deadline) (\<lambda>timed_out.
         if timed_out then fail ConnDisconnectTimeout else fail (ConnMqttState AwaitPingResp))
     | Some (DrainedFrame first) \<Rightarrow>
         andThen (response_write_deadline W) (\<lambda>response.
         let limit = (case deadline of Some deadline \<Rightarrow> min deadline response | None \<Rightarrow> response) in
         andThen (attempt (read_network_batch B W first read_batch_size limit)) (\<lambda>r.
         case r of
           Inr _ \<Rightarrow> ret (Poll_Ready None)
         | Inl error \<Rightarrow>
             andThen (reached W deadline) (\<lambda>timed_out.
             let error = (if timed_out \<and> is_timed_out error then ConnDisconnectTimeout else error) in
             andThen (defer_connection_error error) (\<lambda>event. ret (Poll_Ready (Some event))))))))))))))"

definition send_pending_disconnect ::
  "'b bitset_ops \<Rightarrow> ('c, RequestEnvelope) channel_ops \<Rightarrow> 'w world_ops \<Rightarrow> ('b, 'c, 'w, Event) el" where
  "send_pending_disconnect B C W =
     andThen (modify (\<lambda>self. self\<lparr>pending_disconnect := None\<rparr>)) (\<lambda>_.
     andThen (instant_now W) (\<lambda>now.
     andThen (state_call (handle_outgoing_packet_with_notice B now (ReqDisconnectNow Disconnect) None)) (\<lambda>(outgoing, _).
     andThen
       (case outgoing of
          None \<Rightarrow> ret ()
        | Some outgoing \<Rightarrow>
            andThen (map_err ConnMqttState (Network_write W outgoing)) (\<lambda>_.
            flush_network W)) (\<lambda>_.
     andThen (modify (drop_unprocessed_requests C)) (\<lambda>_.
     andThen (save_persisted_session B W) (\<lambda>_.
     andThen (modify (\<lambda>self. self\<lparr>disconnect_complete := True\<rparr>)) (\<lambda>_.
     andThen pop_event expect)))))))"

section \<open>Polling\<close>

definition handle_network_result ::
  "'b bitset_ops \<Rightarrow> ('c, RequestEnvelope) channel_ops \<Rightarrow> 'w world_ops \<Rightarrow> ConnectionError + 'a \<Rightarrow> ('b, 'c, 'w, 'a) el" where
  "handle_network_result B C W result =
     (case result of
        Inr v \<Rightarrow> ret v
      | Inl ConnDisconnectTimeout \<Rightarrow>
          andThen (modify (\<lambda>self. self\<lparr>el_network := None, connack_session := None, keepalive_timeout := None,
            keepalive_scan_deadline := None, pending_disconnect := None\<rparr>)) (\<lambda>_.
          andThen (modify (drop_unprocessed_requests C)) (\<lambda>_.
          andThen (modify (\<lambda>self. self\<lparr>disconnect_complete := True\<rparr>)) (\<lambda>_.
          fail ConnDisconnectTimeout)))
      | Inl e \<Rightarrow>
          andThen (EventLoop_clean B C) (\<lambda>_.
          andThen (save_persisted_session B W) (\<lambda>_.
          fail e)))"

text \<open>One turn of the loop of \<open>select\<close>; \<open>None\<close> goes round again.\<close>

definition select_ready ::
  "'b bitset_ops \<Rightarrow> ('c, RequestEnvelope) channel_ops \<Rightarrow> 'w world_ops \<Rightarrow> PollReady option
    \<Rightarrow> ('b, 'c, 'w, Event Poll option) el" where
  "select_ready B C W ready =
     (case ready of
        None \<Rightarrow> ret (Some Poll_Pending)
      | Some (ReadyImmediate envelope) \<Rightarrow>
          andThen (handle_immediate_disconnect B W envelope) (\<lambda>event. ret (Some (Poll_Ready event)))
      | Some (ReadyControl envelope) \<Rightarrow>
          andThen (try_admit_existing_normal_requests B C) (\<lambda>_.
          andThen (queue_push envelope) (\<lambda>_.
          ret None))
      | Some (ReadyRequest (Inr envelope)) \<Rightarrow>
          andThen (admit_normal_request_batch B C envelope) (\<lambda>_.
          ret None)
      | Some ReadyClosed \<Rightarrow> ret None
      | Some (ReadyRequest (Inl _)) \<Rightarrow> ret None
      | Some (ReadyNetwork first) \<Rightarrow>
          andThen (handle_network_read B C W first) (\<lambda>event. ret (Some (Poll_Ready event)))
      | Some ReadyKeepAlive \<Rightarrow>
          andThen (handle_keepalive_ping B W) (\<lambda>event. ret (Some (Poll_Ready event))))"

definition select_disconnecting ::
  "'b bitset_ops \<Rightarrow> ('c, RequestEnvelope) channel_ops \<Rightarrow> 'w world_ops \<Rightarrow> ('b, 'c, 'w, Event Poll option) el" where
  "select_disconnecting B C W =
     andThen (gets (\<lambda>self. outbound_requests_drained B (el_state self))) (\<lambda>drained.
     if drained then
       andThen (send_pending_disconnect B C W) (\<lambda>event. ret (Some (Poll_Ready event)))
     else
       andThen (poll_disconnect_drain B C W) (\<lambda>r.
       ret (case r of
           Poll_Pending \<Rightarrow> Some Poll_Pending
         | Poll_Ready (Some event) \<Rightarrow> Some (Poll_Ready event)
         | Poll_Ready None \<Rightarrow> None)))"

definition select_turn ::
  "'b bitset_ops \<Rightarrow> ('c, RequestEnvelope) channel_ops \<Rightarrow> 'w world_ops \<Rightarrow> ('b, 'c, 'w, Event Poll option) el" where
  "select_turn B C W =
     andThen pop_event (\<lambda>event.
     case event of
       Some event \<Rightarrow> ret (Some (Poll_Ready event))
     | None \<Rightarrow>
         andThen (recv_immediate C) (\<lambda>r.
         case r of
           Ok envelope \<Rightarrow>
             andThen (handle_immediate_disconnect B W envelope) (\<lambda>event. ret (Some (Poll_Ready event)))
         | _ \<Rightarrow>
             andThen (gets (all_request_sources_drained B C)) (\<lambda>done.
             if done then fail ConnRequestsDone
             else
               andThen (check_keepalive_scan_timeout W) (\<lambda>_.
               andThen (gets (\<lambda>self. pending_disconnect self = None)) (\<lambda>serving.
               andThen (if serving then handle_ready_requests B W else ret False) (\<lambda>handled.
               if handled then andThen pop_event (\<lambda>event. ret (map_option Poll_Ready event))
               else
                 andThen (gets (\<lambda>self. pending_disconnect self \<noteq> None)) (\<lambda>disconnecting.
                 if disconnecting then select_disconnecting B C W
                 else andThen (next_ready B C W) (select_ready B C W))))))))"

text \<open>The loop, with the number of turns it may take; \<open>None\<close> when they are used up.\<close>

primrec select ::
  "'b bitset_ops \<Rightarrow> ('c, RequestEnvelope) channel_ops \<Rightarrow> 'w world_ops \<Rightarrow> nat \<Rightarrow> ('b, 'c, 'w, Event Poll option) el" where
  "select B C W 0 = ret None"
| "select B C W (Suc n) =
     andThen (select_turn B C W) (\<lambda>r.
     case r of None \<Rightarrow> select B C W n | Some p \<Rightarrow> ret (Some p))"

definition EventLoop_poll ::
  "'b bitset_ops \<Rightarrow> ('c, RequestEnvelope) channel_ops \<Rightarrow> 'w world_ops \<Rightarrow> nat \<Rightarrow> ('b, 'c, 'w, Event Poll option) el" where
  "EventLoop_poll B C W n =
     andThen (gets disconnect_complete) (\<lambda>done.
     if done then fail ConnRequestsDone
     else
       andThen (gets pending_connection_error) (\<lambda>deferred.
       case deferred of
         Some error \<Rightarrow>
           andThen pop_event (\<lambda>event.
           case event of
             Some event \<Rightarrow> ret (Some (Poll_Ready event))
           | None \<Rightarrow>
               andThen (modify (\<lambda>self. self\<lparr>pending_connection_error := None\<rparr>)) (\<lambda>_.
               handle_network_result B C W (Inl error)))
       | None \<Rightarrow>
           andThen (gets el_network) (\<lambda>network.
           if network = None then
             andThen (recv_immediate C) (\<lambda>r.
             case r of
               Ok _ \<Rightarrow>
                 andThen (modify (\<lambda>self. self\<lparr>disconnect_complete := True\<rparr>)) (\<lambda>_.
                 fail ConnRequestsDone)
             | _ \<Rightarrow> andThen (establish_connection B W) (\<lambda>event. ret (Some (Poll_Ready event))))
           else
             andThen (attempt (select B C W n)) (handle_network_result B C W))))"

end
