(* ===== verification/V4_EventLoop_Inv.thy ===== *)
theory V4_EventLoop_Inv
  imports V4_EventLoop "HOL-Library.Multiset"
begin

text \<open>
  The invariant of the event loop, and its preservation by every handler.

  The requests that wait for a retransmission in \<open>pending\<close> and \<open>queued\<close> own their packet
  identifiers, each exactly one: they are the owners outside the state that the invariant of
  \<open>V4_State_Inv\<close> asks for. From this follows that no handler of the loop panics.
\<close>

section \<open>Triples\<close>

text \<open>
  \<open>hoare P m Q E\<close>: from a loop that satisfies \<open>P\<close>, \<open>m\<close> does not panic, ends normally in \<open>Q\<close> or with an error in \<open>E\<close>.
\<close>

definition hoare :: "('s \<Rightarrow> bool) \<Rightarrow> ('s, 'e, 'a) sm \<Rightarrow> ('a \<Rightarrow> 's \<Rightarrow> bool) \<Rightarrow> ('e \<Rightarrow> 's \<Rightarrow> bool) \<Rightarrow> bool" where
  "hoare P m Q E \<longleftrightarrow> (\<forall>s. P s \<longrightarrow> wp m Q E s)"

named_theorems hoare_rules \<open>triples of the combinators and handlers\<close>

lemma hoareI: "(\<And>s. P s \<Longrightarrow> wp m Q E s) \<Longrightarrow> hoare P m Q E"
  by (simp add: hoare_def)

lemma hoareD: "\<lbrakk>hoare P m Q E; P s\<rbrakk> \<Longrightarrow> wp m Q E s"
  by (simp add: hoare_def)

lemma hoare_weaken:
  "\<lbrakk>hoare P m Q E; \<And>s. P' s \<Longrightarrow> P s; \<And>x s. Q x s \<Longrightarrow> Q' x s; \<And>e s. E e s \<Longrightarrow> E' e s\<rbrakk> \<Longrightarrow> hoare P' m Q' E'"
  unfolding hoare_def by (blast intro: wp_mono)

lemma hoare_seq:
  "\<lbrakk>hoare P m R E; \<And>x. hoare (R x) (f x) Q E\<rbrakk> \<Longrightarrow> hoare P (andThen m f) Q E"
  unfolding hoare_def wp_andThen by (blast intro: wp_mono)

lemma wp_attempt: "wp (attempt m) Q E s = wp m (\<lambda>x. Q (Inr x)) (\<lambda>e. Q (Inl e)) s"
  by (simp add: wp_def attempt_def split: prod.splits outcome.splits)

lemma hoare_attempt:
  "\<lbrakk>hoare P m R F; \<And>x. hoare (R x) (f (Inr x)) Q E; \<And>e. hoare (F e) (f (Inl e)) Q E\<rbrakk>
    \<Longrightarrow> hoare P (andThen (attempt m) f) Q E"
  unfolding hoare_def wp_andThen wp_attempt by (blast intro: wp_mono)

lemma hoare_ret: "(\<And>s. P s \<Longrightarrow> Q x s) \<Longrightarrow> hoare P (ret x) Q E"
  by (simp add: hoare_def wp_simps)

lemma hoare_fail: "(\<And>s. P s \<Longrightarrow> E e s) \<Longrightarrow> hoare P (fail e) Q E"
  by (simp add: hoare_def wp_simps)

lemma hoare_gets: "(\<And>x. hoare (\<lambda>s. P s \<and> x = g s) (f x) Q E) \<Longrightarrow> hoare P (andThen (gets g) f) Q E"
  by (auto simp: hoare_def wp_simps)

lemma hoare_gets': "(\<And>x. hoare P (f x) Q E) \<Longrightarrow> hoare P (andThen (gets g) f) Q E"
  by (auto simp: hoare_def wp_simps)

lemma hoare_modify: "\<lbrakk>\<And>s. P s \<Longrightarrow> R (g s); hoare R (f ()) Q E\<rbrakk> \<Longrightarrow> hoare P (andThen (modify g) f) Q E"
  by (auto simp: hoare_def wp_simps)

lemma hoare_modify_end: "(\<And>s. P s \<Longrightarrow> Q () (g s)) \<Longrightarrow> hoare P (modify g) Q E"
  by (auto simp: hoare_def wp_simps)

lemma hoare_if: "\<lbrakk>c \<Longrightarrow> hoare P m Q E; \<not> c \<Longrightarrow> hoare P n Q E\<rbrakk> \<Longrightarrow> hoare P (if c then m else n) Q E"
  by simp

lemma hoare_option:
  "\<lbrakk>x = None \<Longrightarrow> hoare P m Q E; \<And>y. x = Some y \<Longrightarrow> hoare P (f y) Q E\<rbrakk> \<Longrightarrow> hoare P (case x of None \<Rightarrow> m | Some y \<Rightarrow> f y) Q E"
  by (cases x) simp_all

lemma hoare_sum:
  "\<lbrakk>\<And>y. x = Inl y \<Longrightarrow> hoare P (f y) Q E; \<And>y. x = Inr y \<Longrightarrow> hoare P (g y) Q E\<rbrakk>
    \<Longrightarrow> hoare P (case x of Inl y \<Rightarrow> f y | Inr y \<Rightarrow> g y) Q E"
  by (cases x) simp_all

lemma hoare_prod: "(\<And>a b. x = (a, b) \<Longrightarrow> hoare P (f a b) Q E) \<Longrightarrow> hoare P (case x of (a, b) \<Rightarrow> f a b) Q E"
  by (cases x) simp

lemma hoare_from_result: "\<lbrakk>\<And>s e. P s \<Longrightarrow> r = Inl e \<Longrightarrow> E e s; \<And>s x. P s \<Longrightarrow> r = Inr x \<Longrightarrow> Q x s\<rbrakk> \<Longrightarrow> hoare P (from_result r) Q E"
  by (auto simp: hoare_def from_result_def wp_simps split: sum.splits)

lemma hoare_map_err: "hoare P m Q (\<lambda>e. E (g e)) \<Longrightarrow> hoare P (map_err g m) Q E"
  by (simp add: hoare_def wp_simps)

lemma hoare_world: "(\<And>s x w. P s \<Longrightarrow> Q x (s\<lparr>el_world := w\<rparr>)) \<Longrightarrow> hoare P (on_world f) Q E"
  by (auto simp: hoare_def wp_def on_world_def split: prod.splits)

lemma hoare_False: "hoare (\<lambda>_. False) m Q E"
  by (simp add: hoare_def)

section \<open>The invariant\<close>

fun request_ids :: "Request \<Rightarrow> nat list" where
  "request_ids (ReqPublish p) = [unat (publish_pkid p)]"
| "request_ids (ReqSubscribe sub) = [unat (subscribe_pkid sub)]"
| "request_ids (ReqUnsubscribe unsub) = [unat (unsubscribe_pkid unsub)]"
| "request_ids _ = []"

lemma set_request_ids [simp]: "set (request_ids r) = replay_ids r"
  by (cases r) simp_all

lemma distinct_request_ids [simp]: "distinct (request_ids r)"
  by (cases r) simp_all

text \<open>The identifiers of the waiting retransmissions.\<close>

definition owned_ids :: "RequestEnvelope list \<Rightarrow> nat list" where
  "owned_ids es = concat (map (\<lambda>e. if env_replay e then request_ids (env_request e) else []) es)"

definition owned :: "nat set \<Rightarrow> RequestEnvelope list \<Rightarrow> bool" where
  "owned Q es \<longleftrightarrow> distinct (owned_ids es) \<and> set (owned_ids es) \<subseteq> Q
     \<and> (\<forall>e \<in> set es. env_replay e \<longrightarrow> replayable (env_request e))"

lemma owned_ids_simps [simp]:
  "owned_ids [] = []"
  "owned_ids (e # es) = (if env_replay e then request_ids (env_request e) else []) @ owned_ids es"
  "owned_ids (es @ fs) = owned_ids es @ owned_ids fs"
  by (simp_all add: owned_ids_def)

abbreviation waiting_requests :: "('b, 'c, 'w) EventLoop \<Rightarrow> RequestEnvelope list" where
  "waiting_requests s \<equiv> el_pending s @ sched_queue (el_queued s)"

fun disconnect_now :: "Request \<Rightarrow> bool" where
  "disconnect_now (ReqDisconnectNow _) = True"
| "disconnect_now _ = False"

definition loop_inv :: "'b bitset_ops \<Rightarrow> ('c \<Rightarrow> RequestEnvelope list) \<Rightarrow> ('b, 'c, 'w) EventLoop \<Rightarrow> bool" where
  "loop_inv B items s \<longleftrightarrow>
     (\<exists>Q. state_inv B Q (el_state s) \<and> owned Q (waiting_requests s))
     \<and> (\<not> ss_loaded (session_store s) \<longrightarrow> el_session_store_key s = None)
     \<and> (el_session_store_key s = None \<longrightarrow>
          el_network s = None \<and> list_all (\<lambda>e. \<not> env_replay e) (waiting_requests s) \<and> tracked_requests (el_state s) = [])
     \<and> list_all (\<lambda>e. \<not> env_replay e) (items (requests_rx s) @ items (control_requests_rx s))
     \<and> list_all (\<lambda>e. \<not> env_replay e \<and> disconnect_now (env_request e)) (items (immediate_disconnect_rx s))"

text \<open>The loop while it is connected.\<close>

definition conn_inv :: "'b bitset_ops \<Rightarrow> ('c \<Rightarrow> RequestEnvelope list) \<Rightarrow> ('b, 'c, 'w) EventLoop \<Rightarrow> bool" where
  "conn_inv B items s \<longleftrightarrow> loop_inv B items s \<and> el_network s \<noteq> None"

lemma owned_perm:
  assumes "mset es = mset fs"
  shows "owned Q es \<longleftrightarrow> owned Q fs"
proof -
  have "mset (owned_ids xs) = (\<Sum>e \<in># mset xs. if env_replay e then mset (request_ids (env_request e)) else {#})" for xs
    by (induction xs) auto
  then have ids: "mset (owned_ids es) = mset (owned_ids fs)"
    using assms by simp
  show ?thesis
    unfolding owned_def using mset_eq_imp_distinct_iff [OF ids] mset_eq_setD [OF ids] mset_eq_setD [OF assms] by simp
qed

lemma owned_append_fresh: "list_all (\<lambda>e. \<not> env_replay e) fs \<Longrightarrow> owned Q (es @ fs) \<longleftrightarrow> owned Q es"
proof -
  assume fresh: "list_all (\<lambda>e. \<not> env_replay e) fs"
  then have "owned_ids fs = []"
    by (induction fs) auto
  then show "owned Q (es @ fs) \<longleftrightarrow> owned Q es"
    using fresh by (auto simp: owned_def list_all_iff)
qed

lemma owned_filter: "owned Q es \<Longrightarrow> owned Q (filter P es)"
proof (induction es arbitrary: Q)
  case (Cons e es)
  then have "owned (Q - set (if env_replay e then request_ids (env_request e) else [])) es"
    by (auto simp: owned_def)
  from Cons.IH [OF this] show ?case
    using Cons.prems by (auto simp: owned_def split: if_splits)
qed simp

lemma owned_append: "owned Q (es @ fs) \<longleftrightarrow> owned Q es \<and> owned (Q - set (owned_ids es)) fs"
  by (auto simp: owned_def)

lemma owned_tail: "owned Q (es @ fs) \<Longrightarrow> owned Q fs"
  by (auto simp: owned_def)

section \<open>Changes the invariant does not see\<close>

lemma tracked_frame [simp]:
  "tracked_requests (s\<lparr>events := es\<rparr>) = tracked_requests s"
  "tracked_requests (s\<lparr>notices_sent := ns\<rparr>) = tracked_requests s"
  by (simp_all add: tracked_requests_def cleaned_publish_def [abs_def] cleaned_pubrel_def [abs_def])

lemma loop_inv_frame [simp]:
  "loop_inv B items (s\<lparr>el_world := w\<rparr>) = loop_inv B items s"
  "loop_inv B items (s\<lparr>el_options := opt\<rparr>) = loop_inv B items s"
  "loop_inv B items (s\<lparr>next_poll_source := src\<rparr>) = loop_inv B items s"
  "loop_inv B items (s\<lparr>pending_connection_error := err\<rparr>) = loop_inv B items s"
  "loop_inv B items (s\<lparr>keepalive_timeout := t\<rparr>) = loop_inv B items s"
  "loop_inv B items (s\<lparr>keepalive_scan_deadline := t\<rparr>) = loop_inv B items s"
  "loop_inv B items (s\<lparr>connack_session := d\<rparr>) = loop_inv B items s"
  "loop_inv B items (s\<lparr>pending_disconnect := pd\<rparr>) = loop_inv B items s"
  "loop_inv B items (s\<lparr>disconnect_complete := b\<rparr>) = loop_inv B items s"
  "loop_inv B items (s\<lparr>session_client_id := cid\<rparr>) = loop_inv B items s"
  by (simp_all add: loop_inv_def)

lemma loop_inv_network: "loop_inv B items s \<Longrightarrow> loop_inv B items (s\<lparr>el_network := None\<rparr>)"
  by (simp add: loop_inv_def)

lemma conn_inv_frame [simp]:
  "conn_inv B items (s\<lparr>el_world := w\<rparr>) = conn_inv B items s"
  "conn_inv B items (s\<lparr>next_poll_source := src\<rparr>) = conn_inv B items s"
  "conn_inv B items (s\<lparr>pending_connection_error := err\<rparr>) = conn_inv B items s"
  "conn_inv B items (s\<lparr>keepalive_timeout := t\<rparr>) = conn_inv B items s"
  "conn_inv B items (s\<lparr>keepalive_scan_deadline := t\<rparr>) = conn_inv B items s"
  "conn_inv B items (s\<lparr>pending_disconnect := pd\<rparr>) = conn_inv B items s"
  "conn_inv B items (s\<lparr>disconnect_complete := b\<rparr>) = conn_inv B items s"
  by (simp_all add: conn_inv_def)

lemma conn_loop: "conn_inv B items s \<Longrightarrow> loop_inv B items s"
  by (simp add: conn_inv_def)

lemma conn_key: "conn_inv B items s \<Longrightarrow> el_session_store_key s \<noteq> None"
  by (auto simp: conn_inv_def loop_inv_def)

text \<open>What the environment of the loop has to provide.\<close>

locale event_loop = fixed_bitset B + request_channel C items
  for B :: "'b bitset_ops" and C :: "('c, RequestEnvelope) channel_ops" and items +
  fixes W :: "'w world_ops"
  assumes complete_frames: "fst (framed_next W w) \<noteq> Some (Some (Inl (InsufficientBytes n)))"
    and complete_frames_until: "fst (framed_next_until W d w) \<noteq> Some (Some (Inl (InsufficientBytes n)))"
begin

abbreviation L :: "('b, 'c, 'w) EventLoop \<Rightarrow> bool" where "L \<equiv> loop_inv B items"

abbreviation K :: "('b, 'c, 'w) EventLoop \<Rightarrow> bool" where "K \<equiv> conn_inv B items"

text \<open>Connected, and an event waits to be delivered.\<close>

abbreviation KE :: "('b, 'c, 'w) EventLoop \<Rightarrow> bool" where "KE \<equiv> \<lambda>s. conn_inv B items s \<and> events (el_state s) \<noteq> []"

lemma state_change:
  assumes "K s" "\<And>Q. state_inv B Q (el_state s) \<Longrightarrow> state_inv B Q t"
  shows "K (s\<lparr>el_state := t\<rparr>)"
  using assms conn_key [OF assms(1)] by (auto simp: conn_inv_def loop_inv_def)

lemma events_change [simp]:
  "L (s\<lparr>el_state := (el_state s)\<lparr>events := es\<rparr>\<rparr>) = L s" "K (s\<lparr>el_state := (el_state s)\<lparr>events := es\<rparr>\<rparr>) = K s"
  by (simp_all add: conn_inv_def loop_inv_def state_inv_frame)

lemma notices_change [simp]:
  "L (s\<lparr>el_state := (el_state s)\<lparr>notices_sent := ns\<rparr>\<rparr>) = L s" "K (s\<lparr>el_state := (el_state s)\<lparr>notices_sent := ns\<rparr>\<rparr>) = K s"
  by (simp_all add: conn_inv_def loop_inv_def state_inv_frame)

lemma hoare_on_state:
  assumes "\<And>Q s. state_inv B Q s \<Longrightarrow> keeps_inv B Q Q m s"
  shows "hoare K (on_state m) (\<lambda>_. K) (\<lambda>_. K)"
proof (rule hoareI)
  fix s :: "('b, 'c, 'w) EventLoop"
  assume s: "K s"
  then obtain Q where Q: "state_inv B Q (el_state s)"
    by (auto simp: conn_inv_def loop_inv_def)
  obtain r t where run: "m (el_state s) = (r, t)"
    by (cases "m (el_state s)")
  have panic: "r \<noteq> Panic" and inv: "state_inv B Q t" if "state_inv B Q (el_state s)" for Q
    using assms [OF that] run by (auto simp: keeps_inv_def wp_def split: outcome.splits)
  have "K (s\<lparr>el_state := t\<rparr>)"
    by (rule state_change [OF s inv])
  then show "wp (on_state m) (\<lambda>_. K) (\<lambda>_. K) s"
    using panic [OF Q] by (simp add: wp_def on_state_def run split: outcome.splits)
qed

lemma hoare_pop_event:
  "hoare K pop_event (\<lambda>_. K) E" "hoare L pop_event (\<lambda>_. L) E" "hoare KE (andThen pop_event expect) (\<lambda>_. K) E"
  by (auto simp: hoare_def pop_event_def wp_simps split: list.splits)

lemma hoare_send_notices: "hoare K (send_notices ns) (\<lambda>_. K) E" "hoare L (send_notices ns) (\<lambda>_. L) E"
  "hoare KE (send_notices ns) (\<lambda>_. KE) E"
  by (auto simp: hoare_def send_notices_def wp_simps)

lemma hoare_network:
  "(\<And>n. hoare K (f n) Q E) \<Longrightarrow> hoare K (andThen (gets el_network) (\<lambda>n. andThen (expect n) f)) Q E"
  "(\<And>n. hoare KE (f n) Q E) \<Longrightarrow> hoare KE (andThen (gets el_network) (\<lambda>n. andThen (expect n) f)) Q E"
  by (auto simp: hoare_def wp_simps conn_inv_def split: option.splits)

lemma hoare_instant: "(\<And>x. hoare P (f x) Q E) \<Longrightarrow> hoare P (andThen (instant_now W) f) Q E"
  "(\<And>x. hoare P (f x) Q E) \<Longrightarrow> hoare P (andThen (response_write_deadline W) f) Q E"
  by (auto simp: instant_now_def response_write_deadline_def intro: hoare_gets')

text \<open>The conditions that writes and the session store leave alone.\<close>

definition steady :: "(('b, 'c, 'w) EventLoop \<Rightarrow> bool) \<Rightarrow> bool" where
  "steady P \<longleftrightarrow>
     (\<forall>s. P s \<longrightarrow> L s) \<and> (\<forall>s w. P s \<longrightarrow> P (s\<lparr>el_world := w\<rparr>))
     \<and> (\<forall>s x. P s \<longrightarrow> ss_loaded x \<longrightarrow> P (s\<lparr>session_store := x\<rparr>))
     \<and> (\<forall>s ns. P s \<longrightarrow> P (s\<lparr>el_state := (el_state s)\<lparr>notices_sent := ns\<rparr>\<rparr>))"

lemma steady_inv: "steady L" "steady K" "steady KE"
  by (auto simp: steady_def conn_inv_def loop_inv_def state_inv_frame)

lemma steadyD:
  assumes "steady P" "P s"
  shows "L s" "P (s\<lparr>el_world := w\<rparr>)" "ss_loaded x \<Longrightarrow> P (s\<lparr>session_store := x\<rparr>)"
    "P (s\<lparr>el_state := (el_state s)\<lparr>notices_sent := ns\<rparr>\<rparr>)"
  using assms by (simp_all add: steady_def)

lemma steady_world: "steady P \<Longrightarrow> (\<And>x. hoare P (f x) Q E) \<Longrightarrow> hoare P (andThen (on_world g) f) Q E"
  by (rule hoare_seq [where R = "\<lambda>_. P"]) (auto intro: hoare_world steadyD)

lemma steady_notices: "steady P \<Longrightarrow> hoare P (send_notices ns) (\<lambda>_. P) E"
  by (simp add: send_notices_def hoare_def wp_simps steadyD(4))

lemma steady_mark_store: "steady P \<Longrightarrow> hoare P (mark_store b) (\<lambda>_. P) E"
  by (simp add: mark_store_def hoare_def wp_simps steadyD(3))

lemma steady_result: "hoare P (map_err g (from_result r)) (\<lambda>_. P) (\<lambda>_. P)"
  by (intro hoare_map_err hoare_from_result)

lemma run_save_state:
  assumes "L s"
  shows "on_state (persisted_session B options rs) s = (Ok (saved_session options rs (el_state s)), s)"
proof -
  obtain Q where "state_inv B Q (el_state s)"
    using assms by (auto simp: loop_inv_def)
  then show ?thesis
    by (simp add: on_state_def run_persisted)
qed

lemma steady_save_state:
  "steady P \<Longrightarrow> (\<And>x. hoare P (f x) Q E) \<Longrightarrow> hoare P (andThen (on_state (persisted_session B options rs)) f) Q E"
  by (simp add: hoare_def wp_def andThen_def run_save_state steadyD(1))

lemma steady_persisted_save: "steady P \<Longrightarrow> hoare P (persisted_session_save B) (\<lambda>_. P) E"
  unfolding persisted_session_save_def
  by (intro hoare_gets' hoare_if hoare_option hoare_ret steady_save_state)

lemma steady_save: "steady P \<Longrightarrow> hoare P (save_persisted_session B W) (\<lambda>_. P) (\<lambda>_. P)"
  unfolding save_persisted_session_def
  by (intro hoare_seq [OF steady_persisted_save] hoare_option hoare_prod hoare_ret steady_world
      hoare_seq [OF steady_result] steady_mark_store)

lemma steady_persist:
  "steady P \<Longrightarrow> hoare P (persist_session_or_fail_qos0_notices B W ns n) (\<lambda>_. P) (\<lambda>_. P)"
  unfolding persist_session_or_fail_qos0_notices_def Let_def
  by (rule hoare_attempt [OF steady_save])
    (simp_all, (intro hoare_ret hoare_fail hoare_seq [OF steady_notices]; assumption)+)

lemma steady_network:
  "\<lbrakk>\<And>s. P s \<Longrightarrow> K s; \<And>n. hoare P (f n) Q E\<rbrakk> \<Longrightarrow> hoare P (andThen (gets el_network) (\<lambda>n. andThen (expect n) f)) Q E"
  by (force simp: hoare_def wp_simps conn_inv_def split: option.splits)

lemma steady_await_write:
  assumes "steady P" "\<And>s. P s \<Longrightarrow> K s"
  shows "hoare P (await_write f g) (\<lambda>_. P) (\<lambda>_. P)"
  unfolding await_write_def
  by (intro steady_network assms hoare_option steady_world steady_result hoare_fail)

lemma steady_writes:
  assumes "steady P" "\<And>s. P s \<Longrightarrow> K s"
  shows "hoare P (Network_write W packet) (\<lambda>_. P) (\<lambda>_. P)"
    and "hoare P (Network_write_request W packet) (\<lambda>_. P) (\<lambda>_. P)"
    and "hoare P (flush_network W) (\<lambda>_. P) (\<lambda>_. P)"
    and "hoare P (flush_read_batch W) (\<lambda>_. P) (\<lambda>_. P)"
proof -
  show "hoare P (Network_write W packet) (\<lambda>_. P) (\<lambda>_. P)"
    unfolding Network_write_def by (rule steady_await_write [OF assms])
  show "hoare P (Network_write_request W packet) (\<lambda>_. P) (\<lambda>_. P)"
    unfolding Network_write_request_def
    by (intro steady_network assms steady_world steady_result)
  show "hoare P (flush_network W) (\<lambda>_. P) (\<lambda>_. P)"
    unfolding flush_network_def
    by (intro steady_network assms hoare_option hoare_instant steady_world steady_result hoare_fail)
  show "hoare P (flush_read_batch W) (\<lambda>_. P) (\<lambda>_. P)"
    unfolding flush_read_batch_def Let_def
    by (intro steady_network assms hoare_option hoare_instant steady_world steady_result hoare_fail hoare_if)
qed

lemma frame_after_next: "framed_next W w = (Some res, w') \<Longrightarrow> res \<noteq> Some (Inl (InsufficientBytes n))"
  using complete_frames [of w n] by auto

lemma hoare_next:
  assumes "steady P" "hoare P (f None) Q E" "\<And>res. (\<And>n. res \<noteq> Some (Inl (InsufficientBytes n))) \<Longrightarrow> hoare P (f (Some res)) Q E"
  shows "hoare P (andThen (on_world (framed_next W)) f) Q E"
proof (rule hoareI)
  fix s
  assume s: "P s"
  obtain r w where run: "framed_next W (el_world s) = (r, w)"
    by (cases "framed_next W (el_world s)")
  have "P (s\<lparr>el_world := w\<rparr>)"
    by (rule steadyD(2) [OF assms(1) s])
  then show "wp (andThen (on_world (framed_next W)) f) Q E s"
    using assms(2,3) run frame_after_next [of "el_world s" _ w]
    by (cases r) (simp_all add: hoare_def wp_def andThen_def on_world_def)
qed

text \<open>A packet that is handled leaves an event to deliver.\<close>

lemma incoming_pubrec_events:
  "outgoing_pubrec_internal B pubrec dup s = (Ok packet, t) \<Longrightarrow> events t \<noteq> []"
  by (auto simp: outgoing_pubrec_internal_def Let_def andThen_eq_Ok run_simps split: if_splits)

lemma incoming_events:
  assumes "handle_incoming_packet_with_effects B now packet s = (Ok effects, t)"
  shows "events t \<noteq> []"
proof (cases "is_duplicate_incoming_qos2_publish B s packet")
  case True
  then obtain p where p: "packet = PktPublish p" "publish_qos p = ExactlyOnce"
    by (auto simp: is_duplicate_incoming_qos2_publish_def split: Packet.splits)
  obtain u where "handle_incoming_publish B p s = (Ok effects, u)" and t: "events t = events u"
    using assms True p by (auto simp: handle_incoming_packet_with_effects_def andThen_eq_Ok incoming_packet_def run_ret)
  moreover have "bs_contains B (incoming_pubrec s) (unat (publish_pkid p))"
    using True p by (simp add: is_duplicate_incoming_qos2_publish_def)
  ultimately have "events u \<noteq> []"
    using p incoming_pubrec_events
    by (auto simp: handle_incoming_publish_def Let_def andThen_eq_Ok run_simps try_field_def
        outgoing_pubrec_for_incoming_publish_def split: option.splits)
  then show ?thesis
    using t by simp
next
  case False
  then show ?thesis
    using assms by (auto simp: handle_incoming_packet_with_effects_def andThen_eq_Ok run_ret)
qed

lemma hoare_incoming: "hoare K (on_state (handle_incoming_packet_with_effects B now packet)) (\<lambda>_. KE) (\<lambda>_. K)"
proof (rule hoareI)
  fix s
  assume "K s"
  have wp: "wp (on_state (handle_incoming_packet_with_effects B now packet)) (\<lambda>_. K) (\<lambda>_. K) s"
    by (rule hoareD [OF hoare_on_state \<open>K s\<close>]) (rule keeps_inv_incoming_effects)
  show "wp (on_state (handle_incoming_packet_with_effects B now packet)) (\<lambda>_. KE) (\<lambda>_. K) s"
    by (rule wp_mono [OF wp]) (auto simp: on_state_def split: prod.splits dest: incoming_events)
qed

abbreviation batch_post :: "ReadBatchError + ReadBatch \<Rightarrow> ('b, 'c, 'w) EventLoop \<Rightarrow> bool" where
  "batch_post r \<equiv> (case r of Inl _ \<Rightarrow> K | Inr _ \<Rightarrow> KE)"

lemma hoare_readb_turn:
  assumes "\<And>n. res \<noteq> Some (Inl (InsufficientBytes n))"
    and "\<And>out ns. hoare KE (continue out ns) batch_post (\<lambda>_. K)"
  shows "hoare K (readb_turn B W res outcome notices continue) batch_post (\<lambda>_. K)"
proof (cases res)
  case None
  then show ?thesis
    by (simp add: readb_turn_def Let_def hoare_ret)
next
  case (Some r)
  show ?thesis
  proof (cases r)
    case (Inl e)
    then show ?thesis
      using assms(1) Some by (cases e) (auto simp: readb_turn_def Let_def intro: hoare_ret)
  next
    case (Inr packet)
    have respond: "hoare KE (andThen (attempt (Network_write W p)) (\<lambda>r. ret (case r of Inl err \<Rightarrow> Inl err | Inr _ \<Rightarrow> Inr ResponseWritten)))
        (\<lambda>_. KE) (\<lambda>_. K)" for p
      by (rule hoare_attempt [OF steady_writes(1) [OF steady_inv(3)]]) (auto intro: hoare_ret)
    show ?thesis
      unfolding readb_turn_def Let_def Some Inr option.case sum.case
    proof (intro hoare_instant hoare_attempt [OF hoare_incoming], unfold sum.case)
      fix effects
      show "hoare KE (andThen (case effect_outgoing effects of
            None \<Rightarrow> ret (Inr outcome)
          | Some outgoing \<Rightarrow> andThen (attempt (Network_write W outgoing))
              (\<lambda>r. ret (case r of Inl err \<Rightarrow> Inl err | Inr _ \<Rightarrow> Inr ResponseWritten)))
        (\<lambda>written. case written of
            Inl err \<Rightarrow> ret (Inl \<lparr>rbe_source = err, rbe_batch = \<lparr>rb_outcome = outcome, rb_notices = notices @ effect_notices effects\<rparr>\<rparr>)
          | Inr outcome \<Rightarrow>
              if effect_notices effects \<noteq> [] then ret (Inr \<lparr>rb_outcome = outcome, rb_notices = notices @ effect_notices effects\<rparr>)
              else continue outcome (notices @ effect_notices effects))) batch_post (\<lambda>_. K)"
        by (rule hoare_seq [where R = "\<lambda>_. KE"])
          (auto intro!: hoare_option hoare_sum hoare_if hoare_ret respond assms(2))
    qed (simp add: hoare_ret)
  qed
qed

lemma hoare_K_KE: "hoare K m Q E \<Longrightarrow> hoare KE m Q E"
  by (erule hoare_weaken) simp_all

lemma hoare_readb_loop:
  "(\<And>n. res \<noteq> Some (Inl (InsufficientBytes n))) \<Longrightarrow> hoare K (readb_loop B W n res outcome notices) batch_post (\<lambda>_. K)"
proof (induction n arbitrary: res outcome notices)
  case 0
  then show ?case
    unfolding readb_loop.simps by (intro hoare_readb_turn hoare_ret) (simp_all)
next
  case (Suc n)
  show ?case
    unfolding readb_loop.simps
  proof (rule hoare_readb_turn [OF Suc.prems])
    fix o' ns
    show "hoare KE (andThen (on_world (framed_next W)) (\<lambda>r.
        case r of None \<Rightarrow> ret (Inr \<lparr>rb_outcome = o', rb_notices = ns\<rparr>)
        | Some res \<Rightarrow> readb_loop B W n res o' ns)) batch_post (\<lambda>_. K)"
      by (rule hoare_next [OF steady_inv(3)]) (simp_all add: hoare_ret hoare_K_KE Suc.IH)
  qed
qed

lemma hoare_readb_from:
  "(\<And>n. res \<noteq> Some (Inl (InsufficientBytes n))) \<Longrightarrow> hoare K (readb_from B W res limit) batch_post (\<lambda>_. K)"
  unfolding readb_from_def by (rule hoare_readb_loop)

lemma reset_keepalive_frame:
  "K s \<Longrightarrow> K (reset_keepalive_timeout W s)" "el_state (reset_keepalive_timeout W s) = el_state s"
  by (auto simp: reset_keepalive_timeout_def conn_inv_def loop_inv_def)

lemma close_transport_frame: "L s \<Longrightarrow> L (close_timed_out_transport s)"
  by (simp add: close_timed_out_transport_def loop_inv_def)

lemma hoare_complete_read_batch: "hoare KE (complete_read_batch B W batch) (\<lambda>_. KE) (\<lambda>_. K)"
  unfolding complete_read_batch_def
  by (rule hoare_attempt [OF steady_save [OF steady_inv(3)]])
    (auto intro!: hoare_attempt [OF steady_writes(4) [OF steady_inv(3)]] hoare_seq [OF steady_notices [OF steady_inv(3)]]
      hoare_seq [OF hoare_from_result [of KE _ "\<lambda>_. K" "\<lambda>_. KE"]] hoare_ret hoare_fail)

lemma hoare_complete_failed: "steady P \<Longrightarrow> hoare P (complete_failed_read_batch B W error) (\<lambda>_. P) E"
  unfolding complete_failed_read_batch_def Let_def
  by (intro hoare_if hoare_ret hoare_attempt [OF steady_save], simp_all)
    (intro hoare_seq [OF steady_notices] hoare_ret; assumption)+

lemma hoare_complete_network_read:
  "hoare KE (complete_network_read B W (Inr batch)) (\<lambda>_. KE) (\<lambda>_. L)"
  "hoare L (complete_network_read B W (Inl err)) (\<lambda>_. KE) (\<lambda>_. L)"
proof -
  have "hoare KE (complete_read_batch B W batch) (\<lambda>_. KE) (\<lambda>_. L)"
    by (rule hoare_weaken [OF hoare_complete_read_batch]) (simp_all add: conn_loop)
  then show "hoare KE (complete_network_read B W (Inr batch)) (\<lambda>_. KE) (\<lambda>_. L)"
    unfolding complete_network_read_def sum.case
    by (rule hoare_seq) (auto intro!: hoare_if hoare_modify_end hoare_ret simp: reset_keepalive_frame)
  show "hoare L (complete_network_read B W (Inl err)) (\<lambda>_. KE) (\<lambda>_. L)"
    unfolding complete_network_read_def sum.case
    by (intro hoare_seq [OF hoare_complete_failed [OF steady_inv(1)]] hoare_fail)
qed

lemma replace_deadline_frame:
  "K (replace_write_deadline d s) = K s" "L (replace_write_deadline d s) = L s"
  "el_state (replace_write_deadline d s) = el_state s"
  by (auto simp: replace_write_deadline_def conn_inv_def loop_inv_def)

lemma hoare_read_network_batch:
  assumes "\<And>n. first \<noteq> Some (Inl (InsufficientBytes n))"
  shows "hoare K (read_network_batch B W first limit deadline) (\<lambda>_. KE) (\<lambda>_. L)"
proof -
  define close :: "bool \<Rightarrow> ('b, 'c, 'w, unit) el" where "close b = (if b then modify close_timed_out_transport else ret ())" for b
  have close: "hoare L (close b) (\<lambda>_. L) E" for b E
    unfolding close_def by (auto intro!: hoare_if hoare_modify_end hoare_ret close_transport_frame)
  define restore :: "nat option \<Rightarrow> ConnectionError + unit \<Rightarrow> ('b, 'c, 'w, unit) el" where
    "restore d r = andThen (modify (replace_write_deadline d)) (\<lambda>_. from_result r)" for d r
  have restore: "hoare KE (restore d (Inr ())) (\<lambda>_. KE) (\<lambda>_. L)" "hoare L (restore d (Inl e)) (\<lambda>_. KE) (\<lambda>_. L)" for d e
    unfolding restore_def
    by (rule hoare_modify [where R = KE], simp add: replace_deadline_frame, rule hoare_from_result, simp_all)
      (rule hoare_modify [where R = L], simp add: replace_deadline_frame, rule hoare_from_result, simp_all)
  have finish: "hoare L (andThen (close b) (\<lambda>_. restore d (Inl e))) (\<lambda>_. KE) (\<lambda>_. L)" for b d e
    by (rule hoare_seq [OF close restore(2)])
  have failed: "hoare K (andThen (close b) (\<lambda>_. andThen (attempt (complete_network_read B W (Inl err))) (\<lambda>result.
      andThen (case result of Inl error \<Rightarrow> close (is_timed_out error) | Inr _ \<Rightarrow> ret ()) (\<lambda>_. restore d result))))
      (\<lambda>_. KE) (\<lambda>_. L)" for b err d
    by (rule hoare_weaken [OF hoare_seq [OF close [of _ "\<lambda>_. L"]
        hoare_attempt [OF hoare_complete_network_read(2)]]]) (auto simp: conn_loop restore(1) intro: finish)
  have complete: "hoare KE (andThen (attempt (complete_network_read B W (Inr batch))) (\<lambda>result.
      andThen (case result of Inl error \<Rightarrow> close (is_timed_out error) | Inr _ \<Rightarrow> ret ()) (\<lambda>_. restore d result)))
      (\<lambda>_. KE) (\<lambda>_. L)" for batch d
    by (rule hoare_attempt [OF hoare_complete_network_read(1)]) (auto simp: restore(1) intro: finish)
  have readb: "hoare K (readb_from B W first limit) batch_post (\<lambda>_. L)"
    by (rule hoare_weaken [OF hoare_readb_from [OF assms]]) (simp_all add: conn_loop)
  have rest: "hoare (batch_post r) (andThen (case r of
        Inl error \<Rightarrow> close (is_timed_out (ConnMqttState (rbe_source error))) | Inr _ \<Rightarrow> ret ()) (\<lambda>_.
      andThen (attempt (complete_network_read B W r)) (\<lambda>result.
      andThen (case result of Inl error \<Rightarrow> close (is_timed_out error) | Inr _ \<Rightarrow> ret ()) (\<lambda>_.
      restore d result)))) (\<lambda>_. KE) (\<lambda>_. L)" for r d
    by (cases r) (simp_all add: failed complete)
  show ?thesis
    unfolding read_network_batch_def Let_def close_def [symmetric] restore_def [symmetric]
    by (rule hoare_gets', rule hoare_network(1), rule hoare_modify [where R = K], simp add: replace_deadline_frame)
      (rule hoare_seq [OF readb rest])
qed

lemma hoare_defer: "hoare L (defer_connection_error error) (\<lambda>_. L) (\<lambda>_. L)"
  unfolding defer_connection_error_def
  by (rule hoare_seq [where R = "\<lambda>_. L"])
    (auto intro!: hoare_if hoare_modify_end hoare_ret hoare_option hoare_fail hoare_modify [where R = L]
      hoare_seq [OF hoare_pop_event(2)] close_transport_frame)

lemma hoare_handle_network_read:
  assumes "\<And>n. first \<noteq> Some (Inl (InsufficientBytes n))"
  shows "hoare K (handle_network_read B C W first) (\<lambda>_. L) (\<lambda>_. L)"
  unfolding handle_network_read_def
  by (rule hoare_gets', rule hoare_instant, rule hoare_attempt [OF hoare_read_network_batch [OF assms]])
    (simp_all add: hoare_defer hoare_weaken [OF hoare_pop_event(3) _ conn_loop])

lemma hoare_check_scan: "hoare K (check_keepalive_scan_timeout W) (\<lambda>_. K) (\<lambda>_. L)"
  unfolding check_keepalive_scan_timeout_def
  by (intro hoare_gets' hoare_option hoare_ret hoare_instant hoare_if hoare_modify_end hoare_fail)
    (simp_all add: conn_loop)

abbreviation scan_post :: "bool \<Rightarrow> ('b, 'c, 'w) EventLoop \<Rightarrow> bool" where
  "scan_post r \<equiv> (if r then KE else K)"

lemma hoare_scan_step:
  assumes "hoare KE (scan_ready_packets B W deadline n) scan_post (\<lambda>_. L)"
  shows "hoare K (scan_ready_packets B W deadline (Suc n)) scan_post (\<lambda>_. L)"
  unfolding scan_ready_packets.simps
  by (rule hoare_network(1), rule hoare_next [OF steady_inv(2)])
    (auto intro!: hoare_ret hoare_seq [OF hoare_read_network_batch] hoare_gets' hoare_if hoare_modify [where R = KE] assms)

lemma hoare_scan: "hoare KE (scan_ready_packets B W deadline n) scan_post (\<lambda>_. L)"
proof (induction n)
  case 0
  then show ?case by (simp add: hoare_ret)
next
  case (Suc n)
  show ?case by (rule hoare_K_KE [OF hoare_scan_step [OF Suc.IH]])
qed

lemma hoare_scan_response: "hoare K (scan_keepalive_response B W) (\<lambda>_. K) (\<lambda>_. L)"
proof -
  have "hoare K (scan_ready_packets B W deadline 128) scan_post (\<lambda>_. L)" for deadline
    using hoare_scan_step [OF hoare_scan, of deadline 127] by simp
  note scan = this
  have pop: "hoare KE (andThen pop_event (\<lambda>event. andThen (expect event) (\<lambda>event. ret (Some event)))) (\<lambda>_. K) (\<lambda>_. L)"
    using hoare_seq [OF hoare_pop_event(3) [where E = "\<lambda>_. L"], of "\<lambda>event. ret (Some event)" "\<lambda>_. K"]
    by (simp add: andThen_assoc hoare_ret)
  show ?thesis
    unfolding scan_keepalive_response_def Let_def
    by (rule hoare_gets', rule hoare_instant, rule hoare_modify [where R = K], simp, rule hoare_seq [OF scan])
      (simp add: hoare_ret pop)
qed

text \<open>The protocol requests that always leave an event.\<close>

lemma disconnect_events:
  "handle_outgoing_packet_with_notice B now (ReqDisconnectNow d) n s = (Ok r, t) \<Longrightarrow> events t \<noteq> []"
  by (auto simp: handle_outgoing_packet_with_notice_def handle_outgoing_packet_with_notice_internal_def andThen_eq_Ok
      outgoing_disconnect_def run_ret)

lemma ping_events:
  "handle_outgoing_packet_with_notice B now ReqPingReq n s = (Ok r, t) \<Longrightarrow> events t \<noteq> []"
  by (auto simp: handle_outgoing_packet_with_notice_def handle_outgoing_packet_with_notice_internal_def andThen_eq_Ok
      outgoing_ping_def run_ret split: if_splits)

lemma hoare_event_request:
  assumes "\<not> graceful_disconnect request"
    and "\<And>s r t. handle_outgoing_packet_with_notice B now request n s = (Ok r, t) \<Longrightarrow> events t \<noteq> []"
  shows "hoare K (state_call (handle_outgoing_packet_with_notice B now request n)) (\<lambda>_. KE) (\<lambda>_. K)"
  unfolding state_call_def
proof (rule hoare_map_err, rule hoareI)
  fix s
  assume "K s"
  have wp: "wp (on_state (handle_outgoing_packet_with_notice B now request n)) (\<lambda>_. K) (\<lambda>_. K) s"
    by (rule hoareD [OF hoare_on_state \<open>K s\<close>], unfold handle_outgoing_packet_with_notice_def,
        rule keeps_inv_handle_outgoing_internal [where replay = False, simplified], assumption, rule assms(1))
  show "wp (on_state (handle_outgoing_packet_with_notice B now request n)) (\<lambda>_. KE) (\<lambda>_. K) s"
    by (rule wp_mono [OF wp]) (auto simp: on_state_def split: prod.splits dest: assms(2))
qed

lemma hoare_keepalive_inner: "hoare K (handle_keepalive_ping_inner B W) (\<lambda>_. K) (\<lambda>_. L)"
proof -
  have ping: "hoare K (state_call (handle_outgoing_packet_with_notice B now ReqPingReq None)) (\<lambda>_. KE) (\<lambda>_. L)" for now
    by (rule hoare_weaken [OF hoare_event_request]) (auto dest: ping_events conn_loop)
  have put: "hoare KE (case p of None \<Rightarrow> ret () | Some p \<Rightarrow> map_err ConnMqttState (Network_write W p)) (\<lambda>_. KE) (\<lambda>_. L)" for p
    by (auto intro!: hoare_option hoare_ret hoare_map_err hoare_weaken [OF steady_writes(1) [OF steady_inv(3)]] conn_loop)
  have flush: "hoare KE (flush_network W) (\<lambda>_. KE) (\<lambda>_. L)"
    by (rule hoare_weaken [OF steady_writes(3) [OF steady_inv(3)]]) (auto dest: conn_loop)
  have scan: "hoare K (if b then scan_keepalive_response B W else ret None) (\<lambda>_. K) (\<lambda>_. L)" for b
    by (simp add: hoare_scan_response hoare_ret)
  show ?thesis
    unfolding handle_keepalive_ping_inner_def
    by (rule hoare_seq [OF hoare_check_scan], rule hoare_gets', rule hoare_seq [OF scan])
      (auto intro!: hoare_option hoare_ret hoare_instant hoare_prod hoare_seq [OF ping] hoare_seq [OF put]
        hoare_seq [OF flush] hoare_modify [where R = KE] hoare_pop_event(3) simp: reset_keepalive_frame)
qed

lemma hoare_keepalive: "hoare K (handle_keepalive_ping B W) (\<lambda>_. L) (\<lambda>_. L)"
  unfolding handle_keepalive_ping_def
  by (rule hoare_gets', rule hoare_attempt [OF hoare_keepalive_inner])
    (auto intro!: hoare_ret hoare_if hoare_fail hoare_defer conn_loop)

section \<open>Requests\<close>

text \<open>Connected, and a request has left the queues and is about to be handled.\<close>

definition held :: "RequestEnvelope \<Rightarrow> ('b, 'c, 'w) EventLoop \<Rightarrow> bool" where
  "held e s \<longleftrightarrow> K (s\<lparr>el_pending := e # el_pending s\<rparr>)"

lemma held_K: "held e s \<Longrightarrow> K s"
  using owned_tail [of _ "[e]"] by (fastforce simp: held_def conn_inv_def loop_inv_def)

lemma held_fresh: "\<not> env_replay e \<Longrightarrow> held e s \<longleftrightarrow> K s"
  by (simp add: held_def conn_inv_def loop_inv_def owned_def)

lemma hoare_held_call:
  assumes "\<not> graceful_disconnect (env_request e)"
  shows "hoare (held e)
    (state_call (handle_outgoing_packet_with_notice_internal B now (env_request e) (env_notice e) (env_replay e)))
    (\<lambda>_. K) (\<lambda>_. K)"
  unfolding state_call_def
proof (rule hoare_map_err, rule hoareI)
  let ?m = "handle_outgoing_packet_with_notice_internal B now (env_request e) (env_notice e) (env_replay e)"
  fix s :: "('b, 'c, 'w) EventLoop"
  assume held: "held e s"
  then obtain Q where Q: "state_inv B Q (el_state s)" "owned Q (e # waiting_requests s)"
    by (auto simp: held_def conn_inv_def loop_inv_def)
  obtain r t where run: "?m (el_state s) = (r, t)"
    by (cases "?m (el_state s)")
  let ?Q' = "if env_replay e then Q - replay_ids (env_request e) else Q"
  have keeps: "keeps_inv B Q ?Q' ?m (el_state s)"
    by (rule keeps_inv_handle_outgoing_internal [OF Q(1) assms]) (use Q(2) in \<open>auto simp: owned_def\<close>)
  have change: "K (s\<lparr>el_state := t\<rparr>)" if "state_inv B P t" "owned P (waiting_requests s)" for P
    using that held_K [OF held] conn_key [OF held_K [OF held]] by (auto simp: conn_inv_def loop_inv_def)
  have "owned Q (waiting_requests s)" "owned ?Q' (waiting_requests s)"
    using Q(2) by (auto simp: owned_def)
  then show "wp (on_state ?m) (\<lambda>_. K) (\<lambda>_. K) s"
    using keeps change by (auto simp: wp_def on_state_def run keeps_inv_def split: outcome.splits)
qed

lemma hoare_flush_request_batch: "hoare K (flush_request_batch W b ns) (\<lambda>_. K) (\<lambda>_. K)"
  unfolding flush_request_batch_def
  by (intro hoare_if hoare_ret, assumption, rule hoare_attempt [OF steady_writes(3) [OF steady_inv(2)]])
    (auto intro!: hoare_seq [OF hoare_send_notices(1)] hoare_modify_end hoare_fail reset_keepalive_frame)

lemma hoare_protocol_request:
  assumes "\<not> graceful_disconnect (env_request e)"
  shows "hoare (held e) (handle_protocol_request B W e b ns) (\<lambda>_. K) (\<lambda>_. K)"
proof -
  have call: "hoare (held e) (state_call
       (if env_replay e
        then handle_replayed_outgoing_packet_with_notice B now (env_request e) (env_notice e)
        else handle_outgoing_packet_with_notice B now (env_request e) (env_notice e))) (\<lambda>_. K) (\<lambda>_. K)" for now
    using hoare_held_call [OF assms, of now]
    by (cases "env_replay e") (simp_all add: handle_replayed_outgoing_packet_with_notice_def handle_outgoing_packet_with_notice_def)
  have put: "hoare K (andThen (attempt (Network_write_request W p)) f) Q E"
    if "hoare K (f (Inr ())) Q E" "\<And>e. hoare K (f (Inl e)) Q E" for p f Q E
    using that by (auto intro: hoare_attempt [OF steady_writes(2) [OF steady_inv(2)]])
  show ?thesis
    unfolding handle_protocol_request_def
    by (rule hoare_instant, rule hoare_seq [OF call], rule hoare_prod, rule hoare_seq [OF steady_persist [OF steady_inv(2)]])
      (auto intro!: hoare_option hoare_ret put hoare_seq [OF hoare_send_notices(1)] hoare_fail)
qed

lemma hoare_disconnect_now:
  assumes "disconnect_now (env_request e)"
  shows "hoare K (handle_disconnect_now B W e b ns) (\<lambda>_. KE) (\<lambda>_. K)"
proof -
  have call: "hoare K (state_call (handle_outgoing_packet_with_notice B now (env_request e) (env_notice e)))
      (\<lambda>_. KE) (\<lambda>_. K)" for now
    using assms by (cases "env_request e") (auto intro!: hoare_event_request dest: disconnect_events)
  have save: "hoare KE (save_persisted_session B W) (\<lambda>_. KE) (\<lambda>_. K)"
    by (rule hoare_weaken [OF steady_save [OF steady_inv(3)]]) auto
  have put: "hoare KE (case p of None \<Rightarrow> ret b | Some p \<Rightarrow>
      andThen (map_err ConnMqttState (Network_write_request W p)) (\<lambda>_. ret True)) (\<lambda>_. KE) (\<lambda>_. K)" for p
    by (intro hoare_option hoare_ret, assumption, rule hoare_seq [where R = "\<lambda>_. KE"], rule hoare_map_err)
      (auto intro!: hoare_ret hoare_weaken [OF steady_writes(2) [OF steady_inv(3)]])
  show ?thesis
    unfolding handle_disconnect_now_def
    by (rule hoare_instant, rule hoare_seq [OF call], rule hoare_prod, rule hoare_seq [OF save], rule hoare_seq [OF put])
      (auto intro!: hoare_modify [where R = KE] hoare_ret)
qed

lemma hoare_handle_request: "hoare (held e) (handle_request B W e b ns) (\<lambda>_. K) (\<lambda>_. K)"
proof -
  have graceful: "hoare (held e) (andThen (instant_now W) (\<lambda>now.
      andThen (modify (\<lambda>self. self\<lparr>pending_disconnect := f now\<rparr>)) (\<lambda>_. ret x))) (\<lambda>_. K) (\<lambda>_. K)" for f and x :: 'z
    by (rule hoare_instant) (auto intro!: hoare_modify [where R = K] hoare_ret dest: held_K)
  have now: "disconnect_now (env_request e) \<Longrightarrow> hoare (held e) (handle_disconnect_now B W e b ns) (\<lambda>_. K) (\<lambda>_. K)"
    by (rule hoare_weaken [OF hoare_disconnect_now]) (auto dest: held_K)
  show ?thesis
    by (cases "env_request e") (simp_all add: handle_request_def graceful now hoare_protocol_request)
qed

lemma hoare_next_scheduled:
  assumes "\<And>e. hoare (held e) (f (Some e)) R E" "hoare K (f None) R E"
  shows "hoare K (andThen (next_scheduled_request B) f) R E"
proof (rule hoare_seq [where R = "\<lambda>r. case r of None \<Rightarrow> K | Some e \<Rightarrow> held e"], rule hoareI)
  fix s
  assume K: "K s"
  obtain r q where pop: "pop_next (classify_envelope B (el_state s)) (el_queued s) = (r, q)"
    by (cases "pop_next (classify_envelope B (el_state s)) (el_queued s)")
  have "(case r of None \<Rightarrow> K | Some e \<Rightarrow> held e) (s\<lparr>el_queued := q\<rparr>)"
  proof (cases r)
    case None
    then have "q = el_queued s"
      using pop by (auto simp: pop_next_def deque_remove_def split: option.splits if_splits)
    then show ?thesis
      using None K by simp
  next
    case (Some e)
    then obtain pre post where "sched_queue (el_queued s) = pre @ e # post" "q = (el_queued s)\<lparr>sched_queue := pre @ post\<rparr>"
      using pop by (auto simp: pop_next_Some)
    then have "mset (waiting_requests s) = mset (e # el_pending s @ sched_queue q)"
      by simp
    then have "owned P (waiting_requests s) \<longleftrightarrow> owned P (e # el_pending s @ sched_queue q)" for P
      by (rule owned_perm)
    then show ?thesis
      using Some K conn_key [OF K] by (auto simp: held_def conn_inv_def loop_inv_def)
  qed
  then show "wp (next_scheduled_request B) (\<lambda>r. case r of None \<Rightarrow> K | Some e \<Rightarrow> held e) E s"
    by (simp add: wp_def next_scheduled_request_def pop)
qed (use assms in \<open>auto split: option.splits\<close>)

lemma hoare_request_batch: "hoare K (request_batch B W n b ns) (\<lambda>_. K) (\<lambda>_. K)"
  by (induction n arbitrary: b ns)
    (auto intro!: hoare_ret hoare_next_scheduled hoare_seq [OF hoare_handle_request] split: BatchControl.splits)

lemma hoare_ready_requests: "hoare K (handle_ready_requests B W) (\<lambda>_. K) (\<lambda>_. K)"
  unfolding handle_ready_requests_def
  by (rule hoare_next_scheduled)
    (auto intro!: hoare_ret hoare_seq [OF hoare_handle_request] hoare_gets' hoare_seq [OF hoare_request_batch]
      hoare_seq [OF hoare_flush_request_batch] simp: andThen_assoc split: BatchControl.splits)

lemma hoare_immediate:
  assumes "disconnect_now (env_request e)"
  shows "hoare K (handle_immediate_disconnect B W e) (\<lambda>_. K) (\<lambda>_. K)"
proof -
  have call: "handle_request B W e b ns = handle_disconnect_now B W e b ns" for b ns
    using assms by (cases "env_request e") (simp_all add: handle_request_def fun_eq_iff)
  have flush: "hoare KE (flush_request_batch W b ns) (\<lambda>_. KE) (\<lambda>_. K)" for b ns
    unfolding flush_request_batch_def
    by (intro hoare_if hoare_ret, assumption, rule hoare_attempt [OF steady_writes(3) [OF steady_inv(3)]])
      (auto intro!: hoare_seq [OF hoare_send_notices(3)] hoare_modify_end hoare_fail simp: reset_keepalive_frame)
  show ?thesis
    unfolding handle_immediate_disconnect_def call
    by (rule hoare_seq [OF hoare_disconnect_now [OF assms]])
      (auto intro!: hoare_seq [OF flush] hoare_pop_event(3))
qed

section \<open>Waiting for work\<close>

lemma channel_change:
  "L s \<Longrightarrow> list_all (\<lambda>e. \<not> env_replay e) (items c) \<Longrightarrow> L (s\<lparr>requests_rx := c\<rparr>)"
  "L s \<Longrightarrow> list_all (\<lambda>e. \<not> env_replay e) (items c) \<Longrightarrow> L (s\<lparr>control_requests_rx := c\<rparr>)"
  "L s \<Longrightarrow> list_all (\<lambda>e. \<not> env_replay e \<and> disconnect_now (env_request e)) (items c) \<Longrightarrow> L (s\<lparr>immediate_disconnect_rx := c\<rparr>)"
  by (auto simp: loop_inv_def)

lemma channel_fresh:
  assumes "L s"
  shows "list_all (\<lambda>e. \<not> env_replay e) (items (requests_rx s))"
    and "list_all (\<lambda>e. \<not> env_replay e) (items (control_requests_rx s))"
    and "list_all (\<lambda>e. \<not> env_replay e \<and> disconnect_now (env_request e)) (items (immediate_disconnect_rx s))"
  using assms by (simp_all add: loop_inv_def)

lemma hoare_recv_requests:
  assumes "\<And>e. \<not> env_replay e \<Longrightarrow> hoare K (f (Ok e)) Q E" "\<And>x. hoare K (f (Err x)) Q E"
  shows "hoare K (andThen (recv_requests C) f) Q E"
proof (rule hoareI)
  fix s
  assume K: "K s"
  show "wp (andThen (recv_requests C) f) Q E s"
    using assms K channel_fresh(1) [OF conn_loop [OF K]]
    by (cases rule: recv_cases [of "requests_rx s"])
      (auto simp: hoare_def wp_def andThen_def recv_requests_def conn_inv_def channel_change)
qed

lemma hoare_recv_control:
  assumes "\<And>e. \<not> env_replay e \<Longrightarrow> hoare K (f (Ok e)) Q E" "\<And>x. hoare K (f (Err x)) Q E"
  shows "hoare K (andThen (recv_control C) f) Q E"
proof (rule hoareI)
  fix s
  assume K: "K s"
  show "wp (andThen (recv_control C) f) Q E s"
    using assms K channel_fresh(2) [OF conn_loop [OF K]]
    by (cases rule: recv_cases [of "control_requests_rx s"])
      (auto simp: hoare_def wp_def andThen_def recv_control_def conn_inv_def channel_change)
qed

lemma hoare_recv_immediate:
  assumes "\<And>s c. P s \<Longrightarrow> L s \<and> (L (s\<lparr>immediate_disconnect_rx := c\<rparr>) \<longrightarrow> P (s\<lparr>immediate_disconnect_rx := c\<rparr>))"
    and "\<And>e. disconnect_now (env_request e) \<Longrightarrow> hoare P (f (Ok e)) Q E" "\<And>x. hoare P (f (Err x)) Q E"
  shows "hoare P (andThen (recv_immediate C) f) Q E"
proof (rule hoareI)
  fix s
  assume P: "P s"
  have L: "L s"
    using assms(1) [OF P] by simp
  show "wp (andThen (recv_immediate C) f) Q E s"
    using assms(1) [OF P] assms(2,3) P channel_fresh(3) [OF L]
    by (cases rule: recv_cases [of "immediate_disconnect_rx s"])
      (auto simp: hoare_def wp_def andThen_def recv_immediate_def channel_change)
qed

lemma immediate_K: "K s \<Longrightarrow> L s \<and> (L (s\<lparr>immediate_disconnect_rx := c\<rparr>) \<longrightarrow> K (s\<lparr>immediate_disconnect_rx := c\<rparr>))"
  by (simp add: conn_inv_def)

lemmas hoare_recv_immediate_K = hoare_recv_immediate [where P = K, OF immediate_K]

lemma hoare_recv_immediate_case:
  "\<lbrakk>\<And>e. disconnect_now (env_request e) \<Longrightarrow> hoare K (f e) Q E; \<And>x. hoare K (g x) Q E\<rbrakk>
    \<Longrightarrow> hoare K (andThen (recv_immediate C) (case_outcome f g h)) Q E"
  by (rule hoare_recv_immediate_K) simp_all

text \<open>What is known of the loop once a source is ready.\<close>

definition ready_post :: "PollReady option \<Rightarrow> ('b, 'c, 'w) EventLoop \<Rightarrow> bool" where
  "ready_post r s \<longleftrightarrow>
     (case r of
        Some (ReadyRequest (Inr e)) \<Rightarrow> held e s
      | Some (ReadyImmediate e) \<Rightarrow> K s \<and> disconnect_now (env_request e)
      | Some (ReadyControl e) \<Rightarrow> K s \<and> \<not> env_replay e
      | Some (ReadyNetwork frame) \<Rightarrow> K s \<and> (\<forall>n. frame \<noteq> Some (Inl (InsufficientBytes n)))
      | _ \<Rightarrow> K s)"

lemma ready_post_simps [simp]:
  "ready_post None s = K s" "ready_post (Some (ReadyRequest (Inr e))) s = held e s"
  "ready_post (Some (ReadyRequest (Inl err))) s = K s" "ready_post (Some ReadyClosed) s = K s"
  "ready_post (Some ReadyKeepAlive) s = K s"
  "ready_post (Some (ReadyImmediate e)) s \<longleftrightarrow> K s \<and> disconnect_now (env_request e)"
  "ready_post (Some (ReadyControl e)) s \<longleftrightarrow> K s \<and> \<not> env_replay e"
  "ready_post (Some (ReadyNetwork frame)) s \<longleftrightarrow> K s \<and> (\<forall>n. frame \<noteq> Some (Inl (InsufficientBytes n)))"
  by (simp_all add: ready_post_def)

lemma held_frame [simp]: "held e (s\<lparr>next_poll_source := src\<rparr>) = held e s"
  by (simp add: held_def conn_inv_def loop_inv_def)

lemma ready_post_frame [simp]: "ready_post r (s\<lparr>next_poll_source := src\<rparr>) = ready_post r s"
  by (simp add: ready_post_def split: option.splits PollReady.splits sum.splits)

lemma hoare_pending:
  assumes "hoare K (f []) Q E" "\<And>e es. hoare (\<lambda>s. K s \<and> el_pending s = e # es) (f (e # es)) Q E"
  shows "hoare K (andThen (gets el_pending) f) Q E"
  using assms by (auto simp: hoare_def wp_simps) (metis neq_Nil_conv)

lemma hoare_held_pop:
  "hoare (held e) (f ()) Q E
    \<Longrightarrow> hoare (\<lambda>s. K s \<and> el_pending s = e # es) (andThen (modify (\<lambda>self. self\<lparr>el_pending := es\<rparr>)) f) Q E"
  by (rule hoare_modify) (auto simp: held_def conn_inv_def loop_inv_def)

lemma hoare_poll_source: "hoare K (poll_source C W en ka source) ready_post (\<lambda>_. K)"
proof (cases source)
  case (PollRequest n)
  show ?thesis
    unfolding PollRequest poll_source.simps
    by (rule hoare_if, simp add: hoare_ret, rule hoare_pending)
      (auto intro!: hoare_recv_requests hoare_ret hoare_gets' hoare_if hoare_held_pop
        simp: held_fresh split: TryRecvError.splits)
next
  case PollNetwork
  then show ?thesis
    by (auto intro!: hoare_next [OF steady_inv(2)] hoare_ret)
next
  case PollKeepAlive
  then show ?thesis
    by (auto simp: hoare_def wp_simps split: option.splits)
qed

lemma hoare_or_else:
  assumes "hoare P m ready_post E" "hoare K n ready_post E"
  shows "hoare P (andThen m (\<lambda>r. if r \<noteq> None then ret r else n)) ready_post E"
    and "hoare P (andThen m (\<lambda>r. if r \<noteq> None then andThen (modify (\<lambda>self. self\<lparr>next_poll_source := src\<rparr>)) (\<lambda>_. ret r)
      else n)) ready_post E"
proof -
  have step: "hoare (ready_post r) (if r \<noteq> None then k r else n) ready_post E" if "hoare (ready_post r) (k r) ready_post E" for k r
    using assms(2) that by (cases r) (simp_all add: ready_post_simps(1) [abs_def])
  show "hoare P (andThen m (\<lambda>r. if r \<noteq> None then ret r else n)) ready_post E"
    by (rule hoare_seq [OF assms(1)], rule step) (simp add: hoare_ret)
  show "hoare P (andThen m (\<lambda>r. if r \<noteq> None then andThen (modify (\<lambda>self. self\<lparr>next_poll_source := src\<rparr>)) (\<lambda>_. ret r)
      else n)) ready_post E"
    by (rule hoare_seq [OF assms(1)], rule step, rule hoare_modify [where R = "ready_post r" for r])
      (auto intro!: hoare_ret)
qed

lemma hoare_poll_sources: "hoare K (poll_sources C W en ka n source) ready_post (\<lambda>_. K)"
proof (induction n arbitrary: source)
  case (Suc n)
  show ?case
    unfolding poll_sources.simps by (rule hoare_or_else(2) [OF hoare_poll_source Suc.IH])
qed (simp add: hoare_ret)

lemma hoare_buffered_ready: "hoare K (buffered_ready C) ready_post (\<lambda>_. K)"
  unfolding buffered_ready_def
  by (auto intro!: hoare_recv_immediate_K hoare_recv_control hoare_recv_requests hoare_ret hoare_modify [where R = K]
      simp: held_fresh)

lemma hoare_poll_recv:
  "hoare K (poll_recv en (recv_immediate C) ReadyImmediate) ready_post (\<lambda>_. K)"
  "hoare K (poll_recv en (recv_control C) ReadyControl) ready_post (\<lambda>_. K)"
  unfolding poll_recv_def
  by (auto intro!: hoare_recv_immediate_K hoare_recv_control hoare_ret split: TryRecvError.splits)

lemma hoare_next_ready: "hoare K (next_ready B C W) ready_post (\<lambda>_. K)"
proof -
  have fast: "hoare K (if b then buffered_ready C else ret None) ready_post (\<lambda>_. K)" for b
    by (simp add: hoare_buffered_ready hoare_ret)
  show ?thesis
    unfolding next_ready_def
    by (rule hoare_gets', rule hoare_gets', rule hoare_or_else(1) [OF fast], rule hoare_gets', rule hoare_gets',
        rule hoare_gets', rule hoare_network(1), rule hoare_or_else(1) [OF hoare_poll_recv(1)],
        rule hoare_or_else(1) [OF hoare_poll_recv(2)], rule hoare_gets', rule hoare_poll_sources)
qed

section \<open>Admission\<close>

lemma hoare_queue_push: "hoare (held e) (queue_push e) (\<lambda>_. K) E"
  unfolding queue_push_def
proof (rule hoare_modify_end)
  fix s
  assume held: "held e s"
  have "owned Q (e # waiting_requests s) \<longleftrightarrow> owned Q (el_pending s @ sched_queue (el_queued s) @ [e])" for Q
    by (rule owned_perm) simp
  then show "K (s\<lparr>el_queued := sched_push_back e (el_queued s)\<rparr>)"
    using held conn_key [OF held_K [OF held]] by (auto simp: held_def conn_inv_def loop_inv_def sched_push_back_def)
qed

lemma hoare_try_next:
  assumes "\<And>e. hoare (held e) (f (Some e)) Q E" "hoare K (f None) Q E"
  shows "hoare K (andThen (try_next_request C) f) Q E"
  unfolding try_next_request_def andThen_assoc
proof (rule hoare_pending)
  have "hoare K (f (Some e)) Q E" if "\<not> env_replay e" for e
    using assms(1) [of e] by (simp add: held_fresh [OF that, abs_def])
  then show "hoare K (andThen (case [] of [] \<Rightarrow> andThen (recv_requests C) (\<lambda>r. ret (case r of Ok e \<Rightarrow> Some e | _ \<Rightarrow> None))
      | e # pending \<Rightarrow> andThen (modify (\<lambda>self. self\<lparr>el_pending := pending\<rparr>)) (\<lambda>_. ret (Some e))) f) Q E"
    using assms(2) by (auto simp: andThen_assoc intro!: hoare_recv_requests)
qed (use assms(1) in \<open>auto simp: andThen_assoc intro!: hoare_held_pop\<close>)

lemma hoare_admit_existing: "hoare K (admit_existing B C n) (\<lambda>_. K) (\<lambda>_. K)"
proof (induction n)
  case (Suc n)
  show ?case
    unfolding admit_existing.simps
    by (rule hoare_gets') (auto intro!: hoare_ret hoare_try_next hoare_seq [OF hoare_queue_push] Suc.IH)
qed (simp add: hoare_ret)

lemma hoare_try_admit: "hoare K (try_admit_existing_normal_requests B C) (\<lambda>_. K) (\<lambda>_. K)"
  by (simp add: try_admit_existing_normal_requests_def hoare_gets' hoare_admit_existing)

lemma hoare_admit_batch: "hoare K (admit_batch C n) (\<lambda>_. K) (\<lambda>_. K)"
  by (induction n) (auto intro!: hoare_ret hoare_gets' hoare_try_next hoare_seq [OF hoare_queue_push])

lemma hoare_admit_normal: "hoare (held e) (admit_normal_request_batch B C e) (\<lambda>_. K) (\<lambda>_. K)"
  unfolding admit_normal_request_batch_def
  by (rule hoare_seq [OF hoare_queue_push]) (auto intro!: hoare_gets' hoare_ret hoare_admit_batch)

section \<open>The end of a connection\<close>

text \<open>The requests that cleaning hands back own the identifiers they carry.\<close>

abbreviation cleaned_envelopes :: "'b MqttState \<Rightarrow> RequestEnvelope list" where
  "cleaned_envelopes s \<equiv> map (\<lambda>clean.
     from_parts_with_replay (clean_request clean) (clean_notice clean) (clean_replay clean)) (cleaned_requests s)"

lemma owned_ids_const:
  assumes "\<And>x. x \<in> set xs \<Longrightarrow> env_replay (f x) \<and> request_ids (env_request (f x)) = [unat (g x :: u16)]"
  shows "owned_ids (map f xs) = map unat (map g xs)"
  using assms by (induction xs) auto

lemma cleaned_owned_ids:
  assumes "state_inv B Q s"
  shows "owned_ids (cleaned_envelopes s)
    = map unat (outgoing_pub_order s @ map fst (pending_subscribe s) @ map fst (pending_unsubscribe s))"
proof -
  let ?env = "\<lambda>clean. from_parts_with_replay (clean_request clean) (clean_notice clean) (clean_replay clean)"
  have pubs: "owned_ids (map (\<lambda>k. ?env (cleaned_publish s k)) (outgoing_pub_order s)) = map unat (map (\<lambda>k. k) (outgoing_pub_order s))"
    by (rule owned_ids_const, erule order_slot [OF assms]) (simp add: cleaned_publish_def from_parts_with_replay_def)
  have rels: "owned_ids (map (\<lambda>k. ?env (cleaned_pubrel s k)) ks) = []" for ks
    by (induction ks) (simp_all add: cleaned_pubrel_def from_parts_with_replay_def)
  have subs: "owned_ids (map (\<lambda>x. ?env (cleaned_subscribe x)) (pending_subscribe s)) = map unat (map fst (pending_subscribe s))"
    by (rule owned_ids_const) (auto simp: from_parts_with_replay_def)
  have unsubs: "owned_ids (map (\<lambda>x. ?env (cleaned_unsubscribe x)) (pending_unsubscribe s)) = map unat (map fst (pending_unsubscribe s))"
    by (rule owned_ids_const) (auto simp: from_parts_with_replay_def)
  have coll: "owned_ids (map ?env (cleaned_collision s)) = []"
    by (simp add: cleaned_collision_def from_parts_with_replay_def split: option.splits)
  show ?thesis
    using pubs subs unsubs by (simp add: cleaned_requests_def rels coll o_def)
qed

lemma cleaned_replayable:
  assumes "state_inv B Q s" "c \<in> set (cleaned_requests s)" "clean_replay c"
  shows "replayable (clean_request c)"
proof -
  have "replayable (clean_request (cleaned_publish s k))" if "k \<in> set (outgoing_pub_order s)" for k
    by (rule order_slot [OF assms(1) that]) (simp add: cleaned_publish_def)
  moreover have "replayable (clean_request (cleaned_pubrel s k))" for k
    by (simp add: cleaned_pubrel_def)
  moreover have "\<not> clean_replay c" if "c \<in> set (cleaned_collision s)"
    using that by (auto simp: cleaned_collision_def split: option.splits)
  moreover have "replayable (clean_request (cleaned_subscribe x))" "replayable (clean_request (cleaned_unsubscribe y))" for x y
    by (cases x, simp) (cases y, simp)
  ultimately show ?thesis
    using assms(2,3) unfolding cleaned_requests_def by auto
qed

lemma cleaned_owned:
  assumes "state_inv B Q s" "owned Q es"
  shows "owned (Q \<union> occupied (outgoing_pub s) \<union> subscribe_ids s \<union> unsubscribe_ids s) (es @ cleaned_envelopes s)"
proof -
  let ?ids = "outgoing_pub_order s @ map fst (pending_subscribe s) @ map fst (pending_unsubscribe s)"
  note tracked = tracked_ids_distinct [OF assms(1)]
  have "distinct ?ids"
    using tracked(1) by (auto simp: tracked_ids_def)
  then have "distinct (owned_ids (cleaned_envelopes s))"
    unfolding cleaned_owned_ids [OF assms(1)] by (subst distinct_map) (simp add: inj_on_def word_unat_eq_iff [symmetric])
  moreover have "unat ` set ?ids \<subseteq> unat ` set (tracked_ids s)"
    by (auto simp: tracked_ids_def)
  then have "set (owned_ids (cleaned_envelopes s)) \<inter> Q = {}"
    using tracked(2) unfolding cleaned_owned_ids [OF assms(1)] set_map by blast
  moreover have "set (owned_ids (cleaned_envelopes s)) \<subseteq> occupied (outgoing_pub s) \<union> subscribe_ids s \<union> unsubscribe_ids s"
    using state_invD(4) [OF assms(1)] unfolding cleaned_owned_ids [OF assms(1)]
    by (auto simp: orders_inv_def order_inv_def)
  ultimately show ?thesis
    using assms(2) cleaned_replayable [OF assms(1)] unfolding owned_def by (auto simp: from_parts_with_replay_def)
qed

lemma untracked_cleaned: "tracked_requests s = [] \<Longrightarrow> list_all (\<lambda>e. \<not> env_replay e) (cleaned_envelopes s)"
  by (auto simp: tracked_requests_def cleaned_requests_def cleaned_collision_def from_parts_with_replay_def split: option.splits)

lemma tracked_cleaned:
  "tracked_requests (cleaned_state B keep s) = []"
  "tracked_requests (maybe_shrink_outgoing_tracking_capacity B (cleaned_state B keep s)) = []"
  by (simp_all add: tracked_requests_def cleaned_state_def maybe_shrink_outgoing_tracking_capacity_def Let_def)

lemma tracked_fresh: "tracked_requests (new_internal B now m mode) = []"
  by (simp add: tracked_requests_def new_internal_def Let_def)

lemma drain_channels_inv:
  assumes "L s"
  shows "L (drain_channels_to_pending C s)"
proof -
  obtain c d where drain: "ch_drain C (requests_rx s) = (items (requests_rx s), c)" "items c = []"
      "ch_drain C (control_requests_rx s) = (items (control_requests_rx s), d)" "items d = []"
    using drain_all by blast
  let ?new = "replayed (items (requests_rx s)) @ replayed (items (control_requests_rx s))"
  have fresh: "list_all (\<lambda>e. \<not> env_replay e) ?new"
    using channel_fresh(1,2) [OF assms] by (auto simp: list_all_iff)
  have "mset ((el_pending s @ ?new) @ sched_queue (el_queued s)) = mset (waiting_requests s @ ?new)"
    by simp
  then have "owned Q ((el_pending s @ ?new) @ sched_queue (el_queued s)) \<longleftrightarrow> owned Q (waiting_requests s @ ?new)" for Q
    by (rule owned_perm)
  then have "owned Q ((el_pending s @ ?new) @ sched_queue (el_queued s)) \<longleftrightarrow> owned Q (waiting_requests s)" for Q
    by (simp only: owned_append_fresh [OF fresh])
  then show ?thesis
    using assms fresh by (simp add: drain_channels_to_pending_def drain loop_inv_def)
qed

lemma drop_requests_inv:
  assumes "L s"
  shows "L (drop_unprocessed_requests C s)"
proof -
  obtain c d where drain: "ch_drain C (requests_rx s) = (items (requests_rx s), c)" "items c = []"
      "ch_drain C (control_requests_rx s) = (items (control_requests_rx s), d)" "items d = []"
    using drain_all by blast
  then show ?thesis
    using assms by (auto simp: drop_unprocessed_requests_def loop_inv_def sched_clear_def owned_def)
qed

lemma hoare_clean: "hoare L (EventLoop_clean B C) (\<lambda>_. L) E"
proof (rule hoareI)
  fix s
  assume L: "L s"
  then obtain Q where Q: "state_inv B Q (el_state s)" "owned Q (waiting_requests s)"
    by (auto simp: loop_inv_def)
  let ?Q = "Q \<union> occupied (outgoing_pub (el_state s)) \<union> subscribe_ids (el_state s) \<union> unsubscribe_ids (el_state s)"
  define t where "t = (if cleaned_requests (el_state s) = []
      then maybe_shrink_outgoing_tracking_capacity B (cleaned_state B True (el_state s)) else cleaned_state B True (el_state s))"
  have t: "state_inv B ?Q t" "tracked_requests t = []"
    using cleaned_state_inv [OF Q(1), of True] shrink_inv [OF cleaned_state_inv [OF Q(1), of True]]
    by (simp_all add: t_def tracked_cleaned)
  let ?p = "el_pending s @ cleaned_envelopes (el_state s) @ replayed (sched_queue (el_queued s))"
  have "owned Q (el_pending s @ replayed (sched_queue (el_queued s)))"
    using Q(2) by (simp only: owned_append owned_filter)
  from cleaned_owned [OF Q(1) this] have "owned ?Q ?p"
    by (rule owned_perm [THEN iffD1, rotated]) simp
  moreover have "list_all (\<lambda>e. \<not> env_replay e) ?p" if "el_session_store_key s = None"
    using L that untracked_cleaned [of "el_state s"] by (auto simp: loop_inv_def list_all_iff)
  ultimately have "L (s\<lparr>el_network := None, connack_session := None, keepalive_timeout := None,
       keepalive_scan_deadline := None, pending_disconnect := None, el_state := t, el_pending := ?p,
       el_queued := (el_queued s)\<lparr>sched_queue := []\<rparr>\<rparr>)"
    using L t unfolding loop_inv_def by simp (blast)
  from drain_channels_inv [OF this] show "wp (EventLoop_clean B C) (\<lambda>_. L) E s"
    by (simp add: wp_def EventLoop_clean_def clean_with_notices_for_reconnect_def andThen_def on_state_def run_clean [OF Q(1)]
        t_def [symmetric] sched_drain_def modify_def)
qed

lemma hoare_network_result: "hoare L (handle_network_result B C W r) (\<lambda>_. L) (\<lambda>_. L)"
proof -
  have reset: "L (s\<lparr>el_network := None, connack_session := None, keepalive_timeout := None,
      keepalive_scan_deadline := None, pending_disconnect := None\<rparr>)" if "L s" for s
    using that by (simp add: loop_inv_def)
  have timeout: "hoare L (andThen (modify (\<lambda>self. self\<lparr>el_network := None, connack_session := None, keepalive_timeout := None,
            keepalive_scan_deadline := None, pending_disconnect := None\<rparr>)) (\<lambda>_.
          andThen (modify (drop_unprocessed_requests C)) (\<lambda>_.
          andThen (modify (\<lambda>self. self\<lparr>disconnect_complete := True\<rparr>)) (\<lambda>_. fail ConnDisconnectTimeout)))) (\<lambda>_. L) (\<lambda>_. L)"
    by (auto intro!: hoare_modify [where R = L] hoare_fail reset drop_requests_inv)
  have other: "hoare L (andThen (EventLoop_clean B C) (\<lambda>_. andThen (save_persisted_session B W) (\<lambda>_. fail e))) (\<lambda>_. L) (\<lambda>_. L)" for e
    by (auto intro!: hoare_seq [OF hoare_clean] hoare_seq [OF steady_save [OF steady_inv(1)]] hoare_fail)
  show ?thesis
    unfolding handle_network_result_def
    by (auto intro!: hoare_sum hoare_ret timeout other split: ConnectionError.splits)
qed

section \<open>Graceful disconnect\<close>

lemma hoare_poll_drain:
  "hoare K (poll_drain C W deadline en branches)
     (\<lambda>r s. K s \<and> (case r of
        Some (DrainedImmediate e) \<Rightarrow> disconnect_now (env_request e)
      | Some (DrainedFrame frame) \<Rightarrow> \<forall>n. frame \<noteq> Some (Inl (InsufficientBytes n))
      | _ \<Rightarrow> True)) (\<lambda>_. K)"
proof (induction branches arbitrary: en)
  case (Cons branch branches)
  show ?case
  proof (cases branch)
    case DrainImmediate
    show ?thesis
      unfolding DrainImmediate poll_drain.simps
      by (rule hoare_if) (auto intro!: Cons.IH hoare_recv_immediate_K hoare_ret split: TryRecvError.splits)
  next
    case DrainRead
    show ?thesis
      unfolding DrainRead poll_drain.simps by (auto intro!: Cons.IH hoare_next [OF steady_inv(2)] hoare_ret)
  next
    case DrainDeadline
    show ?thesis
      unfolding DrainDeadline poll_drain.simps by (rule hoare_gets') (auto intro!: Cons.IH hoare_ret)
  qed
qed (simp add: hoare_ret)

lemma hoare_reached: "(\<And>x. hoare P (f x) Q E) \<Longrightarrow> hoare P (andThen (reached W deadline) f) Q E"
  unfolding reached_def by (rule hoare_gets')

lemma hoare_disconnect_drain:
  "hoare K (poll_disconnect_drain B C W) (\<lambda>r. if r = Poll_Ready None then K else L) (\<lambda>_. L)"
proof -
  have drain: "hoare K (poll_drain C W deadline en branches)
     (\<lambda>r s. K s \<and> (case r of
        Some (DrainedImmediate e) \<Rightarrow> disconnect_now (env_request e)
      | Some (DrainedFrame frame) \<Rightarrow> \<forall>n. frame \<noteq> Some (Inl (InsufficientBytes n))
      | _ \<Rightarrow> True)) (\<lambda>_. L)" for deadline en branches
    by (rule hoare_weaken [OF hoare_poll_drain]) (auto dest: conn_loop)
  have read: "hoare K (andThen (attempt (read_network_batch B W frame n limit)) (\<lambda>r.
         case r of
           Inr _ \<Rightarrow> ret (Poll_Ready None)
         | Inl error \<Rightarrow>
             andThen (reached W deadline) (\<lambda>timed_out.
             andThen (defer_connection_error (if timed_out \<and> is_timed_out error then ConnDisconnectTimeout else error))
               (\<lambda>event. ret (Poll_Ready (Some event))))))
       (\<lambda>r. if r = Poll_Ready None then K else L) (\<lambda>_. L)"
    if "\<And>n. frame \<noteq> Some (Inl (InsufficientBytes n))" for frame n limit deadline
    by (rule hoare_attempt [OF hoare_read_network_batch [OF that]])
      (auto intro!: hoare_ret hoare_reached hoare_seq [OF hoare_defer])
  have immediate: "hoare K (andThen (handle_immediate_disconnect B W e) (\<lambda>event. ret (Poll_Ready (Some event))))
      (\<lambda>r. if r = Poll_Ready None then K else L) (\<lambda>_. L)" if "disconnect_now (env_request e)" for e
  proof (rule hoare_seq [where R = "\<lambda>_. K"])
    show "hoare K (handle_immediate_disconnect B W e) (\<lambda>_. K) (\<lambda>_. L)"
      by (rule hoare_weaken [OF hoare_immediate [OF that]]) (auto dest: conn_loop)
  qed (auto intro!: hoare_ret conn_loop)
  have split: "hoare (\<lambda>s. K s \<and> c) m Q E" if "c \<Longrightarrow> hoare K m Q E" for c and m :: "('b, 'c, 'w, 'z) el" and Q E
    using that by (auto simp: hoare_def)
  show ?thesis
    unfolding poll_disconnect_drain_def Let_def
    by (rule hoare_gets', rule hoare_network(1), rule hoare_gets', rule hoare_gets', rule hoare_gets', rule hoare_gets',
        rule hoare_seq [OF drain], rule split)
      (auto intro!: hoare_ret hoare_reached hoare_if hoare_fail hoare_instant read immediate conn_loop
        split: option.splits DrainReady.splits)
qed

lemma hoare_send_disconnect: "hoare K (send_pending_disconnect B C W) (\<lambda>_. L) (\<lambda>_. L)"
proof -
  have call: "hoare K (state_call (handle_outgoing_packet_with_notice B now (ReqDisconnectNow Disconnect) None)) (\<lambda>_. KE) (\<lambda>_. L)" for now
    by (rule hoare_weaken [OF hoare_event_request]) (auto dest: disconnect_events conn_loop)
  have flush: "hoare KE (flush_network W) (\<lambda>_. KE) (\<lambda>_. L)"
    by (rule hoare_weaken [OF steady_writes(3) [OF steady_inv(3)]]) (auto dest: conn_loop)
  have put: "hoare KE (case p of None \<Rightarrow> ret () | Some p \<Rightarrow>
      andThen (map_err ConnMqttState (Network_write W p)) (\<lambda>_. flush_network W)) (\<lambda>_. KE) (\<lambda>_. L)" for p
  proof (rule hoare_option)
    fix p
    have "hoare KE (map_err ConnMqttState (Network_write W p)) (\<lambda>_. KE) (\<lambda>_. L)"
      by (rule hoare_map_err, rule hoare_weaken [OF steady_writes(1) [OF steady_inv(3)]]) (auto dest: conn_loop)
    from hoare_seq [OF this flush] show "hoare KE (andThen (map_err ConnMqttState (Network_write W p)) (\<lambda>_. flush_network W))
        (\<lambda>_. KE) (\<lambda>_. L)" .
  qed (simp add: hoare_ret)
  have drop: "KE (drop_unprocessed_requests C s)" if "KE s" for s
    using that drop_requests_inv [of s] by (simp add: conn_inv_def drop_unprocessed_requests_def)
  have save: "hoare KE (save_persisted_session B W) (\<lambda>_. KE) (\<lambda>_. L)"
    by (rule hoare_weaken [OF steady_save [OF steady_inv(3)]]) (auto dest: conn_loop)
  have pop: "hoare KE (andThen pop_event expect) (\<lambda>_. L) (\<lambda>_. L)"
    by (rule hoare_weaken [OF hoare_pop_event(3)]) (auto dest: conn_loop)
  show ?thesis
    unfolding send_pending_disconnect_def
    by (rule hoare_modify [where R = K], simp, rule hoare_instant, rule hoare_seq [OF call], rule hoare_prod,
        rule hoare_seq [OF put], rule hoare_modify [where R = KE], rule drop, assumption, rule hoare_seq [OF save],
        rule hoare_modify [where R = KE], simp, rule pop)
qed

section \<open>Connecting\<close>

lemma hoare_drain_failed: "hoare L (drain_pending_as_failed reason) (\<lambda>_ s. L s \<and> waiting_requests s = []) E"
proof -
  have "L (s\<lparr>el_pending := [], el_queued := (el_queued s)\<lparr>sched_queue := []\<rparr>\<rparr>)" if "L s" for s
    using that by (auto simp: loop_inv_def owned_def)
  then show ?thesis
    unfolding drain_pending_as_failed_def
    by (auto intro!: hoare_gets' hoare_modify [where R = "\<lambda>s. L s \<and> waiting_requests s = []"] hoare_ret
        hoare_seq [where R = "\<lambda>_ s. L s \<and> waiting_requests s = []"] hoare_modify_end
        simp: sched_drain_def send_notices_def)
qed

text \<open>The loop between two connections.\<close>

abbreviation idle :: "('b, 'c, 'w) EventLoop \<Rightarrow> bool" where "idle \<equiv> \<lambda>s. L s \<and> el_network s = None"

lemma hoare_reset_internal: "hoare idle (reset_session_state_internal B W action) (\<lambda>_. idle) E"
proof (rule hoareI)
  fix s
  assume s: "idle s"
  let ?d = "s\<lparr>el_pending := [], el_queued := (el_queued s)\<lparr>sched_queue := []\<rparr>,
    el_state := (el_state s)\<lparr>notices_sent := notices_sent (el_state s)
      @ map (fail_tracked_notice FailSessionReset) (List.map_filter env_notice (waiting_requests s))\<rparr>\<rparr>"
  obtain Q where "state_inv B Q (el_state s)"
    using s by (auto simp: loop_inv_def)
  then have "state_inv B Q (el_state ?d)"
    by (simp add: state_inv_frame)
  note run = run_reset [OF this, simplified]
  have "\<exists>Q. state_inv B Q ((new_internal B now m mode)\<lparr>notices_sent := ns\<rparr>) \<and> owned Q []" for now m mode ns
    by (rule exI [of _ "{}"]) (simp add: state_inv_frame new_internal_inv owned_def)
  then show "wp (reset_session_state_internal B W action) (\<lambda>_. idle) E s"
    using s
    by (auto simp: wp_def reset_session_state_internal_def drain_pending_as_failed_def instant_now_def andThen_def gets_def
        modify_def ret_def send_notices_def sched_drain_def on_state_def run loop_inv_def tracked_fresh)
qed

lemma hoare_reset_if_changed:
  "hoare idle (reset_session_state_if_client_id_changed B W) (\<lambda>_. idle) E"
proof -
  let ?f = "\<lambda>self. self\<lparr>session_client_id := None, el_session_store_key := None,
         session_store := (session_store self)\<lparr>ss_loaded := False\<rparr>\<rparr>"
  have reset: "hoare idle (reset_session_state_internal B W action) (\<lambda>_ s. idle s \<and> el_session_store_key s = None) E" for action
  proof (rule hoareI)
    fix s
    assume "idle s"
    from hoareD [OF hoare_reset_internal this]
    have "wp (reset_session_state_internal B W action) (\<lambda>_. idle) E s" .
    then show "wp (reset_session_state_internal B W action) (\<lambda>_ s. idle s \<and> el_session_store_key s = None) E s"
      by (rule wp_mono)
        (auto simp: reset_session_state_internal_def andThen_def modify_def split: prod.splits outcome.splits)
  qed
  have forget: "idle (?f s)" if "idle s" "el_session_store_key s = None" for s
    using that by (simp add: loop_inv_def)
  show ?thesis
    unfolding reset_session_state_if_client_id_changed_def reset_session_state_without_store_invalidation_def
    by (rule hoare_gets', rule hoare_gets, rule hoare_if, rule hoare_ret, simp,
        rule hoare_seq [where R = "\<lambda>_ s. idle s \<and> el_session_store_key s = None"])
      (auto intro!: hoare_ret hoare_modify_end forget hoare_weaken [OF reset])
qed

lemma steady_idle: "steady idle"
  by (auto simp: steady_def loop_inv_def state_inv_frame)

lemma restored_owner: "set (request_ids (restored_request r)) = replay_owner r" "replay_owner r \<subseteq> {unat (prequest_pkid r)}"
  by (cases r; simp)+

lemma restored_owned:
  assumes "list_all replayable_request rs" "distinct (map prequest_pkid rs)"
  shows "owned (\<Union>r \<in> set rs. replay_owner r) (map plain_replay (map restored_request rs))"
  using assms
proof (induction rs)
  case (Cons r rs)
  have "unat (prequest_pkid r) \<notin> unat ` prequest_pkid ` set rs"
    using Cons.prems(2) by (auto simp: word_unat_eq_iff [symmetric])
  then have "replay_owner r \<inter> (\<Union>r \<in> set rs. replay_owner r) = {}"
    using restored_owner(2) by (auto, metis image_eqI singletonD subset_iff)
  moreover have "replayable (restored_request r)"
    using Cons.prems(1) by (cases r) (auto elim!: qos_from_persisted.elims)
  moreover have ids: "set (request_ids (restored_request r)) = replay_owner r"
    by (rule restored_owner)
  ultimately show ?case
    using Cons unfolding owned_def by (auto simp: plain_replay_def simp del: set_request_ids)
qed (simp add: owned_def)

lemma restore_inv:
  assumes "idle s" "el_session_store_key s = None" "ss_loaded x"
    and run: "restore_persisted_session B now options session (el_state s) = (Ok replay, t)"
  shows "idle (s\<lparr>el_state := t, el_pending := el_pending s @ map plain_replay replay,
    session_client_id := cid, el_session_store_key := Some key, session_store := x\<rparr>)"
proof -
  obtain Q where Q: "state_inv B Q (el_state s)"
    using assms(1) by (auto simp: loop_inv_def)
  have ok: "restorable options (max_inflight (el_state s)) session"
  proof (rule ccontr)
    assume "\<not> ?thesis"
    from run_restore(4) [OF Q this, of now] run show False
      by auto
  qed
  let ?Q = "\<Union>r \<in> set (ps_replay session). replay_owner r"
  have t: "t = restored_state now session (el_state s)" "replay = map restored_request (ps_replay session)"
    using run run_restore(1) [OF Q ok, of now] by simp_all
  let ?new = "map plain_replay replay"
  have fresh: "list_all (\<lambda>e. \<not> env_replay e) (waiting_requests s)"
    using assms(1,2) by (auto simp: loop_inv_def)
  have "owned ?Q (?new @ waiting_requests s)"
    using restored_owned [of "ps_replay session"] ok unfolding t(2) owned_append_fresh [OF fresh] by (simp add: restorable_def)
  then have "owned ?Q ((el_pending s @ ?new) @ sched_queue (el_queued s))"
    by (rule owned_perm [THEN iffD1, rotated]) simp
  then show ?thesis
    using assms(1,3) run_restore(2) [OF Q ok, of now] unfolding t(1) loop_inv_def by auto
qed

lemma restore_fails:
  assumes "idle s" "restore_persisted_session B now options session (el_state s) = (r, t)" "\<forall>x. r \<noteq> Ok x"
  shows "\<exists>e. r = Err e" "t = el_state s"
proof -
  obtain Q where Q: "state_inv B Q (el_state s)"
    using assms(1) by (auto simp: loop_inv_def)
  show "\<exists>e. r = Err e" "t = el_state s"
    using assms run_restore(1,4) [OF Q, of options session now]
    by (cases "restorable options (max_inflight (el_state s)) session"; force)+
qed

text \<open>A connection is only used once the session store has been read.\<close>

abbreviation ready_idle :: "('b, 'c, 'w) EventLoop \<Rightarrow> bool" where "ready_idle \<equiv> \<lambda>s. idle s \<and> ss_loaded (session_store s)"

lemma steady_ready_idle: "steady ready_idle"
  by (auto simp: steady_def loop_inv_def state_inv_frame)

lemma hoare_mark_store: "hoare idle (mark_store b) (\<lambda>_. ready_idle) E"
  by (simp add: mark_store_def hoare_def wp_simps steadyD(1,3) [OF steady_idle] loop_inv_def)

lemma hoare_clear_store: "hoare idle (clear_persisted_session W) (\<lambda>_. ready_idle) (\<lambda>_. idle)"
  unfolding clear_persisted_session_def
  by (intro hoare_gets' hoare_option hoare_mark_store steady_idle steady_world hoare_seq [OF steady_result])

lemma hoare_load: "hoare idle (load_persisted_session_if_needed B W) (\<lambda>_. ready_idle) (\<lambda>_. idle)"
proof -
  let ?P = "\<lambda>s. idle s \<and> el_session_store_key s = None"
  have mark: "hoare ?P (mark_store b) (\<lambda>_. ready_idle) (\<lambda>_. idle)" for b
    by (rule hoare_weaken [OF hoare_mark_store [where E = "\<lambda>_. idle"]]) auto
  have restore: "hoare ?P (andThen (map_err ConnSessionRestore (on_state (restore_persisted_session B now options session))) (\<lambda>replay.
      andThen (modify (\<lambda>self. self\<lparr>el_pending := el_pending self @ map plain_replay replay,
         session_client_id := cid, el_session_store_key := Some key\<rparr>)) (\<lambda>_. mark_store False))) (\<lambda>_. ready_idle) (\<lambda>_. idle)"
    for now options session cid key
  proof (rule hoareI)
    fix s
    assume s: "?P s"
    obtain r t where run: "restore_persisted_session B now options session (el_state s) = (r, t)"
      by (cases "restore_persisted_session B now options session (el_state s)")
    show "wp (andThen (map_err ConnSessionRestore (on_state (restore_persisted_session B now options session))) (\<lambda>replay.
      andThen (modify (\<lambda>self. self\<lparr>el_pending := el_pending self @ map plain_replay replay,
         session_client_id := cid, el_session_store_key := Some key\<rparr>)) (\<lambda>_. mark_store False))) (\<lambda>_. ready_idle) (\<lambda>_. idle) s"
    proof (cases "\<exists>x. r = Ok x")
      case True
      then obtain x where x: "r = Ok x"
        by blast
      show ?thesis
        using restore_inv [OF _ _ _ run [unfolded x]] s run x
        by (auto simp: wp_def andThen_def map_err_def on_state_def modify_def mark_store_def)
    next
      case False
      then obtain e where "r = Err e" "t = el_state s"
        using restore_fails [OF _ run] s by blast
      then show ?thesis
        using s run by (simp add: wp_def andThen_def map_err_def on_state_def)
    qed
  qed
  have drop: "hoare (\<lambda>s. idle s \<and> store = session_store s) m (\<lambda>_. ready_idle) (\<lambda>_. idle)"
    if "hoare idle m (\<lambda>_. ready_idle) (\<lambda>_. idle)" for store and m :: "('b, 'c, 'w, unit) el"
    using that by (auto simp: hoare_def)
  have load: "hoare (\<lambda>s. idle s \<and> store = session_store s) m (\<lambda>_. ready_idle) (\<lambda>_. idle)"
    if "\<not> ss_loaded store" "hoare ?P m (\<lambda>_. ready_idle) (\<lambda>_. idle)" for store and m :: "('b, 'c, 'w, unit) el"
    using that by (auto simp: hoare_def loop_inv_def)
  have result: "hoare ?P (map_err ConnSessionStore (from_result r)) (\<lambda>_. ?P) (\<lambda>_. idle)" for r :: "rstring + 'z"
    by (intro hoare_map_err hoare_from_result) auto
  show ?thesis
    unfolding load_persisted_session_if_needed_def Let_def
    by (rule hoare_gets, rule hoare_gets', rule hoare_if, rule drop [OF hoare_clear_store], rule hoare_if,
        rule drop [OF hoare_mark_store], rule load, simp, rule hoare_option, rule mark,
        rule hoare_seq [where R = "\<lambda>_. ?P"], rule hoare_world, simp, rule hoare_seq [OF result], rule hoare_option,
        rule mark, rule hoare_instant, rule restore)
qed

lemma steady_within: "steady P \<Longrightarrow> hoare P (within_deadline f) (\<lambda>_. P) (\<lambda>_. P)"
  unfolding within_deadline_def
  by (auto intro!: steady_world hoare_option hoare_fail hoare_from_result)

lemma steady_ok_or: "steady P \<Longrightarrow> hoare P (ok_or opt e) (\<lambda>_. P) (\<lambda>_. P)"
  by (auto simp: hoare_def wp_simps split: option.splits)

lemma steady_split_url: "steady P \<Longrightarrow> hoare P (map_err g (lift (split_url_with_default_port U url p))) (\<lambda>_. P) (\<lambda>_. P)"
  by (auto simp: hoare_def wp_simps split_url_with_default_port_def split: option.splits)

lemma steady_network_connect: "steady P \<Longrightarrow> hoare P (network_connect W options deadline) (\<lambda>_. P) (\<lambda>_. P)"
  unfolding network_connect_def Let_def
  by (cases "opt_transport options")
    (auto intro!: hoare_seq [OF steady_ok_or] hoare_seq [OF steady_within] steady_split_url steady_within hoare_ret steady_ok_or
      hoare_seq [where R = "\<lambda>_. P"] simp: split_url_def)

lemma steady_network_read:
  assumes "steady P"
  shows "hoare P (Network_read W deadline) (\<lambda>_. P) (\<lambda>_. P)"
proof (rule hoareI)
  fix s
  assume s: "P s"
  have keep: "P (s\<lparr>el_world := w\<rparr>)" for w
    by (rule steadyD(2) [OF assms s])
  have "\<forall>n. fst (framed_next_until W deadline (el_world s)) \<noteq> Some (Some (Inl (InsufficientBytes n)))"
    by (simp add: complete_frames_until)
  then show "wp (Network_read W deadline) (\<lambda>_. P) (\<lambda>_. P) s"
    using keep
    by (auto simp: Network_read_def wp_def andThen_def on_world_def fail_def ret_def panic_def
        split: prod.splits option.splits sum.splits v4_error.splits)
qed

lemma steady_mqtt_connect:
  assumes "steady P"
  shows "hoare P (mqtt_connect W options deadline) (\<lambda>_. P) (\<lambda>_. P)"
proof -
  have timed: "hoare P (andThen (on_world f) (\<lambda>r. case r of None \<Rightarrow> fail ConnNetworkTimeout
      | Some r \<Rightarrow> map_err (\<lambda>e. ConnMqttState (Deserialization e)) (from_result r))) (\<lambda>_. P) (\<lambda>_. P)" for f
    by (auto intro!: steady_world assms hoare_option hoare_fail steady_result)
  show ?thesis
    unfolding mqtt_connect_def Let_def
    by (rule hoare_seq [OF timed], rule hoare_seq [OF timed], rule hoare_seq [OF steady_network_read [OF assms]])
      (auto intro!: hoare_fail hoare_ret split: Packet.splits)
qed

lemma steady_connect:
  assumes "steady P"
  shows "hoare P (connect W options deadline) (\<lambda>_. P) (\<lambda>_. P)"
  unfolding connect_def by (rule hoare_seq [OF steady_network_connect [OF assms] steady_mqtt_connect [OF assms]])

lemma hoare_reconcile:
  "hoare ready_idle (reconcile_connack_session B W present) (\<lambda>r. if is_fresh r then idle else ready_idle) (\<lambda>_. idle)"
proof -
  have mismatch: "hoare ready_idle (if b then
          (case m of
             MismatchError \<Rightarrow> fail e
           | MismatchAcceptAsClean \<Rightarrow> ret x)
        else ret y) (\<lambda>_. ready_idle) (\<lambda>_. idle)" for b m and e :: ConnectionError and x y :: 'z
    by (auto intro!: hoare_fail hoare_ret split: SessionPresentMismatchPolicy.splits)
  have reset: "hoare ready_idle (if b then reset_session_state_internal B W action else ret ())
      (\<lambda>_. if b then idle else ready_idle) (\<lambda>_. idle)" for b action
    by (auto intro!: hoare_ret hoare_weaken [OF hoare_reset_internal [where E = "\<lambda>_. idle"]])
  show ?thesis
    unfolding reconcile_connack_session_def Let_def reset_session_state_without_store_invalidation_def
    by (rule hoare_gets', rule hoare_seq [OF mismatch], rule hoare_seq [OF reset]) (auto intro!: hoare_ret)
qed

lemma hoare_establish: "hoare idle (establish_connection B W) (\<lambda>_. L) (\<lambda>_. L)"
proof -
  have weak: "hoare P m Q (\<lambda>_. idle) \<Longrightarrow> hoare P m Q (\<lambda>_. L)" for P Q and m :: "('b, 'c, 'w, 'z) el"
    by (erule hoare_weaken) auto
  have conn: "hoare ready_idle (connect W options deadline) (\<lambda>_. ready_idle) (\<lambda>_. L)" for options deadline
    by (rule hoare_weaken [OF steady_connect [OF steady_ready_idle]]) auto
  have blocked: "idle (s\<lparr>session_store := (session_store s)\<lparr>ss_clear_pending := True\<rparr>\<rparr>)" if "idle s" for s
    using that by (simp add: loop_inv_def)
  have block: "hoare (if b then idle else ready_idle) (if b then clear_persisted_session_or_block_reload W else ret ())
      (\<lambda>_. ready_idle) (\<lambda>_. L)" for b
    unfolding clear_persisted_session_or_block_reload_def
    using hoare_modify [where R = idle, OF blocked weak [OF hoare_clear_store]] by (simp add: hoare_ret)
  have connected: "L (s\<lparr>session_client_id := cid, el_session_store_key := Some key, el_network := n, connack_session := d\<rparr>)"
    if "ready_idle s" for s cid key n d
    using that by (simp add: loop_inv_def)
  have alive: "L (if c s then s\<lparr>keepalive_timeout := t\<rparr> else s)" if "L s" for s c t
    using that by simp
  show ?thesis
    unfolding establish_connection_def
    by (rule hoare_seq [OF hoare_reset_if_changed], rule hoare_seq [OF weak [OF hoare_load]], rule hoare_gets', rule hoare_gets',
        rule hoare_instant, rule hoare_seq [OF conn], rule hoare_seq [OF weak [OF hoare_reconcile]],
        rule hoare_seq [OF block], rule hoare_modify [where R = L], rule connected, assumption,
        rule hoare_instant, rule hoare_modify [where R = L], rule alive, assumption, rule hoare_ret, assumption)
qed

section \<open>Polling\<close>

lemma hoare_select_ready:
  "hoare (ready_post ready) (select_ready B C W ready) (\<lambda>r. if r = None then K else L) (\<lambda>_. L)"
proof -
  have split: "hoare (\<lambda>s. K s \<and> c) m Q E" if "c \<Longrightarrow> hoare K m Q E" for c and m :: "('b, 'c, 'w, 'z) el" and Q E
    using that by (auto simp: hoare_def)
  have immediate: "hoare K (handle_immediate_disconnect B W e) (\<lambda>_. L) (\<lambda>_. L)" if "disconnect_now (env_request e)" for e
    by (rule hoare_weaken [OF hoare_immediate [OF that]]) (auto dest: conn_loop)
  have event: "hoare K (andThen m (\<lambda>event. ret (Some (Poll_Ready event)))) (\<lambda>r. if r = None then K else L) (\<lambda>_. L)"
    if "hoare K m (\<lambda>_. L) (\<lambda>_. L)" for m :: "('b, 'c, 'w, Event) el"
    by (rule hoare_seq [OF that]) (simp add: hoare_ret)
  have push: "hoare K (queue_push e) (\<lambda>_. K) E" if "\<not> env_replay e" for e and E :: "ConnectionError \<Rightarrow> ('b, 'c, 'w) EventLoop \<Rightarrow> bool"
    using hoare_queue_push [of e E] by (simp add: held_fresh [OF that, abs_def])
  have admit: "hoare K (try_admit_existing_normal_requests B C) (\<lambda>_. K) (\<lambda>_. L)"
    by (rule hoare_weaken [OF hoare_try_admit]) (auto dest: conn_loop)
  have batch: "hoare (held e) (admit_normal_request_batch B C e) (\<lambda>_. K) (\<lambda>_. L)" for e
    by (rule hoare_weaken [OF hoare_admit_normal]) (auto dest: conn_loop)
  show ?thesis
  proof (cases ready)
    case None
    then show ?thesis
      by (auto simp: select_ready_def ready_post_simps [abs_def] intro!: hoare_ret conn_loop)
  next
    case (Some x)
    then show ?thesis
      by (cases x)
        (auto simp: select_ready_def ready_post_simps [abs_def] intro!: hoare_ret split event immediate
          hoare_handle_network_read hoare_keepalive hoare_seq [OF admit] hoare_seq [OF push] hoare_seq [OF batch]
          split: sum.splits)
  qed
qed

lemma hoare_select_disconnecting:
  "hoare K (select_disconnecting B C W) (\<lambda>r. if r = None then K else L) (\<lambda>_. L)"
  unfolding select_disconnecting_def
  by (rule hoare_gets', rule hoare_if, rule hoare_seq [OF hoare_send_disconnect], simp add: hoare_ret,
      rule hoare_seq [OF hoare_disconnect_drain])
    (auto intro!: hoare_ret dest: conn_loop split: Poll.splits option.splits if_splits)

lemma hoare_select_turn: "hoare K (select_turn B C W) (\<lambda>r. if r = None then K else L) (\<lambda>_. L)"
proof -
  have immediate: "hoare K (andThen (handle_immediate_disconnect B W e) (\<lambda>event. ret (Some (Poll_Ready event))))
      (\<lambda>r. if r = None then K else L) (\<lambda>_. L)" if "disconnect_now (env_request e)" for e
  proof (rule hoare_seq [where R = "\<lambda>_. K"])
    show "hoare K (handle_immediate_disconnect B W e) (\<lambda>_. K) (\<lambda>_. L)"
      by (rule hoare_weaken [OF hoare_immediate [OF that]]) (auto dest: conn_loop)
  qed (auto intro!: hoare_ret conn_loop)
  have requests: "hoare K (if b then handle_ready_requests B W else ret False) (\<lambda>_. K) (\<lambda>_. L)" for b
    by (auto intro!: hoare_ret hoare_weaken [OF hoare_ready_requests] conn_loop)
  have ready: "hoare K (next_ready B C W) ready_post (\<lambda>_. L)"
    by (rule hoare_weaken [OF hoare_next_ready]) (auto dest: conn_loop)
  show ?thesis
    unfolding select_turn_def
    by (rule hoare_seq [OF hoare_pop_event(1)], rule hoare_option, rule hoare_recv_immediate_case, rule immediate, assumption,
        rule hoare_gets', rule hoare_if, rule hoare_fail, erule conn_loop, rule hoare_seq [OF hoare_check_scan],
        rule hoare_gets', rule hoare_seq [OF requests], rule hoare_if, rule hoare_seq [OF hoare_pop_event(1)])
      (auto intro!: hoare_ret hoare_gets' hoare_if hoare_select_disconnecting hoare_seq [OF ready] hoare_select_ready conn_loop)
qed

lemma hoare_select: "hoare K (select B C W n) (\<lambda>_. L) (\<lambda>_. L)"
proof (induction n)
  case (Suc n)
  have "hoare (if r = None then K else L) (case r of None \<Rightarrow> select B C W n | Some p \<Rightarrow> ret (Some p)) (\<lambda>_. L) (\<lambda>_. L)" for r
    by (cases r) (simp_all add: Suc.IH hoare_ret)
  then show ?case
    by (auto intro!: hoare_seq [OF hoare_select_turn])
qed (auto intro!: hoare_ret conn_loop)

lemma hoare_poll: "hoare L (EventLoop_poll B C W n) (\<lambda>_. L) (\<lambda>_. L)"
proof -
  have connecting: "hoare idle (andThen (recv_immediate C) (\<lambda>r. case r of
      Ok _ \<Rightarrow> andThen (modify (\<lambda>self. self\<lparr>disconnect_complete := True\<rparr>)) (\<lambda>_. fail ConnRequestsDone)
    | _ \<Rightarrow> andThen (establish_connection B W) (\<lambda>event. ret (Some (Poll_Ready event))))) (\<lambda>_. L) (\<lambda>_. L)"
    by (rule hoare_recv_immediate)
      (auto intro!: hoare_modify [where R = L] hoare_fail hoare_seq [OF hoare_establish] hoare_ret)
  have serving: "hoare K (andThen (attempt (select B C W n)) (handle_network_result B C W)) (\<lambda>_. L) (\<lambda>_. L)"
    by (rule hoare_attempt [OF hoare_select]) (simp_all add: hoare_network_result)
  have branch: "hoare (\<lambda>s. L s \<and> n = el_network s) (if n = None then m1 else m2) Q E" if "hoare idle m1 Q E" "hoare K m2 Q E"
    for n Q E and m1 m2 :: "('b, 'c, 'w, 'z) el"
    using that by (auto simp: hoare_def conn_inv_def)
  have deferred: "hoare L (andThen (modify (\<lambda>self. self\<lparr>pending_connection_error := None\<rparr>)) (\<lambda>_.
      handle_network_result B C W (Inl e))) (\<lambda>_. L) (\<lambda>_. L)" for e
    by (rule hoare_modify [where R = L]) (simp_all add: hoare_network_result)
  show ?thesis
    unfolding EventLoop_poll_def
    by (rule hoare_gets', rule hoare_if, rule hoare_fail, assumption, rule hoare_gets', rule hoare_option, rule hoare_gets,
        rule branch [OF connecting serving], rule hoare_seq [OF hoare_pop_event(2)])
      (auto intro!: hoare_option hoare_ret deferred)
qed

end

end
