(* ===== verification/V4_EventLoop_Term.thy ===== *)
theory V4_EventLoop_Term
  imports V4_EventLoop_Inv
begin

text \<open>
  The loop of \<open>select\<close> ends. Every turn that does not return either has taken a request out of a
  channel or the retransmission queue, has handled a scheduled request, or has left an event that the next turn
  delivers; the number of turns is bounded by the number of requests that wait.
\<close>

section \<open>What leaves the queues alone\<close>

text \<open>The queues of requests, and whether the loop has ended.\<close>

abbreviation queues ::
  "('b, 'c, 'w) EventLoop \<Rightarrow> RequestEnvelope list \<times> RequestEnvelope OutboundScheduler \<times> 'c \<times> 'c \<times> bool" where
  "queues s \<equiv> (el_pending s, el_queued s, requests_rx s, control_requests_rx s, disconnect_complete s)"

definition frames :: "(('b, 'c, 'w) EventLoop, 'e, 'a) sm \<Rightarrow> bool" where
  "frames m \<longleftrightarrow> (\<forall>s r t. m s = (r, t) \<longrightarrow> queues t = queues s)"

named_theorems frame_rules \<open>computations that leave the queues alone\<close>

lemma frames_andThen [frame_rules]: "\<lbrakk>frames m; \<And>x. frames (f x)\<rbrakk> \<Longrightarrow> frames (andThen m f)"
  unfolding frames_def andThen_def by (auto split: prod.splits outcome.splits; metis)

lemma frames_basic [frame_rules]:
  "frames (ret x)" "frames (fail e)" "frames panic" "frames (expect opt)" "frames (gets g)" "frames (from_result r)"
  "frames (on_state f)" "frames (on_world h)" "frames pop_event" "frames (send_notices ns)"
  by (auto simp: frames_def run_simps expect_def from_result_def on_state_def on_world_def
      pop_event_def send_notices_def andThen_def split: option.splits sum.splits list.splits prod.splits)

lemma frames_map_err [frame_rules]: "frames m \<Longrightarrow> frames (map_err g m)"
  by (auto simp: frames_def map_err_def split: prod.splits outcome.splits)

lemma frames_attempt [frame_rules]: "frames m \<Longrightarrow> frames (attempt m)"
  by (auto simp: frames_def attempt_def split: prod.splits outcome.splits)

lemma frames_modify [frame_rules]: "(\<And>s. queues (g s) = queues s) \<Longrightarrow> frames (modify g)"
  by (simp add: frames_def modify_def)

lemma frames_cases [frame_rules]:
  "\<lbrakk>frames m; \<And>y. frames (f y)\<rbrakk> \<Longrightarrow> frames (case x of None \<Rightarrow> m | Some y \<Rightarrow> f y)"
  "\<lbrakk>\<And>a. frames (k a); \<And>b. frames (l b)\<rbrakk> \<Longrightarrow> frames (case y of Inl a \<Rightarrow> k a | Inr b \<Rightarrow> l b)"
  "(\<And>a b. frames (h a b)) \<Longrightarrow> frames (case z of (a, b) \<Rightarrow> h a b)"
  "\<lbrakk>frames m; frames n\<rbrakk> \<Longrightarrow> frames (if c then m else n)"
  by (auto split: option.splits sum.splits prod.splits)

lemma frames_store [frame_rules]: "frames (mark_store b)" "frames (persisted_session_save B)"
  unfolding mark_store_def persisted_session_save_def by (intro frame_rules; simp)+

lemma frames_save [frame_rules]:
  "frames (save_persisted_session B W)" "frames (persist_session_or_fail_qos0_notices B W ns n)"
  unfolding save_persisted_session_def persist_session_or_fail_qos0_notices_def Let_def
  by (intro frame_rules)+

lemma frames_time [frame_rules]: "frames (instant_now W)" "frames (response_write_deadline W)"
  unfolding instant_now_def response_write_deadline_def by (intro frame_rules)+

lemma frames_await_write [frame_rules]: "frames (await_write f g)"
  unfolding await_write_def by (intro frame_rules)

lemma frames_write [frame_rules]: "frames (Network_write W p)" "frames (Network_write_request W p)"
  "frames (flush_network W)" "frames (flush_read_batch W)"
  unfolding Network_write_def Network_write_request_def flush_network_def flush_read_batch_def Let_def
  by (intro frame_rules)+

lemma frames_readb_turn:
  assumes "\<And>a b. frames (continue a b)"
  shows "frames (readb_turn B W res outcome notices continue)"
  unfolding readb_turn_def Let_def
  by (intro frame_rules assms) (simp add: frame_rules split: v4_error.splits)

lemma frames_readb_loop: "frames (readb_loop B W n res outcome notices)"
  by (induction n arbitrary: res outcome notices) (auto intro!: frames_readb_turn frame_rules)

lemma queues_keepalive [simp]:
  "el_pending (reset_keepalive_timeout W s) = el_pending s" "el_queued (reset_keepalive_timeout W s) = el_queued s"
  "requests_rx (reset_keepalive_timeout W s) = requests_rx s"
  "control_requests_rx (reset_keepalive_timeout W s) = control_requests_rx s"
  "disconnect_complete (reset_keepalive_timeout W s) = disconnect_complete s"
  by (simp_all add: reset_keepalive_timeout_def)

lemma frames_read [frame_rules]: "frames (read_network_batch B W first n deadline)"
proof -
  have "frames (complete_read_batch B W batch)" "frames (complete_failed_read_batch B W error :: (_, 'z, _) sm)" for batch error
    unfolding complete_read_batch_def complete_failed_read_batch_def Let_def by (intro frame_rules)+
  then have "frames (complete_network_read B W batch)" for batch
    unfolding complete_network_read_def by - (rule frames_cases(2); auto intro!: frame_rules)
  then show ?thesis
    unfolding read_network_batch_def readb_from_def Let_def
    by (intro frame_rules frames_readb_loop; simp add: replace_write_deadline_def close_timed_out_transport_def)
qed

lemma frames_requests [frame_rules]:
  "frames (check_keepalive_scan_timeout W)" "frames (flush_request_batch W b ns)" "frames (handle_protocol_request B W e b ns)"
  "frames (defer_connection_error err)"
  unfolding check_keepalive_scan_timeout_def flush_request_batch_def handle_protocol_request_def state_call_def
    defer_connection_error_def
  by (intro frame_rules; simp add: close_timed_out_transport_def)+

section \<open>Triples on the normal result\<close>

definition ends :: "('s \<Rightarrow> bool) \<Rightarrow> ('s, 'e, 'a) sm \<Rightarrow> ('a \<Rightarrow> 's \<Rightarrow> bool) \<Rightarrow> bool" where
  "ends P m Q \<longleftrightarrow> (\<forall>s x t. P s \<longrightarrow> m s = (Ok x, t) \<longrightarrow> Q x t)"

lemma ends_seq: "\<lbrakk>ends P m R; \<And>x. ends (R x) (f x) Q\<rbrakk> \<Longrightarrow> ends P (andThen m f) Q"
  unfolding ends_def andThen_eq_Ok by blast

lemma ends_basic:
  "(\<And>s. P s \<Longrightarrow> Q x s) \<Longrightarrow> ends P (ret x) Q" "ends P (fail e) Q"
  "(\<And>s. P s \<Longrightarrow> R () (g s)) \<Longrightarrow> ends P (modify g) R"
  by (auto simp: ends_def run_simps)

lemma ends_gets: "(\<And>x. ends (\<lambda>s. P s \<and> x = g s) (f x) Q) \<Longrightarrow> ends P (andThen (gets g) f) Q"
  by (auto simp: ends_def andThen_eq_Ok)

lemma ends_gets': "(\<And>x. ends P (f x) Q) \<Longrightarrow> ends P (andThen (gets g) f) Q"
  by (auto simp: ends_def andThen_eq_Ok)

lemma ends_weaken: "\<lbrakk>ends P m Q; \<And>s. P' s \<Longrightarrow> P s; \<And>x s. Q x s \<Longrightarrow> Q' x s\<rbrakk> \<Longrightarrow> ends P' m Q'"
  unfolding ends_def by blast

lemma ends_conj: "\<lbrakk>ends P m Q; ends P' m Q'\<rbrakk> \<Longrightarrow> ends (\<lambda>s. P s \<and> P' s) m (\<lambda>x s. Q x s \<and> Q' x s)"
  by (auto simp: ends_def)

lemma ends_if: "\<lbrakk>c \<Longrightarrow> ends P m Q; \<not> c \<Longrightarrow> ends P n Q\<rbrakk> \<Longrightarrow> ends P (if c then m else n) Q"
  by simp

lemma ends_option:
  "\<lbrakk>x = None \<Longrightarrow> ends P m Q; \<And>y. x = Some y \<Longrightarrow> ends P (f y) Q\<rbrakk> \<Longrightarrow> ends P (case x of None \<Rightarrow> m | Some y \<Rightarrow> f y) Q"
  by (cases x) simp_all

lemma ends_prod: "(\<And>a b. ends P (f a b) Q) \<Longrightarrow> ends P (case z of (a, b) \<Rightarrow> f a b) Q"
  by (cases z) simp

lemma hoare_ends: "hoare P m Q E \<Longrightarrow> ends P m Q"
  by (fastforce simp: hoare_def ends_def wp_def)

section \<open>The requests that wait\<close>

definition load :: "('c \<Rightarrow> RequestEnvelope list) \<Rightarrow> ('b, 'c, 'w) EventLoop \<Rightarrow> nat" where
  "load items s = 2 * (length (el_pending s) + length (items (requests_rx s)) + length (items (control_requests_rx s)))
     + length (sched_queue (el_queued s))"

lemma load_frame [simp]:
  "load items (s\<lparr>el_state := st\<rparr>) = load items s" "load items (s\<lparr>el_world := w\<rparr>) = load items s"
  "load items (s\<lparr>next_poll_source := src\<rparr>) = load items s" "load items (s\<lparr>immediate_disconnect_rx := c\<rparr>) = load items s"
  by (simp_all add: load_def)

text \<open>The number of turns the loop of \<open>select\<close> can still take, less one.\<close>

definition turns :: "('c \<Rightarrow> RequestEnvelope list) \<Rightarrow> ('b, 'c, 'w) EventLoop \<Rightarrow> nat" where
  "turns items s = 2 * load items s + (if events (el_state s) = [] then 1 else 0)"

lemma ends_frames:
  assumes "frames m"
  shows "ends (\<lambda>s. P (load items s)) m (\<lambda>_ s. P (load items s))"
  using assms by (simp add: frames_def ends_def load_def)

lemma ends_load_seq:
  assumes "frames m" "\<And>x. ends (\<lambda>s. P (load items s)) (f x) Q"
  shows "ends (\<lambda>s. P (load items s)) (andThen m f) Q"
  by (rule ends_seq [OF ends_frames [OF assms(1)] assms(2)])

lemma ends_handle_request: "ends (\<lambda>s. P (load items s)) (handle_request B W e b ns) (\<lambda>_ s. P (load items s))"
proof -
  have last: "ends (\<lambda>s. P (load items s)) (andThen (modify (\<lambda>self. self\<lparr>disconnect_complete := True\<rparr>)) (\<lambda>_. ret x))
      (\<lambda>_ s. P (load items s))" for x :: 'z
    by (simp add: ends_def andThen_eq_Ok run_simps load_def)
  have now: "ends (\<lambda>s. P (load items s)) (handle_disconnect_now B W e b ns) (\<lambda>_ s. P (load items s))"
    unfolding handle_disconnect_now_def state_call_def
    by (rule ends_load_seq [OF frames_time(1)], rule ends_load_seq [OF frames_map_err [OF frames_basic(7)]], rule ends_prod,
        rule ends_load_seq [OF frames_save(1)], rule ends_load_seq, intro frame_rules, rule last)
  have graceful: "ends (\<lambda>s. P (load items s)) (andThen (instant_now W) (\<lambda>now.
      andThen (modify (\<lambda>self. self\<lparr>pending_disconnect := f now\<rparr>)) (\<lambda>_. ret x))) (\<lambda>_ s. P (load items s))" for f and x :: 'z
    by (rule ends_load_seq [OF frames_time(1)]) (simp add: ends_def andThen_eq_Ok run_simps load_def)
  show ?thesis
    by (cases "env_request e") (simp_all add: handle_request_def now graceful ends_frames frames_requests(3))
qed

context event_loop begin

abbreviation D :: "('b, 'c, 'w) EventLoop \<Rightarrow> nat" where "D \<equiv> load items"

lemma ends_next_scheduled:
  "ends (\<lambda>s. D s = l) (next_scheduled_request B) (\<lambda>r s. if r = None then D s = l else D s < l)"
  by (auto simp: ends_def next_scheduled_request_def load_def pop_next_Some split: prod.splits)
    (auto simp: pop_next_def deque_remove_def split: option.splits if_splits)

lemma ends_request_batch: "ends (\<lambda>s. D s < l) (request_batch B W n b ns) (\<lambda>_ s. D s < l)"
proof (induction n arbitrary: b ns)
  case (Suc n)
  have pop: "ends (\<lambda>s. D s < l) (next_scheduled_request B) (\<lambda>_ s. D s < l)"
    using ends_next_scheduled unfolding ends_def by (metis order_less_trans)
  show ?case
    unfolding request_batch.simps
    by (rule ends_seq [OF pop])
      (auto intro!: ends_option ends_basic ends_seq [OF ends_handle_request] Suc.IH split: BatchControl.splits)
qed (simp add: ends_basic)

lemma ends_ready_requests:
  "ends (\<lambda>s. D s = l) (handle_ready_requests B W) (\<lambda>handled s. if handled then D s < l else D s = l)"
  unfolding handle_ready_requests_def
  by (rule ends_seq [OF ends_next_scheduled], rule ends_option)
    (auto intro!: ends_basic ends_gets' ends_seq [OF ends_handle_request]
      ends_seq [OF ends_frames [OF frames_requests(2)]] ends_seq [OF ends_request_batch]
      simp: andThen_assoc split: BatchControl.splits)

lemma ends_recv_requests:
  "ends (\<lambda>s. D s = l) (recv_requests C) (\<lambda>r s. case r of Ok _ \<Rightarrow> D s + 2 = l | _ \<Rightarrow> D s = l)"
  unfolding ends_def
proof (intro allI impI)
  fix s x t
  assume "D s = l" "recv_requests C s = (Ok x, t)"
  then show "case x of Ok _ \<Rightarrow> D t + 2 = l | _ \<Rightarrow> D t = l"
    by (cases rule: recv_cases [of "requests_rx s"]) (auto simp: recv_requests_def load_def)
qed

lemma ends_recv_control:
  "ends (\<lambda>s. D s = l) (recv_control C) (\<lambda>r s. case r of Ok _ \<Rightarrow> D s + 2 = l | _ \<Rightarrow> D s = l)"
  unfolding ends_def
proof (intro allI impI)
  fix s x t
  assume "D s = l" "recv_control C s = (Ok x, t)"
  then show "case x of Ok _ \<Rightarrow> D t + 2 = l | _ \<Rightarrow> D t = l"
    by (cases rule: recv_cases [of "control_requests_rx s"]) (auto simp: recv_control_def load_def)
qed

lemma ends_recv_immediate: "ends (\<lambda>s. D s = l) (recv_immediate C) (\<lambda>_ s. D s = l)"
  by (auto simp: ends_def recv_immediate_def split: prod.splits)

text \<open>A channel that is polled only while it can still deliver does not report its end.\<close>

lemma ends_open_requests:
  "ends (\<lambda>s. items (requests_rx s) \<noteq> [] \<or> \<not> ch_is_disconnected C (requests_rx s)) (recv_requests C)
     (\<lambda>r _. r \<noteq> Err TryRecvDisconnected)"
  unfolding ends_def
proof (intro allI impI)
  fix s x t
  assume "items (requests_rx s) \<noteq> [] \<or> \<not> ch_is_disconnected C (requests_rx s)" "recv_requests C s = (Ok x, t)"
  then show "x \<noteq> Err TryRecvDisconnected"
    by (cases rule: recv_cases [of "requests_rx s"]) (auto simp: recv_requests_def)
qed

lemma ends_open_control:
  "ends (\<lambda>s. items (control_requests_rx s) \<noteq> [] \<or> \<not> ch_is_disconnected C (control_requests_rx s)) (recv_control C)
     (\<lambda>r _. r \<noteq> Err TryRecvDisconnected)"
  unfolding ends_def
proof (intro allI impI)
  fix s x t
  assume "items (control_requests_rx s) \<noteq> [] \<or> \<not> ch_is_disconnected C (control_requests_rx s)" "recv_control C s = (Ok x, t)"
  then show "x \<noteq> Err TryRecvDisconnected"
    by (cases rule: recv_cases [of "control_requests_rx s"]) (auto simp: recv_control_def)
qed

lemma ends_open_immediate:
  "ends (\<lambda>s. \<not> ch_is_disconnected C (immediate_disconnect_rx s)) (recv_immediate C) (\<lambda>r _. r \<noteq> Err TryRecvDisconnected)"
  unfolding ends_def
proof (intro allI impI)
  fix s x t
  assume "\<not> ch_is_disconnected C (immediate_disconnect_rx s)" "recv_immediate C s = (Ok x, t)"
  then show "x \<noteq> Err TryRecvDisconnected"
    by (cases rule: recv_cases [of "immediate_disconnect_rx s"]) (auto simp: recv_immediate_def)
qed

section \<open>Turns that do not return\<close>

definition ready_load :: "nat \<Rightarrow> PollReady option \<Rightarrow> ('b, 'c, 'w) EventLoop \<Rightarrow> bool" where
  "ready_load l r s \<longleftrightarrow>
     (case r of
        None \<Rightarrow> D s = l
      | Some (ReadyControl _) \<Rightarrow> D s + 2 = l
      | Some (ReadyRequest (Inr _)) \<Rightarrow> D s + 2 = l
      | Some (ReadyRequest (Inl _)) \<Rightarrow> False
      | Some ReadyClosed \<Rightarrow> False
      | _ \<Rightarrow> True)"

lemma ready_load_None [simp]: "ready_load l None s \<longleftrightarrow> D s = l"
  by (simp add: ready_load_def)

lemma ready_load_frame [simp]: "ready_load l r (s\<lparr>next_poll_source := src\<rparr>) = ready_load l r s"
  by (simp add: ready_load_def split: option.splits PollReady.splits sum.splits)

text \<open>The request channel can still deliver, or is not looked at.\<close>

abbreviation open_requests :: "bool \<Rightarrow> ('b, 'c, 'w) EventLoop \<Rightarrow> bool" where
  "open_requests en \<equiv> \<lambda>s. en \<longrightarrow> el_pending s \<noteq> [] \<or> items (requests_rx s) \<noteq> [] \<or> \<not> ch_is_disconnected C (requests_rx s)"

lemma ends_poll_source:
  "ends (\<lambda>s. D s = l \<and> open_requests en s) (poll_source C W en ka source)
     (\<lambda>r s. ready_load l r s \<and> (r = None \<longrightarrow> open_requests en s))"
  unfolding ends_def
proof (intro allI impI, elim conjE)
  fix s x t
  assume s: "D s = l" "open_requests en s" and run: "poll_source C W en ka source s = (Ok x, t)"
  show "ready_load l x t \<and> (x = None \<longrightarrow> open_requests en t)"
  proof (cases source)
    case (PollRequest n)
    show ?thesis
    proof (cases "en \<and> el_pending s = []")
      case True
      then show ?thesis
        using s run PollRequest
        by (cases rule: recv_cases [of "requests_rx s"])
          (auto simp: andThen_def recv_requests_def ready_load_def load_def run_simps)
    next
      case False
      then show ?thesis
        using s run PollRequest
        by (auto simp: andThen_def ready_load_def load_def run_simps split: list.splits if_splits)
    qed
  next
    case PollNetwork
    then show ?thesis
      using s run by (auto simp: andThen_def on_world_def ready_load_def run_simps load_def split: prod.splits option.splits)
  next
    case PollKeepAlive
    then show ?thesis
      using s run by (auto simp: ready_load_def split: option.splits if_splits)
  qed
qed

lemma ends_or_else:
  assumes "ends P m (\<lambda>r s. ready_load l r s \<and> (r = None \<longrightarrow> R s))" "ends (\<lambda>s. D s = l \<and> R s) n (ready_load l)"
  shows "ends P (andThen m (\<lambda>r. if r \<noteq> None then ret r else n)) (ready_load l)"
    and "ends P (andThen m (\<lambda>r. if r \<noteq> None then andThen (modify (\<lambda>self. self\<lparr>next_poll_source := src\<rparr>)) (\<lambda>_. ret r) else n))
      (ready_load l)"
proof -
  have step: "ends (\<lambda>s. ready_load l r s \<and> (r = None \<longrightarrow> R s)) (if r \<noteq> None then k r else n) (ready_load l)"
    if "ends (ready_load l r) (k r) (ready_load l)" for r k
  proof (cases r)
    case None
    with assms(2) show ?thesis by simp
  next
    case (Some a)
    with that show ?thesis by (auto simp: ends_def)
  qed
  show "ends P (andThen m (\<lambda>r. if r \<noteq> None then ret r else n)) (ready_load l)"
    by (rule ends_seq [OF assms(1)], rule step) (rule ends_basic)
  show "ends P (andThen m (\<lambda>r. if r \<noteq> None then andThen (modify (\<lambda>self. self\<lparr>next_poll_source := src\<rparr>)) (\<lambda>_. ret r) else n))
      (ready_load l)"
    by (rule ends_seq [OF assms(1)], rule step) (auto simp: ends_def andThen_eq_Ok run_simps)
qed

lemma ends_poll_sources:
  "ends (\<lambda>s. D s = l \<and> open_requests en s) (poll_sources C W en ka n source) (ready_load l)"
proof (induction n arbitrary: source)
  case (Suc n)
  show ?case
    unfolding poll_sources.simps by (rule ends_or_else(2) [OF ends_poll_source Suc.IH])
qed (simp add: ends_def run_simps)

lemma recv_same:
  "recv_requests C s = (Ok (Err e), t) \<Longrightarrow> t = s" "recv_control C s = (Ok (Err e), t) \<Longrightarrow> t = s"
  "recv_immediate C s = (Ok (Err e), t) \<Longrightarrow> t = s"
proof -
  show "recv_requests C s = (Ok (Err e), t) \<Longrightarrow> t = s"
    by (cases rule: recv_cases [of "requests_rx s"]) (auto simp: recv_requests_def)
  show "recv_control C s = (Ok (Err e), t) \<Longrightarrow> t = s"
    by (cases rule: recv_cases [of "control_requests_rx s"]) (auto simp: recv_control_def)
  show "recv_immediate C s = (Ok (Err e), t) \<Longrightarrow> t = s"
    by (cases rule: recv_cases [of "immediate_disconnect_rx s"]) (auto simp: recv_immediate_def)
qed

text \<open>A receive that finds nothing changes nothing.\<close>

lemma ends_receive:
  assumes "ends (\<lambda>s. D s = l) recv (\<lambda>r s. case r of Ok _ \<Rightarrow> n s | _ \<Rightarrow> D s = l)"
    and "\<And>s e t. recv s = (Ok (Err e), t) \<Longrightarrow> t = s" "\<And>s t. recv s \<noteq> (Ok Panic, t)"
  shows "ends (\<lambda>s. D s = l \<and> R s) recv (\<lambda>r s. case r of Ok _ \<Rightarrow> n s | _ \<Rightarrow> D s = l \<and> R s)"
  unfolding ends_def
proof (intro allI impI)
  fix s x t
  assume s: "D s = l \<and> R s" and run: "recv s = (Ok x, t)"
  show "case x of Ok _ \<Rightarrow> n t | _ \<Rightarrow> D t = l \<and> R t"
  proof (cases x)
    case (Ok y)
    then show ?thesis
      using assms(1) s run by (auto simp: ends_def)
  next
    case (Err e)
    then show ?thesis
      using assms(2) [of s e t] s run by simp
  next
    case Panic
    then show ?thesis
      using assms(3) [of s t] run by simp
  qed
qed

lemma recv_no_panic: "recv_requests C s \<noteq> (Ok Panic, t)" "recv_control C s \<noteq> (Ok Panic, t)" "recv_immediate C s \<noteq> (Ok Panic, t)"
proof -
  show "recv_requests C s \<noteq> (Ok Panic, t)"
    by (cases rule: recv_cases [of "requests_rx s"]) (auto simp: recv_requests_def)
  show "recv_control C s \<noteq> (Ok Panic, t)"
    by (cases rule: recv_cases [of "control_requests_rx s"]) (auto simp: recv_control_def)
  show "recv_immediate C s \<noteq> (Ok Panic, t)"
    by (cases rule: recv_cases [of "immediate_disconnect_rx s"]) (auto simp: recv_immediate_def)
qed

lemma ends_receives:
  "ends (\<lambda>s. D s = l \<and> R s) (recv_requests C) (\<lambda>r s. case r of Ok _ \<Rightarrow> D s + 2 = l | _ \<Rightarrow> D s = l \<and> R s)"
  "ends (\<lambda>s. D s = l \<and> R s) (recv_control C) (\<lambda>r s. case r of Ok _ \<Rightarrow> D s + 2 = l | _ \<Rightarrow> D s = l \<and> R s)"
  "ends (\<lambda>s. D s = l \<and> R s) (recv_immediate C) (\<lambda>r s. case r of Ok _ \<Rightarrow> True | _ \<Rightarrow> D s = l \<and> R s)"
proof -
  have "ends (\<lambda>s. D s = l) (recv_immediate C) (\<lambda>r s. case r of Ok _ \<Rightarrow> True | _ \<Rightarrow> D s = l)"
    using ends_recv_immediate [of l] by (auto simp: ends_def split: outcome.splits)
  from ends_receive [OF this recv_same(3) recv_no_panic(3)]
  show "ends (\<lambda>s. D s = l \<and> R s) (recv_immediate C) (\<lambda>r s. case r of Ok _ \<Rightarrow> True | _ \<Rightarrow> D s = l \<and> R s)" .
  show "ends (\<lambda>s. D s = l \<and> R s) (recv_requests C) (\<lambda>r s. case r of Ok _ \<Rightarrow> D s + 2 = l | _ \<Rightarrow> D s = l \<and> R s)"
    by (rule ends_receive [OF ends_recv_requests recv_same(1) recv_no_panic(1)])
  show "ends (\<lambda>s. D s = l \<and> R s) (recv_control C) (\<lambda>r s. case r of Ok _ \<Rightarrow> D s + 2 = l | _ \<Rightarrow> D s = l \<and> R s)"
    by (rule ends_receive [OF ends_recv_control recv_same(2) recv_no_panic(2)])
qed

lemma ends_outcome:
  assumes "\<And>x. ends P (f x) Q" "\<And>e. ends P' (g e) Q" "ends P' h Q"
  shows "ends (\<lambda>s. case r of Ok _ \<Rightarrow> P s | _ \<Rightarrow> P' s) (case r of Ok x \<Rightarrow> f x | Err e \<Rightarrow> g e | Panic \<Rightarrow> h) Q"
  using assms by (cases r) simp_all

lemma ends_buffered_ready:
  "ends (\<lambda>s. D s = l \<and> R s) (buffered_ready C) (\<lambda>r s. ready_load l r s \<and> (r = None \<longrightarrow> R s))" (is "ends ?P _ ?Q")
proof -
  have requests: "ends ?P (andThen (recv_requests C) (\<lambda>r. case r of
       Ok envelope \<Rightarrow>
         andThen (modify (\<lambda>self. self\<lparr>next_poll_source := after_ready (next_poll_source self)\<rparr>)) (\<lambda>_.
         ret (Some (ReadyRequest (Inr envelope))))
     | _ \<Rightarrow> ret None)) ?Q"
    by (rule ends_seq [OF ends_receives(1)], rule ends_outcome) (auto simp: ends_def run_simps andThen_eq_Ok ready_load_def)
  have control: "ends ?P (andThen (recv_control C) (\<lambda>r. case r of Ok envelope \<Rightarrow> ret (Some (ReadyControl envelope)) | _ \<Rightarrow> m)) ?Q"
    if "ends ?P m ?Q" for m :: "(('b, 'c, 'w) EventLoop, 'e, PollReady option) sm"
    by (rule ends_seq [OF ends_receives(2)], rule ends_outcome [OF _ that that]) (simp add: ends_def run_simps ready_load_def)
  have immediate: "ends ?P (andThen (recv_immediate C) (\<lambda>r. case r of Ok envelope \<Rightarrow> ret (Some (ReadyImmediate envelope)) | _ \<Rightarrow> m)) ?Q"
    if "ends ?P m ?Q" for m :: "(('b, 'c, 'w) EventLoop, 'e, PollReady option) sm"
    by (rule ends_seq [OF ends_receives(3)], rule ends_outcome [OF _ that that]) (simp add: ends_def run_simps ready_load_def)
  show ?thesis
    unfolding buffered_ready_def by (rule immediate, rule control, rule requests)
qed

lemma ends_poll_recv:
  assumes "ends (\<lambda>s. D s = l \<and> R s) recv (\<lambda>r s. case r of Ok _ \<Rightarrow> n s | _ \<Rightarrow> D s = l \<and> R s)"
    and "ends (\<lambda>s. D s = l \<and> U s) recv (\<lambda>r _. r \<noteq> Err TryRecvDisconnected)"
    and "\<And>e s. n s \<Longrightarrow> ready_load l (Some (ready e)) s"
  shows "ends (\<lambda>s. D s = l \<and> R s \<and> (en \<longrightarrow> U s)) (poll_recv en recv ready) (\<lambda>r s. ready_load l r s \<and> (r = None \<longrightarrow> R s))"
proof (cases en)
  case True
  have both: "ends (\<lambda>s. D s = l \<and> R s \<and> (en \<longrightarrow> U s)) recv
      (\<lambda>r s. (case r of Ok _ \<Rightarrow> n s | _ \<Rightarrow> D s = l \<and> R s) \<and> r \<noteq> Err TryRecvDisconnected)"
    by (rule ends_weaken [OF ends_conj [OF assms(1,2)]]) (auto simp: True)
  show ?thesis
    unfolding poll_recv_def
    by (rule ends_if, simp add: True, rule ends_seq [OF both], rule ends_basic(1))
      (auto simp: assms(3) split: outcome.splits TryRecvError.splits)
next
  case False
  then show ?thesis
    by (simp add: poll_recv_def ends_def run_simps)
qed

lemma ends_expect: "(\<And>x. ends P (f x) Q) \<Longrightarrow> ends P (andThen (expect opt) f) Q"
  by (auto simp: ends_def andThen_def expect_def run_simps split: option.splits)

lemma ends_next_ready: "ends (\<lambda>s. D s = l) (next_ready B C W) (ready_load l)"
proof -
  let ?imm = "\<lambda>s. \<not> ch_is_disconnected C (immediate_disconnect_rx s)"
    and ?ctl = "\<lambda>s. items (control_requests_rx s) \<noteq> [] \<or> \<not> ch_is_disconnected C (control_requests_rx s)"
  have imm: "ends (\<lambda>s. D s = l \<and> R s \<and> (en \<longrightarrow> ?imm s)) (poll_recv en (recv_immediate C) ReadyImmediate)
      (\<lambda>r s. ready_load l r s \<and> (r = None \<longrightarrow> R s))" for R en
    by (rule ends_poll_recv [OF ends_receives(3)], rule ends_weaken [OF ends_open_immediate]) (auto simp: ready_load_def)
  have ctl: "ends (\<lambda>s. D s = l \<and> R s \<and> (en \<longrightarrow> ?ctl s)) (poll_recv en (recv_control C) ReadyControl)
      (\<lambda>r s. ready_load l r s \<and> (r = None \<longrightarrow> R s))" for R en
    by (rule ends_poll_recv [OF ends_receives(2)], rule ends_weaken [OF ends_open_control]) (auto simp: ready_load_def)
  have sources: "ends (\<lambda>s. D s = l \<and> open_requests en s) (andThen (gets next_poll_source) (poll_sources C W en ka 3)) (ready_load l)" for en ka
    by (rule ends_gets', rule ends_poll_sources)
  have control: "ends (\<lambda>s. D s = l \<and> open_requests en s \<and> (c \<longrightarrow> ?ctl s))
      (andThen (poll_recv c (recv_control C) ReadyControl) (\<lambda>r. if r \<noteq> None then ret r
        else andThen (gets next_poll_source) (poll_sources C W en ka 3))) (ready_load l)" for en c ka
    by (rule ends_or_else(1) [OF ctl sources])
  have immediate: "ends (\<lambda>s. D s = l \<and> (open_requests en s \<and> (c \<longrightarrow> ?ctl s)) \<and> (i \<longrightarrow> ?imm s))
      (andThen (poll_recv i (recv_immediate C) ReadyImmediate) (\<lambda>r. if r \<noteq> None then ret r
        else andThen (poll_recv c (recv_control C) ReadyControl) (\<lambda>r. if r \<noteq> None then ret r
        else andThen (gets next_poll_source) (poll_sources C W en ka 3)))) (ready_load l)" for en c i ka
    by (rule ends_or_else(1) [OF imm control])
  have fast: "ends (\<lambda>s. D s = l \<and> open_requests en s) (if b then buffered_ready C else ret None)
      (\<lambda>r s. ready_load l r s \<and> (r = None \<longrightarrow> open_requests en s))" for b en
    by (rule ends_if, rule ends_buffered_ready) (simp add: ends_def run_simps)
  have slow: "ends (\<lambda>s. D s = l \<and> open_requests en s)
      (andThen (gets (\<lambda>self. \<not> ch_is_disconnected C (immediate_disconnect_rx self))) (\<lambda>i.
       andThen (gets (\<lambda>self. \<not> ch_is_empty C (control_requests_rx self)
         \<or> \<not> ch_is_disconnected C (control_requests_rx self))) (\<lambda>c.
       andThen (gets (\<lambda>self. keepalive_timeout self \<noteq> None \<and> opt_keep_alive (el_options self) \<noteq> 0)) (\<lambda>ka.
       andThen (gets el_network) (\<lambda>network.
       andThen (expect network) (\<lambda>_.
       andThen (poll_recv i (recv_immediate C) ReadyImmediate) (\<lambda>r. if r \<noteq> None then ret r
        else andThen (poll_recv c (recv_control C) ReadyControl) (\<lambda>r. if r \<noteq> None then ret r
        else andThen (gets next_poll_source) (poll_sources C W en ka 3))))))))) (ready_load l)" for en
    by (rule ends_gets, rule ends_gets, rule ends_gets', rule ends_gets', rule ends_expect, rule ends_weaken [OF immediate])
      (auto simp: empty_items)
  show ?thesis
    unfolding next_ready_def
    by (rule ends_gets, rule ends_gets', rule ends_or_else(1) [OF _ slow], rule ends_weaken [OF fast])
      (auto simp: requests_enabled_def empty_items)
qed

section \<open>Admission and the loop\<close>

lemma ends_queue_push: "ends (\<lambda>s. D s < l) (queue_push e) (\<lambda>_ s. D s \<le> l)"
  by (auto simp: ends_def queue_push_def load_def sched_push_back_def)

lemma ends_try_next: "ends (\<lambda>s. D s \<le> l) (try_next_request C) (\<lambda>r s. if r = None then D s \<le> l else D s < l)"
  unfolding ends_def
proof (intro allI impI)
  fix s x t
  assume s: "D s \<le> l" and run: "try_next_request C s = (Ok x, t)"
  show "if x = None then D t \<le> l else D t < l"
  proof (cases "el_pending s")
    case Nil
    then show ?thesis
      using s run by (cases rule: recv_cases [of "requests_rx s"])
        (auto simp: try_next_request_def andThen_def recv_requests_def run_simps load_def)
  next
    case (Cons e es)
    then show ?thesis
      using s run by (auto simp: try_next_request_def andThen_def run_simps load_def)
  qed
qed

lemma ends_admit_batch: "ends (\<lambda>s. D s \<le> l) (admit_batch C n) (\<lambda>_ s. D s \<le> l)"
  by (induction n) (auto intro!: ends_basic ends_seq [OF ends_try_next] ends_option ends_seq [OF ends_queue_push])

lemma ends_admit_existing: "ends (\<lambda>s. D s \<le> l) (admit_existing B C n) (\<lambda>_ s. D s \<le> l)"
proof (induction n)
  case (Suc n)
  show ?case
    unfolding admit_existing.simps
    by (rule ends_gets')
      (auto intro!: ends_basic ends_seq [OF ends_try_next] ends_option ends_seq [OF ends_queue_push] Suc.IH)
qed (simp add: ends_basic)

text \<open>A turn that does not return has made progress.\<close>

abbreviation progress :: "nat \<Rightarrow> ('b, 'c, 'w) EventLoop \<Rightarrow> bool" where
  "progress l s \<equiv> D s < l \<or> D s = l \<and> events (el_state s) \<noteq> []"

lemma ends_try_admit: "ends (\<lambda>s. D s \<le> k) (try_admit_existing_normal_requests B C) (\<lambda>_ s. D s \<le> k)"
  unfolding try_admit_existing_normal_requests_def by (rule ends_gets', rule ends_admit_existing)

lemma ends_admit_normal: "ends (\<lambda>s. D s \<le> k) (admit_normal_request_batch B C e) (\<lambda>_ s. D s \<le> k + 1)"
proof -
  have "ends (\<lambda>s. D s \<le> k) (queue_push e) (\<lambda>_ s. D s \<le> k + 1)"
    by (rule ends_weaken [OF ends_queue_push]) auto
  then show ?thesis
    unfolding admit_normal_request_batch_def
    by (rule ends_seq) (rule ends_gets', rule ends_if, simp add: ends_basic, rule ends_gets', rule ends_admit_batch)
qed

lemma ends_select_ready:
  "ends (ready_load l r) (select_ready B C W r) (\<lambda>p s. p = None \<longrightarrow> progress l s)"
proof -
  have some: "ends P (andThen m (\<lambda>event. ret (Some (Poll_Ready event)))) (\<lambda>p s. p = None \<longrightarrow> progress l s)"
    for P and m :: "('b, 'c, 'w, Event) el"
    by (auto simp: ends_def andThen_eq_Ok run_simps)
  have push: "ends (\<lambda>s. D s \<le> k) (andThen (queue_push e) (\<lambda>_. ret None)) (\<lambda>p s. p = None \<longrightarrow> progress (k + 2) s)"
    for k e
    by (auto simp: ends_def andThen_eq_Ok run_simps queue_push_def load_def sched_push_back_def)
  have less: "ends (\<lambda>s. D s + 2 = l) m (\<lambda>p s. p = None \<longrightarrow> progress l s)"
    if "\<And>k. ends (\<lambda>s. D s \<le> k) m (\<lambda>p s. p = None \<longrightarrow> progress (k + 2) s)" for m :: "('b, 'c, 'w, 'z option) el"
    using that unfolding ends_def by blast
  have control: "ends (\<lambda>s. D s + 2 = l) (andThen (try_admit_existing_normal_requests B C) (\<lambda>_. andThen (queue_push e) (\<lambda>_. ret None))
      :: ('b, 'c, 'w, Event Poll option) el) (\<lambda>p s. p = None \<longrightarrow> progress l s)" for e
    by (rule less, rule ends_seq [OF ends_try_admit push])
  have request: "ends (\<lambda>s. D s + 2 = l) (andThen (admit_normal_request_batch B C e) (\<lambda>_. ret None)
      :: ('b, 'c, 'w, Event Poll option) el) (\<lambda>p s. p = None \<longrightarrow> progress l s)" for e
    by (rule less, rule ends_seq [OF ends_admit_normal]) (simp add: ends_def run_simps)
  show ?thesis
    using some control request
    by (cases r) (auto simp: select_ready_def ready_load_def [abs_def] ends_basic split: PollReady.splits sum.splits)
qed

lemma ends_poll_drain:
  "ends (\<lambda>s. D s = l \<and> (en \<longrightarrow> \<not> ch_is_disconnected C (immediate_disconnect_rx s))) (poll_drain C W deadline en branches :: (_, 'e, _) sm)
     (\<lambda>r s. D s = l \<and> r \<noteq> Some DrainedClosed)"
proof (induction branches)
  case (Cons branch branches)
  show ?case
    unfolding ends_def
  proof (intro allI impI)
    fix s x t
    assume s: "D s = l \<and> (en \<longrightarrow> \<not> ch_is_disconnected C (immediate_disconnect_rx s))"
      and run: "poll_drain C W deadline en (branch # branches) s = (Ok x :: ('e, _) outcome, t)"
    have rest: "D t = l \<and> x \<noteq> Some DrainedClosed"
      if "poll_drain C W deadline en branches u = (Ok x :: ('e, _) outcome, t)" "D u = l" "immediate_disconnect_rx u = immediate_disconnect_rx s" for u
      using Cons.IH [unfolded ends_def, rule_format, of u x t] that s by simp
    show "D t = l \<and> x \<noteq> Some DrainedClosed"
    proof (cases branch)
      case DrainImmediate
      then show ?thesis
        using run rest s by (cases rule: recv_cases [of "immediate_disconnect_rx s"])
          (auto simp: andThen_def recv_immediate_def run_simps split: if_splits)
    next
      case DrainRead
      then show ?thesis
        using run s rest [of "s\<lparr>el_world := snd (framed_next W (el_world s))\<rparr>"]
        by (auto simp: andThen_def on_world_def run_simps split: prod.splits option.splits)
    next
      case DrainDeadline
      then show ?thesis
        using run rest s by (auto simp: andThen_def run_simps split: if_splits)
    qed
  qed
qed (simp add: ends_def run_simps)

lemma ends_read: "ends (\<lambda>s. K s \<and> D s = l) (read_network_batch B W frame n deadline) (\<lambda>_. progress l)"
  if "\<And>n. frame \<noteq> Some (Inl (InsufficientBytes n))"
  by (rule ends_weaken [OF ends_conj [OF hoare_ends [OF hoare_read_network_batch [OF that]]
          ends_frames [OF frames_read, where P = "\<lambda>d. d = l"]]]) auto

lemma ends_attempt: "ends P m Q \<Longrightarrow> ends P (attempt m) (\<lambda>r s. case r of Inr x \<Rightarrow> Q x s | Inl _ \<Rightarrow> True)"
  by (auto simp: ends_def attempt_def split: prod.splits outcome.splits)

lemma ends_disconnect_drain:
  "ends (\<lambda>s. K s \<and> D s = l) (poll_disconnect_drain B C W) (\<lambda>r s. r = Poll_Ready None \<longrightarrow> progress l s)"
proof -
  have drain: "ends (\<lambda>s. K s \<and> D s = l \<and> en = (\<not> ch_is_disconnected C (immediate_disconnect_rx s)))
      (poll_drain C W deadline en branches)
      (\<lambda>r s. (K s \<and> D s = l) \<and> r \<noteq> Some DrainedClosed \<and> (\<forall>frame. r = Some (DrainedFrame frame) \<longrightarrow> (\<forall>n. frame \<noteq> Some (Inl (InsufficientBytes n)))))"
    for deadline en branches
    by (rule ends_weaken [OF ends_conj [OF hoare_ends [OF hoare_poll_drain] ends_poll_drain]]) auto
  have read: "ends (\<lambda>s. K s \<and> D s = l) (andThen (attempt (read_network_batch B W frame n limit)) (\<lambda>r.
         case r of
           Inr _ \<Rightarrow> ret (Poll_Ready None)
         | Inl error \<Rightarrow>
             andThen (reached W deadline) (\<lambda>timed_out.
             andThen (defer_connection_error (if timed_out \<and> is_timed_out error then ConnDisconnectTimeout else error))
               (\<lambda>event. ret (Poll_Ready (Some event)))))) (\<lambda>r s. r = Poll_Ready None \<longrightarrow> progress l s)"
    if "\<And>n. frame \<noteq> Some (Inl (InsufficientBytes n))" for frame n limit deadline
    by (rule ends_seq [OF ends_attempt [OF ends_read [OF that]]])
      (auto simp: ends_def andThen_eq_Ok run_simps split: sum.splits)
  have quiet: "ends P (andThen m (\<lambda>event. ret (Poll_Ready (Some event)))) (\<lambda>r s. r = Poll_Ready None \<longrightarrow> progress l s)"
    "ends P (ret Poll_Pending) (\<lambda>r s. r = Poll_Ready None \<longrightarrow> progress l s)"
    "ends P (andThen (reached W deadline) (\<lambda>b. if b then fail e else fail e')) (\<lambda>r s. r = Poll_Ready None \<longrightarrow> progress l s)"
    for P deadline e e' and m :: "('b, 'c, 'w, Event) el"
    by (auto simp: ends_def andThen_eq_Ok run_simps reached_def split: if_splits)
  have split: "ends (\<lambda>s. P s \<and> c \<and> d) m Q" if "c \<Longrightarrow> d \<Longrightarrow> ends P m Q" for P Q c d and m :: "('b, 'c, 'w, 'z) el"
    using that by (auto simp: ends_def)
  show ?thesis
    unfolding poll_disconnect_drain_def Let_def
    by (rule ends_gets', rule ends_gets', rule ends_expect, rule ends_gets', rule ends_gets', rule ends_gets, rule ends_gets',
        rule ends_seq [OF ends_weaken [OF drain]], simp, assumption, rule split)
      (auto intro!: quiet ends_gets' read simp: response_write_deadline_def split: option.splits DrainReady.splits)
qed

lemma ends_select_turn: "ends (\<lambda>s. K s \<and> turns items s = n) (select_turn B C W) (\<lambda>p s. p = None \<longrightarrow> turns items s < n)"
proof -
  have pop: "ends (\<lambda>s. K s \<and> turns items s = n) pop_event (\<lambda>event s. event = None \<longrightarrow> K s \<and> 2 * D s + 1 = n)"
    by (auto simp: ends_def pop_event_def andThen_def turns_def run_simps split: list.splits)
  have drop: "ends (\<lambda>s. K s \<and> D s < l) pop_event (\<lambda>_ s. D s < l)" for l
    by (rule ends_weaken [OF ends_frames [OF frames_basic(9), where P = "\<lambda>d. d < l"]]) auto
  have ready: "ends (\<lambda>s. K s \<and> D s = l) (next_ready B C W) (ready_load l)" for l
    by (rule ends_weaken [OF ends_next_ready]) auto
  have quiet: "ends P (andThen m (\<lambda>event. ret (Some (Poll_Ready event)))) (\<lambda>p s. p = None \<longrightarrow> progress l s)"
    for P l and m :: "('b, 'c, 'w, Event) el"
    by (auto simp: ends_def andThen_eq_Ok run_simps)
  have check: "ends (\<lambda>s. K s \<and> D s = l) (check_keepalive_scan_timeout W) (\<lambda>_ s. K s \<and> D s = l)" for l
    by (rule ends_conj [OF hoare_ends [OF hoare_check_scan] ends_frames [OF frames_requests(1), where P = "\<lambda>d. d = l"]])
  have requests: "ends (\<lambda>s. K s \<and> D s = l) (if b then handle_ready_requests B W else ret False)
      (\<lambda>handled s. K s \<and> (if handled then D s < l else D s = l))" for b l
    by (rule ends_if, rule ends_conj [OF hoare_ends [OF hoare_ready_requests] ends_ready_requests]) (simp add: ends_basic)
  have disconnecting: "ends (\<lambda>s. K s \<and> D s = l) (select_disconnecting B C W) (\<lambda>p s. p = None \<longrightarrow> progress l s)" for l
    unfolding select_disconnecting_def
    by (rule ends_gets', rule ends_if, rule quiet, rule ends_seq [OF ends_disconnect_drain], rule ends_basic(1))
      (auto split: Poll.splits option.splits)
  have immediate: "ends (\<lambda>s. K s \<and> D s = l) (recv_immediate C) (\<lambda>r s. case r of Ok _ \<Rightarrow> True | _ \<Rightarrow> K s \<and> D s = l)" for l
    by (rule ends_weaken [OF ends_receives(3) [where R = K]]) (auto split: outcome.splits)
  have turn: "ends (\<lambda>s. K s \<and> D s = l) (andThen (gets (all_request_sources_drained B C)) (\<lambda>done.
             if done then fail ConnRequestsDone
             else
               andThen (check_keepalive_scan_timeout W) (\<lambda>_.
               andThen (gets (\<lambda>self. pending_disconnect self = None)) (\<lambda>serving.
               andThen (if serving then handle_ready_requests B W else ret False) (\<lambda>handled.
               if handled then andThen pop_event (\<lambda>event. ret (map_option Poll_Ready event))
               else
                 andThen (gets (\<lambda>self. pending_disconnect self \<noteq> None)) (\<lambda>disconnecting.
                 if disconnecting then select_disconnecting B C W
                 else andThen (next_ready B C W) (select_ready B C W))))))) (\<lambda>p s. p = None \<longrightarrow> progress l s)" for l
    by (rule ends_gets', rule ends_if, rule ends_basic, rule ends_seq [OF check], rule ends_gets', rule ends_seq [OF requests],
        rule ends_if, simp only: if_True, rule ends_seq [OF drop])
      (auto intro!: ends_basic ends_gets' ends_if disconnecting ends_seq [OF ready] ends_select_ready)
  have rest: "ends (\<lambda>s. K s \<and> 2 * D s + 1 = n) m (\<lambda>p s. p = None \<longrightarrow> turns items s < n)"
    if "\<And>l. ends (\<lambda>s. K s \<and> D s = l) m (\<lambda>p s. p = None \<longrightarrow> progress l s)" for m :: "('b, 'c, 'w, Event Poll option) el"
    unfolding ends_def turns_def
  proof (intro allI impI)
    fix s x t
    assume "K s \<and> 2 * D s + 1 = n" "m s = (Ok x, t)" "x = None"
    then show "2 * D t + (if events (el_state t) = [] then 1 else 0) < n"
      using that [of "D s", unfolded ends_def, rule_format, of s x t] by auto
  qed
  show ?thesis
    unfolding select_turn_def
    by (rule ends_seq [OF pop], rule ends_option, rule ends_weaken [OF rest], rule ends_seq [OF immediate], rule ends_outcome,
        rule quiet, rule turn, rule turn) (auto simp: ends_def run_simps)
qed

lemma select_more: "select B C W n s = (r, t) \<Longrightarrow> r \<noteq> Ok None \<Longrightarrow> n \<le> m \<Longrightarrow> select B C W m s = (r, t)"
proof (induction n arbitrary: m s)
  case (Suc n)
  then obtain k where "m = Suc k" "n \<le> k"
    by (cases m) auto
  then show ?case
    using Suc.prems Suc.IH by (auto simp: andThen_def split: prod.splits outcome.splits option.splits)
qed (simp add: run_simps)

lemma select_returns:
  assumes "K s" "turns items s < n"
  shows "fst (select B C W n s) \<noteq> Ok None \<and> fst (select B C W n s) \<noteq> Panic"
  using assms
proof (induction n arbitrary: s)
  case (Suc n)
  have wp: "wp (select_turn B C W) (\<lambda>r. if r = None then K else L) (\<lambda>_. L) s"
    by (rule hoareD [OF hoare_select_turn Suc.prems(1)])
  obtain r t where run: "select_turn B C W s = (r, t)"
    by (cases "select_turn B C W s")
  show ?case
  proof (cases "r = Ok None")
    case True
    then have "K t" "turns items t < n"
      using wp run Suc.prems ends_select_turn [of "turns items s", unfolded ends_def, rule_format, of s None t]
      by (auto simp: wp_def)
    from Suc.IH [OF this] show ?thesis
      using True run by (simp add: andThen_def)
  next
    case False
    then show ?thesis
      using wp run by (auto simp: andThen_def wp_def run_simps split: outcome.splits option.splits)
  qed
qed simp

end

end
