(* ===== verification/V4_EventLoop_Props.thy ===== *)
theory V4_EventLoop_Props
  imports V4_EventLoop_Term V4_Codec
begin

text \<open>
  The properties of the event loop: whatever the clients, the broker, the network and the session store do, the
  loop keeps its invariant, no poll panics, and every poll returns.
\<close>

section \<open>The runs of a loop\<close>

text \<open>
  What can happen to a loop: the application polls it, or calls one of its other public operations; the
  clients put requests into the channels, and never one that claims to be a retransmission; the immediate channel
  carries \<open>DisconnectNow\<close> only; the options and the environment change.
\<close>

definition client_requests :: "RequestEnvelope list \<Rightarrow> RequestEnvelope list \<Rightarrow> RequestEnvelope list \<Rightarrow> bool" where
  "client_requests requests control immediate \<longleftrightarrow>
     list_all (\<lambda>e. \<not> env_replay e) (requests @ control)
     \<and> list_all (\<lambda>e. \<not> env_replay e \<and> disconnect_now (env_request e)) immediate"

inductive loop_reach ::
  "'b bitset_ops \<Rightarrow> ('c, RequestEnvelope) channel_ops \<Rightarrow> ('c \<Rightarrow> RequestEnvelope list) \<Rightarrow> 'w world_ops
    \<Rightarrow> ('b, 'c, 'w) EventLoop \<Rightarrow> bool"
  for B C items W where
  start: "client_requests (items requests) (items control) (items immediate)
    \<Longrightarrow> loop_reach B C items W (EventLoop_new B now options requests control immediate timeout world)"
| poll: "loop_reach B C items W s \<Longrightarrow> loop_reach B C items W (snd (EventLoop_poll B C W n s))"
| clean: "loop_reach B C items W s \<Longrightarrow> loop_reach B C items W (snd (EventLoop_clean B C s :: (unit, unit) outcome \<times> _))"
| discard: "loop_reach B C items W s \<Longrightarrow> loop_reach B C items W (discard_pending_manual_acknowledgements C s)"
| drain: "loop_reach B C items W s
    \<Longrightarrow> loop_reach B C items W (snd (drain_pending_as_failed reason s :: (unit, nat) outcome \<times> _))"
| reset: "\<lbrakk>loop_reach B C items W s; el_network s = None\<rbrakk>
    \<Longrightarrow> loop_reach B C items W (snd (EventLoop_reset_session_state B W s :: (unit, unit) outcome \<times> _))"
| clients: "\<lbrakk>loop_reach B C items W s; client_requests (items requests) (items control) (items immediate)\<rbrakk>
    \<Longrightarrow> loop_reach B C items W
      (s\<lparr>requests_rx := requests, control_requests_rx := control, immediate_disconnect_rx := immediate\<rparr>)"
| environment: "loop_reach B C items W s
    \<Longrightarrow> loop_reach B C items W (s\<lparr>el_options := options, connection_timeout := timeout, el_world := world\<rparr>)"

lemma queue_fold: "sched_queue (fold sched_push_back xs q) = sched_queue q @ xs"
  by (induction xs arbitrary: q) (simp_all add: sched_push_back_def)

context event_loop begin

lemma start_inv:
  assumes "client_requests (items requests) (items control) (items immediate)"
  shows "L (EventLoop_new B now options requests control immediate timeout world)"
proof -
  have "\<exists>Q. state_inv B Q (new_internal B now (opt_inflight options) (opt_ack_mode options)) \<and> owned Q []"
    by (rule exI [of _ "{}"]) (simp add: new_internal_inv owned_def)
  then show ?thesis
    using assms by (simp add: loop_inv_def EventLoop_new_def OutboundScheduler_default_def tracked_fresh client_requests_def
        SessionStoreState_new_def)
qed

lemma discard_inv:
  assumes "L s"
  shows "L (discard_pending_manual_acknowledgements C s)"
proof -
  have "owned Q (replayed (el_pending s) @ replayed (sched_queue (el_queued s)))" if "owned Q (waiting_requests s)" for Q
    using owned_filter [OF that] by simp
  then have "L (s\<lparr>el_pending := replayed (el_pending s),
       el_queued := fold sched_push_back (replayed (sched_queue (el_queued s))) (sched_clear (el_queued s))\<rparr>)"
    using assms by (auto simp: loop_inv_def queue_fold sched_clear_def list_all_iff)
  then show ?thesis
    unfolding discard_pending_manual_acknowledgements_def by (rule drain_channels_inv)
qed

lemma hoare_snd:
  assumes "hoare P m (\<lambda>_. L) (\<lambda>_. L)" "P s"
  shows "L (snd (m s))"
  using hoareD [OF assms] by (auto simp: wp_def split: prod.splits outcome.splits)

lemma reach_loop_inv: "loop_reach B C items W s \<Longrightarrow> L s"
proof (induction rule: loop_reach.induct)
  case (start requests control immediate now options timeout world)
  then show ?case by (rule start_inv)
next
  case (poll s n)
  show ?case by (rule hoare_snd [OF hoare_poll poll.IH])
next
  case (clean s)
  show ?case by (rule hoare_snd [OF hoare_clean clean.IH])
next
  case (discard s)
  show ?case by (rule discard_inv [OF discard.IH])
next
  case (drain s reason)
  have "hoare L (drain_pending_as_failed reason :: (_, unit, _) sm) (\<lambda>_. L) (\<lambda>_. L)"
    by (rule hoare_weaken [OF hoare_drain_failed [where E = "\<lambda>_. L"]]) auto
  then show ?case
    by (rule hoare_snd) (rule drain.IH)
next
  case (reset s)
  have "hoare idle (reset_session_state_internal B W ClearStore :: (_, unit, _) sm) (\<lambda>_. L) (\<lambda>_. L)"
    by (rule hoare_weaken [OF hoare_reset_internal [where E = "\<lambda>_. L"]]) auto
  then show ?case
    unfolding EventLoop_reset_session_state_def by (rule hoare_snd) (use reset in simp)
next
  case (clients s requests control immediate)
  then show ?case by (auto simp: loop_inv_def client_requests_def)
next
  case (environment s options timeout world)
  then show ?case by (simp add: loop_inv_def)
qed

lemma network_result_fails: "handle_network_result B C W (Inl e) s \<noteq> (Ok x, t)"
  by (auto simp: handle_network_result_def andThen_def run_simps split: ConnectionError.splits prod.splits outcome.splits)

lemma network_result_ok: "handle_network_result B C W (Inr x) s = (Ok x, s)"
  by (simp add: handle_network_result_def run_simps)

lemma poll_returns_inv:
  assumes "L s" "turns items s < n"
  shows "\<exists>r t. r \<noteq> Panic \<and> r \<noteq> Ok None \<and> (\<forall>m \<ge> n. EventLoop_poll B C W m s = (r, t))"
proof -
  obtain r t where run: "EventLoop_poll B C W n s = (r, t)"
    by (cases "EventLoop_poll B C W n s")
  have "r \<noteq> Panic"
    using hoareD [OF hoare_poll assms(1), of n] run by (auto simp: wp_def)
  moreover have "r \<noteq> Ok None \<and> (\<forall>m \<ge> n. EventLoop_poll B C W m s = (r, t))"
  proof (cases "disconnect_complete s \<or> pending_connection_error s \<noteq> None \<or> el_network s = None")
    case True
    have "EventLoop_poll B C W m s = EventLoop_poll B C W n s" for m
      using True by (auto simp: EventLoop_poll_def andThen_def run_simps split: option.splits)
    moreover have "r \<noteq> Ok None"
      using True run
      by (auto simp: EventLoop_poll_def andThen_def run_simps network_result_fails
          split: option.splits if_splits prod.splits outcome.splits dest: network_result_fails [THEN notE])
    ultimately show ?thesis
      using run by simp
  next
    case False
    then have K: "K s" and poll: "EventLoop_poll B C W m s = andThen (attempt (select B C W m)) (handle_network_result B C W) s" for m
      using assms(1) by (auto simp: conn_inv_def EventLoop_poll_def andThen_def run_simps)
    obtain r' t' where sel: "select B C W n s = (r', t')" "r' \<noteq> Ok None" "r' \<noteq> Panic"
      using select_returns [OF K assms(2)] by (cases "select B C W n s") auto
    have "EventLoop_poll B C W m s = EventLoop_poll B C W n s" if "n \<le> m" for m
      using select_more [OF sel(1,2) that] sel(1) by (simp add: poll andThen_def attempt_def)
    moreover have "r \<noteq> Ok None"
      using run sel unfolding poll
      by (cases r') (auto simp: andThen_def attempt_def network_result_ok network_result_fails)
    ultimately show ?thesis
      using run by simp
  qed
  ultimately show ?thesis
    by blast
qed

end

section \<open>Graceful disconnect\<close>

context event_loop begin

lemma hoare_frames:
  assumes "hoare P m Q E" "frames m"
  shows "hoare (\<lambda>s. P s \<and> R (disconnect_complete s)) m (\<lambda>x s. Q x s \<and> R (disconnect_complete s)) (\<lambda>e s. E e s \<and> R (disconnect_complete s))"
proof (rule hoareI)
  fix s
  assume s: "P s \<and> R (disconnect_complete s)"
  obtain r t where run: "m s = (r, t)"
    by (cases "m s")
  have "disconnect_complete t = disconnect_complete s"
    using assms(2) run by (auto simp: frames_def)
  then show "wp m (\<lambda>x s. Q x s \<and> R (disconnect_complete s)) (\<lambda>e s. E e s \<and> R (disconnect_complete s)) s"
    using hoareD [OF assms(1), of s] s run by (auto simp: wp_def split: outcome.splits)
qed

text \<open>Connected, the loop has not ended, and no client asks for an immediate disconnect.\<close>

abbreviation N :: "('b, 'c, 'w) EventLoop \<Rightarrow> bool" where
  "N s \<equiv> K s \<and> \<not> disconnect_complete s \<and> items (immediate_disconnect_rx s) = []"

lemma hoare_recv_nothing:
  assumes "\<And>e. hoare N (f (Err e)) Q E"
  shows "hoare N (andThen (recv_immediate C) f) Q E"
proof (rule hoareI)
  fix s
  assume "N s"
  then show "wp (andThen (recv_immediate C) f) Q E s"
    using hoareD [OF assms] recv_none [of "immediate_disconnect_rx s"] by (simp add: wp_def andThen_def recv_immediate_def)
qed

lemma hoare_drain_quiet:
  "hoare N (poll_drain C W deadline en branches)
     (\<lambda>r s. N s \<and> (\<forall>e. r \<noteq> Some (DrainedImmediate e))
        \<and> (\<forall>frame. r = Some (DrainedFrame frame) \<longrightarrow> (\<forall>n. frame \<noteq> Some (Inl (InsufficientBytes n))))) (\<lambda>_. N)"
proof (induction branches arbitrary: en)
  case (Cons branch branches)
  have steady: "steady N"
    by (auto simp: steady_def conn_inv_def loop_inv_def state_inv_frame)
  show ?case
  proof (cases branch)
    case DrainImmediate
    show ?thesis
      unfolding DrainImmediate poll_drain.simps
      by (rule hoare_if, rule Cons.IH, rule hoare_recv_nothing)
        (auto intro!: hoare_ret hoare_weaken [OF Cons.IH] split: TryRecvError.splits)
  next
    case DrainRead
    show ?thesis
      unfolding DrainRead poll_drain.simps
      by (rule hoare_next [OF steady]) (auto intro!: hoare_ret hoare_weaken [OF Cons.IH])
  next
    case DrainDeadline
    show ?thesis
      unfolding DrainDeadline poll_drain.simps
      by (rule hoare_gets') (auto intro!: hoare_ret hoare_weaken [OF Cons.IH])
  qed
qed (simp add: hoare_ret)

lemma hoare_disconnect_quiet:
  "hoare N (poll_disconnect_drain B C W) (\<lambda>_ s. \<not> disconnect_complete s) (\<lambda>_ s. \<not> disconnect_complete s)"
proof -
  let ?Q = "\<lambda>_ s. \<not> disconnect_complete s"
  have drain: "hoare N (poll_drain C W deadline en branches)
     (\<lambda>r s. N s \<and> (\<forall>e. r \<noteq> Some (DrainedImmediate e))
        \<and> (\<forall>frame. r = Some (DrainedFrame frame) \<longrightarrow> (\<forall>n. frame \<noteq> Some (Inl (InsufficientBytes n))))) ?Q" for deadline en branches
    by (rule hoare_weaken [OF hoare_drain_quiet]) auto
  have read: "hoare N (andThen (attempt (read_network_batch B W frame n limit)) (\<lambda>r.
         case r of
           Inr _ \<Rightarrow> ret (Poll_Ready None)
         | Inl error \<Rightarrow>
             andThen (reached W deadline) (\<lambda>timed_out.
             andThen (defer_connection_error (if timed_out \<and> is_timed_out error then ConnDisconnectTimeout else error))
               (\<lambda>event. ret (Poll_Ready (Some event)))))) ?Q ?Q"
    if "\<And>n. frame \<noteq> Some (Inl (InsufficientBytes n))" for frame n limit deadline
  proof -
    have batch: "hoare N (read_network_batch B W frame n limit) (\<lambda>_ s. L s \<and> \<not> disconnect_complete s) (\<lambda>_ s. L s \<and> \<not> disconnect_complete s)"
      by (rule hoare_weaken [OF hoare_frames [OF hoare_read_network_batch [OF that] frames_read, where R = Not]])
        (auto dest: conn_loop)
    have later: "hoare (\<lambda>s. L s \<and> \<not> disconnect_complete s) (defer_connection_error e) ?Q ?Q" for e
      by (rule hoare_weaken [OF hoare_frames [OF hoare_defer frames_requests(4), where R = Not]]) auto
    show ?thesis
      by (rule hoare_attempt [OF batch]) (auto intro!: hoare_ret hoare_reached hoare_seq [OF later])
  qed
  have split: "hoare (\<lambda>s. N s \<and> c \<and> d) m ?Q ?Q" if "c \<Longrightarrow> d \<Longrightarrow> hoare N m ?Q ?Q" for c d and m :: "('b, 'c, 'w, 'z) el"
    using that by (auto simp: hoare_def)
  have network: "hoare N (andThen (gets el_network) (\<lambda>n. andThen (expect n) f)) ?Q ?Q" if "\<And>n. hoare N (f n) ?Q ?Q"
    for f :: "Network \<Rightarrow> ('b, 'c, 'w, 'z) el"
    using that by (force simp: hoare_def wp_simps conn_inv_def split: option.splits)
  show ?thesis
    unfolding poll_disconnect_drain_def Let_def
    by (rule hoare_gets', rule network, rule hoare_gets', rule hoare_gets', rule hoare_gets', rule hoare_gets',
        rule hoare_seq [OF drain], rule split)
      (auto intro!: hoare_ret hoare_reached hoare_if hoare_fail hoare_instant read split: option.splits DrainReady.splits)
qed

lemma owner_listed: "e \<in> set es \<Longrightarrow> env_replay e \<Longrightarrow> replay_ids (env_request e) \<subseteq> set (owned_ids es)"
  by (force simp: owned_ids_def)

lemma drained_waiting:
  assumes "L s" "outbound_requests_drained B (el_state s)" "e \<in> set (waiting_requests s)" "env_replay e"
  shows "replay_ids (env_request e) = {}"
proof -
  obtain Q where Q: "state_inv B Q (el_state s)" "owned Q (waiting_requests s)"
    using assms(1) by (auto simp: loop_inv_def)
  have "Q = {}"
    using drained_sets(7) [OF Q(1)] drained_iff [OF Q(1)] assms(2) by simp
  then show ?thesis
    using Q(2) owner_listed [OF assms(3,4)] by (simp add: owned_def del: owned_ids_simps)
qed

text \<open>A turn that finds something outstanding does not end the loop.\<close>

lemma hoare_turn_quiet:
  "hoare (\<lambda>s. N s \<and> pending_disconnect s \<noteq> None \<and> \<not> outbound_requests_drained B (el_state s)) (select_turn B C W)
     (\<lambda>_ s. \<not> disconnect_complete s) (\<lambda>_ s. \<not> disconnect_complete s)"
proof (rule hoareI)
  fix s
  assume s: "N s \<and> pending_disconnect s \<noteq> None \<and> \<not> outbound_requests_drained B (el_state s)"
  let ?Q = "\<lambda>_ s. \<not> disconnect_complete s"
  obtain e where recv: "ch_try_recv C (immediate_disconnect_rx s) = (Err e, immediate_disconnect_rx s)"
    using recv_none s by blast
  show "wp (select_turn B C W) ?Q ?Q s"
  proof (cases "events (el_state s)")
    case Nil
    have check: "wp (check_keepalive_scan_timeout W) (\<lambda>_ t. N t \<and> pending_disconnect t = pending_disconnect s \<and> el_state t = el_state s) ?Q s"
      using s by (auto simp: check_keepalive_scan_timeout_def instant_now_def wp_simps split: option.splits)
    have drain: "wp (select_disconnecting B C W) ?Q ?Q t" if "N t" "el_state t = el_state s" for t
      using hoareD [OF hoare_disconnect_quiet that(1)] s that(2)
      by (auto simp: select_disconnecting_def wp_simps wp_andThen intro: wp_mono)
    have "wp (andThen (check_keepalive_scan_timeout W) (\<lambda>_.
               andThen (gets (\<lambda>self. pending_disconnect self = None)) (\<lambda>serving.
               andThen (if serving then handle_ready_requests B W else ret False) (\<lambda>handled.
               if handled then andThen pop_event (\<lambda>event. ret (map_option Poll_Ready event))
               else
                 andThen (gets (\<lambda>self. pending_disconnect self \<noteq> None)) (\<lambda>disconnecting.
                 if disconnecting then select_disconnecting B C W
                 else andThen (next_ready B C W) (select_ready B C W)))))) ?Q ?Q s"
      unfolding wp_andThen by (rule wp_mono [OF check]) (use s drain in \<open>auto simp: wp_simps wp_andThen\<close>)
    then show ?thesis
      using s Nil recv
      by (simp add: select_turn_def wp_def andThen_def pop_event_def run_simps recv_immediate_def
          all_request_sources_drained_def)
  next
    case (Cons event es)
    then show ?thesis
      using s by (simp add: select_turn_def wp_def andThen_def pop_event_def run_simps)
  qed
qed

end

section \<open>An environment\<close>

text \<open>
  An environment for the examples: the bytes that have arrived from the broker, framed by the codec, and the bytes
  written; a session store that holds what was saved last; connections always succeed.
\<close>

record Wire =
  wire_clock :: nat
  wire_in :: bytes
  wire_out :: bytes
  wire_store :: "(SessionStoreKey \<times> PersistedSession) option"

definition wire_next :: "Codec \<Rightarrow> Wire \<Rightarrow> IncomingFrame option \<times> Wire" where
  "wire_next codec w =
     (case Codec_decode codec (wire_in w) of
        (Ok None, src) \<Rightarrow> (None, w\<lparr>wire_in := src\<rparr>)
      | (Ok (Some packet), src) \<Rightarrow> (Some (Some (Inr packet)), w\<lparr>wire_in := src\<rparr>)
      | (Err e, src) \<Rightarrow> (Some (Some (Inl e)), w\<lparr>wire_in := src\<rparr>)
      | (Panic, src) \<Rightarrow> (Some None, w\<lparr>wire_in := src\<rparr>))"

definition wire_feed :: "Codec \<Rightarrow> Packet \<Rightarrow> Wire \<Rightarrow> (v4_error + unit) \<times> Wire" where
  "wire_feed codec packet w =
     (case Codec_encode codec packet (wire_out w) of
        (Err e, out) \<Rightarrow> (Inl e, w\<lparr>wire_out := out\<rparr>)
      | (_, out) \<Rightarrow> (Inr (), w\<lparr>wire_out := out\<rparr>))"

definition wire_ops :: "Codec \<Rightarrow> Wire world_ops" where
  "wire_ops codec =
     \<lparr>clock = wire_clock,
      framed_next = wire_next codec,
      framed_next_until = (\<lambda>_. wire_next codec),
      framed_feed = wire_feed codec,
      framed_feed_until = (\<lambda>_ packet w. case wire_feed codec packet w of (r, w) \<Rightarrow> (Some r, w)),
      framed_flush = (\<lambda>w. (Inr (), w)),
      framed_flush_until = (\<lambda>_ w. (Some (Inr ()), w)),
      throttle_elapsed = (\<lambda>_. True),
      select_order = (\<lambda>_. [DrainImmediate, DrainRead, DrainDeadline]),
      store_load = (\<lambda>key w. (Inr (case wire_store w of Some (k, session) \<Rightarrow> if k = key then Some session else None | None \<Rightarrow> None), w)),
      store_save = (\<lambda>key session w. (Inr (), w\<lparr>wire_store := Some (key, session)\<rparr>)),
      store_clear = (\<lambda>_ w. (Inr (), w\<lparr>wire_store := None\<rparr>)),
      error_text = (\<lambda>_. []),
      unix_connect = (\<lambda>_ _ w. (Some (Inr ()), w)),
      socket_connect = (\<lambda>_ _ _ w. (Some (Inr ()), w)),
      tls_connect = (\<lambda>_ _ _ _ w. (Some (Inr ()), w)),
      websocket_connect = (\<lambda>_ _ w. (Some (Inr ()), w)),
      world_urls = \<lparr>parse_uri = (\<lambda>_. None), percent_decode = (\<lambda>s. s), first_entry = hd\<rparr>\<rparr>"

text \<open>The codec never hands an incomplete frame to the reader.\<close>

lemma wire_complete: "fst (wire_next codec w) \<noteq> Some (Some (Inl (InsufficientBytes n)))"
  by (auto simp: wire_next_def Codec_decode_def split: prod.splits outcome.splits option.splits v4_error.splits)

interpretation wired: event_loop nat_bitset admission_channel sh_items "wire_ops codec" for codec
  by unfold_locales (simp_all add: wire_ops_def wire_complete)

definition example_codec :: Codec where
  "example_codec = \<lparr>max_incoming_size = 10240, max_outgoing_size = 10240\<rparr>"

definition example_loop :: "(nat \<times> nat, RequestEnvelope Shared, Wire) EventLoop" where
  "example_loop = EventLoop_new nat_bitset 0 example_options (channel (Some 10) False) (channel None True) (channel None True) 5
     \<lparr>wire_clock = 0, wire_in = [], wire_out = [], wire_store = None\<rparr>"

lemma example_loop_reach: "loop_reach nat_bitset admission_channel sh_items (wire_ops codec) example_loop"
  unfolding example_loop_def by (rule loop_reach.start) (simp add: client_requests_def channel_def)

definition example_connack :: ConnAck where
  "example_connack = \<lparr>session_present = True, connack_code = ConnSuccess\<rparr>"

definition example_start :: "(nat \<times> nat, RequestEnvelope Shared, Wire) EventLoop" where
  "example_start = example_loop\<lparr>el_world := \<lparr>wire_clock = 0, wire_in = Packet_wire (PktConnAck example_connack), wire_out = [], wire_store = None\<rparr>\<rparr>"

definition example_serving :: "(nat \<times> nat, RequestEnvelope Shared, Wire) EventLoop" where
  "example_serving = snd (EventLoop_poll nat_bitset admission_channel (wire_ops example_codec) 0 example_start)"

definition example_request :: "RequestEnvelope Shared" where
  "example_request = (channel (Some 10) False)\<lparr>sh_queue :=
     \<lparr>q_items = [\<lparr>env_request = ReqDisconnect Disconnect, env_notice = None, env_replay = False\<rparr>],
      q_senders = 1, q_receivers = 1, q_waiting_receivers = 0\<rparr>\<rparr>"

definition example_closing :: "(nat \<times> nat, RequestEnvelope Shared, Wire) EventLoop" where
  "example_closing = snd (EventLoop_poll nat_bitset admission_channel (wire_ops example_codec) 2
     (example_serving\<lparr>requests_rx := example_request\<rparr>))"

lemma example_options_simps:
  "opt_transport example_options = TransportTcp" "opt_broker example_options = BrokerTcp [0x68] 1883"
  "opt_session_store example_options = None" "opt_clean_session example_options = False" "opt_keep_alive example_options = 60000000"
  "opt_inflight example_options = 10" "opt_ack_mode example_options = Manual" "opt_max_request_batch example_options = 0"
  "opt_read_batch_size example_options = 0" "opt_client_id example_options = [0x63]" "opt_last_will example_options = None"
  "opt_auth example_options = AuthNone"
  by (simp_all add: example_options_def MqttOptions_new_def)

lemma example_connack_simps: "session_present example_connack = True" "connack_code example_connack = ConnSuccess"
  by (simp_all add: example_connack_def)

lemma example_bytes:
  "Codec_decode example_codec (Packet_wire (PktConnAck example_connack)) = (Ok (Some (PktConnAck example_connack)), [])"
  "Codec_encode example_codec (PktConnect (connect_packet example_options)) buf
     = (Ok (), buf @ Packet_wire (PktConnect (connect_packet example_options)))"
  "Codec_encode example_codec PktDisconnect buf = (Ok (), buf @ Packet_wire PktDisconnect)"
proof -
  have "Packet_read 10240 (Packet_wire (PktConnAck example_connack) @ []) = (Ok (PktConnAck example_connack), [])"
    by (rule Packet_read_wire) (simp_all add: ConnAck_ok_def ConnAck_body_def max_remaining_len_def example_connack_simps)
  then show "Codec_decode example_codec (Packet_wire (PktConnAck example_connack)) = (Ok (Some (PktConnAck example_connack)), [])"
    by (simp add: Codec_decode_def example_codec_def)
  have "Packet_write (PktConnect (connect_packet example_options)) 10240 buf
      = (Ok (Packet_size (PktConnect (connect_packet example_options))), buf @ Packet_wire (PktConnect (connect_packet example_options)))"
    unfolding Packet_write_Ok
    by (simp add: connect_packet_def example_options_simps Connect_new_def Connect_writable_def Connect_body_def Connect_size_def
        Connect_len_def Connect_readable_def mqtt_string_def max_remaining_len_def u16_try_from_def len_len_def prim_len_len_def)
  then show "Codec_encode example_codec (PktConnect (connect_packet example_options)) buf
     = (Ok (), buf @ Packet_wire (PktConnect (connect_packet example_options)))"
    by (simp add: Codec_encode_def example_codec_def andThen_def run_simps)
  have "Packet_write PktDisconnect 10240 buf = (Ok (Packet_size PktDisconnect), buf @ Packet_wire PktDisconnect)"
    unfolding Packet_write_Ok by (simp add: Disconnect_size_def max_remaining_len_def)
  then show "Codec_encode example_codec PktDisconnect buf = (Ok (), buf @ Packet_wire PktDisconnect)"
    by (simp add: Codec_encode_def example_codec_def andThen_def run_simps)
qed

lemma example_serving_simps:
  "el_network example_serving = Some \<lparr>write_deadline = None\<rparr>" "disconnect_complete example_serving = False"
  "pending_disconnect example_serving = None" "el_state example_serving = new_internal nat_bitset 0 10 Manual"
  "el_pending example_serving = []" "el_queued example_serving = OutboundScheduler_default"
  "keepalive_scan_deadline example_serving = None" "immediate_disconnect_rx example_serving = channel None True"
  "control_requests_rx example_serving = channel None True" "pending_connection_error example_serving = None"
  "next_poll_source example_serving = PollSource_default" "el_options example_serving = example_options"
  by (simp_all add: example_serving_def example_start_def example_loop_def EventLoop_poll_def EventLoop_new_def andThen_def run_simps recv_immediate_def
     admission_channel_def channel_def try_recv_def establish_connection_def reset_session_state_if_client_id_changed_def load_persisted_session_if_needed_def SessionStoreState_new_def
     example_options_simps mark_store_def instant_now_def wire_ops_def connect_def network_connect_def
     within_deadline_def on_world_def from_result_def mqtt_connect_def Network_read_def wire_next_def wire_feed_def example_bytes example_connack_simps
     reconcile_connack_session_def is_fresh_def map_err_def ok_or_def)

lemma fresh_events: "events (new_internal B now m mode) = []"
  by (simp add: new_internal_def Let_def)

lemma example_closing_run:
  "example_closing = example_serving\<lparr>control_requests_rx := channel None True, requests_rx := channel (Some 10) False,
     next_poll_source := after_ready PollSource_default, immediate_disconnect_rx := channel None True,
     el_queued := OutboundScheduler_default, pending_disconnect := Some (PendingDisconnect_new (wire_clock (el_world example_serving)) None)\<rparr>"
  by (simp add: example_closing_def EventLoop_poll_def andThen_def run_simps example_serving_simps numeral_2_eq_2 select_turn_def pop_event_def fresh_events
     recv_immediate_def admission_channel_def try_recv_def channel_def all_request_sources_drained_def example_request_def Receiver_is_disconnected_def
     check_keepalive_scan_timeout_def handle_ready_requests_def next_scheduled_request_def pop_next_def next_ready_index_def OutboundScheduler_default_def
     next_ready_def requests_enabled_def normal_request_admission_allowed_def sched_is_empty_def is_request_source.simps PollSource_default_def buffered_ready_def
     recv_control_def recv_requests_def select_ready_def admit_normal_request_batch_def queue_push_def sched_push_back_def classify_envelope_def classify_request_def
     scheduled_def handle_request_def instant_now_def wire_ops_def flush_request_batch_def attempt_def handle_network_result_def deque_remove_def Receiver_is_empty_def)

lemma example_disconnects:
  "\<exists>r t. select_turn nat_bitset admission_channel (wire_ops example_codec) example_closing = (r, t) \<and> disconnect_complete t"
proof -
  have "outbound_requests_drained nat_bitset (new_internal nat_bitset 0 10 Manual)"
    by (subst nat_bits.drained_iff [OF nat_bits.new_internal_inv]) (simp add: new_internal_def Let_def)
  then show ?thesis
    by (simp add: example_closing_run select_turn_def andThen_def run_simps pop_event_def example_serving_simps fresh_events
     recv_immediate_def admission_channel_def try_recv_def channel_def all_request_sources_drained_def check_keepalive_scan_timeout_def
     select_disconnecting_def send_pending_disconnect_def instant_now_def state_call_def on_state_def handle_outgoing_packet_with_notice_def
     handle_outgoing_packet_with_notice_internal_def outgoing_request.simps outgoing_disconnect_def map_err_def Network_write_def await_write_def
     on_world_def wire_ops_def wire_feed_def example_bytes from_result_def flush_network_def response_write_deadline_def
     drop_unprocessed_requests_def Receiver_drain_def save_persisted_session_def persisted_session_save_def example_options_simps expect_def)
qed

lemma example_closing_reach:
  "loop_reach nat_bitset admission_channel sh_items (wire_ops example_codec) example_serving"
  "loop_reach nat_bitset admission_channel sh_items (wire_ops example_codec) (example_serving\<lparr>requests_rx := example_request\<rparr>)"
  "loop_reach nat_bitset admission_channel sh_items (wire_ops example_codec) example_closing"
proof -
  have "loop_reach nat_bitset admission_channel sh_items (wire_ops example_codec) example_start"
    using loop_reach.environment [OF example_loop_reach, where codec1 = example_codec and options = "el_options example_loop"
        and timeout = "connection_timeout example_loop" and world = "el_world example_start"] by (simp add: example_start_def)
  then show serving: "loop_reach nat_bitset admission_channel sh_items (wire_ops example_codec) example_serving"
    unfolding example_serving_def by (rule loop_reach.poll)
  have "client_requests (sh_items example_request) (sh_items (channel None True)) (sh_items (channel None True))"
    by (simp add: client_requests_def example_request_def channel_def)
  from loop_reach.clients [OF serving this]
  have "loop_reach nat_bitset admission_channel sh_items (wire_ops example_codec) (example_serving\<lparr>requests_rx := example_request,
      control_requests_rx := control_requests_rx example_serving, immediate_disconnect_rx := immediate_disconnect_rx example_serving\<rparr>)"
    by (simp add: example_serving_simps)
  then show "loop_reach nat_bitset admission_channel sh_items (wire_ops example_codec) (example_serving\<lparr>requests_rx := example_request\<rparr>)"
    by simp
  then show "loop_reach nat_bitset admission_channel sh_items (wire_ops example_codec) example_closing"
    unfolding example_closing_def by (rule loop_reach.poll)
qed

section \<open>Properties\<close>





text \<open>
  C6: A graceful disconnect waits for everything that is outstanding: as long as no client asks for an immediate
  disconnect, a turn of the loop that sends DISCONNECT finds every publish, subscribe and unsubscribe acknowledged, and the
  requests it then drops contain no retransmission that still owns a packet identifier.
\<close>

theorem disconnect_after_drain:
  assumes "event_loop B C items W" "loop_reach B C items W s"
    and "el_network s \<noteq> None" "pending_disconnect s \<noteq> None" "items (immediate_disconnect_rx s) = []" "\<not> disconnect_complete s"
    and "select_turn B C W s = (r, t)" "disconnect_complete t"
  shows "outbound_requests_drained B (el_state s)
    \<and> (\<forall>e \<in> set (waiting_requests s). env_replay e \<longrightarrow> replay_ids (env_request e) = {})"
proof -
  have inv: "loop_inv B items s"
    by (rule event_loop.reach_loop_inv [OF assms(1,2)])
  have "outbound_requests_drained B (el_state s)"
  proof (rule ccontr)
    assume "\<not> ?thesis"
    then show False
      using hoareD [OF event_loop.hoare_turn_quiet [OF assms(1)], of s] inv assms(3-)
      by (auto simp: conn_inv_def wp_def split: outcome.splits)
  qed
  then show ?thesis
    using event_loop.drained_waiting [OF assms(1) inv] by blast
qed

theorem disconnect_after_drain_witness:
  "\<exists>r t. select_turn nat_bitset admission_channel (wire_ops example_codec) example_closing = (r, t) \<and> disconnect_complete t
    \<and> outbound_requests_drained nat_bitset (el_state example_closing)"
proof -
  obtain r t where "select_turn nat_bitset admission_channel (wire_ops example_codec) example_closing = (r, t)" "disconnect_complete t"
    using example_disconnects by blast
  with disconnect_after_drain [OF wired.event_loop_axioms example_closing_reach(3) _ _ _ _ this] show ?thesis
    by (simp add: example_closing_run example_serving_simps channel_def)
qed

end
