(* ===== verification/V4_EventLoop_Fair.thy ===== *)
theory V4_EventLoop_Fair
  imports V4_EventLoop_Props
begin

text \<open>
  The arbitration between requests, network and keep-alive (\<open>next_ready\<close> and \<open>PollSource\<close> in
  \<open>rumqttc-v4/src/eventloop.rs\<close>) starves nobody: a frame that is ready to be read is passed over a
  bounded number of times. The measure is the number of other services that the position of the
  arbitration still allows before the turn of the network.
\<close>

section \<open>The turn of the network\<close>

fun poll_wait :: "PollSource \<Rightarrow> nat" where
  "poll_wait (PollRequest remaining) = max 1 (unat remaining)"
| "poll_wait PollNetwork = 0"
| "poll_wait PollKeepAlive = Suc (unat MAX_REQUEST_BURST)"

fun overtakes :: "PollReady \<Rightarrow> bool" where
  "overtakes (ReadyRequest _) = True"
| "overtakes ReadyKeepAlive = True"
| "overtakes _ = False"

text \<open>
  \<open>passed_over B C W s n t\<close>: between \<open>s\<close> and \<open>t\<close> the loop waited \<open>n\<close> times while a frame was ready to be read, and
  each time served a request or the keep-alive timer. Between two waits anything may happen, except that only waiting
  moves the arbitration.
\<close>

inductive passed_over ::
  "'b bitset_ops \<Rightarrow> ('c, RequestEnvelope) channel_ops \<Rightarrow> 'w world_ops \<Rightarrow> ('b, 'c, 'w) EventLoop \<Rightarrow> nat
    \<Rightarrow> ('b, 'c, 'w) EventLoop \<Rightarrow> bool"
  for B C W s where
  here: "passed_over B C W s 0 s"
| turn: "\<lbrakk>passed_over B C W s n t; fst (framed_next W (el_world t)) \<noteq> None;
    next_ready B C W t = (Ok (Some r) :: (unit, _) outcome, u); overtakes r; next_poll_source v = next_poll_source u\<rbrakk>
    \<Longrightarrow> passed_over B C W s (Suc n) v"

lemma after_wait: "poll_wait (after_ready (PollRequest k)) < max 1 (unat k)"
proof (cases "k > 1")
  case True
  then have "1 < unat k" "k \<noteq> 0"
    by (auto simp: word_less_nat_alt)
  then show ?thesis
    using True unat_minus_one [of k] by (simp add: after_ready_def)
qed (simp add: after_ready_def)

lemma run_poll_request:
  "\<exists>r t. poll_source C W en ka (PollRequest k) s = (Ok r :: ('e, _) outcome, t) \<and> el_world t = el_world s \<and> (\<forall>x. r = Some x \<longrightarrow> overtakes x)"
proof (cases "el_pending s")
  case Nil
  then show ?thesis
    by (cases "ch_try_recv C (requests_rx s)")
      (auto simp: andThen_def run_simps recv_requests_def split: outcome.split TryRecvError.split)
qed (auto simp: andThen_def run_simps)

lemma run_poll_keepalive: "\<exists>r. poll_source C W en ka PollKeepAlive s = (Ok r :: ('e, _) outcome, s) \<and> (\<forall>x. r = Some x \<longrightarrow> overtakes x)"
  by (auto simp: run_simps split: option.split)

text \<open>With a frame to read, the round over the sources serves it or brings its turn nearer.\<close>

lemma run_poll_sources:
  assumes "framed_next W (el_world s) = (Some frame, w)"
  shows "\<exists>r t. poll_sources C W en ka 3 source s = (Ok (Some r) :: ('e, _) outcome, t)
    \<and> (r = ReadyNetwork frame \<or> overtakes r \<and> poll_wait (next_poll_source t) < poll_wait source)"
proof (cases source)
  case (PollRequest k)
  obtain r t where run: "poll_source C W en ka (PollRequest k) s = (Ok r :: ('e, _) outcome, t)"
    "el_world t = el_world s" "\<forall>x. r = Some x \<longrightarrow> overtakes x"
    using run_poll_request by blast
  then show ?thesis
    using PollRequest assms after_wait [of k]
    by (cases r) (auto simp: numeral_3_eq_3 andThen_def run_simps on_world_def simp del: poll_source.simps(1))
next
  case PollNetwork
  then show ?thesis
    using assms by (simp add: numeral_3_eq_3 andThen_def run_simps on_world_def)
next
  case PollKeepAlive
  obtain x where timer: "poll_source C W en ka PollKeepAlive s = (Ok x :: ('e, _) outcome, s)" "\<forall>y. x = Some y \<longrightarrow> overtakes y"
    using run_poll_keepalive by blast
  obtain r t where run: "poll_source C W en ka (PollRequest MAX_REQUEST_BURST) s = (Ok r :: ('e, _) outcome, t)"
    "el_world t = el_world s" "\<forall>x. r = Some x \<longrightarrow> overtakes x"
    using run_poll_request by blast
  have "poll_wait (after_ready PollKeepAlive) < poll_wait PollKeepAlive"
    "poll_wait (after_ready (PollRequest MAX_REQUEST_BURST)) < poll_wait PollKeepAlive"
    using after_wait [of MAX_REQUEST_BURST] by (simp_all add: after_ready_def MAX_REQUEST_BURST_def)
  then show ?thesis
    using PollKeepAlive assms timer run
    by (cases x; cases r) (auto simp: numeral_3_eq_3 andThen_def run_simps on_world_def simp del: poll_source.simps(1,3) poll_wait.simps)
qed

lemma run_buffered:
  "\<exists>r t. buffered_ready C s = (Ok r :: ('e, _) outcome, t) \<and> el_world t = el_world s \<and> el_network t = el_network s
    \<and> (case r of None \<Rightarrow> next_poll_source t = next_poll_source s
       | Some x \<Rightarrow> overtakes x \<longrightarrow> next_poll_source t = after_ready (next_poll_source s))"
  by (cases "ch_try_recv C (immediate_disconnect_rx s)"; cases "ch_try_recv C (control_requests_rx s)"; cases "ch_try_recv C (requests_rx s)")
    (auto simp: buffered_ready_def andThen_def run_simps recv_immediate_def recv_control_def recv_requests_def split: outcome.split)


lemma run_poll_recv:
  "\<exists>r t. poll_recv en (recv_immediate C) ReadyImmediate s = (Ok r :: ('e, _) outcome, t) \<and> el_world t = el_world s
    \<and> next_poll_source t = next_poll_source s \<and> (\<forall>x. r = Some x \<longrightarrow> \<not> overtakes x)"
  "\<exists>r t. poll_recv en (recv_control C) ReadyControl s = (Ok r :: ('e, _) outcome, t) \<and> el_world t = el_world s
    \<and> next_poll_source t = next_poll_source s \<and> (\<forall>x. r = Some x \<longrightarrow> \<not> overtakes x)"
  subgoal
    by (cases "ch_try_recv C (immediate_disconnect_rx s)")
      (auto simp: poll_recv_def andThen_def run_simps recv_immediate_def split: outcome.split TryRecvError.split)
  subgoal
    by (cases "ch_try_recv C (control_requests_rx s)")
      (auto simp: poll_recv_def andThen_def run_simps recv_control_def split: outcome.split TryRecvError.split)
  done

lemma next_ready_passes:
  assumes "fst (framed_next W (el_world s)) \<noteq> None" "next_ready B C W s = (Ok (Some r) :: ('e, _) outcome, t)" "overtakes r"
  shows "poll_wait (next_poll_source t) < poll_wait (next_poll_source s)"
proof -
  obtain frame w where frame: "framed_next W (el_world s) = (Some frame, w)"
    using assms(1) by (cases "framed_next W (el_world s)") auto
  let ?fast = "requests_enabled B C s \<and> el_pending s = [] \<and> is_request_source (next_poll_source s)"
  obtain x u where u: "(if ?fast then buffered_ready C else ret None) s = (Ok x :: ('e, _) outcome, u)"
    "el_world u = el_world s" "x = None \<Longrightarrow> next_poll_source u = next_poll_source s"
    "\<And>y. x = Some y \<Longrightarrow> overtakes y \<Longrightarrow> ?fast \<and> next_poll_source u = after_ready (next_poll_source s)"
    using run_buffered [of C s] by (cases ?fast) (auto simp: run_simps split: option.splits)
  show ?thesis
  proof (cases x)
    case (Some y)
    then have "y = r" "u = t"
      using assms(2) u(1) by (auto simp: next_ready_def andThen_def run_simps)
    then show ?thesis
      using Some u(4) assms(3) after_wait by (cases "next_poll_source s") auto
  next
    case None
    obtain y v where v: "poll_recv (\<not> ch_is_disconnected C (immediate_disconnect_rx u)) (recv_immediate C) ReadyImmediate u
        = (Ok y :: ('e, _) outcome, v)" "el_world v = el_world u" "next_poll_source v = next_poll_source u" "\<forall>x. y = Some x \<longrightarrow> \<not> overtakes x"
      using run_poll_recv(1) by blast
    let ?control = "\<not> ch_is_empty C (control_requests_rx u) \<or> \<not> ch_is_disconnected C (control_requests_rx u)"
    obtain z w where w: "poll_recv ?control (recv_control C) ReadyControl v
        = (Ok z :: ('e, _) outcome, w)" "el_world w = el_world v" "next_poll_source w = next_poll_source v" "\<forall>x. z = Some x \<longrightarrow> \<not> overtakes x"
      using run_poll_recv(2) by blast
    have "poll_sources C W (requests_enabled B C s) (keepalive_timeout u \<noteq> None \<and> opt_keep_alive (el_options u) \<noteq> 0) 3 (next_poll_source w) w
        = (Ok (Some r) :: ('e, _) outcome, t)"
      using assms(2,3) None u(1) v(1,4) w(1,4)
      by (cases y; cases z) (auto simp: next_ready_def andThen_def run_simps split: option.splits)
    moreover obtain r' t' where "poll_sources C W (requests_enabled B C s) (keepalive_timeout u \<noteq> None \<and> opt_keep_alive (el_options u) \<noteq> 0) 3 (next_poll_source w) w
        = (Ok (Some r') :: ('e, _) outcome, t')"
      "r' = ReadyNetwork frame \<or> overtakes r' \<and> poll_wait (next_poll_source t') < poll_wait (next_poll_source w)"
      using run_poll_sources frame u(2) v(2) w(2) by metis
    ultimately show ?thesis
      using assms(3) u(3) [OF None] v(3) w(3) by auto
  qed
qed


context event_loop begin

lemma next_ready_serves:
  assumes "framed_next W (el_world s) = (Some frame, w)" "el_network s \<noteq> None"
    and "items (immediate_disconnect_rx s) = []" "items (control_requests_rx s) = []"
  shows "\<exists>r t. next_ready B C W s = (Ok (Some r) :: ('e, _) outcome, t) \<and> (r = ReadyNetwork frame \<or> overtakes r)"
proof -
  let ?fast = "requests_enabled B C s \<and> el_pending s = [] \<and> is_request_source (next_poll_source s)"
  have immediate: "recv_immediate C u = (Ok (Err (if ch_is_disconnected C (immediate_disconnect_rx u) then TryRecvDisconnected else TryRecvEmpty)) :: ('e, _) outcome, u)"
    if "items (immediate_disconnect_rx u) = []" for u :: "('b, 'c, 'w) EventLoop"
    using recv_none [OF that] by (simp add: recv_immediate_def)
  have control: "recv_control C u = (Ok (Err (if ch_is_disconnected C (control_requests_rx u) then TryRecvDisconnected else TryRecvEmpty)) :: ('e, _) outcome, u)"
    if "items (control_requests_rx u) = []" for u :: "('b, 'c, 'w) EventLoop"
    using recv_none [OF that] by (simp add: recv_control_def)
  have "\<exists>x u. (if ?fast then buffered_ready C else ret None) s = (Ok x :: ('e, _) outcome, u)
    \<and> (case x of None \<Rightarrow> el_world u = el_world s \<and> el_network u \<noteq> None \<and> items (immediate_disconnect_rx u) = [] \<and> items (control_requests_rx u) = []
       | Some y \<Rightarrow> overtakes y)"
    using assms(2-) immediate [of s] control [of s]
    by (cases "ch_try_recv C (requests_rx s)") (auto simp: buffered_ready_def andThen_def run_simps recv_requests_def split: outcome.split)
  then obtain x u where fast: "(if ?fast then buffered_ready C else ret None) s = (Ok x :: ('e, _) outcome, u)"
    "case x of None \<Rightarrow> el_world u = el_world s \<and> el_network u \<noteq> None \<and> items (immediate_disconnect_rx u) = [] \<and> items (control_requests_rx u) = []
       | Some y \<Rightarrow> overtakes y"
    by blast
  show ?thesis
  proof (cases x)
    case (Some y)
    then show ?thesis
      using fast by (auto simp: next_ready_def andThen_def run_simps)
  next
    case None
    then have u: "el_world u = el_world s" "el_network u \<noteq> None" "items (immediate_disconnect_rx u) = []" "items (control_requests_rx u) = []"
      using fast(2) by simp_all
    have "poll_recv (\<not> ch_is_disconnected C (immediate_disconnect_rx u)) (recv_immediate C) ReadyImmediate u = (Ok None :: ('e, _) outcome, u)"
      by (simp add: poll_recv_def andThen_def run_simps immediate [OF u(3)])
    moreover have "poll_recv (\<not> ch_is_empty C (control_requests_rx u) \<or> \<not> ch_is_disconnected C (control_requests_rx u)) (recv_control C) ReadyControl u
        = (Ok None :: ('e, _) outcome, u)"
      by (simp add: poll_recv_def andThen_def run_simps control [OF u(4)] empty_items u(4))
    moreover obtain r t where "poll_sources C W (requests_enabled B C s) (keepalive_timeout u \<noteq> None \<and> opt_keep_alive (el_options u) \<noteq> 0) 3 (next_poll_source u) u
        = (Ok (Some r) :: ('e, _) outcome, t)" "r = ReadyNetwork frame \<or> overtakes r"
      using run_poll_sources assms(1) u(1) by metis
    ultimately show ?thesis
      using fast(1) None u(2) by (auto simp: next_ready_def andThen_def run_simps)
  qed
qed

lemma passed_over_wait:
  assumes "passed_over B C W s n t"
  shows "n + poll_wait (next_poll_source t) \<le> poll_wait (next_poll_source s)"
  using assms
proof induction
  case (turn n t r u v)
  then show ?case
    using next_ready_passes [OF turn.hyps(2,3,4)] by simp
qed simp

end

section \<open>Properties\<close>

definition example_backlog :: "(nat \<times> nat, RequestEnvelope Shared, Wire) EventLoop" where
  "example_backlog = example_serving\<lparr>requests_rx := example_request, el_world := el_world example_start\<rparr>"



end
