(* ===== verification/V4_EventLoop_Recovery.thy ===== *)
theory V4_EventLoop_Recovery
  imports V4_EventLoop_Props
begin

text \<open>
  What becomes of the requests of a loop when its connection or its process ends: \<open>EventLoop::clean\<close>,
  the session store, and \<open>EventLoop::drain_pending_as_failed\<close> (\<open>rumqttc-v4/src/eventloop.rs\<close>).
\<close>

section \<open>The end of a connection\<close>

context event_loop begin

lemma run_clean_loop:
  assumes "L s"
  shows "\<exists>t. EventLoop_clean B C s = (Ok () :: ('e, unit) outcome, t)
    \<and> el_pending t = el_pending s @ cleaned_envelopes (el_state s)
        @ replayed (sched_queue (el_queued s) @ items (requests_rx s) @ items (control_requests_rx s))
    \<and> sched_queue (el_queued t) = [] \<and> items (requests_rx t) = [] \<and> items (control_requests_rx t) = []
    \<and> el_network t = None \<and> tracked_requests (el_state t) = [] \<and> inflight (el_state t) = 0
    \<and> outbound_pkid_in_use (el_state t) = outbound_pkid_in_use (el_state s)"
proof -
  obtain Q where Q: "state_inv B Q (el_state s)"
    using assms by (auto simp: loop_inv_def)
  obtain c d where drain: "ch_drain C (requests_rx s) = (items (requests_rx s), c)" "items c = []"
      "ch_drain C (control_requests_rx s) = (items (control_requests_rx s), d)" "items d = []"
    using drain_all by blast
  define t where "t = (if cleaned_requests (el_state s) = []
      then maybe_shrink_outgoing_tracking_capacity B (cleaned_state B True (el_state s)) else cleaned_state B True (el_state s))"
  have t: "tracked_requests t = []" "inflight t = 0" "outbound_pkid_in_use t = outbound_pkid_in_use (el_state s)"
    by (simp_all add: t_def tracked_cleaned) (simp_all add: cleaned_state_def maybe_shrink_outgoing_tracking_capacity_def Let_def)
  show ?thesis
    by (simp add: EventLoop_clean_def clean_with_notices_for_reconnect_def andThen_def on_state_def run_clean [OF Q] t_def [symmetric]
        sched_drain_def run_simps drain_channels_to_pending_def drain t)
qed

lemma incoming_keeps:
  assumes "state_inv B Q s"
  shows "state_inv B Q (snd (handle_incoming_packet B now packet s))"
  using keeps_inv_handle_incoming [OF assms, of now packet]
  by (cases "handle_incoming_packet B now packet s") (auto simp: keeps_inv_def wp_def split: outcome.splits)

lemma broker_keeps:
  assumes "state_inv B Q s"
  shows "state_inv B Q (fold (\<lambda>(now, packet) s. snd (handle_incoming_packet B now packet s)) packets s)"
  using assms by (induction packets arbitrary: s) (auto intro: incoming_keeps)

lemma owner_blocks_drain:
  assumes "state_inv B Q s" "k \<in> Q"
  shows "bs_contains B (outbound_pkid_in_use s) k" "\<not> outbound_requests_drained B s"
proof -
  have "Q \<subseteq> bits B (outbound_pkid_in_use s)"
    using state_invD(2) [OF assms(1)] exclusive_owner(6) by (fastforce simp: owners_inv_def)
  then show "bs_contains B (outbound_pkid_in_use s) k"
    using assms(2) by (auto simp: bits_contains)
  show "\<not> outbound_requests_drained B s"
    using assms(2) drained_sets(7) [OF assms(1)] drained_iff [OF assms(1)] by auto
qed

lemma drained_owner:
  assumes "L s" "e \<in> set (waiting_requests s)" "env_replay e" "k \<in> replay_ids (env_request e)"
    and "drain_pending_as_failed reason s = (Ok n :: ('e, nat) outcome, t)"
  shows "waiting_requests t = []" "\<exists>Q. k \<in> Q \<and> state_inv B Q (el_state t)"
proof -
  obtain Q where Q: "state_inv B Q (el_state s)" "owned Q (waiting_requests s)"
    using assms(1) by (auto simp: loop_inv_def)
  have t: "t = s\<lparr>el_pending := [], el_queued := snd (sched_drain (el_queued s)), el_state := el_state t\<rparr>"
    "\<exists>ns. el_state t = (el_state s)\<lparr>notices_sent := ns\<rparr>"
    using assms(5) by (auto simp: drain_pending_as_failed_def send_notices_def andThen_def run_simps on_state_def)
  show "waiting_requests t = []"
    by (subst t(1)) (simp add: sched_drain_def, subst t(1), simp add: sched_drain_def)
  have "k \<in> Q"
    using Q(2) owner_listed [OF assms(2,3)] assms(4) by (auto simp: owned_def simp del: owned_ids_simps)
  then show "\<exists>Q. k \<in> Q \<and> state_inv B Q (el_state t)"
    using Q(1) t(2) by (auto simp: state_inv_frame)
qed

text \<open>What a new process finds in the store, and what it makes of it.\<close>

lemma recovered:
  fixes options now timeout
  assumes "L s" "waiting_requests s = []" "\<not> bs_contains B (incoming_pubrec (el_state s)) 0"
    and "opt_session_store (el_options s) \<noteq> None" "\<not> opt_clean_session (el_options s)"
    and "opt_inflight (el_options s) = max_inflight (el_state s)"
    and "save_persisted_session B W s = (Ok (), s')"
    and store: "\<forall>key session w w'. store_save W key session w = (Inr (), w') \<longrightarrow> (\<exists>w''. store_load W key w' = (Inr (Some session), w''))"
  shows "\<exists>t. load_persisted_session_if_needed B W
        (EventLoop_new B now (el_options s) requests control immediate timeout (el_world s')) = (Ok (), t)
    \<and> el_pending t = map plain_replay (filter persistable (tracked_requests (el_state s)))
    \<and> bits B (outbound_pkid_in_use (el_state t)) = unat ` request_id ` set (filter persistable (tracked_requests (el_state s)))
    \<and> bits B (incoming_pubrec (el_state t)) = bits B (incoming_pubrec (el_state s))"
proof -
  obtain Q where Q: "state_inv B Q (el_state s)"
    using assms(1) by (auto simp: loop_inv_def)
  let ?session = "saved_session (el_options s) [] (el_state s)" and ?key = "session_store_key (el_options s)"
  let ?new = "new_internal B now (opt_inflight (el_options s)) (opt_ack_mode (el_options s))"
  have rs: "replay_requests s = []"
    using assms(2) by (simp add: replay_requests_def)
  obtain w' where save: "store_save W ?key ?session (el_world s) = (Inr (), w')" "el_world s' = w'"
  proof (cases "store_save W ?key ?session (el_world s)")
    case (Pair r w)
    then show ?thesis
      using assms(4,5,7) rs that
      by (cases r) (auto simp: save_persisted_session_def persisted_session_save_def andThen_def run_simps run_save_state [OF assms(1)]
          on_world_def from_result_def map_err_def mark_store_def)
  qed
  obtain w where load: "store_load W ?key w' = (Inr (Some ?session), w)"
    using store save(1) by blast
  have "max_inflight ?new = max_inflight (el_state s)"
    using assms(6) by (simp add: new_internal_def Let_def)
  have "0 \<notin> bits B (incoming_pubrec (el_state s))"
    using assms(3) by (simp add: bits_contains)
  note restore = restore_saved [OF Q this new_internal_inv [of now "opt_inflight (el_options s)" "opt_ack_mode (el_options s)"] \<open>max_inflight ?new = _\<close>,
     where options = "el_options s"]
  show ?thesis
    using assms(4,5) load save(2) restore
    by (auto simp: load_persisted_session_if_needed_def andThen_def run_simps EventLoop_new_def SessionStoreState_new_def
        on_world_def from_result_def map_err_def instant_now_def on_state_def mark_store_def Let_def)
qed

lemma cleaned_replays: "map env_request (filter env_replay (cleaned_envelopes s)) = tracked_requests s"
proof -
  let ?env = "\<lambda>clean. from_parts_with_replay (clean_request clean) (clean_notice clean) (clean_replay clean)"
  have all: "map env_request (filter env_replay (map ?env xs)) = map clean_request xs" if "list_all clean_replay xs" for xs
    using that by (induction xs) (simp_all add: from_parts_with_replay_def)
  have none: "filter env_replay (map ?env (cleaned_collision s)) = []"
    by (simp add: cleaned_collision_def from_parts_with_replay_def split: option.split)
  have "list_all clean_replay (map (cleaned_publish s) ks)" "list_all clean_replay (map (cleaned_pubrel s) ks)"
    "list_all clean_replay (map cleaned_subscribe ps)" "list_all clean_replay (map cleaned_unsubscribe us)" for ks ps us
    by (auto simp: list_all_iff cleaned_publish_def cleaned_pubrel_def)
  note segments = this [THEN all]
  show ?thesis
    unfolding cleaned_requests_def tracked_requests_def map_append filter_append none segments by simp
qed

end

section \<open>A loop with a publish in flight\<close>

text \<open>A loop with a session store connects, sends a publish, and loses its connection.\<close>

definition stored_options :: MqttOptions where
  "stored_options = example_options\<lparr>opt_session_store := Some 0\<rparr>"

definition example_online :: "(nat \<times> nat, RequestEnvelope Shared, Wire) EventLoop" where
  "example_online = snd (EventLoop_poll nat_bitset admission_channel (wire_ops example_codec) 0
     (example_loop\<lparr>el_options := stored_options, connection_timeout := 5, el_world := el_world example_start\<rparr>))"

definition example_delivery :: "RequestEnvelope Shared" where
  "example_delivery = (channel (Some 10) False)\<lparr>sh_queue :=
     \<lparr>q_items = [plain (ReqPublish example_publish)], q_senders = 1, q_receivers = 1, q_waiting_receivers = 0\<rparr>\<rparr>"

definition example_publishing :: "(nat \<times> nat, RequestEnvelope Shared, Wire) EventLoop" where
  "example_publishing = snd (EventLoop_poll nat_bitset admission_channel (wire_ops example_codec) 3
     (example_online\<lparr>requests_rx := example_delivery\<rparr>))"

lemma stored_options_simps:
  "opt_transport stored_options = TransportTcp" "opt_broker stored_options = BrokerTcp [0x68] 1883"
  "opt_session_store stored_options = Some 0" "opt_clean_session stored_options = False" "opt_keep_alive stored_options = 60000000"
  "opt_inflight stored_options = 10" "opt_ack_mode stored_options = Manual" "opt_max_request_batch stored_options = 0"
  "opt_client_id stored_options = [0x63]" "connect_packet stored_options = connect_packet example_options"
  by (simp_all add: stored_options_def example_options_simps connect_packet_def)

lemma example_online_simps:
  "el_network example_online = Some \<lparr>write_deadline = None\<rparr>" "disconnect_complete example_online = False"
  "pending_disconnect example_online = None" "el_state example_online = new_internal nat_bitset 0 10 Manual"
  "el_pending example_online = []" "el_queued example_online = OutboundScheduler_default"
  "keepalive_scan_deadline example_online = None" "immediate_disconnect_rx example_online = channel None True"
  "control_requests_rx example_online = channel None True" "pending_connection_error example_online = None"
  "next_poll_source example_online = PollSource_default" "el_options example_online = stored_options"
  by (simp_all add: example_online_def example_start_def example_loop_def EventLoop_poll_def EventLoop_new_def andThen_def run_simps recv_immediate_def
     admission_channel_def channel_def try_recv_def establish_connection_def reset_session_state_if_client_id_changed_def load_persisted_session_if_needed_def SessionStoreState_new_def
     stored_options_simps example_options_simps mark_store_def instant_now_def wire_ops_def connect_def network_connect_def Let_def
     within_deadline_def on_world_def from_result_def mqtt_connect_def Network_read_def wire_next_def wire_feed_def example_bytes example_connack_simps
     reconcile_connack_session_def is_fresh_def map_err_def ok_or_def)

definition example_sent :: "(nat \<times> nat) MqttState" where
  "example_sent = (store_publish example_publish None (assign_id nat_bitset 1 (new_internal nat_bitset 0 10 Manual)))
     \<lparr>events := [EvOutgoing (OutPublish 1)], last_outgoing := 0\<rparr>"

lemma example_sent_run:
  "handle_outgoing_packet_with_notice nat_bitset 0 (ReqPublish example_publish) None (new_internal nat_bitset 0 10 Manual)
   = (Ok (Some (PktPublish example_publish), None), example_sent)"
  by (simp add: handle_outgoing_packet_with_notice_def handle_outgoing_packet_with_notice_internal_def andThen_def example_publish_run
      run_simps example_sent_def)

lemma example_sent_inv: "state_inv nat_bitset {} example_sent"
proof -
  have "keeps_inv nat_bitset {} {} (handle_outgoing_packet_with_notice nat_bitset 0 (ReqPublish example_publish) None) (new_internal nat_bitset 0 10 Manual)"
    using nat_bits.keeps_inv_handle_outgoing_internal [OF nat_bits.new_internal_inv, where request = "ReqPublish example_publish" and replay = False]
    by (simp add: handle_outgoing_packet_with_notice_def)
  then show ?thesis
    by (simp add: keeps_inv_def wp_def example_sent_run)
qed

lemma example_ready: "classify_envelope nat_bitset (new_internal nat_bitset 0 10 Manual) (plain (ReqPublish example_publish))
    = scheduled FlowControlledPublish True"
  by (simp add: classify_envelope_def plain_def from_parts_with_replay_def classify_request_def example_publish_def Publish_new_def can_send_publish_def
      new_internal_def Let_def validate_outgoing_pkid_def packet_identifier_in_use_def)

lemma example_publish_bytes:
  "Codec_encode example_codec (PktPublish example_publish) buf = (Ok (), buf @ Packet_wire (PktPublish example_publish))"
proof -
  have "Packet_write (PktPublish example_publish) 10240 buf
      = (Ok (Packet_size (PktPublish example_publish)), buf @ Packet_wire (PktPublish example_publish))"
    unfolding Packet_write_Ok
    by (simp add: example_publish_def Publish_new_def Publish_writable_def publish_topic_ok_def Publish_body_def Publish_size_def Publish_len_def
        mqtt_string_def max_remaining_len_def len_len_def prim_len_len_def)
  then show ?thesis
    by (simp add: Codec_encode_def example_codec_def andThen_def run_simps)
qed


lemma example_online_world: "wire_clock (el_world example_online) = 0"
  by (simp add: example_online_def example_start_def example_loop_def EventLoop_poll_def EventLoop_new_def andThen_def run_simps recv_immediate_def
     admission_channel_def channel_def try_recv_def establish_connection_def reset_session_state_if_client_id_changed_def load_persisted_session_if_needed_def SessionStoreState_new_def
     stored_options_simps example_options_simps mark_store_def instant_now_def wire_ops_def connect_def network_connect_def Let_def
     within_deadline_def on_world_def from_result_def mqtt_connect_def Network_read_def wire_next_def wire_feed_def example_bytes example_connack_simps
     reconcile_connack_session_def is_fresh_def map_err_def ok_or_def)

lemma example_handled:
  assumes "el_state s = new_internal nat_bitset 0 10 Manual" "el_network s \<noteq> None" "el_options s = stored_options"
    "waiting_requests s = []" "wire_clock (el_world s) = 0"
  shows "handle_request nat_bitset (wire_ops example_codec) (plain (ReqPublish example_publish)) False [] s
    = (Ok (BatchContinue, True, []), s\<lparr>el_state := example_sent,
        session_store := (session_store s)\<lparr>ss_loaded := True, ss_clear_pending := False\<rparr>,
        el_world := (el_world s)\<lparr>wire_store := Some (session_store_key stored_options, nat_bits.saved_session stored_options [] example_sent),
          wire_out := wire_out (el_world s) @ Packet_wire (PktPublish example_publish)\<rparr>\<rparr>)"
  using assms
  by (auto simp: handle_request_def plain_def from_parts_with_replay_def handle_protocol_request_def andThen_def run_simps instant_now_def wire_ops_def
     state_call_def on_state_def example_sent_run map_err_def persist_session_or_fail_qos0_notices_def attempt_def save_persisted_session_def
     persisted_session_save_def stored_options_simps replay_requests_def nat_bits.run_persisted [OF example_sent_inv] on_world_def from_result_def
     mark_store_def Network_write_request_def wire_feed_def example_publish_bytes)

lemma example_flushed:
  assumes "el_network s \<noteq> None"
  shows "flush_request_batch (wire_ops example_codec) True [] s = (Ok (), reset_keepalive_timeout (wire_ops example_codec) s)"
  using assms by (auto simp: flush_request_batch_def attempt_def flush_network_def andThen_def run_simps wire_ops_def on_world_def from_result_def
      map_err_def response_write_deadline_def send_notices_def on_state_def)

lemma example_no_disconnect: "\<not> is_disconnect_request (env_request (plain (ReqPublish example_publish)))"
  by (simp add: plain_def from_parts_with_replay_def)

lemma example_sent_events: "events example_sent = [EvOutgoing (OutPublish 1)]"
  by (simp add: example_sent_def)

lemma example_publishing_simps:
  "el_state example_publishing = example_sent\<lparr>events := []\<rparr>" "el_pending example_publishing = []"
  "el_queued example_publishing = OutboundScheduler_default" "el_options example_publishing = stored_options"
  "requests_rx example_publishing = channel (Some 10) False" "control_requests_rx example_publishing = channel None True"
  by (simp_all add: example_publishing_def EventLoop_poll_def andThen_def run_simps example_online_simps numeral_3_eq_3 select_turn_def pop_event_def fresh_events
     recv_immediate_def admission_channel_def try_recv_def channel_def all_request_sources_drained_def example_delivery_def Receiver_is_disconnected_def
     check_keepalive_scan_timeout_def handle_ready_requests_def next_scheduled_request_def pop_next_def next_ready_index_def OutboundScheduler_default_def
     next_ready_def requests_enabled_def normal_request_admission_allowed_def sched_is_empty_def is_request_source.simps PollSource_default_def buffered_ready_def
     recv_control_def recv_requests_def select_ready_def admit_normal_request_batch_def queue_push_def sched_push_back_def 
     attempt_def handle_network_result_def deque_remove_def Receiver_is_empty_def has_ready_def
     example_ready scheduled_def stored_options_simps example_handled example_flushed example_no_disconnect example_online_world reset_keepalive_timeout_def example_sent_events)

definition example_failed :: "(nat \<times> nat, RequestEnvelope Shared, Wire) EventLoop" where
  "example_failed = snd (EventLoop_clean nat_bitset admission_channel example_publishing :: (unit, unit) outcome \<times> _)"

lemma example_recovery_reach:
  "loop_reach nat_bitset admission_channel sh_items (wire_ops example_codec) example_publishing"
  "loop_reach nat_bitset admission_channel sh_items (wire_ops example_codec) example_failed"
proof -
  have "loop_reach nat_bitset admission_channel sh_items (wire_ops example_codec) example_online"
    unfolding example_online_def by (intro loop_reach.poll loop_reach.environment example_loop_reach)
  moreover have "client_requests (sh_items example_delivery) (sh_items (channel None True)) (sh_items (channel None True))"
    by (simp add: client_requests_def example_delivery_def channel_def plain_def from_parts_with_replay_def)
  ultimately have "loop_reach nat_bitset admission_channel sh_items (wire_ops example_codec) (example_online\<lparr>requests_rx := example_delivery,
      control_requests_rx := control_requests_rx example_online, immediate_disconnect_rx := immediate_disconnect_rx example_online\<rparr>)"
    by (intro loop_reach.clients) (simp_all add: example_online_simps)
  then have "loop_reach nat_bitset admission_channel sh_items (wire_ops example_codec) (example_online\<lparr>requests_rx := example_delivery\<rparr>)"
    by simp
  then show "loop_reach nat_bitset admission_channel sh_items (wire_ops example_codec) example_publishing"
    unfolding example_publishing_def by (rule loop_reach.poll)
  then show "loop_reach nat_bitset admission_channel sh_items (wire_ops example_codec) example_failed"
    unfolding example_failed_def by (rule loop_reach.clean)
qed

lemma example_sent_cleaned:
  "cleaned_requests (example_sent\<lparr>events := es\<rparr>)
   = [\<lparr>clean_request = ReqPublish (example_publish\<lparr>publish_dup := True\<rparr>), clean_notice = None, clean_replay = True\<rparr>]"
  by (simp add: cleaned_requests_def cleaned_publish_def cleaned_collision_def example_sent_def) (simp add: cleaned_publish_def example_simps new_notice_slots_with_len_def)

lemma example_persistable: "persistable (ReqPublish (example_publish\<lparr>publish_dup := True\<rparr>))"
  by (simp add: persistable_def example_publish_def Publish_new_def persisted_publish_def)

section \<open>Properties\<close>





text \<open>
  C37: \<open>drain_pending_as_failed\<close> gives up the waiting retransmissions and fails their notices, but keeps their packet
  identifiers: the broker no longer knows them, so whatever it sends afterwards, the identifier of a dropped publish, SUBSCRIBE or
  UNSUBSCRIBE stays in use and the loop never again counts as drained, which a graceful disconnect waits for.
\<close>

theorem drained_replay_keeps_identifier:
  assumes "event_loop B C items W" "loop_reach B C items W s"
    and "e \<in> set (waiting_requests s)" "env_replay e" "k \<in> replay_ids (env_request e)"
    and "drain_pending_as_failed reason s = (Ok n :: (unit, nat) outcome, t)"
  shows "waiting_requests t = []
    \<and> bs_contains B (outbound_pkid_in_use (fold (\<lambda>(now, packet) s. snd (handle_incoming_packet B now packet s)) packets (el_state t))) k
    \<and> \<not> outbound_requests_drained B (fold (\<lambda>(now, packet) s. snd (handle_incoming_packet B now packet s)) packets (el_state t))"
proof -
  note drained = event_loop.drained_owner [OF assms(1) event_loop.reach_loop_inv [OF assms(1,2)] assms(3-)]
  obtain Q where Q: "k \<in> Q" "state_inv B Q (el_state t)"
    using drained(2) by blast
  note run = event_loop.broker_keeps [OF assms(1) Q(2), of packets]
  show ?thesis
    using drained(1) event_loop.owner_blocks_drain [OF assms(1) run Q(1)] by simp
qed

theorem drained_replay_keeps_identifier_witness:
  "\<exists>t. drain_pending_as_failed FailSessionReset example_failed = (Ok 1 :: (unit, nat) outcome, t)
    \<and> \<not> outbound_requests_drained nat_bitset (snd (handle_incoming_packet nat_bitset 0 (PktPubAck \<lparr>puback_pkid = 1\<rparr>) (el_state t)))"
proof -
  let ?e = "\<lparr>env_request = ReqPublish (example_publish\<lparr>publish_dup := True\<rparr>), env_notice = None, env_replay = True\<rparr>"
  have failed: "el_pending example_failed = [?e]" "sched_queue (el_queued example_failed) = []"
    using wired.run_clean_loop [OF wired.reach_loop_inv [OF example_recovery_reach(1)], where 'e = unit]
    by (auto simp: example_failed_def example_publishing_simps example_sent_cleaned OutboundScheduler_default_def channel_def from_parts_with_replay_def)
  obtain t where t: "drain_pending_as_failed FailSessionReset example_failed = (Ok 1 :: (unit, nat) outcome, t)"
    by (simp add: drain_pending_as_failed_def send_notices_def on_state_def andThen_def run_simps failed sched_drain_def)
  have "?e \<in> set (waiting_requests example_failed)" "env_replay ?e" "1 \<in> replay_ids (env_request ?e)"
    by (simp_all add: failed example_publish_def)
  from drained_replay_keeps_identifier [OF wired.event_loop_axioms example_recovery_reach(2) this t, of "[(0, PktPubAck \<lparr>puback_pkid = 1\<rparr>)]"]
  show ?thesis
    using t by auto
qed

end
