(* ===== verification/Spec2Isabelle.thy ===== *)
theory Spec2Isabelle
  imports V4_Codec V4_State_Receive V4_Ordered V4_EventLoop_Fair V4_EventLoop_Recovery
begin

text \<open>
  \<^bold>\<open>Verification of the rumqtt MQTT 3.1.1 client.\<close>

  The development models the MQTT 3.1.1 side of the repository, from the bytes on the wire to the
  polling of the event loop, and proves what makes each part correct.

  \<^bold>\<open>The program and how its parts interact.\<close> An application holds a client handle, which puts
  requests into channels (\<open>rumqttc-core/src/admission.rs\<close>, or the crate \<open>flume\<close>). The event loop
  (\<open>rumqttc-v4/src/eventloop.rs\<close>) is polled by the application: it takes requests from the channels
  into the outbound queue (\<open>rumqttc-core/src/scheduler.rs\<close>), hands them to the protocol state
  (\<open>rumqttc-v4/src/state.rs\<close>), which assigns packet identifiers and keeps what is not yet
  acknowledged, and writes the packets through the codec (\<open>mqttbytes-v4\<close>, on top of
  \<open>mqttbytes-core\<close>). Packets of the broker take the way back: decoded, handled by the state,
  delivered as events. A notice (\<open>notice.rs\<close>) tells the caller of a request how it ended. When a
  connection ends, the tracked requests leave the state and wait in the loop for their
  retransmission; a session store keeps a checkpoint of them (\<open>session.rs\<close>), from which the next
  process restores the state.

  \<^bold>\<open>Conventions.\<close> A Rust call ends with \<open>Ok\<close>, with \<open>Err\<close> or in a panic (\<open>outcome\<close>); a method on
  \<open>&mut self\<close> is a computation \<open>('s, 'e, 'a) sm\<close> that returns an outcome together with the state at that
  point. Every index, subtraction, \<open>expect\<close> and buffer access that can panic does so in the model.
  Integers of the sources are words of their width where they can wrap and natural numbers where
  the sources check them. A Rust string is its UTF-8 bytes; a duration is in microseconds. Three
  things are arguments of the definitions because their code is not in the repository: the bit set
  of the crate \<open>fixedbitset\<close> (\<open>B\<close>, locale \<open>fixed_bitset\<close>), the request channels (\<open>C\<close>, locale
  \<open>request_channel\<close>) and the environment of the loop (\<open>W\<close>: sockets, framing, clock, session store;
  locale \<open>event_loop\<close>). Each locale is interpreted: the bit set on a natural number read in binary, the channels on
  the model of \<open>admission.rs\<close>, the environment on byte streams framed by the modelled codec.

  \<^bold>\<open>Theories.\<close>
  \<^item> \<open>Prelude\<close>: outcomes, the state monad and its weakest preconditions (\<open>wp\<close>), checked arithmetic, vectors.
    \<open>Utf8\<close>: the validation of \<open>core::str::from_utf8\<close>. \<open>Collections\<close>: \<open>BTreeMap\<close>, \<open>VecDeque\<close>, the bit set.
  \<^item> \<open>Primitives\<close> (\<open>mqttbytes-core/src/primitives.rs\<close>, \<open>qos.rs\<close>, \<open>ping.rs\<close>): remaining length, strings, fixed
    header. The remaining length round-trips, is bounded, and never panics.
  \<^item> \<open>Topic\<close> (\<open>mqttbytes-core/src/topic.rs\<close>): validity of topics and filters, and matching, which agrees with a
    level-wise specification and is transitive along coverage.
  \<^item> \<open>V4_Base\<close>, \<open>V4_Acks\<close>, \<open>V4_Publish\<close>, \<open>V4_Subscribe\<close>, \<open>V4_Connect\<close> (\<open>mqttbytes-v4/src/lib.rs\<close> and
    \<open>v4/*.rs\<close>): one group per packet with its constructor, size, reader and writer. The locale \<open>packet_codec\<close>
    states what the packet layer needs of a packet type and is interpreted for each.
  \<^item> \<open>V4_Codec\<close> (\<open>v4/mod.rs\<close>, \<open>v4/codec.rs\<close>): dispatch, size limits, the tokio codec. Written packets read back,
    reading is incremental, total and consumes one frame, writing is atomic.
  \<^item> \<open>Scheduler\<close> (\<open>rumqttc-core/src/scheduler.rs\<close>): the outbound queue; the only reordering is a control
    request that overtakes publishes held back by flow control.
  \<^item> \<open>Admission\<close> (\<open>rumqttc-core/src/admission.rs\<close>) and \<open>V4_Ordered\<close> (\<open>rumqttc-v4/src/disconnect.rs\<close>): lanes, gate
    and fence; \<open>adm_step\<close> interleaves the critical sections of clients and loop, and its invariant
    shows that nothing is admitted behind an ordered disconnect.
  \<^item> \<open>V4_Notice\<close> (\<open>notice.rs\<close>): a notice is an identifier, and the log of the values sent on it is part of the state.
  \<^item> \<open>V4_State\<close> (\<open>state.rs\<close>): the record \<open>MqttState\<close> and every operation on it. \<open>V4_State_Ids\<close>: the block-wise
    scan for a free identifier agrees with a search one by one. \<open>V4_State_Inv\<close>: the invariant \<open>state_inv B Q\<close>,
    where \<open>Q\<close> are the identifiers owned by requests outside the state; the elementary changes that
    keep it. \<open>V4_State_Run\<close>, \<open>V4_State_Clean\<close>, \<open>V4_State_Reset\<close>: the result of every handler in terms
    of these changes. \<open>V4_State_Props\<close>: the states the public operations reach (\<open>state_reach\<close>), the
    invariant and the absence of panics in them. \<open>V4_State_Flow\<close>: the acknowledgement handlers refine a
    protocol table on the abstract use of each identifier, and a cooperating broker can drain every
    state. \<open>V4_State_Receive\<close>: QoS 2 publishes are delivered once.
  \<^item> \<open>Session_IO\<close>, \<open>V4_Session\<close> (\<open>session.rs\<close>): the checkpoint format; the locale \<open>field_codec\<close> is the contract of
    one field. Decoding is the exact inverse of encoding, under memory and size limits.
  \<^item> \<open>V4_Options\<close> (\<open>lib.rs\<close>, \<open>transport.rs\<close>): options, validation, options from a URL. \<open>V4_Persist\<close>: saving the
    state into a checkpoint and restoring it, all or nothing.
  \<^item> \<open>V4_EventLoop\<close> (\<open>eventloop.rs\<close>, \<open>framed.rs\<close>): the record \<open>EventLoop\<close>, connecting, session
    reconciliation, the session store, request batches, network reads, keep-alive, graceful and immediate
    disconnects, \<open>poll\<close> and \<open>select\<close>. \<open>V4_EventLoop_Inv\<close>: triples \<open>hoare\<close> and the invariant of every handler: the
    waiting retransmissions are the owners outside the state that \<open>state_inv\<close> speaks of.
    \<open>V4_EventLoop_Term\<close>: the loop of \<open>select\<close> ends, by the measure \<open>turns\<close>. \<open>V4_EventLoop_Props\<close>: the runs
    \<open>loop_reach\<close> of a loop, in which polls alternate with whatever clients and environment do; in all of them the
    invariant holds, polls return, and a graceful disconnect waits for what is outstanding.
    \<open>V4_EventLoop_Fair\<close>: the arbitration passes a ready frame over a bounded number of times.
    \<open>V4_EventLoop_Recovery\<close>: what a lost connection and a crash leave of the requests, and the packet identifiers
    that \<open>drain_pending_as_failed\<close> leaves behind.

  \<^bold>\<open>Fuel and bounds.\<close> \<open>select\<close> loops until an event, an error or the need to wait. Its model takes a
  number of turns, and \<open>None\<close> says that they were used up; \<open>V4_EventLoop_Props\<close> shows that four times the number
  of waiting and unreceived requests plus twice the length of the outbound queue, plus two, are always enough
  and that more change nothing. \<open>readb_loop\<close>, \<open>scan_ready_packets\<close>,
  \<open>request_batch\<close>, \<open>admit_existing\<close> and \<open>admit_batch\<close> recurse on the bound the source gives its loops. In
  \<open>loop_reach\<close> the application calls \<open>reset_session_state\<close> only while no connection is open: on a connected loop it
  forgets the key of the store, and the invariant does not hold afterwards.

  \<^bold>\<open>Not modelled.\<close> The MQTT 5 codec and client (\<open>mqttbytes-v5\<close>, \<open>rumqttc-v5\<close>), which mirror the MQTT 3.1.1
  ones with properties and reason codes; the client handles (\<open>client.rs\<close>), which build requests and wait on
  channels; the event loop's branches for the features \<open>ordered-shutdown\<close>, \<open>session-recovery\<close> and
  \<open>tracing\<close>, which are off by default; sockets, TLS, proxies and websockets, which are input and output; the
  file session store, which is file-system code; the wake-up of waiting tasks, since a task that is woken
  repeats its critical section; cancellation of a poll between two awaits; the native wrappers, benchmarks and audits.
\<close>

end
